(* ===== verification/Blk_Prelude.thy ===== *)
theory Blk_Prelude
  imports Main "HOL-Library.Word" "HOL-Library.Monad_Syntax" "HOL-Library.Multiset"
begin

text \<open>
  What the theories of this development share: the machine integer types of the C code, the
  reading of a kernel call as a partial function on the state, and the generic lemmas on lists.

  A call that can stop the kernel (a \<open>BUG_ON\<close> that fires, a lock that is taken twice, a loop that
  never ends) has a result of type \<open>'a option\<close>; \<open>None\<close> means that control never comes back to the
  caller. Calls are sequenced in the option monad, so a stop in a callee is a stop in the caller.
\<close>

unbundle bit_operations_syntax


section \<open>Machine integers\<close>

type_synonym u8 = "8 word"
type_synonym u16 = "16 word"
type_synonym u32 = "32 word"
type_synonym u64 = "64 word"

text \<open>\<open>sector_t\<close> and \<open>unsigned long\<close> have 64 bits; \<open>long\<close> is a 64-bit word read with \<^term>\<open>sint\<close>.\<close>

type_synonym sector_t = u64

text \<open>The conversion of a 64-bit value to \<open>int\<close>: the low 32 bits, read as two's complement.\<close>

definition to_int :: "u64 \<Rightarrow> int" where
  "to_int w = sint (ucast w :: u32)"

text \<open>The usual conversion of an \<open>int\<close> operand to \<open>unsigned long\<close>.\<close>

definition of_c_int :: "int \<Rightarrow> u64" where
  "of_c_int i = word_of_int i"

lemma sint_small32:
  fixes w :: u32
  assumes "unat w < 2 ^ 31"
  shows "sint w = int (unat w)"
proof -
  have "uint w < 2 ^ 31"
    using assms by (metis of_nat_less_iff of_nat_numeral of_nat_power uint_nat)
  then show ?thesis
    by (simp add: sint_uint signed_take_bit_int_eq_self order_trans [OF _ uint_ge_0])
qed

lemma to_int_small: "unat w < 2 ^ 31 \<Longrightarrow> to_int w = int (unat w)"
proof -
  assume a: "unat w < 2 ^ 31"
  have "int (unat w) < int (2 ^ 31)"
    using a by (simp only: of_nat_less_iff)
  then have l: "uint w < 2 ^ 31" by simp
  then have "uint (ucast w :: u32) = uint w"
    by (simp add: unsigned_ucast_eq take_bit_int_eq_self)
  moreover have "sint (ucast w :: u32) = signed_take_bit 31 (uint (ucast w :: u32))"
    by (simp add: sint_uint)
  moreover have "signed_take_bit 31 (uint w) = uint w"
    using l by (intro signed_take_bit_int_eq_self) (simp_all add: order_trans [OF _ uint_ge_0])
  ultimately show ?thesis by (simp add: to_int_def)
qed

text \<open>Division of C: the quotient is rounded towards zero.\<close>

definition c_div :: "int \<Rightarrow> int \<Rightarrow> int" where
  "c_div a b = sgn a * sgn b * (\<bar>a\<bar> div \<bar>b\<bar>)"

section \<open>Calls that may not return\<close>

text \<open>\<open>BUG_ON(c)\<close> and \<open>BUG()\<close> of the kernel.\<close>

definition bug_on :: "bool \<Rightarrow> unit option" where
  "bug_on c = (if c then None else Some ())"

lemma bug_on_simps [simp]:
  "bug_on True = None" "bug_on False = Some ()"
  by (simp_all add: bug_on_def)

lemma bug_on_eq_Some [simp]: "bug_on c = Some u \<longleftrightarrow> \<not> c"
  by (simp add: bug_on_def)

lemma bug_on_eq_None [simp]: "bug_on c = None \<longleftrightarrow> c"
  by (simp add: bug_on_def)

lemma bind_eq_SomeE:
  assumes "Option.bind m f = Some y"
  obtains x where "m = Some x" and "f x = Some y"
  using assms by (auto simp: Option.bind_eq_Some_conv)

section \<open>Lists\<close>

text \<open>
  The two insertion loops of the schedulers. Both walk a circular list until a test holds at some
  element, and then call \<open>list_add\<close> with the place reached, which inserts after it; when the
  walk reaches the list head, the insertion is at the front.
\<close>

definition add_after_first :: "('a \<Rightarrow> bool) \<Rightarrow> 'a \<Rightarrow> 'a list \<Rightarrow> 'a list" where
  "add_after_first P x xs =
     (case dropWhile (\<lambda>y. \<not> P y) xs of
        [] \<Rightarrow> x # xs
      | y # ys \<Rightarrow> takeWhile (\<lambda>z. \<not> P z) xs @ y # x # ys)"

definition add_after_last :: "('a \<Rightarrow> bool) \<Rightarrow> 'a \<Rightarrow> 'a list \<Rightarrow> 'a list" where
  "add_after_last P x xs =
     rev (dropWhile (\<lambda>y. \<not> P y) (rev xs)) @ x # rev (takeWhile (\<lambda>y. \<not> P y) (rev xs))"

lemma mset_add_after_first [simp]: "mset (add_after_first P x xs) = add_mset x (mset xs)"
proof -
  have "mset xs = mset (takeWhile (\<lambda>z. \<not> P z) xs @ dropWhile (\<lambda>z. \<not> P z) xs)"
    by simp
  then show ?thesis
    by (cases "dropWhile (\<lambda>y. \<not> P y) xs") (simp_all only: add_after_first_def, simp_all)
qed

lemma mset_add_after_last [simp]: "mset (add_after_last P x xs) = add_mset x (mset xs)"
proof -
  have "mset (rev xs) = mset (takeWhile (\<lambda>z. \<not> P z) (rev xs)) + mset (dropWhile (\<lambda>z. \<not> P z) (rev xs))"
    by (metis mset_append takeWhile_dropWhile_id)
  then show ?thesis
    by (simp add: add_after_last_def)
qed

lemma set_add_after_first [simp]: "set (add_after_first P x xs) = insert x (set xs)"
  by (metis mset_add_after_first set_mset_add_mset_insert set_mset_mset)

lemma set_add_after_last [simp]: "set (add_after_last P x xs) = insert x (set xs)"
  by (metis mset_add_after_last set_mset_add_mset_insert set_mset_mset)

lemma distinct_add_after_first [simp]:
  "distinct (add_after_first P x xs) \<longleftrightarrow> x \<notin> set xs \<and> distinct xs"
  by (metis mset_add_after_first mset.simps(2) distinct.simps(2) mset_eq_imp_distinct_iff)

lemma distinct_add_after_last [simp]:
  "distinct (add_after_last P x xs) \<longleftrightarrow> x \<notin> set xs \<and> distinct xs"
  by (metis mset_add_after_last mset.simps(2) distinct.simps(2) mset_eq_imp_distinct_iff)

lemma length_add_after_first [simp]: "length (add_after_first P x xs) = Suc (length xs)"
  by (metis mset_add_after_first size_add_mset size_mset)

text \<open>
  The head after an insertion: the new element where no element passes the test, and the old
  head everywhere else.
\<close>

lemma hd_add_after_first:
  "hd (add_after_first P x xs) = (if \<exists>y \<in> set xs. P y then hd xs else x)"
proof (cases "\<exists>y \<in> set xs. P y")
  case True
  then obtain y ys where d: "dropWhile (\<lambda>y. \<not> P y) xs = y # ys"
    by (metis (mono_tags, lifting) dropWhile_eq_Nil_conv list.exhaust)
  have "hd xs = hd (takeWhile (\<lambda>z. \<not> P z) xs @ y # ys)"
    by (metis d takeWhile_dropWhile_id)
  then have "hd xs = hd (takeWhile (\<lambda>z. \<not> P z) xs @ y # x # ys)"
    by (cases "takeWhile (\<lambda>z. \<not> P z) xs") simp_all
  with True d show ?thesis by (simp add: add_after_first_def)
next
  case False
  then have "dropWhile (\<lambda>y. \<not> P y) xs = []" by simp
  then have "add_after_first P x xs = x # xs" by (simp only: add_after_first_def list.case)
  with False show ?thesis by simp
qed

lemma add_after_first_not_Nil [simp]: "add_after_first P x xs \<noteq> []"
  by (simp add: add_after_first_def split: list.split)

end
