(* ===== verification/Blk_Types.thy ===== *)
theory Blk_Types
  imports Blk_Prelude
begin

text \<open>
  The data of the block layer: the structures of \<open>src/scheduler/kernel/blkdev.h\<close> and
  \<open>src/scheduler/kernel/blk.h\<close>, and the state of the kernel as far as the modelled code touches it.

  Pointers are natural numbers into the stores of \<open>kst\<close>; a pointer that may be \<open>NULL\<close> is
  an \<open>option\<close>. A function pointer is a number too: the record \<open>kenv\<close> below says what the code
  behind it does, so every function that is not under \<open>src/\<close> is a parameter of the model.
  A record field keeps the name of the structure's field, with a prefix where the name is taken.
\<close>

section \<open>Pointers\<close>

type_synonym rid = nat      \<comment> \<open>\<open>struct request *\<close>\<close>
type_synonym bid = nat      \<comment> \<open>\<open>struct bio *\<close>\<close>
type_synonym qid = nat      \<comment> \<open>\<open>struct request_queue *\<close>\<close>
type_synonym eqid = nat     \<comment> \<open>\<open>struct elevator_queue *\<close>\<close>
type_synonym gdid = nat     \<comment> \<open>\<open>struct greedy_data *\<close>\<close>
type_synonym etid = nat     \<comment> \<open>\<open>struct elevator_type *\<close>\<close>
type_synonym partid = nat   \<comment> \<open>\<open>struct hd_struct *\<close>\<close>
type_synonym diskid = nat   \<comment> \<open>\<open>struct gendisk *\<close>\<close>
type_synonym bdevid = nat   \<comment> \<open>\<open>struct block_device *\<close>\<close>
type_synonym iocid = nat    \<comment> \<open>\<open>struct io_context *\<close>\<close>
type_synonym icqid = nat    \<comment> \<open>\<open>struct io_cq *\<close>\<close>
type_synonym plugid = nat   \<comment> \<open>\<open>struct blk_plug *\<close>\<close>
type_synonym code = nat     \<comment> \<open>a function pointer\<close>

text \<open>A request list belongs to a queue (\<open>q->root_rl\<close>) or to a block cgroup.\<close>

datatype rlid = RootRl qid | BlkgRl nat

text \<open>
  The lists a request can be linked on through \<open>rq->queuelist\<close>: the dispatch queue, the two lists
  of the greedy scheduler, the two lists of a plug, a flush queue, and the local list of
  \<open>blk_flush_plug_list\<close>.
\<close>

datatype lid = QHead qid | GHigher gdid | GLower gdid | PlugList plugid | PlugMq plugid
  | FlushQ qid bool | LocalList

text \<open>
  \<open>q->queue_lock\<close> is a pointer: to the lock inside the queue, or to a lock of the driver.
\<close>

datatype lockid = OwnLock qid | DrvLock nat | ElvListLock | SysfsMutex qid | EqSysfsMutex eqid

section \<open>Flags\<close>

text \<open>
  The flags of a request and of a bio (\<open>REQ_*\<close>) are bits of one word. Their positions are defined
  outside \<open>src/\<close>, and the code only sets, clears and tests them, so a flag word is the set of its
  bits. \<open>REQ_OTHER\<close> stands for the bits this code never names.
\<close>

datatype rq_flag =
    REQ_WRITE | REQ_FAILFAST_DEV | REQ_FAILFAST_TRANSPORT | REQ_FAILFAST_DRIVER | REQ_SYNC
  | REQ_DISCARD | REQ_SECURE | REQ_WRITE_SAME | REQ_INTEGRITY | REQ_FUA | REQ_FLUSH | REQ_RAHEAD
  | REQ_SORTED | REQ_SOFTBARRIER | REQ_NOMERGE | REQ_STARTED | REQ_DONTPREP | REQ_QUEUED
  | REQ_ELVPRIV | REQ_QUIET | REQ_ALLOCED | REQ_FLUSH_SEQ | REQ_IO_STAT | REQ_MIXED_MERGE
  | REQ_PM | REQ_HASHED | REQ_OTHER nat

type_synonym rq_flags = "rq_flag set"

text \<open>The queue flags: names for bit positions of \<open>q->queue_flags\<close>.\<close>

datatype queue_flag =
    QUEUE_FLAG_QUEUED | QUEUE_FLAG_STOPPED | QUEUE_FLAG_SYNCFULL | QUEUE_FLAG_ASYNCFULL
  | QUEUE_FLAG_DYING | QUEUE_FLAG_BYPASS | QUEUE_FLAG_BIDI | QUEUE_FLAG_NOMERGES
  | QUEUE_FLAG_SAME_COMP | QUEUE_FLAG_FAIL_IO | QUEUE_FLAG_STACKABLE | QUEUE_FLAG_NONROT
  | QUEUE_FLAG_IO_STAT | QUEUE_FLAG_DISCARD | QUEUE_FLAG_NOXMERGES | QUEUE_FLAG_ADD_RANDOM
  | QUEUE_FLAG_SECDISCARD | QUEUE_FLAG_SAME_FORCE | QUEUE_FLAG_DEAD | QUEUE_FLAG_INIT_DONE
  | QUEUE_FLAG_NO_SG_MERGE

fun qbit :: "queue_flag \<Rightarrow> nat" where
  "qbit QUEUE_FLAG_QUEUED = 1"
| "qbit QUEUE_FLAG_STOPPED = 2"
| "qbit QUEUE_FLAG_SYNCFULL = 3"
| "qbit QUEUE_FLAG_ASYNCFULL = 4"
| "qbit QUEUE_FLAG_DYING = 5"
| "qbit QUEUE_FLAG_BYPASS = 6"
| "qbit QUEUE_FLAG_BIDI = 7"
| "qbit QUEUE_FLAG_NOMERGES = 8"
| "qbit QUEUE_FLAG_SAME_COMP = 9"
| "qbit QUEUE_FLAG_FAIL_IO = 10"
| "qbit QUEUE_FLAG_STACKABLE = 11"
| "qbit QUEUE_FLAG_NONROT = 12"
| "qbit QUEUE_FLAG_IO_STAT = 13"
| "qbit QUEUE_FLAG_DISCARD = 14"
| "qbit QUEUE_FLAG_NOXMERGES = 15"
| "qbit QUEUE_FLAG_ADD_RANDOM = 16"
| "qbit QUEUE_FLAG_SECDISCARD = 17"
| "qbit QUEUE_FLAG_SAME_FORCE = 18"
| "qbit QUEUE_FLAG_DEAD = 19"
| "qbit QUEUE_FLAG_INIT_DONE = 20"
| "qbit QUEUE_FLAG_NO_SG_MERGE = 21"

definition QUEUE_FLAG_DEFAULT :: u64 where
  "QUEUE_FLAG_DEFAULT =
     push_bit (qbit QUEUE_FLAG_IO_STAT) 1 OR push_bit (qbit QUEUE_FLAG_STACKABLE) 1 OR
     push_bit (qbit QUEUE_FLAG_SAME_COMP) 1 OR push_bit (qbit QUEUE_FLAG_ADD_RANDOM) 1"

definition QUEUE_FLAG_MQ_DEFAULT :: u64 where
  "QUEUE_FLAG_MQ_DEFAULT =
     push_bit (qbit QUEUE_FLAG_IO_STAT) 1 OR push_bit (qbit QUEUE_FLAG_STACKABLE) 1 OR
     push_bit (qbit QUEUE_FLAG_SAME_COMP) 1"

lemma qbit_less: "qbit f < 64"
  by (cases f) simp_all

lemma qbit_eq_iff [simp]: "qbit f = qbit g \<longleftrightarrow> f = g"
  by (cases f; cases g) simp_all

lemma bit_set_qbit [simp]:
  "bit (set_bit (qbit f) (w :: u64)) (qbit g) \<longleftrightarrow> f = g \<or> bit w (qbit g)"
  using qbit_less [of g] by (auto simp: bit_set_bit_iff)

lemma bit_unset_qbit [simp]:
  "bit (unset_bit (qbit f) (w :: u64)) (qbit g) \<longleftrightarrow> f \<noteq> g \<and> bit w (qbit g)"
  by (auto simp: bit_unset_bit_iff)

text \<open>The command types, with the values of \<open>enum rq_cmd_type_bits\<close>.\<close>

definition REQ_TYPE_FS :: u32 where "REQ_TYPE_FS = 1"
definition REQ_TYPE_BLOCK_PC :: u32 where "REQ_TYPE_BLOCK_PC = 2"
definition REQ_TYPE_DRV_PRIV :: u32 where "REQ_TYPE_DRV_PRIV = 3"

lemma cmd_type_neq [simp]:
  "REQ_TYPE_FS \<noteq> REQ_TYPE_BLOCK_PC" "REQ_TYPE_BLOCK_PC \<noteq> REQ_TYPE_FS" "REQ_TYPE_FS \<noteq> 0"
  by (simp_all add: REQ_TYPE_FS_def REQ_TYPE_BLOCK_PC_def)

datatype rpm_state = RPM_ACTIVE | RPM_RESUMING | RPM_SUSPENDED | RPM_SUSPENDING

text \<open>The answers of the merge functions and of an elevator asked whether a request may be queued.\<close>

datatype elv_merge_ret = ELEVATOR_NO_MERGE | ELEVATOR_FRONT_MERGE | ELEVATOR_BACK_MERGE

datatype elv_insert =
    ELEVATOR_INSERT_FRONT | ELEVATOR_INSERT_BACK | ELEVATOR_INSERT_SORT
  | ELEVATOR_INSERT_REQUEUE | ELEVATOR_INSERT_FLUSH | ELEVATOR_INSERT_SORT_MERGE
  | ELEVATOR_INSERT_BAD int

datatype elv_mqueue = ELV_MQUEUE_MAY | ELV_MQUEUE_NO | ELV_MQUEUE_MUST

datatype prep_ret = BLKPREP_OK | BLKPREP_KILL | BLKPREP_DEFER | BLKPREP_BAD int

text \<open>Error numbers; a call returns them negated.\<close>

datatype errno = EIO | ENXIO | ENOMEM | EBUSY | ENODEV | EINVAL | ENOSYS | EOPNOTSUPP | ENOENT
  | EERRNO nat

section \<open>Structures\<close>

record timespec =
  tv_sec :: u64
  tv_nsec :: u64

text \<open>One measured request (\<open>struct req_stuff\<close>), and the capacity of the table of them.\<close>

record req_stuff =
  rs_pid :: int
  rs_arrival :: timespec
  rs_serv_start :: timespec
  rs_end :: timespec

definition REQS_RECORDED :: nat where "REQS_RECORDED = 19500"

text \<open>
  The fields of \<open>struct bio\<close> the code uses. \<open>bi_iter\<close> is flattened, and of the vector of pages only
  the first entry (page, offset, length) is kept.
\<close>

record bio =
  bi_next :: "bid option"
  bi_bdev :: "bdevid option"
  bi_rw :: rq_flags
  bi_error :: "errno option"
  bi_quiet :: bool
  bi_sector :: sector_t
  bi_size :: u32
  bi_phys_segments :: u32
  bi_vcnt :: u16
  bi_io_vec :: "(nat \<times> u32 \<times> u32) list"   \<comment> \<open>page, offset and length\<close>
  bi_ioc :: "iocid option"
  bi_prio :: u16

record request_list =
  rl_q :: qid
  count :: "bool \<Rightarrow> int"
  starved :: "bool \<Rightarrow> bool"
  rq_pool :: bool
  rl_flags :: u32

record request =
  queuelist :: "lid option"
  rq_q :: "qid option"
  cmd_flags :: rq_flags
  cmd_type :: u32
  atom_complete :: bool
  cpu :: int
  data_len :: u32
  rq_sector :: sector_t
  rq_bio :: "bid option"
  biotail :: "bid option"
  hash_node :: "(eqid \<times> nat) option"
  elv_icq :: "icqid option"
  rq_disk :: "diskid option"
  rq_part :: "partid option"
  start_time :: u64
  rq_rl :: "rlid option"
  nr_phys_segments :: u16
  ioprio :: u16
  tag :: int
  errors :: int
  cmd_bytes :: "u8 list"
  cmd_len :: u16
  extra_len :: u32
  resid_len :: u32
  end_io :: "code option"
  next_rq :: "rid option"
  start_wait :: timespec
  start_service :: timespec

record queue_limits =
  bounce_pfn :: u64
  seg_boundary_mask :: u64
  virt_boundary_mask :: u64
  max_hw_sectors :: u32
  chunk_sectors :: u32
  max_sectors :: u32
  max_segment_size :: u32
  physical_block_size :: u32
  alignment_offset :: u32
  io_min :: u32
  io_opt :: u32
  max_discard_sectors :: u32
  max_hw_discard_sectors :: u32
  max_write_same_sectors :: u32
  discard_granularity :: u32
  discard_alignment :: u32
  logical_block_size :: u16
  max_segments :: u16
  misaligned :: bool
  discard_misaligned :: bool
  cluster :: bool
  discard_zeroes_data :: u8

record blk_flush_queue =
  flush_queue_delayed :: bool
  flush_pending_idx :: bool
  flush_running_idx :: bool

record request_queue =
  last_merge :: "rid option"
  elevator :: "eqid option"
  nr_rqs :: "bool \<Rightarrow> int"
  nr_rqs_elvpriv :: int
  request_fn :: "code option"
  make_request_fn :: "code option"
  prep_rq_fn :: "code option"
  unprep_rq_fn :: "code option"
  lld_busy_fn :: "code option"
  mq_ops :: bool
  end_sector :: sector_t
  boundary_rq :: "rid option"
  queue_flags :: u64
  queue_lock :: lockid
  q_dev :: bool
  rpm_status :: rpm_state
  nr_pending :: u32
  nr_requests :: u64
  nr_congestion_on :: u32
  nr_congestion_off :: u32
  nr_batching :: u32
  dma_drain_size :: u32
  dma_pad_mask :: u32
  dma_alignment :: u32
  nr_sorted :: u32
  in_flight :: "bool \<Rightarrow> u32"
  request_fn_active :: u32
  limits :: queue_limits
  sg_reserved_size :: u32
  q_node :: int
  flush_flags :: rq_flags
  flush_not_queueable :: bool
  q_fq :: "blk_flush_queue option"
  bypass_depth :: int

text \<open>An elevator instance; the merge hash is an array of chains of requests.\<close>

record elevator_queue =
  eq_type :: etid
  elevator_data :: "gdid option"
  registered :: bool
  eq_hash :: "nat \<Rightarrow> rid list"
  eq_kref :: nat

record elevator_type =
  elevator_name :: string
  icq_size :: u64
  icq_align :: u64
  icq_cache :: bool
  elevator_attrs :: "string list option"

text \<open>\<open>struct greedy_data\<close>: the two lists are \<open>GHigher\<close> and \<open>GLower\<close> of \<^typ>\<open>lid\<close>.\<close>

record greedy_data =
  prev_pos :: sector_t

record io_context =
  nr_batch_requests :: int
  last_waited :: u64

text \<open>A partition and its statistics; a direction is \<^term>\<open>True\<close> for writes.\<close>

datatype part_stat = Sectors bool | Ios bool | Merges bool | Ticks bool | Time_in_queue | Io_ticks

record hd_struct =
  partno :: int
  stamp :: u64
  start_sect :: sector_t
  part_stats :: "part_stat \<Rightarrow> u64"
  part_flying :: "bool \<Rightarrow> int"
  part_ref :: int
  make_it_fail :: bool
  part_disk :: diskid
  part_alignment_offset :: u64
  part_discard_alignment :: u32

record gendisk =
  disk_queue :: "qid option"
  part0 :: partid

record block_device =
  bd_disk :: diskid
  bd_contains :: bdevid
  bd_part :: partid
  bd_size :: u64
  bd_block_size :: u32

text \<open>A callback on a plug (\<open>struct blk_plug_cb\<close>).\<close>

record blk_plug_cb =
  cb_callback :: code
  cb_data :: nat

section \<open>The state\<close>

text \<open>
  Calls out of the modelled code that change no modelled state are recorded, in order, in a trace.
\<close>

datatype q_call =
    delay_work u64 | mod_delay_work | cancel_delay_work | cancel_mq_work | del_timer_sync
  | del_laptop_timer | laptop_io_completion | bdi_unregister | kobject_put_queue
  | kobject_get_queue | synchronize_rcu
  | pm_mark_last_busy | pm_request_resume | pm_request_autosuspend
  | pm_set_autosuspend_delay int | pm_use_autosuspend
  | bdi_destroy | bioset_free | ida_remove | free_queue | free_flush_queue

datatype rl_call = wake_up bool | wake_up_all bool | clear_congested bool | set_congested bool
  | put_rl | destroy_pool

datatype rq_call = add_timer | delete_timer | add_disk_randomness

datatype elv_call = kobject_uevent bool | kobject_del | kfree_elevator | kfree_greedy
  | destroy_icq_cache

datatype bio_call = endio "errno option" | put_bio

datatype kevent =
    EvQ qid q_call
  | EvRl rlid rl_call
  | EvRq rid rq_call
  | EvElv nat elv_call
  | EvBio bid bio_call
  | EvIcq icqid bool
  | EvVm bool u32
  | EvTaskRead u32

record kst =
  rqs :: "rid \<Rightarrow> request"
  bios :: "bid \<Rightarrow> bio"
  queues :: "qid \<Rightarrow> request_queue"
  rls :: "rlid \<Rightarrow> request_list"
  linked :: "lid \<Rightarrow> rid list"
  elvqs :: "eqid \<Rightarrow> elevator_queue"
  etypes :: "etid \<Rightarrow> elevator_type"
  gds :: "gdid \<Rightarrow> greedy_data"
  iocs :: "iocid \<Rightarrow> io_context"
  parts :: "partid \<Rightarrow> hd_struct"
  disks :: "diskid \<Rightarrow> gendisk"
  bdevs :: "bdevid \<Rightarrow> block_device"
  locks :: "lockid \<Rightarrow> bool"
  plug_cbs :: "plugid \<Rightarrow> nat list"
  plug_cb :: "nat \<Rightarrow> blk_plug_cb"
  cur_plug :: "plugid option"
  cur_bio_list :: "bid list option"
  cur_ioc :: "iocid option"
  cur_pid :: int
  cur_cpu :: int
  elv_list :: "etid list"
  chosen_elevator :: string
  module_refs :: "etid \<Rightarrow> int"
  jiffies :: u64
  now_ts :: timespec
  sum_of_services :: u64
  sum_of_waits :: u64
  num_requests_seen :: u64
  stored_reqs :: "nat \<Rightarrow> req_stuff"
  requests_seen :: u32
  serv_recording :: bool
  rq_allocated :: "rid set"
  heap_next :: nat
  alloc_fails :: "nat \<Rightarrow> bool"
  elv_drain_printed :: int
  ktrace :: "kevent list"

text \<open>The stores are changed at one address at a time.\<close>

abbreviation upd_rq :: "rid \<Rightarrow> (request \<Rightarrow> request) \<Rightarrow> kst \<Rightarrow> kst" where
  "upd_rq r f \<equiv> rqs_update (\<lambda>m. m(r := f (m r)))"
abbreviation upd_bio :: "bid \<Rightarrow> (bio \<Rightarrow> bio) \<Rightarrow> kst \<Rightarrow> kst" where
  "upd_bio b f \<equiv> bios_update (\<lambda>m. m(b := f (m b)))"
abbreviation upd_q :: "qid \<Rightarrow> (request_queue \<Rightarrow> request_queue) \<Rightarrow> kst \<Rightarrow> kst" where
  "upd_q q f \<equiv> queues_update (\<lambda>m. m(q := f (m q)))"
abbreviation upd_rl :: "rlid \<Rightarrow> (request_list \<Rightarrow> request_list) \<Rightarrow> kst \<Rightarrow> kst" where
  "upd_rl l f \<equiv> rls_update (\<lambda>m. m(l := f (m l)))"
abbreviation upd_list :: "lid \<Rightarrow> (rid list \<Rightarrow> rid list) \<Rightarrow> kst \<Rightarrow> kst" where
  "upd_list l f \<equiv> linked_update (\<lambda>m. m(l := f (m l)))"
abbreviation upd_eq :: "eqid \<Rightarrow> (elevator_queue \<Rightarrow> elevator_queue) \<Rightarrow> kst \<Rightarrow> kst" where
  "upd_eq e f \<equiv> elvqs_update (\<lambda>m. m(e := f (m e)))"
abbreviation upd_gd :: "gdid \<Rightarrow> (greedy_data \<Rightarrow> greedy_data) \<Rightarrow> kst \<Rightarrow> kst" where
  "upd_gd g f \<equiv> gds_update (\<lambda>m. m(g := f (m g)))"
abbreviation upd_ioc :: "iocid \<Rightarrow> (io_context \<Rightarrow> io_context) \<Rightarrow> kst \<Rightarrow> kst" where
  "upd_ioc i f \<equiv> iocs_update (\<lambda>m. m(i := f (m i)))"
abbreviation upd_part :: "partid \<Rightarrow> (hd_struct \<Rightarrow> hd_struct) \<Rightarrow> kst \<Rightarrow> kst" where
  "upd_part p f \<equiv> parts_update (\<lambda>m. m(p := f (m p)))"
abbreviation emit :: "kevent \<Rightarrow> kst \<Rightarrow> kst" where
  "emit e \<equiv> ktrace_update (\<lambda>t. t @ [e])"
abbreviation set_flag :: "rid \<Rightarrow> rq_flag \<Rightarrow> kst \<Rightarrow> kst" where
  "set_flag r f \<equiv> upd_rq r (cmd_flags_update (\<lambda>F. insert f F))"
abbreviation clear_flag :: "rid \<Rightarrow> rq_flag \<Rightarrow> kst \<Rightarrow> kst" where
  "clear_flag r f \<equiv> upd_rq r (cmd_flags_update (\<lambda>F. F - {f}))"

end
