(* ===== verification/Blk_Env.thy ===== *)
theory Blk_Env
  imports Blk_Types
begin

text \<open>
  The parameters of the model: everything the block layer uses that is not under \<open>src/\<close>.

  \<open>kconf\<close> holds the constants, the configuration switches and the functions of other kernel
  files that compute a value; \<open>kenv\<close> extends it with the code behind function pointers and the
  functions of other kernel files that change the state. A definition of the model takes the
  parameters as its first argument; nothing is assumed about them except where a lemma says so.
\<close>

section \<open>Constants and value functions\<close>

record kconf =
  HZ :: u64
  CONFIG_PM :: bool
  CONFIG_BLK_CGROUP :: bool
  CONFIG_CGROUP_WRITEBACK :: bool
  CONFIG_FAIL_MAKE_REQUEST :: bool
  CONFIG_DEFAULT_IOSCHED :: string
  ELV_NAME_MAX :: nat
  REQ_FAILFAST_MASK :: rq_flags          \<comment> \<open>\<open>blk_types.h\<close>\<close>
  REQ_COMMON_MASK :: rq_flags
  REQ_CLONE_MASK :: rq_flags
  REQ_NOMERGE_FLAGS :: rq_flags
  rq_end_sector :: "request \<Rightarrow> sector_t"   \<comment> \<open>\<open>elevator.h\<close>\<close>
  hash_min :: "sector_t \<Rightarrow> nat"          \<comment> \<open>the bucket of a key, \<open>hashtable.h\<close>\<close>
  bio_sectors :: "bio \<Rightarrow> u32"            \<comment> \<open>\<open>bio.h\<close>\<close>
  bio_has_data :: "bio \<Rightarrow> bool"
  bio_cur_bytes :: "bio \<Rightarrow> u32"
  bio_advance :: "u32 \<Rightarrow> bio \<Rightarrow> bio"
  bio_phys_segments :: "bio \<Rightarrow> u16"
  ioprio_best :: "u16 \<Rightarrow> u16 \<Rightarrow> u16"
  timespec_sub :: "timespec \<Rightarrow> timespec \<Rightarrow> timespec"
  time_before :: "u64 \<Rightarrow> u64 \<Rightarrow> bool"
  sector_div :: "sector_t \<Rightarrow> u32 \<Rightarrow> u32"   \<comment> \<open>the remainder\<close>
  msecs_to_jiffies :: "u64 \<Rightarrow> u64"
  list_sort :: "(rid \<Rightarrow> rid \<Rightarrow> bool) \<Rightarrow> rid list \<Rightarrow> rid list"   \<comment> \<open>\<open>list_sort.c\<close>\<close>
  strstrip :: "string \<Rightarrow> string \<times> string"   \<comment> \<open>the buffer afterwards, the string returned\<close>
  blk_queue_bio_code :: code             \<comment> \<open>the address of \<open>blk_queue_bio\<close>\<close>

section \<open>The operations of an elevator\<close>

text \<open>
  \<open>struct elevator_ops\<close>: one entry per hook; a hook that may be absent is an \<open>option\<close>. The hooks
  that look for a neighbour return \<open>None\<close> where the code computes a pointer that is no request,
  and otherwise the neighbour or \<open>NULL\<close>.
\<close>

record elevator_ops =
  elevator_merge_fn :: "(qid \<Rightarrow> bid \<Rightarrow> kst \<Rightarrow> (elv_merge_ret \<times> rid option \<times> kst) option) option"
  elevator_merged_fn :: "(qid \<Rightarrow> rid \<Rightarrow> elv_merge_ret \<Rightarrow> kst \<Rightarrow> kst option) option"
  elevator_merge_req_fn :: "(qid \<Rightarrow> rid \<Rightarrow> rid \<Rightarrow> kst \<Rightarrow> kst option) option"
  elevator_allow_merge_fn :: "(qid \<Rightarrow> rid \<Rightarrow> bid \<Rightarrow> kst \<Rightarrow> bool) option"
  elevator_bio_merged_fn :: "(qid \<Rightarrow> rid \<Rightarrow> bid \<Rightarrow> kst \<Rightarrow> kst option) option"
  elevator_dispatch_fn :: "qid \<Rightarrow> bool \<Rightarrow> kst \<Rightarrow> (bool \<times> kst) option"
  elevator_add_req_fn :: "qid \<Rightarrow> rid \<Rightarrow> kst \<Rightarrow> kst option"
  elevator_activate_req_fn :: "(qid \<Rightarrow> rid \<Rightarrow> kst \<Rightarrow> kst option) option"
  elevator_deactivate_req_fn :: "(qid \<Rightarrow> rid \<Rightarrow> kst \<Rightarrow> kst option) option"
  elevator_completed_req_fn :: "(qid \<Rightarrow> rid \<Rightarrow> kst \<Rightarrow> kst option) option"
  elevator_former_req_fn :: "(qid \<Rightarrow> rid \<Rightarrow> kst \<Rightarrow> rid option option) option"
  elevator_latter_req_fn :: "(qid \<Rightarrow> rid \<Rightarrow> kst \<Rightarrow> rid option option) option"
  elevator_set_req_fn :: "(qid \<Rightarrow> rid \<Rightarrow> bid option \<Rightarrow> bool \<Rightarrow> kst \<Rightarrow> (bool \<times> kst) option) option"
  elevator_put_req_fn :: "(rid \<Rightarrow> kst \<Rightarrow> kst option) option"
  elevator_may_queue_fn :: "(qid \<Rightarrow> rq_flags \<Rightarrow> kst \<Rightarrow> elv_mqueue) option"
  elevator_init_fn :: "qid \<Rightarrow> etid \<Rightarrow> kst \<Rightarrow> (errno option \<times> kst) option"
  elevator_exit_fn :: "(eqid \<Rightarrow> kst \<Rightarrow> kst option) option"
  elevator_registered_fn :: "(qid \<Rightarrow> kst \<Rightarrow> kst option) option"

section \<open>Code that changes the state\<close>

record kenv = kconf +
  et_ops :: "etid \<Rightarrow> elevator_ops"
  call_request_fn :: "code \<Rightarrow> qid \<Rightarrow> kst \<Rightarrow> kst option"
  call_make_request_fn :: "code \<Rightarrow> qid \<Rightarrow> bid \<Rightarrow> kst \<Rightarrow> kst option"
  call_prep_rq_fn :: "code \<Rightarrow> qid \<Rightarrow> rid \<Rightarrow> kst \<Rightarrow> (prep_ret \<times> kst) option"
  call_unprep_rq_fn :: "code \<Rightarrow> qid \<Rightarrow> rid \<Rightarrow> kst \<Rightarrow> kst option"
  call_end_io :: "code \<Rightarrow> rid \<Rightarrow> errno option \<Rightarrow> kst \<Rightarrow> kst option"
  call_lld_busy_fn :: "code \<Rightarrow> qid \<Rightarrow> kst \<Rightarrow> int"
  blk_rq_merge_ok :: "rid \<Rightarrow> bid \<Rightarrow> kst \<Rightarrow> bool"          \<comment> \<open>\<open>blk-merge.c\<close>\<close>
  blk_try_merge :: "rid \<Rightarrow> bid \<Rightarrow> kst \<Rightarrow> elv_merge_ret"
  blk_attempt_req_merge :: "qid \<Rightarrow> rid \<Rightarrow> rid \<Rightarrow> kst \<Rightarrow> (bool \<times> kst) option"
  ll_back_merge_fn :: "qid \<Rightarrow> rid \<Rightarrow> bid \<Rightarrow> kst \<Rightarrow> bool \<times> kst"
  ll_front_merge_fn :: "qid \<Rightarrow> rid \<Rightarrow> bid \<Rightarrow> kst \<Rightarrow> bool \<times> kst"
  attempt_back_merge :: "qid \<Rightarrow> rid \<Rightarrow> kst \<Rightarrow> (bool \<times> kst) option"
  attempt_front_merge :: "qid \<Rightarrow> rid \<Rightarrow> kst \<Rightarrow> (bool \<times> kst) option"
  blk_rq_set_mixed_merge :: "rid \<Rightarrow> kst \<Rightarrow> kst"
  blk_recalc_rq_segments :: "rid \<Rightarrow> kst \<Rightarrow> kst"
  blk_queue_split :: "qid \<Rightarrow> bid \<Rightarrow> kst \<Rightarrow> bid \<times> kst"
  blk_queue_bounce :: "qid \<Rightarrow> bid \<Rightarrow> kst \<Rightarrow> bid \<times> kst"        \<comment> \<open>\<open>bounce.c\<close>\<close>
  bio_integrity_enabled :: "bid \<Rightarrow> kst \<Rightarrow> bool"
  bio_integrity_prep :: "bid \<Rightarrow> kst \<Rightarrow> bool \<times> kst"
  blk_queue_end_tag :: "qid \<Rightarrow> rid \<Rightarrow> kst \<Rightarrow> kst"             \<comment> \<open>\<open>blk-tag.c\<close>\<close>
  blk_insert_flush :: "rid \<Rightarrow> kst \<Rightarrow> kst option"             \<comment> \<open>\<open>blk-flush.c\<close>\<close>
  blk_mq_free_request :: "rid \<Rightarrow> kst \<Rightarrow> kst option"          \<comment> \<open>\<open>blk-mq.c\<close>\<close>
  blk_mq_insert_request :: "rid \<Rightarrow> kst \<Rightarrow> kst option"
  blk_mq_alloc_request :: "qid \<Rightarrow> bool \<Rightarrow> kst \<Rightarrow> ((errno + rid) \<times> kst) option"
  blk_mq_flush_plug_list :: "plugid \<Rightarrow> bool \<Rightarrow> kst \<Rightarrow> kst option"
  blk_mq_wake_waiters :: "qid \<Rightarrow> kst \<Rightarrow> kst"
  blk_mq_freeze_queue :: "qid \<Rightarrow> kst \<Rightarrow> kst option"
  blk_mq_free_queue :: "qid \<Rightarrow> kst \<Rightarrow> kst option"
  blkcg_drain_queue :: "qid \<Rightarrow> kst \<Rightarrow> kst"
  blk_get_rl :: "qid \<Rightarrow> bid option \<Rightarrow> kst \<Rightarrow> rlid"          \<comment> \<open>\<open>blk-cgroup.h\<close>\<close>
  blk_queue_rls :: "qid \<Rightarrow> kst \<Rightarrow> rlid list"
  blkcg_bio_issue_check :: "qid \<Rightarrow> bid \<Rightarrow> kst \<Rightarrow> bool \<times> kst"
  io_schedule :: "kst \<Rightarrow> kst"                                \<comment> \<open>what other tasks do meanwhile\<close>
  msleep :: "kst \<Rightarrow> kst"
  ioc_lookup_icq :: "iocid \<Rightarrow> qid \<Rightarrow> kst \<Rightarrow> icqid option"     \<comment> \<open>\<open>blk-ioc.c\<close>\<close>
  ioc_create_icq :: "iocid \<Rightarrow> qid \<Rightarrow> kst \<Rightarrow> icqid option \<times> kst"
  ioc_clear_queue :: "qid \<Rightarrow> kst \<Rightarrow> kst"
  create_task_io_context :: "kst \<Rightarrow> kst"
  disk_map_sector :: "diskid \<Rightarrow> sector_t \<Rightarrow> kst \<Rightarrow> partid"    \<comment> \<open>\<open>genhd.c\<close>\<close>
  hd_struct_try_get :: "partid \<Rightarrow> kst \<Rightarrow> bool \<times> kst"
  hd_struct_get :: "partid \<Rightarrow> kst \<Rightarrow> kst"
  hd_struct_put :: "partid \<Rightarrow> kst \<Rightarrow> kst"
  part_stat_add :: "part_stat \<Rightarrow> partid \<Rightarrow> u64 \<Rightarrow> kst \<Rightarrow> kst"    \<comment> \<open>\<open>genhd.h\<close>\<close>
  raw_part_stat_add :: "part_stat \<Rightarrow> partid \<Rightarrow> u64 \<Rightarrow> kst \<Rightarrow> kst"
  part_in_flight :: "partid \<Rightarrow> kst \<Rightarrow> int"
  part_inc_in_flight :: "partid \<Rightarrow> bool \<Rightarrow> kst \<Rightarrow> kst"
  part_dec_in_flight :: "partid \<Rightarrow> bool \<Rightarrow> kst \<Rightarrow> kst"
  should_fail :: "u32 \<Rightarrow> kst \<Rightarrow> bool"
  request_module :: "string \<Rightarrow> kst \<Rightarrow> kst"                   \<comment> \<open>\<open>kmod.c\<close>, \<open>module.c\<close>\<close>
  try_module_get :: "etid \<Rightarrow> kst \<Rightarrow> bool"
  kobject_add_elv :: "eqid \<Rightarrow> qid \<Rightarrow> kst \<Rightarrow> errno option"
  sysfs_create_file :: "eqid \<Rightarrow> string \<Rightarrow> kst \<Rightarrow> bool \<times> kst"    \<comment> \<open>whether it failed\<close>
  blk_queue_make_request :: "qid \<Rightarrow> code \<Rightarrow> kst \<Rightarrow> kst"         \<comment> \<open>\<open>blk-settings.c\<close>\<close>
  blk_alloc_flush_queue :: "qid \<Rightarrow> kst \<Rightarrow> blk_flush_queue option \<times> kst"
  ida_simple_get_fails :: "kst \<Rightarrow> bool"
  bioset_create_fails :: "kst \<Rightarrow> bool"
  bdi_init_fails :: "kst \<Rightarrow> bool"
  blkcg_init_queue_fails :: "qid \<Rightarrow> kst \<Rightarrow> bool"
  mempool_create_fails :: "kst \<Rightarrow> bool"
  blk_rq_append_bio :: "qid \<Rightarrow> rid \<Rightarrow> bid \<Rightarrow> kst \<Rightarrow> errno option \<times> kst"  \<comment> \<open>\<open>blk-map.c\<close>\<close>
  bio_clone_fast :: "bid \<Rightarrow> kst \<Rightarrow> bid option \<times> kst"
  call_bio_ctr :: "code \<Rightarrow> bid \<Rightarrow> bid \<Rightarrow> kst \<Rightarrow> bool \<times> kst"    \<comment> \<open>whether it failed\<close>
  call_plug_cb :: "code \<Rightarrow> nat \<Rightarrow> bool \<Rightarrow> kst \<Rightarrow> kst option"
  laptop_mode :: bool

end
