(* ===== verification/Blk_Access.thy ===== *)
theory Blk_Access
  imports Blk_Env
begin

text \<open>
  The inline functions and macros of \<open>blkdev.h\<close> and \<open>blk.h\<close> on requests, queues and request
  lists, the intrusive lists, and the spin locks. An accessor that only reads a structure takes
  the structure; an operation that changes it takes its pointer and the state.
\<close>

section \<open>Queue flags\<close>

definition queue_flag_set_unlocked :: "queue_flag \<Rightarrow> qid \<Rightarrow> kst \<Rightarrow> kst" where
  "queue_flag_set_unlocked f q = upd_q q (queue_flags_update (set_bit (qbit f)))"

definition queue_flag_clear_unlocked :: "queue_flag \<Rightarrow> qid \<Rightarrow> kst \<Rightarrow> kst" where
  "queue_flag_clear_unlocked f q = upd_q q (queue_flags_update (unset_bit (qbit f)))"

text \<open>The locked variants only add a lock-dependency assertion.\<close>

definition queue_flag_set :: "queue_flag \<Rightarrow> qid \<Rightarrow> kst \<Rightarrow> kst" where
  "queue_flag_set f q = upd_q q (queue_flags_update (set_bit (qbit f)))"

definition queue_flag_clear :: "queue_flag \<Rightarrow> qid \<Rightarrow> kst \<Rightarrow> kst" where
  "queue_flag_clear f q = upd_q q (queue_flags_update (unset_bit (qbit f)))"

definition test_qflag :: "queue_flag \<Rightarrow> request_queue \<Rightarrow> bool" where
  "test_qflag f q = bit (queue_flags q) (qbit f)"

definition queue_flag_test_and_clear :: "queue_flag \<Rightarrow> qid \<Rightarrow> kst \<Rightarrow> bool \<times> kst" where
  "queue_flag_test_and_clear f q s =
     (if test_qflag f (queues s q) then (True, queue_flag_clear_unlocked f q s) else (False, s))"

definition queue_flag_test_and_set :: "queue_flag \<Rightarrow> qid \<Rightarrow> kst \<Rightarrow> bool \<times> kst" where
  "queue_flag_test_and_set f q s =
     (if \<not> test_qflag f (queues s q) then (False, queue_flag_set_unlocked f q s) else (True, s))"

abbreviation "blk_queue_tagged \<equiv> test_qflag QUEUE_FLAG_QUEUED"
abbreviation "blk_queue_stopped \<equiv> test_qflag QUEUE_FLAG_STOPPED"
abbreviation "blk_queue_dying \<equiv> test_qflag QUEUE_FLAG_DYING"
abbreviation "blk_queue_dead \<equiv> test_qflag QUEUE_FLAG_DEAD"
abbreviation "blk_queue_bypass \<equiv> test_qflag QUEUE_FLAG_BYPASS"
abbreviation "blk_queue_init_done \<equiv> test_qflag QUEUE_FLAG_INIT_DONE"
abbreviation "blk_queue_nomerges \<equiv> test_qflag QUEUE_FLAG_NOMERGES"
abbreviation "blk_queue_noxmerges \<equiv> test_qflag QUEUE_FLAG_NOXMERGES"
abbreviation "blk_queue_nonrot \<equiv> test_qflag QUEUE_FLAG_NONROT"
abbreviation "blk_queue_io_stat \<equiv> test_qflag QUEUE_FLAG_IO_STAT"
abbreviation "blk_queue_add_random \<equiv> test_qflag QUEUE_FLAG_ADD_RANDOM"
abbreviation "blk_queue_stackable \<equiv> test_qflag QUEUE_FLAG_STACKABLE"
abbreviation "blk_queue_discard \<equiv> test_qflag QUEUE_FLAG_DISCARD"

definition blk_queue_secdiscard :: "request_queue \<Rightarrow> bool" where
  "blk_queue_secdiscard q = (blk_queue_discard q \<and> test_qflag QUEUE_FLAG_SECDISCARD q)"

definition queue_in_flight :: "request_queue \<Rightarrow> u32" where
  "queue_in_flight q = in_flight q False + in_flight q True"

definition queue_is_rq_based :: "request_queue \<Rightarrow> bool" where
  "queue_is_rq_based q = (request_fn q \<noteq> None \<or> mq_ops q)"

definition queue_flush_queueable :: "request_queue \<Rightarrow> bool" where
  "queue_flush_queueable q = (\<not> flush_not_queueable q)"

definition queue_congestion_on_threshold :: "request_queue \<Rightarrow> int" where
  "queue_congestion_on_threshold q = sint (nr_congestion_on q)"

definition queue_congestion_off_threshold :: "request_queue \<Rightarrow> int" where
  "queue_congestion_off_threshold q = sint (nr_congestion_off q)"

lemma test_qflag_upd [simp]:
  "test_qflag g (queue_flags_update (set_bit (qbit f)) q) \<longleftrightarrow> f = g \<or> test_qflag g q"
  "test_qflag g (queue_flags_update (unset_bit (qbit f)) q) \<longleftrightarrow> f \<noteq> g \<and> test_qflag g q"
  by (simp_all add: test_qflag_def)

lemma test_qflag_queue_flag_set [simp]:
  "test_qflag g (queues (queue_flag_set f q s) q') \<longleftrightarrow> (f = g \<and> q = q') \<or> test_qflag g (queues s q')"
  by (auto simp: queue_flag_set_def)

lemma test_qflag_queue_flag_clear [simp]:
  "test_qflag g (queues (queue_flag_clear f q s) q') \<longleftrightarrow>
     \<not> (f = g \<and> q = q') \<and> test_qflag g (queues s q')"
  by (auto simp: queue_flag_clear_def)

section \<open>Requests\<close>

definition req_get_ioprio :: "request \<Rightarrow> u16" where
  "req_get_ioprio rq = ioprio rq"

definition blk_rq_pos :: "request \<Rightarrow> sector_t" where
  "blk_rq_pos rq = rq_sector rq"

definition blk_rq_bytes :: "request \<Rightarrow> u32" where
  "blk_rq_bytes rq = data_len rq"

definition blk_rq_cur_bytes :: "'a kconf_scheme \<Rightarrow> kst \<Rightarrow> request \<Rightarrow> u32" where
  "blk_rq_cur_bytes E s rq = (case rq_bio rq of None \<Rightarrow> 0 | Some b \<Rightarrow> bio_cur_bytes E (bios s b))"

definition blk_rq_sectors :: "request \<Rightarrow> u32" where
  "blk_rq_sectors rq = drop_bit 9 (blk_rq_bytes rq)"

definition blk_rq_cur_sectors :: "'a kconf_scheme \<Rightarrow> kst \<Rightarrow> request \<Rightarrow> u32" where
  "blk_rq_cur_sectors E s rq = signed_drop_bit 9 (blk_rq_cur_bytes E s rq)"

definition blk_account_rq :: "request \<Rightarrow> bool" where
  "blk_account_rq rq = (REQ_STARTED \<in> cmd_flags rq \<and> cmd_type rq = REQ_TYPE_FS)"

definition blk_noretry_request :: "request \<Rightarrow> bool" where
  "blk_noretry_request rq =
     (cmd_flags rq \<inter> {REQ_FAILFAST_DEV, REQ_FAILFAST_TRANSPORT, REQ_FAILFAST_DRIVER} \<noteq> {})"

definition blk_rq_cpu_valid :: "request \<Rightarrow> bool" where
  "blk_rq_cpu_valid rq = (cpu rq \<noteq> -1)"

definition blk_bidi_rq :: "request \<Rightarrow> bool" where
  "blk_bidi_rq rq = (next_rq rq \<noteq> None)"

definition blk_queued_rq :: "request \<Rightarrow> bool" where
  "blk_queued_rq rq = (queuelist rq \<noteq> None)"

text \<open>Bit 0 of the flags, the transfer direction: \<^term>\<open>True\<close> for a write.\<close>

definition rq_data_dir :: "request \<Rightarrow> bool" where
  "rq_data_dir rq = (REQ_WRITE \<in> cmd_flags rq)"

definition rw_is_sync :: "rq_flags \<Rightarrow> bool" where
  "rw_is_sync f = (REQ_WRITE \<notin> f \<or> REQ_SYNC \<in> f)"

definition rq_is_sync :: "request \<Rightarrow> bool" where
  "rq_is_sync rq = rw_is_sync (cmd_flags rq)"

definition rq_mergeable :: "'a kconf_scheme \<Rightarrow> request \<Rightarrow> bool" where
  "rq_mergeable E rq =
     (if cmd_type rq \<noteq> REQ_TYPE_FS then False
      else if cmd_flags rq \<inter> REQ_NOMERGE_FLAGS E \<noteq> {} then False
      else True)"

definition blk_check_merge_flags :: "rq_flags \<Rightarrow> rq_flags \<Rightarrow> bool" where
  "blk_check_merge_flags f1 f2 =
     (if (REQ_DISCARD \<in> f1) \<noteq> (REQ_DISCARD \<in> f2) then False
      else if (REQ_SECURE \<in> f1) \<noteq> (REQ_SECURE \<in> f2) then False
      else if (REQ_WRITE_SAME \<in> f1) \<noteq> (REQ_WRITE_SAME \<in> f2) then False
      else True)"

definition ELV_ON_HASH :: "request \<Rightarrow> bool" where
  "ELV_ON_HASH rq = (REQ_HASHED \<in> cmd_flags rq)"

text \<open>Whether a request contributes to the statistics of its disk.\<close>

definition blk_do_io_stat :: "request \<Rightarrow> bool" where
  "blk_do_io_stat rq =
     (rq_disk rq \<noteq> None \<and> REQ_IO_STAT \<in> cmd_flags rq \<and> cmd_type rq = REQ_TYPE_FS)"

text \<open>The completion mark that the timeout handler and the completion path race for.\<close>

definition blk_mark_rq_complete :: "rid \<Rightarrow> kst \<Rightarrow> bool \<times> kst" where
  "blk_mark_rq_complete r s =
     (atom_complete (rqs s r), upd_rq r (atom_complete_update (\<lambda>_. True)) s)"

definition blk_clear_rq_complete :: "rid \<Rightarrow> kst \<Rightarrow> kst" where
  "blk_clear_rq_complete r = upd_rq r (atom_complete_update (\<lambda>_. False))"

section \<open>Request lists\<close>

definition BLK_RL_SYNCFULL :: u32 where "BLK_RL_SYNCFULL = push_bit 0 1"
definition BLK_RL_ASYNCFULL :: u32 where "BLK_RL_ASYNCFULL = push_bit 1 1"

definition blk_rl_full :: "request_list \<Rightarrow> bool \<Rightarrow> bool" where
  "blk_rl_full rl sync =
     (rl_flags rl AND (if sync then BLK_RL_SYNCFULL else BLK_RL_ASYNCFULL) \<noteq> 0)"

definition blk_set_rl_full :: "rlid \<Rightarrow> bool \<Rightarrow> kst \<Rightarrow> kst" where
  "blk_set_rl_full l sync = upd_rl l (rl_flags_update
     (\<lambda>f. f OR (if sync then BLK_RL_SYNCFULL else BLK_RL_ASYNCFULL)))"

definition blk_clear_rl_full :: "rlid \<Rightarrow> bool \<Rightarrow> kst \<Rightarrow> kst" where
  "blk_clear_rl_full l sync = upd_rl l (rl_flags_update
     (\<lambda>f. f AND NOT (if sync then BLK_RL_SYNCFULL else BLK_RL_ASYNCFULL)))"

lemma rl_mask_bit:
  "(if sync then BLK_RL_SYNCFULL else BLK_RL_ASYNCFULL) = push_bit (if sync then 0 else 1) 1"
  by (simp add: BLK_RL_SYNCFULL_def BLK_RL_ASYNCFULL_def)

lemma blk_rl_full_bit: "blk_rl_full rl sync \<longleftrightarrow> bit (rl_flags rl) (if sync then 0 else 1)"
proof -
  have "(w AND push_bit n 1 \<noteq> 0) \<longleftrightarrow> bit w n" if "n < 32" for w :: u32 and n
    using that by (simp add: and_exp_eq_0_iff_not_bit push_bit_eq_mult)
  then show ?thesis unfolding blk_rl_full_def rl_mask_bit by simp
qed

lemma blk_rl_full_set [simp]:
  "blk_rl_full (rls (blk_set_rl_full l a s) l) b \<longleftrightarrow> a = b \<or> blk_rl_full (rls s l) b"
  by (auto simp: blk_rl_full_bit blk_set_rl_full_def BLK_RL_SYNCFULL_def BLK_RL_ASYNCFULL_def
      bit_or_iff bit_push_bit_iff bit_1_iff)

lemma blk_rl_full_clear [simp]:
  "blk_rl_full (rls (blk_clear_rl_full l a s) l) b \<longleftrightarrow> a \<noteq> b \<and> blk_rl_full (rls s l) b"
  by (auto simp: blk_rl_full_bit blk_clear_rl_full_def BLK_RL_SYNCFULL_def BLK_RL_ASYNCFULL_def
      bit_and_iff bit_not_iff bit_push_bit_iff bit_1_iff)

section \<open>Locks\<close>

text \<open>
  Taking a lock that is held stops the caller for ever, and so does, in the model, releasing a
  lock that is free; so a call that returns has used its locks in pairs.
\<close>

definition spin_lock :: "lockid \<Rightarrow> kst \<Rightarrow> kst option" where
  "spin_lock l s = (if locks s l then None else Some (locks_update (\<lambda>m. m(l := True)) s))"

definition spin_unlock :: "lockid \<Rightarrow> kst \<Rightarrow> kst option" where
  "spin_unlock l s = (if locks s l then Some (locks_update (\<lambda>m. m(l := False)) s) else None)"

abbreviation lock_q :: "qid \<Rightarrow> kst \<Rightarrow> kst option" where
  "lock_q q s \<equiv> spin_lock (queue_lock (queues s q)) s"

abbreviation unlock_q :: "qid \<Rightarrow> kst \<Rightarrow> kst option" where
  "unlock_q q s \<equiv> spin_unlock (queue_lock (queues s q)) s"

lemma spin_lock_eq_Some [simp]:
  "spin_lock l s = Some t \<longleftrightarrow> \<not> locks s l \<and> t = locks_update (\<lambda>m. m(l := True)) s"
  by (auto simp: spin_lock_def)

lemma spin_unlock_eq_Some [simp]:
  "spin_unlock l s = Some t \<longleftrightarrow> locks s l \<and> t = locks_update (\<lambda>m. m(l := False)) s"
  by (auto simp: spin_unlock_def)

section \<open>The lists of requests\<close>

text \<open>
  A list head owns the sequence of requests linked on it, and the link inside a request remembers
  the list it is on: \<open>None\<close> is the self-linked, empty state that \<open>list_empty(&rq->queuelist)\<close>
  tests for.
\<close>

definition list_insert :: "(rid list \<Rightarrow> rid list) \<Rightarrow> rid \<Rightarrow> lid \<Rightarrow> kst \<Rightarrow> kst" where
  "list_insert f r l s = upd_rq r (queuelist_update (\<lambda>_. Some l)) (upd_list l f s)"

definition list_add :: "rid \<Rightarrow> lid \<Rightarrow> kst \<Rightarrow> kst" where
  "list_add r l = list_insert (\<lambda>xs. r # xs) r l"

definition list_add_tail :: "rid \<Rightarrow> lid \<Rightarrow> kst \<Rightarrow> kst" where
  "list_add_tail r l = list_insert (\<lambda>xs. xs @ [r]) r l"

definition list_del_init :: "rid \<Rightarrow> kst \<Rightarrow> kst" where
  "list_del_init r s =
     (case queuelist (rqs s r) of
        None \<Rightarrow> s
      | Some l \<Rightarrow> upd_rq r (queuelist_update (\<lambda>_. None)) (upd_list l (filter (\<lambda>x. x \<noteq> r)) s))"

text \<open>The links and the lists agree: a request is on at most one list, and at most once.\<close>

definition lists_ok :: "kst \<Rightarrow> bool" where
  "lists_ok s \<longleftrightarrow> (\<forall>l. distinct (linked s l)) \<and>
     (\<forall>l r. r \<in> set (linked s l) \<longleftrightarrow> queuelist (rqs s r) = Some l)"

lemma lists_okD:
  assumes "lists_ok s"
  shows "distinct (linked s l)" and "r \<in> set (linked s l) \<longleftrightarrow> queuelist (rqs s r) = Some l"
  using assms by (auto simp: lists_ok_def)

lemma lists_ok_insert:
  assumes ok: "lists_ok s" and free: "queuelist (rqs s r) = None"
    and f: "set (f (linked s l)) = insert r (set (linked s l))" "distinct (f (linked s l))"
  shows "lists_ok (list_insert f r l s)"
proof -
  have r: "r \<notin> set (linked s k)" for k
    using lists_okD(2) [OF ok] free by simp
  show ?thesis
    using ok f r by (auto simp: lists_ok_def list_insert_def)
qed

lemma lists_ok_add [intro]:
  "lists_ok s \<Longrightarrow> queuelist (rqs s r) = None \<Longrightarrow> lists_ok (list_add r l s)"
  unfolding list_add_def by (rule lists_ok_insert) (auto simp: lists_okD)

lemma lists_ok_add_tail [intro]:
  "lists_ok s \<Longrightarrow> queuelist (rqs s r) = None \<Longrightarrow> lists_ok (list_add_tail r l s)"
  unfolding list_add_tail_def by (rule lists_ok_insert) (auto simp: lists_okD)

lemma lists_ok_del_init [intro]: "lists_ok s \<Longrightarrow> lists_ok (list_del_init r s)"
  by (cases "queuelist (rqs s r)") (auto simp: lists_ok_def list_del_init_def)

lemma queuelist_del_init [simp]: "queuelist (rqs (list_del_init r s) r) = None"
  by (simp add: list_del_init_def split: option.split)

lemma list_del_init_first:
  assumes ok: "lists_ok s" and l: "linked s l = r # xs"
  shows "list_del_init r s = upd_rq r (queuelist_update (\<lambda>_. None)) (upd_list l tl s)"
proof -
  have "queuelist (rqs s r) = Some l"
    using lists_okD(2) [OF ok, of r l] l by simp
  moreover have "filter (\<lambda>x. x \<noteq> r) (linked s l) = tl (linked s l)"
    using lists_okD(1) [OF ok, of l] l by (auto simp: filter_id_conv)
  moreover from this have "upd_list l (filter (\<lambda>x. x \<noteq> r)) s = upd_list l tl s"
    by (cases s) simp
  ultimately show ?thesis
    by (simp add: list_del_init_def)
qed

end
