(* ===== verification/Blk_Zero.thy ===== *)
theory Blk_Zero
  imports Blk_Access
begin

text \<open>
  Zeroed structures: what \<open>memset\<close> and a zeroing allocation leave, the state and the parameters
  that concrete runs start from. \<open>kst_zero\<close> has no request on any list, every lock free and the
  heap at address 100; \<open>env_zero\<close> reads the neighbouring header files at their simplest.
\<close>

definition ts_zero :: timespec where
  "ts_zero = \<lparr>tv_sec = 0, tv_nsec = 0\<rparr>"

definition stuff_zero :: req_stuff where
  "stuff_zero = \<lparr>rs_pid = 0, rs_arrival = ts_zero, rs_serv_start = ts_zero, rs_end = ts_zero\<rparr>"

definition bio_zero :: bio where
  "bio_zero = \<lparr>bi_next = None, bi_bdev = None, bi_rw = {}, bi_error = None, bi_quiet = False,
     bi_sector = 0, bi_size = 0, bi_phys_segments = 0, bi_vcnt = 0, bi_io_vec = [],
     bi_ioc = None, bi_prio = 0\<rparr>"

definition rl_zero :: request_list where
  "rl_zero = \<lparr>rl_q = 0, count = (\<lambda>_. 0), starved = (\<lambda>_. False), rq_pool = False, rl_flags = 0\<rparr>"

definition rq_zero :: request where
  "rq_zero = \<lparr>queuelist = None, rq_q = None, cmd_flags = {}, cmd_type = 0, atom_complete = False,
     cpu = 0, data_len = 0, rq_sector = 0, rq_bio = None, biotail = None, hash_node = None,
     elv_icq = None, rq_disk = None, rq_part = None, start_time = 0, rq_rl = None,
     nr_phys_segments = 0, ioprio = 0, tag = 0, errors = 0, cmd_bytes = replicate 16 0,
     cmd_len = 0, extra_len = 0, resid_len = 0, end_io = None, next_rq = None,
     start_wait = ts_zero, start_service = ts_zero\<rparr>"

definition limits_zero :: queue_limits where
  "limits_zero = \<lparr>bounce_pfn = 0, seg_boundary_mask = 0, virt_boundary_mask = 0,
     max_hw_sectors = 0, chunk_sectors = 0, max_sectors = 0, max_segment_size = 0,
     physical_block_size = 0, alignment_offset = 0, io_min = 0, io_opt = 0,
     max_discard_sectors = 0, max_hw_discard_sectors = 0, max_write_same_sectors = 0,
     discard_granularity = 0, discard_alignment = 0, logical_block_size = 0, max_segments = 0,
     misaligned = False, discard_misaligned = False, cluster = False, discard_zeroes_data = 0\<rparr>"

definition queue_zero :: request_queue where
  "queue_zero = \<lparr>last_merge = None, elevator = None, nr_rqs = (\<lambda>_. 0), nr_rqs_elvpriv = 0,
     request_fn = None, make_request_fn = None, prep_rq_fn = None, unprep_rq_fn = None,
     lld_busy_fn = None, mq_ops = False, end_sector = 0, boundary_rq = None, queue_flags = 0,
     queue_lock = OwnLock 0, q_dev = False, rpm_status = RPM_ACTIVE, nr_pending = 0,
     nr_requests = 0, nr_congestion_on = 0, nr_congestion_off = 0, nr_batching = 0,
     dma_drain_size = 0, dma_pad_mask = 0, dma_alignment = 0, nr_sorted = 0,
     in_flight = (\<lambda>_. 0), request_fn_active = 0, limits = limits_zero, sg_reserved_size = 0,
     q_node = 0, flush_flags = {}, flush_not_queueable = False, q_fq = None, bypass_depth = 0\<rparr>"

definition eq_zero :: elevator_queue where
  "eq_zero = \<lparr>eq_type = 0, elevator_data = None, registered = False, eq_hash = (\<lambda>_. []), eq_kref = 0\<rparr>"

definition et_zero :: elevator_type where
  "et_zero = \<lparr>elevator_name = '''', icq_size = 0, icq_align = 0, icq_cache = False, elevator_attrs = None\<rparr>"

definition part_zero :: hd_struct where
  "part_zero = \<lparr>partno = 0, stamp = 0, start_sect = 0, part_stats = (\<lambda>_. 0),
     part_flying = (\<lambda>_. 0), part_ref = 0, make_it_fail = False, part_disk = 0,
     part_alignment_offset = 0, part_discard_alignment = 0\<rparr>"

definition kst_zero :: kst where
  "kst_zero = \<lparr>rqs = (\<lambda>_. rq_zero), bios = (\<lambda>_. bio_zero), queues = (\<lambda>_. queue_zero),
     rls = (\<lambda>_. rl_zero), linked = (\<lambda>_. []), elvqs = (\<lambda>_. eq_zero), etypes = (\<lambda>_. et_zero),
     gds = (\<lambda>_. \<lparr>prev_pos = 0\<rparr>), iocs = (\<lambda>_. \<lparr>nr_batch_requests = 0, last_waited = 0\<rparr>),
     parts = (\<lambda>_. part_zero), disks = (\<lambda>_. \<lparr>disk_queue = None, part0 = 0\<rparr>),
     bdevs = (\<lambda>_. \<lparr>bd_disk = 0, bd_contains = 0, bd_part = 0, bd_size = 0, bd_block_size = 512\<rparr>),
     locks = (\<lambda>_. False), plug_cbs = (\<lambda>_. []), plug_cb = (\<lambda>_. \<lparr>cb_callback = 0, cb_data = 0\<rparr>),
     cur_plug = None, cur_bio_list = None, cur_ioc = None, cur_pid = 1, cur_cpu = 0,
     elv_list = [], chosen_elevator = '''', module_refs = (\<lambda>_. 0), jiffies = 0, now_ts = ts_zero,
     sum_of_services = 0, sum_of_waits = 0, num_requests_seen = 0,
     stored_reqs = (\<lambda>_. stuff_zero), requests_seen = 0, serv_recording = False,
     rq_allocated = {}, heap_next = 100, alloc_fails = (\<lambda>_. False), elv_drain_printed = 0,
     ktrace = []\<rparr>"

definition ops_zero :: elevator_ops where
  "ops_zero = \<lparr>elevator_merge_fn = None, elevator_merged_fn = None, elevator_merge_req_fn = None,
     elevator_allow_merge_fn = None, elevator_bio_merged_fn = None,
     elevator_dispatch_fn = (\<lambda>q force s. Some (False, s)),
     elevator_add_req_fn = (\<lambda>q r s. Some s), elevator_activate_req_fn = None,
     elevator_deactivate_req_fn = None, elevator_completed_req_fn = None,
     elevator_former_req_fn = None, elevator_latter_req_fn = None, elevator_set_req_fn = None,
     elevator_put_req_fn = None, elevator_may_queue_fn = None,
     elevator_init_fn = (\<lambda>q t s. Some (None, s)), elevator_exit_fn = None,
     elevator_registered_fn = None\<rparr>"

text \<open>A sort in which an element goes behind those it is to be exchanged with.\<close>

fun insert_after :: "('a \<Rightarrow> 'a \<Rightarrow> bool) \<Rightarrow> 'a \<Rightarrow> 'a list \<Rightarrow> 'a list" where
  "insert_after gt x [] = [x]"
| "insert_after gt x (y # ys) = (if gt x y then y # insert_after gt x ys else x # y # ys)"

definition env_zero :: kenv where
  "env_zero = \<lparr>HZ = 250, CONFIG_PM = True, CONFIG_BLK_CGROUP = True, CONFIG_CGROUP_WRITEBACK = True,
     CONFIG_FAIL_MAKE_REQUEST = False, CONFIG_DEFAULT_IOSCHED = ''greedy'', ELV_NAME_MAX = 16,
     REQ_FAILFAST_MASK = {REQ_FAILFAST_DEV, REQ_FAILFAST_TRANSPORT, REQ_FAILFAST_DRIVER},
     REQ_COMMON_MASK = {REQ_WRITE, REQ_FAILFAST_DEV, REQ_FAILFAST_TRANSPORT, REQ_FAILFAST_DRIVER,
       REQ_SYNC, REQ_DISCARD, REQ_WRITE_SAME, REQ_INTEGRITY, REQ_FUA, REQ_FLUSH, REQ_SECURE},
     REQ_CLONE_MASK = {REQ_WRITE, REQ_FAILFAST_DEV, REQ_FAILFAST_TRANSPORT, REQ_FAILFAST_DRIVER,
       REQ_SYNC, REQ_DISCARD, REQ_WRITE_SAME, REQ_INTEGRITY, REQ_FUA, REQ_FLUSH, REQ_SECURE},
     REQ_NOMERGE_FLAGS = {REQ_NOMERGE, REQ_STARTED, REQ_SOFTBARRIER, REQ_FLUSH, REQ_FUA, REQ_FLUSH_SEQ},
     rq_end_sector = (\<lambda>rq. blk_rq_pos rq + ucast (blk_rq_sectors rq)),
     hash_min = (\<lambda>k. unat k mod 64),
     bio_sectors = (\<lambda>b. drop_bit 9 (bi_size b)), bio_has_data = (\<lambda>b. bi_size b \<noteq> 0),
     bio_cur_bytes = bi_size,
     bio_advance = (\<lambda>n b. b\<lparr>bi_sector := bi_sector b + ucast (drop_bit 9 n), bi_size := bi_size b - n\<rparr>),
     bio_phys_segments = (\<lambda>b. ucast (bi_phys_segments b)), ioprio_best = min,
     timespec_sub = (\<lambda>a b. \<lparr>tv_sec = tv_sec a - tv_sec b, tv_nsec = tv_nsec a - tv_nsec b\<rparr>),
     time_before = (\<lambda>a b. sint (a - b) < 0), sector_div = (\<lambda>x n. ucast (x mod ucast n)),
     msecs_to_jiffies = (\<lambda>m. m div 4),
     list_sort = (\<lambda>gt xs. foldr (insert_after gt) xs []),
     strstrip = (\<lambda>b. let t = rev (dropWhile (\<lambda>c. c = CHR '' '') (rev b))
                      in (t, dropWhile (\<lambda>c. c = CHR '' '') t)),
     blk_queue_bio_code = 99,
     et_ops = (\<lambda>_. ops_zero), call_request_fn = (\<lambda>c q s. Some s),
     call_make_request_fn = (\<lambda>c q b s. Some s), call_prep_rq_fn = (\<lambda>c q r s. Some (BLKPREP_OK, s)),
     call_unprep_rq_fn = (\<lambda>c q r s. Some s), call_end_io = (\<lambda>c r e s. Some s),
     call_lld_busy_fn = (\<lambda>c q s. 0), blk_rq_merge_ok = (\<lambda>r b s. True),
     blk_try_merge = (\<lambda>r b s. ELEVATOR_NO_MERGE), blk_attempt_req_merge = (\<lambda>q r n s. Some (False, s)),
     ll_back_merge_fn = (\<lambda>q r b s. (True, s)), ll_front_merge_fn = (\<lambda>q r b s. (True, s)),
     attempt_back_merge = (\<lambda>q r s. Some (False, s)), attempt_front_merge = (\<lambda>q r s. Some (False, s)),
     blk_rq_set_mixed_merge = (\<lambda>r s. s), blk_recalc_rq_segments = (\<lambda>r s. s),
     blk_queue_split = (\<lambda>q b s. (b, s)), blk_queue_bounce = (\<lambda>q b s. (b, s)),
     bio_integrity_enabled = (\<lambda>b s. False), bio_integrity_prep = (\<lambda>b s. (False, s)),
     blk_queue_end_tag = (\<lambda>q r. clear_flag r REQ_QUEUED),
     blk_insert_flush = (\<lambda>r s. Some s), blk_mq_free_request = (\<lambda>r s. Some s),
     blk_mq_insert_request = (\<lambda>r s. Some s), blk_mq_alloc_request = (\<lambda>q w s. Some (Inl EBUSY, s)),
     blk_mq_flush_plug_list = (\<lambda>p b s. Some s), blk_mq_wake_waiters = (\<lambda>q s. s),
     blk_mq_freeze_queue = (\<lambda>q s. Some s), blk_mq_free_queue = (\<lambda>q s. Some s),
     blkcg_drain_queue = (\<lambda>q s. s), blk_get_rl = (\<lambda>q b s. RootRl q),
     blk_queue_rls = (\<lambda>q s. [RootRl q]), blkcg_bio_issue_check = (\<lambda>q b s. (True, s)),
     io_schedule = (\<lambda>s. s), msleep = (\<lambda>s. s), ioc_lookup_icq = (\<lambda>i q s. None),
     ioc_create_icq = (\<lambda>i q s. (None, s)), ioc_clear_queue = (\<lambda>q s. s),
     create_task_io_context = (\<lambda>s. s), disk_map_sector = (\<lambda>d x s. 0), 
     hd_struct_try_get = (\<lambda>p s. (True, upd_part p (part_ref_update (\<lambda>n. n + 1)) s)),
     hd_struct_get = (\<lambda>p. upd_part p (part_ref_update (\<lambda>n. n + 1))),
     hd_struct_put = (\<lambda>p. upd_part p (part_ref_update (\<lambda>n. n - 1))),
     part_stat_add = (\<lambda>x p n. upd_part p (part_stats_update (\<lambda>f. f(x := f x + n)))),
     raw_part_stat_add = (\<lambda>x p n. upd_part p (part_stats_update (\<lambda>f. f(x := f x + n)))),
     part_in_flight = (\<lambda>p s. part_flying (parts s p) False + part_flying (parts s p) True),
     part_inc_in_flight = (\<lambda>p d. upd_part p (part_flying_update (\<lambda>f. f(d := f d + 1)))),
     part_dec_in_flight = (\<lambda>p d. upd_part p (part_flying_update (\<lambda>f. f(d := f d - 1)))),
     should_fail = (\<lambda>n s. False), request_module = (\<lambda>m s. s), try_module_get = (\<lambda>t s. True),
     kobject_add_elv = (\<lambda>e q s. None), 
     sysfs_create_file = (\<lambda>e n s. (False, s)),
     blk_queue_make_request = (\<lambda>q f. upd_q q (\<lambda>x. x\<lparr>make_request_fn := Some f, nr_batching := 32,
       nr_requests := 128\<rparr>)),
     blk_alloc_flush_queue = (\<lambda>q s. (Some \<lparr>flush_queue_delayed = False, flush_pending_idx = False,
       flush_running_idx = False\<rparr>, s)),
     ida_simple_get_fails = (\<lambda>s. False), bioset_create_fails = (\<lambda>s. False),
     bdi_init_fails = (\<lambda>s. False), blkcg_init_queue_fails = (\<lambda>q s. False),
     mempool_create_fails = (\<lambda>s. False), blk_rq_append_bio = (\<lambda>q r b s. (None, s)),
     bio_clone_fast = (\<lambda>b s. (Some (heap_next s),
       heap_next_update Suc (upd_bio (heap_next s) (\<lambda>_. (bios s b)\<lparr>bi_next := None\<rparr>) s))),
     call_bio_ctr = (\<lambda>c b b' s. (False, s)), call_plug_cb = (\<lambda>c b f s. Some s),
     laptop_mode = False\<rparr>"

lemma lists_ok_zero [simp]: "lists_ok kst_zero"
  by (simp add: lists_ok_def kst_zero_def rq_zero_def)

end
