(* ===== verification/Blk_Run.thy ===== *)
theory Blk_Run
  imports Blk_Zero
begin

text \<open>
  Starting, stopping and running a queue, the congestion thresholds, and the initialisation of a
  request: the first part of \<open>src/scheduler/kernel/blk-core.c\<close>. The work queue \<open>kblockd\<close> and the
  timers are outside; calls to them are recorded in the trace.
\<close>

section \<open>Congestion\<close>

definition blk_clear_congested :: "'a kconf_scheme \<Rightarrow> rlid \<Rightarrow> bool \<Rightarrow> kst \<Rightarrow> kst" where
  "blk_clear_congested E l sync s =
     (if CONFIG_CGROUP_WRITEBACK E \<or> l = RootRl (rl_q (rls s l))
      then emit (EvRl l (clear_congested sync)) s else s)"

definition blk_set_congested :: "'a kconf_scheme \<Rightarrow> rlid \<Rightarrow> bool \<Rightarrow> kst \<Rightarrow> kst" where
  "blk_set_congested E l sync s =
     (if CONFIG_CGROUP_WRITEBACK E \<or> l = RootRl (rl_q (rls s l))
      then emit (EvRl l (set_congested sync)) s else s)"

text \<open>
  The thresholds go through an \<open>int\<close>; the comparison with \<open>nr_requests\<close> is one of
  \<open>unsigned long\<close>.
\<close>

definition congestion_on_nr :: "u64 \<Rightarrow> u32" where
  "congestion_on_nr n =
     (let nr = to_int (n - n div 8 + 1);
          nr = (if of_c_int nr > n then to_int n else nr)
      in word_of_int nr)"

definition congestion_off_nr :: "u64 \<Rightarrow> u32" where
  "congestion_off_nr n =
     (let nr = to_int (n - n div 8 - n div 16 - 1);
          nr = (if nr < 1 then 1 else nr)
      in word_of_int nr)"

definition blk_queue_congestion_threshold :: "qid \<Rightarrow> kst \<Rightarrow> kst" where
  "blk_queue_congestion_threshold q s =
     upd_q q (nr_congestion_off_update (\<lambda>_. congestion_off_nr (nr_requests (queues s q))))
       (upd_q q (nr_congestion_on_update (\<lambda>_. congestion_on_nr (nr_requests (queues s q)))) s)"

section \<open>A new request\<close>

definition BLK_MAX_CDB :: u16 where "BLK_MAX_CDB = 16"

definition blk_rq_init :: "qid \<Rightarrow> rid \<Rightarrow> kst \<Rightarrow> kst" where
  "blk_rq_init q r s = upd_rq r (\<lambda>_. rq_zero
     \<lparr>queuelist := None, cpu := -1, rq_q := Some q, rq_sector := -1, hash_node := None,
      cmd_len := BLK_MAX_CDB, tag := -1, start_time := jiffies s, rq_part := None\<rparr>) s"

section \<open>Running a queue\<close>

definition raw_blk_run_queue_uncond :: "kenv \<Rightarrow> qid \<Rightarrow> kst \<Rightarrow> kst option" where
  "raw_blk_run_queue_uncond E q s =
     (if blk_queue_dead (queues s q) then Some s
      else do {
        let s = upd_q q (request_fn_active_update (\<lambda>n. n + 1)) s;
        f \<leftarrow> request_fn (queues s q);
        s \<leftarrow> call_request_fn E f q s;
        Some (upd_q q (request_fn_active_update (\<lambda>n. n - 1)) s)
      })"

definition raw_blk_run_queue :: "kenv \<Rightarrow> qid \<Rightarrow> kst \<Rightarrow> kst option" where
  "raw_blk_run_queue E q s =
     (if blk_queue_stopped (queues s q) then Some s else raw_blk_run_queue_uncond E q s)"

definition blk_run_queue_async :: "qid \<Rightarrow> kst \<Rightarrow> kst" where
  "blk_run_queue_async q s =
     (if \<not> blk_queue_stopped (queues s q) \<and> \<not> blk_queue_dead (queues s q)
      then emit (EvQ q mod_delay_work) s else s)"

definition blk_run_queue :: "kenv \<Rightarrow> qid \<Rightarrow> kst \<Rightarrow> kst option" where
  "blk_run_queue E q s = do {
     s \<leftarrow> lock_q q s;
     s \<leftarrow> raw_blk_run_queue E q s;
     unlock_q q s
   }"

definition blk_delay_work :: "kenv \<Rightarrow> qid \<Rightarrow> kst \<Rightarrow> kst option" where
  "blk_delay_work E q s = do {
     s \<leftarrow> lock_q q s;
     s \<leftarrow> raw_blk_run_queue E q s;
     unlock_q q s
   }"

definition blk_delay_queue :: "'a kconf_scheme \<Rightarrow> qid \<Rightarrow> u64 \<Rightarrow> kst \<Rightarrow> kst" where
  "blk_delay_queue E q msecs s =
     (if \<not> blk_queue_dead (queues s q)
      then emit (EvQ q (delay_work (msecs_to_jiffies E msecs))) s else s)"

definition blk_start_queue :: "kenv \<Rightarrow> qid \<Rightarrow> kst \<Rightarrow> kst option" where
  "blk_start_queue E q s = raw_blk_run_queue E q (queue_flag_clear QUEUE_FLAG_STOPPED q s)"

definition blk_stop_queue :: "qid \<Rightarrow> kst \<Rightarrow> kst" where
  "blk_stop_queue q s =
     queue_flag_set QUEUE_FLAG_STOPPED q (emit (EvQ q cancel_delay_work) s)"

definition blk_sync_queue :: "qid \<Rightarrow> kst \<Rightarrow> kst" where
  "blk_sync_queue q s =
     (let s = emit (EvQ q del_timer_sync) s
      in if mq_ops (queues s q) then emit (EvQ q cancel_mq_work) s
         else emit (EvQ q cancel_delay_work) s)"

definition blk_put_queue :: "qid \<Rightarrow> kst \<Rightarrow> kst" where
  "blk_put_queue q = emit (EvQ q kobject_put_queue)"

definition raw_blk_get_queue :: "qid \<Rightarrow> kst \<Rightarrow> kst" where
  "raw_blk_get_queue q = emit (EvQ q kobject_get_queue)"

definition blk_get_queue :: "qid \<Rightarrow> kst \<Rightarrow> bool \<times> kst" where
  "blk_get_queue q s =
     (if \<not> blk_queue_dying (queues s q) then (True, raw_blk_get_queue q s) else (False, s))"

section \<open>Properties\<close>

lemma eighths: "0 < (n :: nat) \<Longrightarrow> n div 8 + n div 16 < n"
  using div_times_less_eq_dividend [of n 8] div_times_less_eq_dividend [of n 16] by linarith

lemma congestion_on_small:
  assumes "unat n < 2 ^ 31" and "n \<noteq> 0"
  shows "unat (congestion_on_nr n) = min (unat n - unat n div 8 + 1) (unat n)"
proof -
  have pos: "0 < unat n" using assms(2) by (simp add: unat_gt_0)
  have d: "n div 8 \<le> n" by (simp add: word_le_nat_alt unat_div div_le_dividend)
  then have a: "unat (n - n div 8) = unat n - unat n div 8"
    by (simp add: unat_sub unat_div)
  then have b: "unat (n - n div 8 + 1) = unat n - unat n div 8 + 1"
    using assms(1) by (subst unat_add_lem [THEN iffD1]) simp_all
  have l: "unat n - unat n div 8 + 1 < 2 ^ 31"
    using assms(1) pos by (cases "unat n < 8") (simp_all add: le_div_geq)
  have c: "to_int (n - n div 8 + 1) = int (unat n - unat n div 8 + 1)"
    using to_int_small [of "n - n div 8 + 1"] b l by simp
  have e: "to_int n = int (unat n)" using assms(1) by (rule to_int_small)
  have "of_c_int (to_int (n - n div 8 + 1)) = n - n div 8 + 1"
    unfolding of_c_int_def c b [symmetric] by simp
  then show ?thesis
    using c e b l assms(1)
    by (auto simp: congestion_on_nr_def Let_def word_less_nat_alt min_def unat_of_nat
        unsigned_ucast_eq take_bit_nat_eq_self_iff simp flip: of_nat_add of_nat_Suc)
qed

lemma congestion_off_small:
  assumes "unat n < 2 ^ 31"
  shows "unat (congestion_off_nr n) = max 1 (unat n - unat n div 8 - unat n div 16 - 1)"
proof (cases "n = 0")
  case True
  have "sint (ucast (- 1 :: u64) :: u32) = - 1" by code_simp
  with True show ?thesis by (simp add: congestion_off_nr_def to_int_def Let_def)
next
  case False
  then have pos: "0 < unat n" by (simp add: unat_gt_0)
  define m where "m = unat n - unat n div 8 - unat n div 16 - 1"
  have m: "m < 2 ^ 31" using assms by (simp add: m_def)
  have 1: "unat (n div 8) = unat n div 8" "unat (n div 16) = unat n div 16"
    by (simp_all add: unat_div)
  then have 2: "unat (n - n div 8) = unat n - unat n div 8"
    by (subst unat_sub) (simp_all add: word_le_nat_alt)
  have 3: "unat (n - n div 8 - n div 16) = unat n - unat n div 8 - unat n div 16"
    using 1 2 eighths [OF pos] by (subst unat_sub) (simp_all add: word_le_nat_alt)
  have "1 \<le> unat n - unat n div 8 - unat n div 16"
    using eighths [OF pos] by linarith
  then have 4: "unat (n - n div 8 - n div 16 - 1) = m"
    unfolding m_def using 3 by (subst unat_sub) (simp_all add: word_le_nat_alt)
  have "to_int (n - n div 8 - n div 16 - 1) = int m"
    using to_int_small [of "n - n div 8 - n div 16 - 1"] 4 m by simp
  then have "congestion_off_nr n = word_of_nat (max 1 m)"
    by (simp add: congestion_off_nr_def Let_def max_def)
  moreover have "max 1 m < 2 ^ 32" using m by simp
  ultimately show ?thesis
    unfolding m_def [symmetric] by (simp add: unat_of_nat take_bit_nat_eq_self_iff)
qed

lemma threshold_order:
  fixes n a b :: nat
  assumes "a + b < n"
  shows "1 \<le> max 1 (n - a - b - 1) \<and> max 1 (n - a - b - 1) \<le> min (n - a + 1) n
    \<and> min (n - a + 1) n \<le> n \<and> (2 \<le> n \<longrightarrow> max 1 (n - a - b - 1) < min (n - a + 1) n)"
  using assms by auto

text \<open>
  The congestion thresholds have hysteresis. For every queue with between 1 and \<open>2^31 - 1\<close>
  requests, \<open>1 \<le> off \<le> on \<le> nr_requests\<close>, and when the queue has at least two requests a queue
  that became congested is uncongested only at a strictly lower count.
\<close>

theorem blk_queue_congestion_threshold_hysteresis:
  assumes "0 < unat (nr_requests (queues s q))" and "unat (nr_requests (queues s q)) < 2 ^ 31"
    and "queues (blk_queue_congestion_threshold q s) q = q'"
  shows "1 \<le> queue_congestion_off_threshold q'
    \<and> queue_congestion_off_threshold q' \<le> queue_congestion_on_threshold q'
    \<and> queue_congestion_on_threshold q' \<le> int (unat (nr_requests (queues s q)))
    \<and> (2 \<le> unat (nr_requests (queues s q)) \<longrightarrow>
         queue_congestion_off_threshold q' < queue_congestion_on_threshold q')"
proof -
  let ?n = "nr_requests (queues s q)"
  define nr where "nr = unat ?n"
  note assms = assms [folded nr_def]
  have n: "unat ?n < 2 ^ 31" "?n \<noteq> 0" using assms by (auto simp: nr_def unat_eq_0)
  note on = congestion_on_small [OF n] and off = congestion_off_small [OF n(1)]
  have q': "nr_congestion_on q' = congestion_on_nr ?n" "nr_congestion_off q' = congestion_off_nr ?n"
    using assms(3) by (auto simp: blk_queue_congestion_threshold_def)
  have "queue_congestion_on_threshold q' = int (min (nr - nr div 8 + 1) nr)"
    using sint_small32 [of "congestion_on_nr ?n"] on assms nr_def
    by (simp add: queue_congestion_on_threshold_def q')
  moreover have "queue_congestion_off_threshold q' = int (max 1 (nr - nr div 8 - nr div 16 - 1))"
    using sint_small32 [of "congestion_off_nr ?n"] off assms nr_def
    by (simp add: queue_congestion_off_threshold_def q')
  ultimately show ?thesis
    unfolding nr_def [symmetric] using threshold_order [OF eighths [OF assms(1)]]
    by (metis of_nat_1 of_nat_le_iff of_nat_less_iff)
qed

theorem blk_queue_congestion_threshold_hysteresis_witness:
  "queue_congestion_off_threshold (queues (blk_queue_congestion_threshold 0
     (kst_zero\<lparr>queues := (\<lambda>_. queue_zero\<lparr>nr_requests := 128\<rparr>)\<rparr>)) 0)
   < queue_congestion_on_threshold (queues (blk_queue_congestion_threshold 0
     (kst_zero\<lparr>queues := (\<lambda>_. queue_zero\<lparr>nr_requests := 128\<rparr>)\<rparr>)) 0)"
  using blk_queue_congestion_threshold_hysteresis
    [of "kst_zero\<lparr>queues := (\<lambda>_. queue_zero\<lparr>nr_requests := 128\<rparr>)\<rparr>" 0, OF _ _ refl]
  by simp

end
