(* ===== verification/Elv_Hash.thy ===== *)
theory Elv_Hash
  imports Blk_Zero
begin

text \<open>
  The merge hash of an elevator and the two ways a scheduler puts a request on the dispatch queue:
  \<open>__elv_rqhash_del\<close> to \<open>elv_rqhash_find\<close>, \<open>elv_dispatch_sort\<close> and \<open>elv_dispatch_add_tail\<close> of
  \<open>src/scheduler/kernel/elevator.c\<close>. A leading \<open>__\<close> of a C name is written \<open>raw_\<close>.
\<close>

section \<open>The merge hash\<close>

definition rq_hash_key :: "request \<Rightarrow> sector_t" where
  "rq_hash_key rq = blk_rq_pos rq + ucast (blk_rq_sectors rq)"

text \<open>\<open>hash_add\<close> links at the front of the chain of the key; \<open>hash_del\<close> unlinks the node.\<close>

definition hash_add :: "'a kconf_scheme \<Rightarrow> eqid \<Rightarrow> rid \<Rightarrow> sector_t \<Rightarrow> kst \<Rightarrow> kst" where
  "hash_add E e r key s =
     upd_rq r (hash_node_update (\<lambda>_. Some (e, hash_min E key)))
       (upd_eq e (eq_hash_update (\<lambda>h. h(hash_min E key := r # h (hash_min E key)))) s)"

definition hash_del :: "rid \<Rightarrow> kst \<Rightarrow> kst" where
  "hash_del r s =
     (case hash_node (rqs s r) of
        None \<Rightarrow> s
      | Some (e, b) \<Rightarrow>
          upd_rq r (hash_node_update (\<lambda>_. None))
            (upd_eq e (eq_hash_update (\<lambda>h. h(b := filter (\<lambda>x. x \<noteq> r) (h b)))) s))"

definition raw_elv_rqhash_del :: "rid \<Rightarrow> kst \<Rightarrow> kst" where
  "raw_elv_rqhash_del r s = clear_flag r REQ_HASHED (hash_del r s)"

definition elv_rqhash_del :: "qid \<Rightarrow> rid \<Rightarrow> kst \<Rightarrow> kst" where
  "elv_rqhash_del q r s = (if ELV_ON_HASH (rqs s r) then raw_elv_rqhash_del r s else s)"

definition elv_rqhash_add :: "'a kconf_scheme \<Rightarrow> qid \<Rightarrow> rid \<Rightarrow> kst \<Rightarrow> kst option" where
  "elv_rqhash_add E q r s = do {
     e \<leftarrow> elevator (queues s q);
     bug_on (ELV_ON_HASH (rqs s r));
     Some (set_flag r REQ_HASHED (hash_add E e r (rq_hash_key (rqs s r)) s))
   }"

definition elv_rqhash_reposition :: "'a kconf_scheme \<Rightarrow> qid \<Rightarrow> rid \<Rightarrow> kst \<Rightarrow> kst option" where
  "elv_rqhash_reposition E q r s = elv_rqhash_add E q r (raw_elv_rqhash_del r s)"

text \<open>
  The search walks the chain of the offset. The walk is safe against the removal of the entry it
  stands on, so it runs over the chain as it was at the start.
\<close>

fun elv_rqhash_scan :: "'a kconf_scheme \<Rightarrow> sector_t \<Rightarrow> rid list \<Rightarrow> kst \<Rightarrow> (rid option \<times> kst) option"
where
  "elv_rqhash_scan E offset [] s = Some (None, s)"
| "elv_rqhash_scan E offset (r # rs) s = do {
     bug_on (\<not> ELV_ON_HASH (rqs s r));
     if \<not> rq_mergeable E (rqs s r) then elv_rqhash_scan E offset rs (raw_elv_rqhash_del r s)
     else if rq_hash_key (rqs s r) = offset then Some (Some r, s)
     else elv_rqhash_scan E offset rs s
   }"

definition elv_rqhash_find :: "'a kconf_scheme \<Rightarrow> qid \<Rightarrow> sector_t \<Rightarrow> kst \<Rightarrow> (rid option \<times> kst) option"
where
  "elv_rqhash_find E q offset s = do {
     e \<leftarrow> elevator (queues s q);
     elv_rqhash_scan E offset (eq_hash (elvqs s e) (hash_min E offset)) s
   }"

section \<open>Putting a request on the dispatch queue\<close>

text \<open>
  Where the backward walk of \<open>elv_dispatch_sort\<close> stops: the place after which the request goes.
\<close>

definition dispatch_sort_stop :: "sector_t \<Rightarrow> request \<Rightarrow> request \<Rightarrow> bool" where
  "dispatch_sort_stop boundary rq pos =
     (if (REQ_DISCARD \<in> cmd_flags rq) \<noteq> (REQ_DISCARD \<in> cmd_flags pos) then True
      else if rq_data_dir rq \<noteq> rq_data_dir pos then True
      else if cmd_flags pos \<inter> {REQ_SOFTBARRIER, REQ_STARTED} \<noteq> {} then True
      else if blk_rq_pos rq \<ge> boundary \<and> blk_rq_pos pos < boundary then False
      else if \<not> blk_rq_pos rq \<ge> boundary \<and> blk_rq_pos pos \<ge> boundary then True
      else blk_rq_pos rq \<ge> blk_rq_pos pos)"

definition elv_dispatch_sort :: "qid \<Rightarrow> rid \<Rightarrow> kst \<Rightarrow> kst" where
  "elv_dispatch_sort q r s =
     (let s = (if last_merge (queues s q) = Some r
               then upd_q q (last_merge_update (\<lambda>_. None)) s else s);
          s = elv_rqhash_del q r s;
          s = upd_q q (nr_sorted_update (\<lambda>n. n - 1)) s;
          boundary = end_sector (queues s q)
      in list_insert
           (add_after_last (\<lambda>p. dispatch_sort_stop boundary (rqs s r) (rqs s p)) r) r (QHead q) s)"

definition elv_dispatch_add_tail :: "'a kconf_scheme \<Rightarrow> qid \<Rightarrow> rid \<Rightarrow> kst \<Rightarrow> kst" where
  "elv_dispatch_add_tail E q r s =
     (let s = (if last_merge (queues s q) = Some r
               then upd_q q (last_merge_update (\<lambda>_. None)) s else s);
          s = elv_rqhash_del q r s;
          s = upd_q q (nr_sorted_update (\<lambda>n. n - 1)) s;
          s = upd_q q (end_sector_update (\<lambda>_. rq_end_sector E (rqs s r))) s;
          s = upd_q q (boundary_rq_update (\<lambda>_. Some r)) s
      in list_add_tail r (QHead q) s)"

section \<open>The hash invariant\<close>

text \<open>
  The chains hold each hashed request once, in the chain its node names, and the flag
  \<open>REQ_HASHED\<close> says whether a request is hashed. With \<open>hash_keyed\<close> a mergeable hashed request is
  also in the chain of its current key.
\<close>

definition hash_ok :: "kst \<Rightarrow> bool" where
  "hash_ok s \<longleftrightarrow>
     (\<forall>e b. distinct (eq_hash (elvqs s e) b)) \<and>
     (\<forall>e b r. r \<in> set (eq_hash (elvqs s e) b) \<longleftrightarrow> hash_node (rqs s r) = Some (e, b)) \<and>
     (\<forall>r. ELV_ON_HASH (rqs s r) \<longleftrightarrow> hash_node (rqs s r) \<noteq> None)"

definition hash_keyed :: "'a kconf_scheme \<Rightarrow> kst \<Rightarrow> bool" where
  "hash_keyed E s \<longleftrightarrow>
     (\<forall>r e b. hash_node (rqs s r) = Some (e, b) \<longrightarrow> rq_mergeable E (rqs s r) \<longrightarrow>
        b = hash_min E (rq_hash_key (rqs s r)))"

lemma hash_okD:
  assumes "hash_ok s"
  shows "distinct (eq_hash (elvqs s e) b)"
    and "r \<in> set (eq_hash (elvqs s e) b) \<longleftrightarrow> hash_node (rqs s r) = Some (e, b)"
    and "ELV_ON_HASH (rqs s r) \<longleftrightarrow> hash_node (rqs s r) \<noteq> None"
  using assms by (auto simp: hash_ok_def)

lemma rq_hash_key_flags [simp]:
  "rq_hash_key (cmd_flags_update f x) = rq_hash_key x"
  "rq_hash_key (hash_node_update g x) = rq_hash_key x"
  "rq_mergeable E (hash_node_update g x) = rq_mergeable E x"
  "ELV_ON_HASH (hash_node_update g x) = ELV_ON_HASH x"
  by (simp_all add: rq_hash_key_def blk_rq_pos_def blk_rq_sectors_def blk_rq_bytes_def
      rq_mergeable_def ELV_ON_HASH_def)

lemma hash_ok_del: "hash_ok s \<Longrightarrow> hash_ok (raw_elv_rqhash_del r s)"
proof (cases "hash_node (rqs s r)")
  case None
  assume ok: "hash_ok s"
  with None show ?thesis
    by (auto simp: raw_elv_rqhash_del_def hash_del_def hash_ok_def ELV_ON_HASH_def)
next
  case (Some n)
  assume ok: "hash_ok s"
  obtain e b where n: "n = (e, b)" by (cases n)
  with Some ok show ?thesis
    by (auto simp: raw_elv_rqhash_del_def hash_del_def hash_ok_def ELV_ON_HASH_def)
qed

lemma hash_keyed_del:
  assumes "REQ_HASHED \<notin> REQ_NOMERGE_FLAGS E"
  shows "hash_keyed E s \<Longrightarrow> hash_keyed E (raw_elv_rqhash_del r s)"
  using assms
  by (auto simp: hash_keyed_def raw_elv_rqhash_del_def hash_del_def rq_mergeable_def
      split: option.split prod.split)

lemma hash_ok_add:
  assumes "hash_ok s" and "elv_rqhash_add E q r s = Some t"
  shows "hash_ok t"
  using assms
  by (auto simp: elv_rqhash_add_def hash_add_def hash_ok_def ELV_ON_HASH_def
      Option.bind_eq_Some_conv split: if_splits)

lemma hash_keyed_add:
  assumes "hash_keyed E s" and "elv_rqhash_add E q r s = Some t"
    and "REQ_HASHED \<notin> REQ_NOMERGE_FLAGS E"
  shows "hash_keyed E t"
  using assms
  by (auto simp: elv_rqhash_add_def hash_add_def hash_keyed_def rq_mergeable_def
      Option.bind_eq_Some_conv split: if_splits)

lemma elv_rqhash_del_other [simp]:
  "x \<noteq> r \<Longrightarrow> rqs (raw_elv_rqhash_del r s) x = rqs s x"
  "queues (raw_elv_rqhash_del r s) = queues s"
  "linked (raw_elv_rqhash_del r s) = linked s"
  by (auto simp: raw_elv_rqhash_del_def hash_del_def split: option.split prod.split)

text \<open>
  The scan of a chain of hashed requests always returns; what it returns is mergeable and has
  the key, and it returns nothing only if the chain has no mergeable request with the key.
\<close>

lemma elv_rqhash_scan_spec:
  assumes "distinct rs" and "\<forall>r \<in> set rs. ELV_ON_HASH (rqs s r)"
  shows "\<exists>res t. elv_rqhash_scan E offset rs s = Some (res, t) \<and>
     (hash_ok s \<longrightarrow> hash_ok t) \<and>
     (case res of
        Some r \<Rightarrow> r \<in> set rs \<and> rqs t r = rqs s r \<and>
                  rq_mergeable E (rqs s r) \<and> rq_hash_key (rqs s r) = offset
      | None \<Rightarrow> \<forall>r \<in> set rs. \<not> (rq_mergeable E (rqs s r) \<and> rq_hash_key (rqs s r) = offset))"
  using assms
proof (induction rs arbitrary: s)
  case Nil
  then show ?case by simp
next
  case (Cons r rs)
  show ?case
  proof (cases "rq_mergeable E (rqs s r)")
    case True
    show ?thesis
    proof (cases "rq_hash_key (rqs s r) = offset")
      case True
      with \<open>rq_mergeable E (rqs s r)\<close> Cons.prems show ?thesis by simp
    next
      case False
      from Cons.IH [of s] Cons.prems obtain res t where
        t: "elv_rqhash_scan E offset rs s = Some (res, t)" "hash_ok s \<longrightarrow> hash_ok t"
        and res: "case res of
          Some r \<Rightarrow> r \<in> set rs \<and> rqs t r = rqs s r \<and>
            rq_mergeable E (rqs s r) \<and> rq_hash_key (rqs s r) = offset
        | None \<Rightarrow> \<forall>r \<in> set rs. \<not> (rq_mergeable E (rqs s r) \<and> rq_hash_key (rqs s r) = offset)"
        by auto
      have "elv_rqhash_scan E offset (r # rs) s = Some (res, t)"
        using t True False Cons.prems by simp
      then show ?thesis
        using t(2) res False by (intro exI [of _ res] exI [of _ t]) (auto split: option.splits)
    qed
  next
    case False
    let ?s = "raw_elv_rqhash_del r s"
    have same: "rqs ?s x = rqs s x" if "x \<in> set rs" for x
      using that Cons.prems by (intro elv_rqhash_del_other) auto
    from Cons.IH [of ?s] Cons.prems obtain res t where
      t: "elv_rqhash_scan E offset rs ?s = Some (res, t)" "hash_ok ?s \<longrightarrow> hash_ok t"
      and res: "case res of
          Some r \<Rightarrow> r \<in> set rs \<and> rqs t r = rqs ?s r \<and>
            rq_mergeable E (rqs ?s r) \<and> rq_hash_key (rqs ?s r) = offset
        | None \<Rightarrow> \<forall>r \<in> set rs. \<not> (rq_mergeable E (rqs ?s r) \<and> rq_hash_key (rqs ?s r) = offset)"
      using same by auto
    have "elv_rqhash_scan E offset (r # rs) s = Some (res, t)"
      using t False Cons.prems by simp
    then show ?thesis
      using t(2) res False hash_ok_del [of s r] same
      by (intro exI [of _ res] exI [of _ t]) (auto split: option.splits)
  qed
qed

lemma elv_rqhash_find_spec:
  assumes ok: "hash_ok s" and keyed: "hash_keyed E s"
    and e: "elevator (queues s q) = Some e"
  shows "\<exists>res t. elv_rqhash_find E q offset s = Some (res, t) \<and> hash_ok t \<and>
    (case res of
       Some r \<Rightarrow> ELV_ON_HASH (rqs t r) \<and> rq_mergeable E (rqs t r) \<and> rq_hash_key (rqs t r) = offset
     | None \<Rightarrow> \<forall>r b. hash_node (rqs s r) = Some (e, b) \<longrightarrow>
                 \<not> (rq_mergeable E (rqs s r) \<and> rq_hash_key (rqs s r) = offset))"
proof -
  let ?rs = "eq_hash (elvqs s e) (hash_min E offset)"
  have "distinct ?rs" and "\<forall>r \<in> set ?rs. ELV_ON_HASH (rqs s r)"
    using hash_okD [OF ok] by auto
  from elv_rqhash_scan_spec [OF this, of E offset] obtain res t where
    t: "elv_rqhash_scan E offset ?rs s = Some (res, t)" "hash_ok t"
    and res: "case res of
        Some r \<Rightarrow> r \<in> set ?rs \<and> rqs t r = rqs s r \<and>
          rq_mergeable E (rqs s r) \<and> rq_hash_key (rqs s r) = offset
      | None \<Rightarrow> \<forall>r \<in> set ?rs. \<not> (rq_mergeable E (rqs s r) \<and> rq_hash_key (rqs s r) = offset)"
    using ok by blast
  have "elv_rqhash_find E q offset s = Some (res, t)"
    using t(1) e by (simp add: elv_rqhash_find_def)
  moreover have "case res of
       Some r \<Rightarrow> ELV_ON_HASH (rqs t r) \<and> rq_mergeable E (rqs t r) \<and> rq_hash_key (rqs t r) = offset
     | None \<Rightarrow> \<forall>r b. hash_node (rqs s r) = Some (e, b) \<longrightarrow>
                 \<not> (rq_mergeable E (rqs s r) \<and> rq_hash_key (rqs s r) = offset)"
  proof (cases res)
    case None
    have "r \<in> set ?rs" if "hash_node (rqs s r) = Some (e, b)" "rq_mergeable E (rqs s r)"
      "rq_hash_key (rqs s r) = offset" for r b
      using that keyed hash_okD(2) [OF ok] by (auto simp: hash_keyed_def)
    with None res show ?thesis by auto
  next
    case (Some r)
    with res hash_okD [OF ok] show ?thesis by simp
  qed
  ultimately show ?thesis using t(2) by blast
qed


section \<open>Sorted dispatch\<close>

text \<open>
  The order in which the disk arm should meet two requests when it stands at the boundary: first
  the sectors from the boundary up, then those below it, each upwards.
\<close>

definition arm_le :: "sector_t \<Rightarrow> request \<Rightarrow> request \<Rightarrow> bool" where
  "arm_le b x y =
     (if blk_rq_pos x \<ge> b then blk_rq_pos y \<ge> b \<longrightarrow> blk_rq_pos x \<le> blk_rq_pos y
      else blk_rq_pos y < b \<and> blk_rq_pos x \<le> blk_rq_pos y)"

text \<open>Whether the walk may pass a request on account of its kind and its flags.\<close>

definition same_run :: "request \<Rightarrow> request \<Rightarrow> bool" where
  "same_run rq pos \<longleftrightarrow>
     (REQ_DISCARD \<in> cmd_flags rq) = (REQ_DISCARD \<in> cmd_flags pos) \<and>
     rq_data_dir rq = rq_data_dir pos \<and> cmd_flags pos \<inter> {REQ_SOFTBARRIER, REQ_STARTED} = {}"

lemma arm_le_total: "\<not> arm_le b x y \<Longrightarrow> arm_le b y x"
  by (auto simp: arm_le_def split: if_splits)

lemma arm_le_trans: "arm_le b x y \<Longrightarrow> arm_le b y z \<Longrightarrow> arm_le b x z"
  by (auto simp: arm_le_def split: if_splits)

lemma dispatch_sort_stop_iff:
  "dispatch_sort_stop b rq pos \<longleftrightarrow> \<not> same_run rq pos \<or> arm_le b pos rq"
  by (auto simp: dispatch_sort_stop_def same_run_def arm_le_def)

lemma add_after_last_split:
  assumes "\<forall>y \<in> set ys. \<not> P y" and "xs = [] \<or> P (last xs)"
  shows "add_after_last P x (xs @ ys) = xs @ x # ys"
proof -
  have "takeWhile (\<lambda>y. \<not> P y) (rev ys @ rev xs) = rev ys"
    using assms by (cases xs rule: rev_cases) (simp_all add: takeWhile_append)
  moreover have "dropWhile (\<lambda>y. \<not> P y) (rev ys @ rev xs) = rev xs"
    using assms by (cases xs rule: rev_cases) (simp_all add: dropWhile_append)
  ultimately show ?thesis by (simp add: add_after_last_def)
qed

lemma sorted_wrt_insert:
  assumes "sorted_wrt R (xs @ ys)" and "transp R" and "xs = [] \<or> R (last xs) x"
    and "\<forall>y \<in> set ys. R x y"
  shows "sorted_wrt R (xs @ x # ys)"
proof -
  have "R y x" if "y \<in> set xs" for y
  proof -
    from that obtain zs z where xs: "xs = zs @ [z]" by (cases xs rule: rev_cases) auto
    with that assms show ?thesis
      by (auto simp: sorted_wrt_append dest: transpD)
  qed
  with assms show ?thesis by (auto simp: sorted_wrt_append)
qed

lemma elv_dispatch_sort_linked:
  "linked (elv_dispatch_sort q r s) (QHead q) =
     add_after_last (\<lambda>p. dispatch_sort_stop (end_sector (queues s q))
        (rqs (elv_rqhash_del q r s) r) (rqs (elv_rqhash_del q r s) p)) r (linked s (QHead q))"
  by (auto simp: elv_dispatch_sort_def list_insert_def Let_def elv_rqhash_del_def
      raw_elv_rqhash_del_def hash_del_def split: option.split prod.split)

lemma elv_rqhash_del_keeps:
  "same_run (rqs (elv_rqhash_del q r s) x) (rqs (elv_rqhash_del q r s) y) \<longleftrightarrow> same_run (rqs s x) (rqs s y)"
  "arm_le b (rqs (elv_rqhash_del q r s) x) (rqs (elv_rqhash_del q r s) y) \<longleftrightarrow>
     arm_le b (rqs s x) (rqs s y)"
  by (auto simp: elv_rqhash_del_def raw_elv_rqhash_del_def hash_del_def same_run_def arm_le_def
      rq_data_dir_def blk_rq_pos_def split: option.split prod.split)

text \<open>
  C29: \<open>elv_dispatch_sort\<close> keeps the dispatch queue in the order of the disk arm. Let the queue end
  in a run of requests of the new request's kind with no barrier and none started, preceded by
  nothing or by a request that ends the run. If the run is in arm order from \<open>q->end_sector\<close>, then
  afterwards the same prefix is followed by a run that holds the old one and the new request and
  is again in arm order.
\<close>

theorem elv_dispatch_sort_ordered:
  assumes q: "linked s (QHead q) = pre @ run"
    and run: "\<forall>p \<in> set run. same_run (rqs s r) (rqs s p)"
    and pre: "pre = [] \<or> \<not> same_run (rqs s r) (rqs s (last pre))"
    and sorted: "sorted_wrt (\<lambda>x y. arm_le (end_sector (queues s q)) (rqs s x) (rqs s y)) run"
  shows "\<exists>run'. linked (elv_dispatch_sort q r s) (QHead q) = pre @ run' \<and>
    mset run' = add_mset r (mset run) \<and>
    sorted_wrt (\<lambda>x y. arm_le (end_sector (queues s q)) (rqs s x) (rqs s y)) run'"
proof -
  define R where "R = (\<lambda>x y. arm_le (end_sector (queues s q)) (rqs s x) (rqs s y))"
  define P where "P = (\<lambda>p. \<not> same_run (rqs s r) (rqs s p) \<or> R p r)"
  define ys where "ys = rev (takeWhile (\<lambda>y. \<not> P y) (rev run))"
  define xs where "xs = rev (dropWhile (\<lambda>y. \<not> P y) (rev run))"
  have split: "run = xs @ ys"
    by (metis rev_append rev_rev_ident takeWhile_dropWhile_id xs_def ys_def)
  have ys: "\<forall>y \<in> set ys. \<not> P y"
    by (auto simp: ys_def dest: set_takeWhileD)
  have xs: "xs = [] \<or> P (last xs)"
    by (metis (no_types, lifting) hd_dropWhile last_rev rev.simps(1) xs_def)
  have "add_after_last P r ((pre @ xs) @ ys) = (pre @ xs) @ r # ys"
    using ys xs pre by (intro add_after_last_split; cases "xs = []") (auto simp: P_def)
  then have "linked (elv_dispatch_sort q r s) (QHead q) = pre @ xs @ r # ys"
    unfolding elv_dispatch_sort_linked q split
    by (simp add: dispatch_sort_stop_iff elv_rqhash_del_keeps P_def R_def)
  moreover have "mset (xs @ r # ys) = add_mset r (mset run)"
    by (simp add: split)
  moreover have "sorted_wrt R (xs @ r # ys)"
  proof (rule sorted_wrt_insert)
    show "sorted_wrt R (xs @ ys)" using sorted split by (simp add: R_def)
    show "transp R" by (auto simp: transp_def R_def intro: arm_le_trans)
    show "xs = [] \<or> R (last xs) r"
      using xs run split by (auto simp: P_def)
    show "\<forall>y \<in> set ys. R r y"
      using ys by (auto simp: P_def R_def intro: arm_le_total)
  qed
  ultimately show ?thesis unfolding R_def by blast
qed


text \<open>A hash with one request at sector 8 that is 8 sectors long, and a queue of two requests.\<close>

definition hash_one :: kst where
  "hash_one = kst_zero
     \<lparr>queues := (\<lambda>_. queue_zero\<lparr>elevator := Some 7\<rparr>),
      elvqs := (\<lambda>_. eq_zero)(7 := eq_zero\<lparr>eq_hash := (\<lambda>_. [])(16 := [1])\<rparr>),
      rqs := (\<lambda>_. rq_zero)(1 := rq_zero\<lparr>rq_sector := 8, data_len := 4096, cmd_type := 1,
                cmd_flags := {REQ_HASHED}, hash_node := Some (7, 16)\<rparr>),
      linked := (\<lambda>_. [])(QHead 0 := [1])\<rparr>"


theorem elv_dispatch_sort_ordered_witness:
  "\<exists>run'. linked (elv_dispatch_sort 0 2 hash_one) (QHead 0) = run' \<and> mset run' = {#1, 2#}"
  using elv_dispatch_sort_ordered [of hash_one 0 "[]" "[1]" 2]
  by (auto simp: hash_one_def kst_zero_def same_run_def rq_zero_def rq_data_dir_def)

end
