(* ===== verification/Elv_Object.thy ===== *)
theory Elv_Object
  imports Elv_Hash
begin

text \<open>
  The life of an elevator instance, \<open>elevator_put\<close>, \<open>elevator_alloc\<close> and \<open>elevator_release\<close> of
  \<open>src/scheduler/kernel/elevator.c\<close>, and the draining loop that empties a scheduler.
\<close>

section \<open>Memory and reference counts\<close>

text \<open>An allocation gives a new address or fails; which ones fail is given with the state.\<close>

definition kmalloc :: "kst \<Rightarrow> nat option \<times> kst" where
  "kmalloc s = (if alloc_fails s (heap_next s) then None else Some (heap_next s),
                heap_next_update Suc s)"

definition elevator_put :: "etid \<Rightarrow> kst \<Rightarrow> kst" where
  "elevator_put t = module_refs_update (\<lambda>m. m(t := m t - 1))"

definition elevator_alloc :: "qid \<Rightarrow> etid \<Rightarrow> kst \<Rightarrow> eqid option \<times> kst" where
  "elevator_alloc q t s =
     (case kmalloc s of
        (None, s) \<Rightarrow> (None, s)
      | (Some e, s) \<Rightarrow>
          (Some e, locks_update (\<lambda>m. m(EqSysfsMutex e := False))
                     (upd_eq e (\<lambda>_. \<lparr>eq_type = t, elevator_data = None, registered = False,
                                   eq_hash = (\<lambda>_. []), eq_kref = 1\<rparr>) s)))"

definition elevator_release :: "eqid \<Rightarrow> kst \<Rightarrow> kst" where
  "elevator_release e s = emit (EvElv e kfree_elevator) (elevator_put (eq_type (elvqs s e)) s)"

text \<open>Dropping the last reference of the embedded kobject runs \<open>elevator_release\<close>.\<close>

definition kobject_put_elv :: "eqid \<Rightarrow> kst \<Rightarrow> kst" where
  "kobject_put_elv e s =
     (let s = upd_eq e (eq_kref_update (\<lambda>n. n - 1)) s
      in if eq_kref (elvqs s e) = 0 then elevator_release e s else s)"

section \<open>Draining a scheduler\<close>

text \<open>
  \<open>while (dispatch()) ;\<close>: \<open>None\<close> if the scheduler never reports that it is empty, or stops.
\<close>

partial_function (option) drain_loop :: "(kst \<Rightarrow> (bool \<times> kst) option) \<Rightarrow> kst \<Rightarrow> kst option" where
  "drain_loop dispatch s =
     Option.bind (dispatch s) (\<lambda>(more, t). if more then drain_loop dispatch t else Some t)"

text \<open>
  What the block layer relies on when it drains a scheduler: a dispatch call returns; it reports
  failure only when nothing is pending, and then changes nothing; and when it reports success, it
  has moved one pending request to the end of the dispatch queue.
\<close>

locale io_scheduler =
  fixes dispatch :: "kst \<Rightarrow> (bool \<times> kst) option"
    and pending :: "kst \<Rightarrow> rid multiset"
    and dispatched :: "kst \<Rightarrow> rid list"
    and inv :: "kst \<Rightarrow> bool"
  assumes dispatch_empty: "inv s \<Longrightarrow> pending s = {#} \<Longrightarrow> dispatch s = Some (False, s)"
    and dispatch_move: "inv s \<Longrightarrow> pending s \<noteq> {#} \<Longrightarrow>
      \<exists>r t. dispatch s = Some (True, t) \<and> inv t \<and> r \<in># pending s \<and>
        pending t = pending s - {#r#} \<and> dispatched t = dispatched s @ [r]"
begin

lemma drain_moves_all:
  "inv s \<Longrightarrow> \<exists>t rs. drain_loop dispatch s = Some t \<and> inv t \<and> pending t = {#} \<and>
     dispatched t = dispatched s @ rs \<and> mset rs = pending s"
proof (induction "size (pending s)" arbitrary: s)
  case 0
  then have "pending s = {#}" by simp
  with 0 have "drain_loop dispatch s = Some s"
    by (subst drain_loop.simps) (simp add: dispatch_empty)
  with 0 \<open>pending s = {#}\<close> show ?case by (intro exI [of _ s] exI [of _ "[]"]) simp
next
  case (Suc n)
  then have "pending s \<noteq> {#}" by auto
  with Suc.prems obtain r t where t: "dispatch s = Some (True, t)" "inv t" "r \<in># pending s"
    "pending t = pending s - {#r#}" "dispatched t = dispatched s @ [r]"
    using dispatch_move by blast
  have "n = size (pending t)"
    using t(3,4) Suc.hyps(2) by (simp add: size_Diff_singleton)
  from Suc.hyps(1) [OF this t(2)] obtain u rs where
    u: "drain_loop dispatch t = Some u" "inv u" "pending u = {#}"
      "dispatched u = dispatched t @ rs" "mset rs = pending t"
    by blast
  have "drain_loop dispatch s = Some u"
    using t(1) u(1) by (subst drain_loop.simps) simp
  moreover have "mset (r # rs) = pending s"
    using t(3,4) u(5) by simp
  ultimately show ?case
    using u t(5) by (intro exI [of _ u] exI [of _ "r # rs"]) simp
qed

lemma drain_length:
  assumes "inv s"
  obtains t where "drain_loop dispatch s = Some t"
    and "length (dispatched t) = length (dispatched s) + size (pending s)"
  using drain_moves_all [OF assms] by (metis length_append size_mset)

end

end
