(* ===== verification/Elv_Core.thy ===== *)
theory Elv_Core
  imports Blk_Run Elv_Object
begin

text \<open>
  The elevator core that the block layer calls, \<open>src/scheduler/kernel/elevator.c\<close> and the elevator
  part of \<open>src/scheduler/kernel/blk.h\<close>: asking a scheduler whether a bio may be merged, adding,
  requeueing and completing requests, and draining a scheduler. The scheduler of a queue is found
  at every call through \<open>q->elevator->type->ops\<close>; an absent elevator is a \<open>NULL\<close> dereference.
\<close>

section \<open>Hooks\<close>

definition elv_ops :: "kenv \<Rightarrow> qid \<Rightarrow> kst \<Rightarrow> elevator_ops option" where
  "elv_ops E q s = do { e \<leftarrow> elevator (queues s q); Some (et_ops E (eq_type (elvqs s e))) }"

definition elv_iosched_allow_merge :: "kenv \<Rightarrow> rid \<Rightarrow> bid \<Rightarrow> kst \<Rightarrow> bool option" where
  "elv_iosched_allow_merge E r b s = do {
     q \<leftarrow> rq_q (rqs s r);
     ops \<leftarrow> elv_ops E q s;
     (case elevator_allow_merge_fn ops of
        Some f \<Rightarrow> Some (f q r b s)
      | None \<Rightarrow> Some True)
   }"

definition elv_rq_merge_ok :: "kenv \<Rightarrow> rid \<Rightarrow> bid \<Rightarrow> kst \<Rightarrow> bool option" where
  "elv_rq_merge_ok E r b s =
     (if \<not> blk_rq_merge_ok E r b s then Some False
      else do { ok \<leftarrow> elv_iosched_allow_merge E r b s; Some ok })"

definition elv_activate_rq :: "kenv \<Rightarrow> qid \<Rightarrow> rid \<Rightarrow> kst \<Rightarrow> kst option" where
  "elv_activate_rq E q r s = do {
     ops \<leftarrow> elv_ops E q s;
     (case elevator_activate_req_fn ops of Some f \<Rightarrow> f q r s | None \<Rightarrow> Some s)
   }"

definition elv_deactivate_rq :: "kenv \<Rightarrow> qid \<Rightarrow> rid \<Rightarrow> kst \<Rightarrow> kst option" where
  "elv_deactivate_rq E q r s = do {
     ops \<leftarrow> elv_ops E q s;
     (case elevator_deactivate_req_fn ops of Some f \<Rightarrow> f q r s | None \<Rightarrow> Some s)
   }"

definition elv_latter_request :: "kenv \<Rightarrow> qid \<Rightarrow> rid \<Rightarrow> kst \<Rightarrow> rid option option" where
  "elv_latter_request E q r s = do {
     ops \<leftarrow> elv_ops E q s;
     (case elevator_latter_req_fn ops of Some f \<Rightarrow> f q r s | None \<Rightarrow> Some None)
   }"

definition elv_former_request :: "kenv \<Rightarrow> qid \<Rightarrow> rid \<Rightarrow> kst \<Rightarrow> rid option option" where
  "elv_former_request E q r s = do {
     ops \<leftarrow> elv_ops E q s;
     (case elevator_former_req_fn ops of Some f \<Rightarrow> f q r s | None \<Rightarrow> Some None)
   }"

text \<open>The answer of \<open>elv_set_request\<close> is whether it failed.\<close>

definition elv_set_request ::
  "kenv \<Rightarrow> qid \<Rightarrow> rid \<Rightarrow> bid option \<Rightarrow> bool \<Rightarrow> kst \<Rightarrow> (bool \<times> kst) option" where
  "elv_set_request E q r b gf s = do {
     ops \<leftarrow> elv_ops E q s;
     (case elevator_set_req_fn ops of Some f \<Rightarrow> f q r b gf s | None \<Rightarrow> Some (False, s))
   }"

definition elv_put_request :: "kenv \<Rightarrow> qid \<Rightarrow> rid \<Rightarrow> kst \<Rightarrow> kst option" where
  "elv_put_request E q r s = do {
     ops \<leftarrow> elv_ops E q s;
     (case elevator_put_req_fn ops of Some f \<Rightarrow> f r s | None \<Rightarrow> Some s)
   }"

definition elv_may_queue :: "kenv \<Rightarrow> qid \<Rightarrow> rq_flags \<Rightarrow> kst \<Rightarrow> elv_mqueue option" where
  "elv_may_queue E q rw s = do {
     ops \<leftarrow> elv_ops E q s;
     (case elevator_may_queue_fn ops of Some f \<Rightarrow> Some (f q rw s) | None \<Rightarrow> Some ELV_MQUEUE_MAY)
   }"

definition elv_completed_request :: "kenv \<Rightarrow> qid \<Rightarrow> rid \<Rightarrow> kst \<Rightarrow> kst option" where
  "elv_completed_request E q r s =
     (if blk_account_rq (rqs s r) then do {
        let s = upd_q q (in_flight_update (\<lambda>f. f(rq_is_sync (rqs s r) := f (rq_is_sync (rqs s r)) - 1))) s;
        if REQ_SORTED \<in> cmd_flags (rqs s r) then do {
          ops \<leftarrow> elv_ops E q s;
          (case elevator_completed_req_fn ops of Some f \<Rightarrow> f q r s | None \<Rightarrow> Some s)
        } else Some s
      } else Some s)"

section \<open>Merging\<close>

definition elv_merge :: "kenv \<Rightarrow> qid \<Rightarrow> bid \<Rightarrow> kst \<Rightarrow> (elv_merge_ret \<times> rid option \<times> kst) option"
where
  "elv_merge E q b s =
     (if blk_queue_nomerges (queues s q) then Some (ELEVATOR_NO_MERGE, None, s)
      else do {
        hit \<leftarrow> (case last_merge (queues s q) of
                  None \<Rightarrow> Some ELEVATOR_NO_MERGE
                | Some m \<Rightarrow> do {
                    ok \<leftarrow> elv_rq_merge_ok E m b s;
                    Some (if ok then blk_try_merge E m b s else ELEVATOR_NO_MERGE)
                  });
        if hit \<noteq> ELEVATOR_NO_MERGE then Some (hit, last_merge (queues s q), s)
        else if blk_queue_noxmerges (queues s q) then Some (ELEVATOR_NO_MERGE, None, s)
        else do {
          (found, s) \<leftarrow> elv_rqhash_find E q (bi_sector (bios s b)) s;
          ok \<leftarrow> (case found of None \<Rightarrow> Some False | Some r \<Rightarrow> elv_rq_merge_ok E r b s);
          if ok then Some (ELEVATOR_BACK_MERGE, found, s)
          else do {
            ops \<leftarrow> elv_ops E q s;
            (case elevator_merge_fn ops of
               Some f \<Rightarrow> f q b s
             | None \<Rightarrow> Some (ELEVATOR_NO_MERGE, None, s))
          }
        }
      })"

text \<open>
  The loop of \<open>elv_attempt_insert_merge\<close>: as long as the request can be appended to one that ends
  where it begins, it goes on with that one.
\<close>

partial_function (option) insert_merge_loop ::
  "kenv \<Rightarrow> qid \<Rightarrow> rid \<Rightarrow> bool \<Rightarrow> kst \<Rightarrow> (bool \<times> kst) option" where
  "insert_merge_loop E q r ret s =
     Option.bind (elv_rqhash_find E q (blk_rq_pos (rqs s r)) s) (\<lambda>(found, s).
       case found of
         None \<Rightarrow> Some (ret, s)
       | Some f \<Rightarrow> Option.bind (blk_attempt_req_merge E q f r s) (\<lambda>(merged, s).
           if \<not> merged then Some (ret, s) else insert_merge_loop E q f True s))"

definition elv_attempt_insert_merge :: "kenv \<Rightarrow> qid \<Rightarrow> rid \<Rightarrow> kst \<Rightarrow> (bool \<times> kst) option" where
  "elv_attempt_insert_merge E q r s =
     (if blk_queue_nomerges (queues s q) then Some (False, s)
      else do {
        (hit, s) \<leftarrow> (case last_merge (queues s q) of
                       None \<Rightarrow> Some (False, s)
                     | Some m \<Rightarrow> blk_attempt_req_merge E q m r s);
        if hit then Some (True, s)
        else if blk_queue_noxmerges (queues s q) then Some (False, s)
        else insert_merge_loop E q r False s
      })"

definition elv_merged_request :: "kenv \<Rightarrow> qid \<Rightarrow> rid \<Rightarrow> elv_merge_ret \<Rightarrow> kst \<Rightarrow> kst option" where
  "elv_merged_request E q r type s = do {
     ops \<leftarrow> elv_ops E q s;
     s \<leftarrow> (case elevator_merged_fn ops of Some f \<Rightarrow> f q r type s | None \<Rightarrow> Some s);
     s \<leftarrow> (if type = ELEVATOR_BACK_MERGE then elv_rqhash_reposition E q r s else Some s);
     Some (upd_q q (last_merge_update (\<lambda>_. Some r)) s)
   }"

definition elv_merge_requests :: "kenv \<Rightarrow> qid \<Rightarrow> rid \<Rightarrow> rid \<Rightarrow> kst \<Rightarrow> kst option" where
  "elv_merge_requests E q r nxt s = do {
     let next_sorted = (REQ_SORTED \<in> cmd_flags (rqs s nxt));
     ops \<leftarrow> elv_ops E q s;
     s \<leftarrow> (case elevator_merge_req_fn ops of
             Some f \<Rightarrow> if next_sorted then f q r nxt s else Some s
           | None \<Rightarrow> Some s);
     s \<leftarrow> elv_rqhash_reposition E q r s;
     let s = (if next_sorted
              then upd_q q (nr_sorted_update (\<lambda>n. n - 1)) (elv_rqhash_del q nxt s) else s);
     Some (upd_q q (last_merge_update (\<lambda>_. Some r)) s)
   }"

definition elv_bio_merged :: "kenv \<Rightarrow> qid \<Rightarrow> rid \<Rightarrow> bid \<Rightarrow> kst \<Rightarrow> kst option" where
  "elv_bio_merged E q r b s = do {
     ops \<leftarrow> elv_ops E q s;
     (case elevator_bio_merged_fn ops of Some f \<Rightarrow> f q r b s | None \<Rightarrow> Some s)
   }"

section \<open>Runtime power management\<close>

definition blk_pm_requeue_request :: "'a kconf_scheme \<Rightarrow> rid \<Rightarrow> kst \<Rightarrow> kst option" where
  "blk_pm_requeue_request E r s =
     (if CONFIG_PM E then do {
        q \<leftarrow> rq_q (rqs s r);
        Some (if q_dev (queues s q) \<and> REQ_PM \<notin> cmd_flags (rqs s r)
              then upd_q q (nr_pending_update (\<lambda>n. n - 1)) s else s)
      } else Some s)"

definition blk_pm_add_request :: "'a kconf_scheme \<Rightarrow> qid \<Rightarrow> rid \<Rightarrow> kst \<Rightarrow> kst" where
  "blk_pm_add_request E q r s =
     (if CONFIG_PM E \<and> q_dev (queues s q) \<and> REQ_PM \<notin> cmd_flags (rqs s r) then
        (let n = nr_pending (queues s q);
             s = upd_q q (nr_pending_update (\<lambda>n. n + 1)) s
         in if n = 0 \<and> rpm_status (queues s q) \<in> {RPM_SUSPENDED, RPM_SUSPENDING}
            then emit (EvQ q pm_request_resume) s else s)
      else s)"

section \<open>Adding a request\<close>

definition elv_drain_elevator :: "kenv \<Rightarrow> qid \<Rightarrow> kst \<Rightarrow> kst option" where
  "elv_drain_elevator E q s = do {
     s \<leftarrow> drain_loop (\<lambda>s. do { ops \<leftarrow> elv_ops E q s; elevator_dispatch_fn ops q True s }) s;
     Some (if nr_sorted (queues s q) \<noteq> 0 then elv_drain_printed_update (\<lambda>n. n + 1) s else s)
   }"

text \<open>The two sorted insertion points share their code: one tries a merge first.\<close>

definition elv_insert_sort :: "kenv \<Rightarrow> qid \<Rightarrow> rid \<Rightarrow> kst \<Rightarrow> kst option" where
  "elv_insert_sort E q r s = do {
     bug_on (cmd_type (rqs s r) \<noteq> REQ_TYPE_FS);
     let s = set_flag r REQ_SORTED s;
     let s = upd_q q (nr_sorted_update (\<lambda>n. n + 1)) s;
     s \<leftarrow> (if rq_mergeable E (rqs s r) then do {
             s \<leftarrow> elv_rqhash_add E q r s;
             Some (if last_merge (queues s q) = None
                   then upd_q q (last_merge_update (\<lambda>_. Some r)) s else s)
           } else Some s);
     ops \<leftarrow> elv_ops E q s;
     elevator_add_req_fn ops q r s
   }"

definition elv_insert_where :: "'a kconf_scheme \<Rightarrow> qid \<Rightarrow> rid \<Rightarrow> elv_insert \<Rightarrow> kst \<Rightarrow> elv_insert \<times> kst"
where
  "elv_insert_where E q r wh s =
     (if REQ_SOFTBARRIER \<in> cmd_flags (rqs s r) then
        (wh, if cmd_type (rqs s r) = REQ_TYPE_FS then
               upd_q q (boundary_rq_update (\<lambda>_. Some r))
                 (upd_q q (end_sector_update (\<lambda>_. rq_end_sector E (rqs s r))) s)
             else s)
      else if REQ_ELVPRIV \<notin> cmd_flags (rqs s r) \<and>
              (wh = ELEVATOR_INSERT_SORT \<or> wh = ELEVATOR_INSERT_SORT_MERGE)
      then (ELEVATOR_INSERT_BACK, s)
      else (wh, s))"

definition raw_elv_add_request :: "kenv \<Rightarrow> qid \<Rightarrow> rid \<Rightarrow> elv_insert \<Rightarrow> kst \<Rightarrow> kst option" where
  "raw_elv_add_request E q r wh s = do {
     let s = upd_rq r (start_wait_update (\<lambda>_. now_ts s)) s;
     let s = blk_pm_add_request E q r s;
     let s = upd_rq r (rq_q_update (\<lambda>_. Some q)) s;
     let (wh, s) = elv_insert_where E q r wh s;
     (case wh of
        ELEVATOR_INSERT_REQUEUE \<Rightarrow> Some (list_add r (QHead q) (set_flag r REQ_SOFTBARRIER s))
      | ELEVATOR_INSERT_FRONT \<Rightarrow> Some (list_add r (QHead q) (set_flag r REQ_SOFTBARRIER s))
      | ELEVATOR_INSERT_BACK \<Rightarrow> do {
          let s = set_flag r REQ_SOFTBARRIER s;
          s \<leftarrow> elv_drain_elevator E q s;
          let s = list_add_tail r (QHead q) s;
          raw_blk_run_queue E q s
        }
      | ELEVATOR_INSERT_SORT_MERGE \<Rightarrow> do {
          (merged, s) \<leftarrow> elv_attempt_insert_merge E q r s;
          if merged then Some s else elv_insert_sort E q r s
        }
      | ELEVATOR_INSERT_SORT \<Rightarrow> elv_insert_sort E q r s
      | ELEVATOR_INSERT_FLUSH \<Rightarrow> blk_insert_flush E r (set_flag r REQ_SOFTBARRIER s)
      | ELEVATOR_INSERT_BAD n \<Rightarrow> None)
   }"

definition elv_add_request :: "kenv \<Rightarrow> qid \<Rightarrow> rid \<Rightarrow> elv_insert \<Rightarrow> kst \<Rightarrow> kst option" where
  "elv_add_request E q r wh s = do {
     s \<leftarrow> lock_q q s;
     s \<leftarrow> raw_elv_add_request E q r wh s;
     unlock_q q s
   }"

definition elv_requeue_request :: "kenv \<Rightarrow> qid \<Rightarrow> rid \<Rightarrow> kst \<Rightarrow> kst option" where
  "elv_requeue_request E q r s = do {
     s \<leftarrow> (if blk_account_rq (rqs s r) then do {
             let s = upd_q q (in_flight_update
                       (\<lambda>f. f(rq_is_sync (rqs s r) := f (rq_is_sync (rqs s r)) - 1))) s;
             if REQ_SORTED \<in> cmd_flags (rqs s r) then elv_deactivate_rq E q r s else Some s
           } else Some s);
     let s = clear_flag r REQ_STARTED s;
     s \<leftarrow> blk_pm_requeue_request E r s;
     raw_elv_add_request E q r ELEVATOR_INSERT_REQUEUE s
   }"

end
