(* ===== verification/Blk_Account.thy ===== *)
theory Blk_Account
  imports Elv_Core
begin

text \<open>
  The I/O statistics of partitions and the runtime power management of a queue:
  \<open>part_round_stats\<close>, \<open>blk_account_io_*\<close> and \<open>blk_*_runtime_*\<close> of
  \<open>src/scheduler/kernel/blk-core.c\<close>. The counters themselves (\<open>part_stat_add\<close>,
  \<open>part_inc_in_flight\<close>, ...) are macros of another header and parameters of the model.
\<close>

section \<open>Statistics\<close>

definition part_round_stats_single :: "kenv \<Rightarrow> partid \<Rightarrow> u64 \<Rightarrow> kst \<Rightarrow> kst" where
  "part_round_stats_single E p now s =
     (if now = stamp (parts s p) then s
      else let inflight = part_in_flight E p s;
               s' = (if inflight \<noteq> 0 then
                       (let t = raw_part_stat_add E Time_in_queue p
                                  (of_c_int inflight * (now - stamp (parts s p))) s
                        in raw_part_stat_add E Io_ticks p (now - stamp (parts t p)) t)
                     else s)
           in upd_part p (stamp_update (\<lambda>_. now)) s')"

definition part_round_stats :: "kenv \<Rightarrow> partid \<Rightarrow> kst \<Rightarrow> kst" where
  "part_round_stats E p s =
     (let now = jiffies s;
          s = (if partno (parts s p) \<noteq> 0
               then part_round_stats_single E (part0 (disks s (part_disk (parts s p)))) now s else s)
      in part_round_stats_single E p now s)"

definition blk_account_io_completion :: "kenv \<Rightarrow> rid \<Rightarrow> u32 \<Rightarrow> kst \<Rightarrow> kst option" where
  "blk_account_io_completion E r bytes s =
     (if blk_do_io_stat (rqs s r) then do {
        let rw = rq_data_dir (rqs s r);
        p \<leftarrow> rq_part (rqs s r);
        Some (part_stat_add E (Sectors rw) p (ucast (drop_bit 9 bytes)) s)
      } else Some s)"

definition blk_account_io_done :: "kenv \<Rightarrow> rid \<Rightarrow> kst \<Rightarrow> kst option" where
  "blk_account_io_done E r s =
     (if blk_do_io_stat (rqs s r) \<and> REQ_FLUSH_SEQ \<notin> cmd_flags (rqs s r) then do {
        let duration = jiffies s - start_time (rqs s r);
        let rw = rq_data_dir (rqs s r);
        p \<leftarrow> rq_part (rqs s r);
        let s = part_stat_add E (Ios rw) p 1 s;
        let s = part_stat_add E (Ticks rw) p duration s;
        let s = part_round_stats E p s;
        let s = part_dec_in_flight E p rw s;
        Some (hd_struct_put E p s)
      } else Some s)"

definition blk_account_io_start :: "kenv \<Rightarrow> rid \<Rightarrow> bool \<Rightarrow> kst \<Rightarrow> kst option" where
  "blk_account_io_start E r new_io s =
     (let rw = rq_data_dir (rqs s r) in
      if \<not> blk_do_io_stat (rqs s r) then Some s
      else if \<not> new_io then do {
        p \<leftarrow> rq_part (rqs s r);
        Some (part_stat_add E (Merges rw) p 1 s)
      } else do {
        d \<leftarrow> rq_disk (rqs s r);
        let p = disk_map_sector E d (blk_rq_pos (rqs s r)) s;
        let (live, s) = hd_struct_try_get E p s;
        let (p, s) = (if \<not> live then (part0 (disks s d), hd_struct_get E (part0 (disks s d)) s)
                      else (p, s));
        let s = part_round_stats E p s;
        let s = part_inc_in_flight E p rw s;
        Some (upd_rq r (rq_part_update (\<lambda>_. Some p)) s)
      })"

section \<open>Runtime power management\<close>

definition blk_pm_peek_request :: "'a kconf_scheme \<Rightarrow> request_queue \<Rightarrow> request \<Rightarrow> bool" where
  "blk_pm_peek_request E q rq =
     (if CONFIG_PM E \<and> q_dev q \<and>
         (rpm_status q = RPM_SUSPENDED \<or> (rpm_status q \<noteq> RPM_ACTIVE \<and> REQ_PM \<notin> cmd_flags rq))
      then False else True)"

definition blk_pm_put_request :: "'a kconf_scheme \<Rightarrow> rid \<Rightarrow> kst \<Rightarrow> kst option" where
  "blk_pm_put_request E r s =
     (if CONFIG_PM E then do {
        q \<leftarrow> rq_q (rqs s r);
        Some (if q_dev (queues s q) \<and> REQ_PM \<notin> cmd_flags (rqs s r) then
                (let s = upd_q q (nr_pending_update (\<lambda>n. n - 1)) s
                 in if nr_pending (queues s q) = 0 then emit (EvQ q pm_mark_last_busy) s else s)
              else s)
      } else Some s)"

definition blk_pm_runtime_init :: "qid \<Rightarrow> bool \<Rightarrow> kst \<Rightarrow> kst" where
  "blk_pm_runtime_init q dev s =
     emit (EvQ q pm_use_autosuspend) (emit (EvQ q (pm_set_autosuspend_delay (- 1)))
       (upd_q q (rpm_status_update (\<lambda>_. RPM_ACTIVE)) (upd_q q (q_dev_update (\<lambda>_. dev)) s)))"

definition blk_pre_runtime_suspend :: "qid \<Rightarrow> kst \<Rightarrow> (errno option \<times> kst) option" where
  "blk_pre_runtime_suspend q s = do {
     s \<leftarrow> lock_q q s;
     let (ret, s) = (if nr_pending (queues s q) \<noteq> 0
                     then (Some EBUSY, emit (EvQ q pm_mark_last_busy) s)
                     else (None, upd_q q (rpm_status_update (\<lambda>_. RPM_SUSPENDING)) s));
     s \<leftarrow> unlock_q q s;
     Some (ret, s)
   }"

definition blk_post_runtime_suspend :: "qid \<Rightarrow> errno option \<Rightarrow> kst \<Rightarrow> kst option" where
  "blk_post_runtime_suspend q err s = do {
     s \<leftarrow> lock_q q s;
     let s = (if err = None then upd_q q (rpm_status_update (\<lambda>_. RPM_SUSPENDED)) s
              else emit (EvQ q pm_mark_last_busy) (upd_q q (rpm_status_update (\<lambda>_. RPM_ACTIVE)) s));
     unlock_q q s
   }"

definition blk_pre_runtime_resume :: "qid \<Rightarrow> kst \<Rightarrow> kst option" where
  "blk_pre_runtime_resume q s = do {
     s \<leftarrow> lock_q q s;
     let s = upd_q q (rpm_status_update (\<lambda>_. RPM_RESUMING)) s;
     unlock_q q s
   }"

definition blk_post_runtime_resume :: "kenv \<Rightarrow> qid \<Rightarrow> errno option \<Rightarrow> kst \<Rightarrow> kst option" where
  "blk_post_runtime_resume E q err s = do {
     s \<leftarrow> lock_q q s;
     s \<leftarrow> (if err = None then do {
             let s = upd_q q (rpm_status_update (\<lambda>_. RPM_ACTIVE)) s;
             s \<leftarrow> raw_blk_run_queue E q s;
             Some (emit (EvQ q pm_request_autosuspend) (emit (EvQ q pm_mark_last_busy) s))
           } else Some (upd_q q (rpm_status_update (\<lambda>_. RPM_SUSPENDED)) s));
     unlock_q q s
   }"

end
