(* ===== verification/Blk_Alloc.thy ===== *)
theory Blk_Alloc
  imports Blk_Account
begin

text \<open>
  Allocating and releasing requests: batching, the full and congested marks of a request list,
  \<open>__get_request\<close>, \<open>get_request\<close>, \<open>blk_get_request\<close> and the two \<open>put\<close> functions of
  \<open>src/scheduler/kernel/blk-core.c\<close>.
\<close>

section \<open>Batching\<close>

definition BLK_BATCH_TIME :: "'a kconf_scheme \<Rightarrow> u64" where
  "BLK_BATCH_TIME E = HZ E div 50"

definition BLK_BATCH_REQ :: u32 where "BLK_BATCH_REQ = 32"

definition ioc_batching :: "'a kconf_scheme \<Rightarrow> qid \<Rightarrow> iocid option \<Rightarrow> kst \<Rightarrow> bool" where
  "ioc_batching E q ioc s =
     (case ioc of
        None \<Rightarrow> False
      | Some i \<Rightarrow>
          (word_of_int (nr_batch_requests (iocs s i)) = nr_batching (queues s q) \<or>
           (nr_batch_requests (iocs s i) > 0 \<and>
            time_before E (jiffies s) (last_waited (iocs s i) + BLK_BATCH_TIME E))))"

definition ioc_set_batching :: "'a kconf_scheme \<Rightarrow> qid \<Rightarrow> iocid option \<Rightarrow> kst \<Rightarrow> kst" where
  "ioc_set_batching E q ioc s =
     (case ioc of
        None \<Rightarrow> s
      | Some i \<Rightarrow>
          if ioc_batching E q ioc s then s
          else upd_ioc i (last_waited_update (\<lambda>_. jiffies s))
                 (upd_ioc i (nr_batch_requests_update (\<lambda>_. sint (nr_batching (queues s q)))) s))"

section \<open>Releasing\<close>

definition raw_freed_request :: "'a kconf_scheme \<Rightarrow> rlid \<Rightarrow> bool \<Rightarrow> kst \<Rightarrow> kst" where
  "raw_freed_request E l sync s =
     (let q = rl_q (rls s l);
          s = (if count (rls s l) sync < queue_congestion_off_threshold (queues s q)
               then blk_clear_congested E l sync s else s)
      in if of_c_int (count (rls s l) sync + 1) \<le> nr_requests (queues s q)
         then blk_clear_rl_full l sync (emit (EvRl l (wake_up sync)) s)
         else s)"

definition freed_request :: "'a kconf_scheme \<Rightarrow> rlid \<Rightarrow> rq_flags \<Rightarrow> kst \<Rightarrow> kst" where
  "freed_request E l flags s =
     (let q = rl_q (rls s l);
          sync = rw_is_sync flags;
          s = upd_q q (nr_rqs_update (\<lambda>f. f(sync := f sync - 1))) s;
          s = upd_rl l (count_update (\<lambda>f. f(sync := f sync - 1))) s;
          s = (if REQ_ELVPRIV \<in> flags then upd_q q (nr_rqs_elvpriv_update (\<lambda>n. n - 1)) s else s);
          s = raw_freed_request E l sync s
      in if starved (rls s l) (\<not> sync) then raw_freed_request E l (\<not> sync) s else s)"

definition mempool_alloc :: "kst \<Rightarrow> rid option \<times> kst" where
  "mempool_alloc s =
     (if alloc_fails s (heap_next s) then (None, heap_next_update Suc s)
      else (Some (heap_next s),
            rq_allocated_update (insert (heap_next s)) (heap_next_update Suc s)))"

definition mempool_free :: "rid \<Rightarrow> kst \<Rightarrow> kst" where
  "mempool_free r = rq_allocated_update (\<lambda>A. A - {r})"

definition blk_free_request :: "kenv \<Rightarrow> rlid \<Rightarrow> rid \<Rightarrow> kst \<Rightarrow> kst option" where
  "blk_free_request E l r s = do {
     s \<leftarrow> (if REQ_ELVPRIV \<in> cmd_flags (rqs s r) then do {
             s \<leftarrow> elv_put_request E (rl_q (rls s l)) r s;
             Some (case elv_icq (rqs s r) of None \<Rightarrow> s | Some i \<Rightarrow> emit (EvIcq i False) s)
           } else Some s);
     Some (mempool_free r s)
   }"

definition blk_put_rl :: "rlid \<Rightarrow> kst \<Rightarrow> kst" where
  "blk_put_rl l = emit (EvRl l put_rl)"

definition raw_blk_put_request :: "kenv \<Rightarrow> qid option \<Rightarrow> rid \<Rightarrow> kst \<Rightarrow> kst option" where
  "raw_blk_put_request E qo r s =
     (case qo of
        None \<Rightarrow> Some s
      | Some q \<Rightarrow>
          if mq_ops (queues s q) then blk_mq_free_request E r s
          else do {
            s \<leftarrow> blk_pm_put_request E r s;
            s \<leftarrow> elv_completed_request E q r s;
            if REQ_ALLOCED \<in> cmd_flags (rqs s r) then do {
              let flags = cmd_flags (rqs s r);
              l \<leftarrow> rq_rl (rqs s r);
              bug_on (queuelist (rqs s r) \<noteq> None);
              bug_on (ELV_ON_HASH (rqs s r));
              s \<leftarrow> blk_free_request E l r s;
              let s = freed_request E l flags s;
              Some (blk_put_rl l s)
            } else Some s
          })"

definition blk_put_request :: "kenv \<Rightarrow> rid \<Rightarrow> kst \<Rightarrow> kst option" where
  "blk_put_request E r s = do {
     q \<leftarrow> rq_q (rqs s r);
     if mq_ops (queues s q) then blk_mq_free_request E r s
     else do {
       s \<leftarrow> lock_q q s;
       s \<leftarrow> raw_blk_put_request E (Some q) r s;
       unlock_q q s
     }
   }"

section \<open>Allocating\<close>

definition blk_rq_should_init_elevator :: "bid option \<Rightarrow> kst \<Rightarrow> bool" where
  "blk_rq_should_init_elevator b s =
     (case b of
        None \<Rightarrow> True
      | Some b \<Rightarrow> if bi_rw (bios s b) \<inter> {REQ_FLUSH, REQ_FUA} \<noteq> {} then False else True)"

definition rq_ioc :: "'a kconf_scheme \<Rightarrow> bid option \<Rightarrow> kst \<Rightarrow> iocid option" where
  "rq_ioc E b s =
     (case b of
        Some b \<Rightarrow> if CONFIG_BLK_CGROUP E \<and> bi_ioc (bios s b) \<noteq> None then bi_ioc (bios s b) else cur_ioc s
      | None \<Rightarrow> cur_ioc s)"

text \<open>
  The admission test of \<open>__get_request\<close>: \<open>None\<close> when the request list is full for this caller,
  otherwise the state with the full, congested and batching marks updated.
\<close>

definition get_request_admit ::
  "'a kconf_scheme \<Rightarrow> rlid \<Rightarrow> qid \<Rightarrow> bool \<Rightarrow> iocid option \<Rightarrow> elv_mqueue \<Rightarrow> kst \<Rightarrow> kst option" where
  "get_request_admit E l q sync ioc may s =
     (if count (rls s l) sync + 1 \<ge> queue_congestion_on_threshold (queues s q) then do {
        s \<leftarrow> (if of_c_int (count (rls s l) sync + 1) \<ge> nr_requests (queues s q) then
                (if \<not> blk_rl_full (rls s l) sync
                 then Some (blk_set_rl_full l sync (ioc_set_batching E q ioc s))
                 else if may \<noteq> ELV_MQUEUE_MUST \<and> \<not> ioc_batching E q ioc s then None
                 else Some s)
              else Some s);
        Some (blk_set_congested E l sync s)
      } else Some s)"

text \<open>What is left of a request when the elevator part of it could not be set up.\<close>

definition get_request_elvpriv ::
  "kenv \<Rightarrow> qid \<Rightarrow> etid \<Rightarrow> iocid option \<Rightarrow> icqid option \<Rightarrow> rid \<Rightarrow> bid option \<Rightarrow> bool \<Rightarrow> kst \<Rightarrow>
     kst option" where
  "get_request_elvpriv E q et ioc icq r b gf s = do {
     let (icq, s) = (if icq_cache (etypes s et) \<and> icq = None then
                       (case ioc of None \<Rightarrow> (None, s) | Some i \<Rightarrow> ioc_create_icq E i q s)
                     else (icq, s));
     (failed, s) \<leftarrow> (if icq_cache (etypes s et) \<and> icq = None then Some (True, s)
                     else elv_set_request E q r b gf (upd_rq r (elv_icq_update (\<lambda>_. icq)) s));
     if failed then do {
       let s = clear_flag r REQ_ELVPRIV s;
       let s = upd_rq r (elv_icq_update (\<lambda>_. None)) s;
       s \<leftarrow> lock_q q s;
       let s = upd_q q (nr_rqs_elvpriv_update (\<lambda>n. n - 1)) s;
       unlock_q q s
     } else Some (case icq of None \<Rightarrow> s | Some i \<Rightarrow> emit (EvIcq i True) s)
   }"

definition rq_starved :: "rlid \<Rightarrow> bool \<Rightarrow> kst \<Rightarrow> kst" where
  "rq_starved l sync s =
     (if count (rls s l) sync = 0 then upd_rl l (starved_update (\<lambda>f. f(sync := True))) s else s)"

definition raw_get_request ::
  "kenv \<Rightarrow> rlid \<Rightarrow> rq_flags \<Rightarrow> bid option \<Rightarrow> bool \<Rightarrow> kst \<Rightarrow> ((errno + rid) \<times> kst) option" where
  "raw_get_request E l rw_flags b gf s = do {
     let q = rl_q (rls s l);
     e \<leftarrow> elevator (queues s q);
     let et = eq_type (elvqs s e);
     let ioc = rq_ioc E b s;
     let is_sync = rw_is_sync rw_flags;
     if blk_queue_dying (queues s q) then Some (Inl ENODEV, s)
     else do {
       may \<leftarrow> elv_may_queue E q rw_flags s;
       if may = ELV_MQUEUE_NO then Some (Inl ENOMEM, rq_starved l is_sync s)
       else (case get_request_admit E l q is_sync ioc may s of
         None \<Rightarrow> Some (Inl ENOMEM, s)
       | Some s \<Rightarrow>
         if of_c_int (count (rls s l) is_sync) \<ge> 3 * nr_requests (queues s q) div 2
         then Some (Inl ENOMEM, s)
         else do {
           let s = upd_q q (nr_rqs_update (\<lambda>f. f(is_sync := f is_sync + 1))) s;
           let s = upd_rl l (count_update (\<lambda>f. f(is_sync := f is_sync + 1))) s;
           let s = upd_rl l (starved_update (\<lambda>f. f(is_sync := False))) s;
           let (rw_flags, icq, s) =
             (if blk_rq_should_init_elevator b s \<and> \<not> blk_queue_bypass (queues s q) then
                (insert REQ_ELVPRIV rw_flags,
                 (if icq_cache (etypes s et) then
                    (case ioc of None \<Rightarrow> None | Some i \<Rightarrow> ioc_lookup_icq E i q s) else None),
                 upd_q q (nr_rqs_elvpriv_update (\<lambda>n. n + 1)) s)
              else (rw_flags, None, s));
           let rw_flags = (if blk_queue_io_stat (queues s q) then insert REQ_IO_STAT rw_flags
                           else rw_flags);
           s \<leftarrow> unlock_q q s;
           (case mempool_alloc s of
              (None, s) \<Rightarrow> do {
                s \<leftarrow> lock_q q s;
                let s = freed_request E l rw_flags s;
                Some (Inl ENOMEM, rq_starved l is_sync s)
              }
            | (Some r, s) \<Rightarrow> do {
                let s = blk_rq_init q r s;
                let s = upd_rq r (rq_rl_update (\<lambda>_. Some l)) s;
                let s = upd_rq r (cmd_flags_update (\<lambda>_. insert REQ_ALLOCED rw_flags)) s;
                s \<leftarrow> (if REQ_ELVPRIV \<in> rw_flags
                      then get_request_elvpriv E q et ioc icq r b gf s else Some s);
                Some (Inr r,
                  (case ioc of
                     None \<Rightarrow> s
                   | Some i \<Rightarrow>
                       if ioc_batching E q ioc s
                       then upd_ioc i (nr_batch_requests_update (\<lambda>n. n - 1)) s else s))
              })
         })
     }
   }"

text \<open>
  \<open>get_request\<close> sleeps and retries as long as it may wait and the queue is not dying. \<open>io_schedule\<close>
  is what happens while the task sleeps; the wait may never end.
\<close>

partial_function (option) get_request_retry ::
  "kenv \<Rightarrow> qid \<Rightarrow> rlid \<Rightarrow> rq_flags \<Rightarrow> bid option \<Rightarrow> bool \<Rightarrow> kst \<Rightarrow> ((errno + rid) \<times> kst) option" where
  "get_request_retry E q l rw_flags b wait s =
     Option.bind (raw_get_request E l rw_flags b wait s) (\<lambda>(res, s).
       case res of
         Inr r \<Rightarrow> Some (Inr r, s)
       | Inl err \<Rightarrow>
           if \<not> wait \<or> blk_queue_dying (queues s q) then Some (Inl err, blk_put_rl l s)
           else Option.bind (unlock_q q s) (\<lambda>s.
                  let s = io_schedule E s; s = ioc_set_batching E q (cur_ioc s) s
                  in Option.bind (lock_q q s) (\<lambda>s. get_request_retry E q l rw_flags b wait s)))"

definition get_request ::
  "kenv \<Rightarrow> qid \<Rightarrow> rq_flags \<Rightarrow> bid option \<Rightarrow> bool \<Rightarrow> kst \<Rightarrow> ((errno + rid) \<times> kst) option" where
  "get_request E q rw_flags b wait s = get_request_retry E q (blk_get_rl E q b s) rw_flags b wait s"

definition create_io_context :: "kenv \<Rightarrow> kst \<Rightarrow> kst" where
  "create_io_context E s = (if cur_ioc s = None then create_task_io_context E s else s)"

text \<open>\<open>rw\<close> is \<open>READ\<close> or \<open>WRITE\<close>; the model's argument is whether it is \<open>WRITE\<close>.\<close>

definition blk_old_get_request :: "kenv \<Rightarrow> qid \<Rightarrow> bool \<Rightarrow> bool \<Rightarrow> kst \<Rightarrow> ((errno + rid) \<times> kst) option"
where
  "blk_old_get_request E q write wait s = do {
     let s = create_io_context E s;
     s \<leftarrow> lock_q q s;
     (res, s) \<leftarrow> get_request E q (if write then {REQ_WRITE} else {}) None wait s;
     (case res of
        Inl err \<Rightarrow> do { s \<leftarrow> unlock_q q s; Some (Inl err, s) }
      | Inr r \<Rightarrow> Some (Inr r, s))
   }"

definition blk_get_request :: "kenv \<Rightarrow> qid \<Rightarrow> bool \<Rightarrow> bool \<Rightarrow> kst \<Rightarrow> ((errno + rid) \<times> kst) option"
where
  "blk_get_request E q write wait s =
     (if mq_ops (queues s q) then blk_mq_alloc_request E q write s
      else blk_old_get_request E q write wait s)"

definition blk_rq_set_block_pc :: "rid \<Rightarrow> kst \<Rightarrow> kst" where
  "blk_rq_set_block_pc r = upd_rq r (\<lambda>x. x\<lparr>cmd_type := REQ_TYPE_BLOCK_PC, data_len := 0,
     rq_sector := -1, rq_bio := None, biotail := None, cmd_bytes := replicate 16 0\<rparr>)"

text \<open>
  The loop over a chain of bios. The bounce may give another bio; the walk goes on from the
  original one.
\<close>

partial_function (option) append_bios ::
  "kenv \<Rightarrow> qid \<Rightarrow> rid \<Rightarrow> bid option \<Rightarrow> kst \<Rightarrow> (errno option \<times> kst) option" where
  "append_bios E q r b s =
     (case b of
        None \<Rightarrow> Some (None, s)
      | Some b \<Rightarrow>
          (let (bounce, s) = blk_queue_bounce E q b s;
               (err, s) = blk_rq_append_bio E q r bounce s
           in case err of
                Some e \<Rightarrow> Option.bind (blk_put_request E r s) (\<lambda>s. Some (Some e, s))
              | None \<Rightarrow> append_bios E q r (bi_next (bios s b)) s))"

definition blk_make_request :: "kenv \<Rightarrow> qid \<Rightarrow> bid \<Rightarrow> bool \<Rightarrow> kst \<Rightarrow> ((errno + rid) \<times> kst) option"
where
  "blk_make_request E q b wait s = do {
     (res, s) \<leftarrow> blk_get_request E q (REQ_WRITE \<in> bi_rw (bios s b)) wait s;
     (case res of
        Inl err \<Rightarrow> Some (Inl err, s)
      | Inr r \<Rightarrow> do {
          let s = blk_rq_set_block_pc r s;
          (err, s) \<leftarrow> append_bios E q r (Some b) s;
          Some (case err of Some e \<Rightarrow> (Inl e, s) | None \<Rightarrow> (Inr r, s))
        })
   }"

text \<open>Changing the size of a queue re-evaluates the marks of each of its request lists.\<close>

definition update_rl_marks :: "'a kconf_scheme \<Rightarrow> qid \<Rightarrow> rlid \<Rightarrow> bool \<Rightarrow> kst \<Rightarrow> kst" where
  "update_rl_marks E q l sync s =
     (if count (rls s l) sync \<ge> queue_congestion_on_threshold (queues s q)
      then blk_set_congested E l sync s
      else if count (rls s l) sync < queue_congestion_off_threshold (queues s q)
      then blk_clear_congested E l sync s else s)"

definition update_rl_full :: "qid \<Rightarrow> rlid \<Rightarrow> bool \<Rightarrow> kst \<Rightarrow> kst" where
  "update_rl_full q l sync s =
     (if of_c_int (count (rls s l) sync) \<ge> nr_requests (queues s q) then blk_set_rl_full l sync s
      else emit (EvRl l (wake_up sync)) (blk_clear_rl_full l sync s))"

definition blk_update_nr_requests :: "kenv \<Rightarrow> qid \<Rightarrow> u32 \<Rightarrow> kst \<Rightarrow> kst option" where
  "blk_update_nr_requests E q nr s = do {
     s \<leftarrow> lock_q q s;
     let s = upd_q q (nr_requests_update (\<lambda>_. ucast nr)) s;
     let s = blk_queue_congestion_threshold q s;
     let s = fold (\<lambda>l s.
                 update_rl_full q l False (update_rl_full q l True
                   (update_rl_marks E q l False (update_rl_marks E q l True s))))
               (blk_queue_rls E q s) s;
     unlock_q q s
   }"

section \<open>Payloads\<close>

definition blk_add_request_payload :: "rid \<Rightarrow> nat \<Rightarrow> u32 \<Rightarrow> kst \<Rightarrow> kst option" where
  "blk_add_request_payload r page len s = do {
     b \<leftarrow> rq_bio (rqs s r);
     let s = upd_bio b (\<lambda>x. x\<lparr>bi_io_vec := (page, 0, len) # tl (bi_io_vec x), bi_size := len, bi_vcnt := 1,
                              bi_phys_segments := 1\<rparr>) s;
     Some (upd_rq r (\<lambda>x. x\<lparr>data_len := len, resid_len := len, nr_phys_segments := 1\<rparr>) s)
   }"

end
