(* ===== verification/Blk_Complete.thy ===== *)
theory Blk_Complete
  imports Blk_Alloc
begin

text \<open>
  Completing requests: \<open>blk_update_request\<close>, \<open>blk_finish_request\<close> with the measurements of the
  request tracker, and the \<open>blk_end_request*\<close> family of
  \<open>src/scheduler/kernel/blk-core.c\<close>. An \<open>error\<close> argument is \<open>None\<close> for 0. What a bio does when it
  ends is outside; \<open>bio_endio\<close> is recorded in the trace with the error the bio holds.
\<close>

section \<open>Bios of a request\<close>

definition bio_endio :: "bid \<Rightarrow> kst \<Rightarrow> kst" where
  "bio_endio b s = emit (EvBio b (endio (bi_error (bios s b)))) s"

definition req_bio_endio :: "'a kconf_scheme \<Rightarrow> rid \<Rightarrow> bid \<Rightarrow> u32 \<Rightarrow> errno option \<Rightarrow> kst \<Rightarrow> kst" where
  "req_bio_endio E r b nbytes error s =
     (let s = (if error \<noteq> None then upd_bio b (bi_error_update (\<lambda>_. error)) s else s);
          s = (if REQ_QUIET \<in> cmd_flags (rqs s r) then upd_bio b (bi_quiet_update (\<lambda>_. True)) s else s);
          s = upd_bio b (bio_advance E nbytes) s
      in if bi_size (bios s b) = 0 \<and> REQ_FLUSH_SEQ \<notin> cmd_flags (rqs s r) then bio_endio b s else s)"

text \<open>The loop of \<open>blk_update_request\<close>, with the bytes left to complete and those completed.\<close>

partial_function (option) update_bios ::
  "'a kconf_scheme \<Rightarrow> rid \<Rightarrow> errno option \<Rightarrow> u32 \<Rightarrow> u32 \<Rightarrow> kst \<Rightarrow> (u32 \<times> kst) option" where
  "update_bios E r error nr_bytes tot s =
     (case rq_bio (rqs s r) of
        None \<Rightarrow> Some (tot, s)
      | Some b \<Rightarrow>
          (let bio_bytes = min (bi_size (bios s b)) nr_bytes;
               s' = (if bio_bytes = bi_size (bios s b)
                     then upd_rq r (rq_bio_update (\<lambda>_. bi_next (bios s b))) s else s);
               s' = req_bio_endio E r b bio_bytes error s';
               tot = tot + bio_bytes;
               nr_bytes = nr_bytes - bio_bytes
           in if nr_bytes = 0 then Some (tot, s') else update_bios E r error nr_bytes tot s'))"

text \<open>What is done for a request of which something is left; \<open>b\<close> is its first bio now.\<close>

definition update_request_left :: "kenv \<Rightarrow> rid \<Rightarrow> bid \<Rightarrow> u32 \<Rightarrow> kst \<Rightarrow> kst" where
  "update_request_left E r b tot s =
     (let s = upd_rq r (data_len_update (\<lambda>n. n - tot)) s;
          s = (if cmd_type (rqs s r) = REQ_TYPE_FS
               then upd_rq r (rq_sector_update (\<lambda>n. n + scast (signed_drop_bit 9 tot))) s else s);
          s = (if REQ_MIXED_MERGE \<in> cmd_flags (rqs s r)
               then upd_rq r (cmd_flags_update (\<lambda>F. (F - REQ_FAILFAST_MASK E) \<union>
                      (bi_rw (bios s b) \<inter> REQ_FAILFAST_MASK E))) s
               else s);
          s = (if blk_rq_bytes (rqs s r) < blk_rq_cur_bytes E s (rqs s r)
               then upd_rq r (data_len_update (\<lambda>_. blk_rq_cur_bytes E s (rqs s r))) s else s)
      in blk_recalc_rq_segments E r s)"

definition blk_update_request ::
  "kenv \<Rightarrow> rid \<Rightarrow> errno option \<Rightarrow> u32 \<Rightarrow> kst \<Rightarrow> (bool \<times> kst) option" where
  "blk_update_request E r error nr_bytes s =
     (if rq_bio (rqs s r) = None then Some (False, s)
      else do {
        let s = (if cmd_type (rqs s r) = REQ_TYPE_FS then upd_rq r (errors_update (\<lambda>_. 0)) s else s);
        s \<leftarrow> blk_account_io_completion E r nr_bytes s;
        (tot, s) \<leftarrow> update_bios E r error nr_bytes 0 s;
        (case rq_bio (rqs s r) of
           None \<Rightarrow> Some (False, upd_rq r (data_len_update (\<lambda>_. 0)) s)
         | Some b \<Rightarrow> Some (True, update_request_left E r b tot s))
      })"

definition blk_update_bidi_request ::
  "kenv \<Rightarrow> rid \<Rightarrow> errno option \<Rightarrow> u32 \<Rightarrow> u32 \<Rightarrow> kst \<Rightarrow> (bool \<times> kst) option" where
  "blk_update_bidi_request E r error nr_bytes bidi_bytes s = do {
     (more, s) \<leftarrow> blk_update_request E r error nr_bytes s;
     if more then Some (True, s)
     else do {
       (more, s) \<leftarrow> (case next_rq (rqs s r) of
                        None \<Rightarrow> Some (False, s)
                      | Some n \<Rightarrow> blk_update_request E n error bidi_bytes s);
       if more then Some (True, s)
       else do {
         q \<leftarrow> rq_q (rqs s r);
         Some (False, if blk_queue_add_random (queues s q)
                      then emit (EvRq r add_disk_randomness) s else s)
       }
     }
   }"

section \<open>Finishing a request\<close>

definition blk_unprep_request :: "kenv \<Rightarrow> rid \<Rightarrow> kst \<Rightarrow> kst option" where
  "blk_unprep_request E r s = do {
     q \<leftarrow> rq_q (rqs s r);
     let s = clear_flag r REQ_DONTPREP s;
     (case unprep_rq_fn (queues s q) of None \<Rightarrow> Some s | Some f \<Rightarrow> call_unprep_rq_fn E f q r s)
   }"

definition msec_of :: "timespec \<Rightarrow> u64" where
  "msec_of t = tv_sec t * 1000 + word_of_int (c_div (sint (tv_nsec t)) 1000000)"

text \<open>
  The measurements of \<open>blk_finish_request\<close>: the sums over all requests, and one entry of
  \<open>stored_reqs\<close> while recording is on and the table has room.
\<close>

definition req_track :: "'a kconf_scheme \<Rightarrow> rid \<Rightarrow> kst \<Rightarrow> kst" where
  "req_track E r s =
     (let now = now_ts s;
          rq = rqs s r;
          serv = timespec_sub E now (start_service rq);
          wait = timespec_sub E (start_service rq) (start_wait rq);
          s = sum_of_services_update (\<lambda>n. n + msec_of serv) s;
          s = sum_of_waits_update (\<lambda>n. n + msec_of wait) s;
          s = num_requests_seen_update (\<lambda>n. n + 1) s
      in if serv_recording s \<and> unat (requests_seen s) < REQS_RECORDED \<and>
            tv_sec (start_wait rq) \<noteq> 0 \<and> tv_nsec (start_wait rq) \<noteq> 0
         then requests_seen_update (\<lambda>n. n + 1)
                (stored_reqs_update (\<lambda>f. f(unat (requests_seen s) :=
                   \<lparr>rs_pid = cur_pid s, rs_arrival = start_wait rq,
                    rs_serv_start = start_service rq, rs_end = now\<rparr>)) s)
         else s)"

definition blk_delete_timer :: "rid \<Rightarrow> kst \<Rightarrow> kst" where
  "blk_delete_timer r = emit (EvRq r delete_timer)"

definition blk_finish_request :: "kenv \<Rightarrow> rid \<Rightarrow> errno option \<Rightarrow> kst \<Rightarrow> kst option" where
  "blk_finish_request E r error s = do {
     let s = req_track E r s;
     s \<leftarrow> (if REQ_QUEUED \<in> cmd_flags (rqs s r)
           then do { q \<leftarrow> rq_q (rqs s r); Some (blk_queue_end_tag E q r s) } else Some s);
     bug_on (blk_queued_rq (rqs s r));
     s \<leftarrow> (if laptop_mode E \<and> cmd_type (rqs s r) = REQ_TYPE_FS
           then do { q \<leftarrow> rq_q (rqs s r); Some (emit (EvQ q laptop_io_completion) s) } else Some s);
     let s = blk_delete_timer r s;
     s \<leftarrow> (if REQ_DONTPREP \<in> cmd_flags (rqs s r) then blk_unprep_request E r s else Some s);
     s \<leftarrow> blk_account_io_done E r s;
     (case end_io (rqs s r) of
        Some f \<Rightarrow> call_end_io E f r error s
      | None \<Rightarrow> do {
          s \<leftarrow> (case next_rq (rqs s r) of
                  None \<Rightarrow> Some s
                | Some n \<Rightarrow> raw_blk_put_request E (rq_q (rqs s n)) n s);
          raw_blk_put_request E (rq_q (rqs s r)) r s
        })
   }"

definition blk_end_bidi_request ::
  "kenv \<Rightarrow> rid \<Rightarrow> errno option \<Rightarrow> u32 \<Rightarrow> u32 \<Rightarrow> kst \<Rightarrow> (bool \<times> kst) option" where
  "blk_end_bidi_request E r error nr_bytes bidi_bytes s = do {
     let qo = rq_q (rqs s r);
     (more, s) \<leftarrow> blk_update_bidi_request E r error nr_bytes bidi_bytes s;
     if more then Some (True, s)
     else do {
       q \<leftarrow> qo;
       s \<leftarrow> lock_q q s;
       s \<leftarrow> blk_finish_request E r error s;
       s \<leftarrow> unlock_q q s;
       Some (False, s)
     }
   }"

definition raw_blk_end_bidi_request ::
  "kenv \<Rightarrow> rid \<Rightarrow> errno option \<Rightarrow> u32 \<Rightarrow> u32 \<Rightarrow> kst \<Rightarrow> (bool \<times> kst) option" where
  "raw_blk_end_bidi_request E r error nr_bytes bidi_bytes s = do {
     (more, s) \<leftarrow> blk_update_bidi_request E r error nr_bytes bidi_bytes s;
     if more then Some (True, s)
     else do { s \<leftarrow> blk_finish_request E r error s; Some (False, s) }
   }"

definition blk_end_request :: "kenv \<Rightarrow> rid \<Rightarrow> errno option \<Rightarrow> u32 \<Rightarrow> kst \<Rightarrow> (bool \<times> kst) option" where
  "blk_end_request E r error nr_bytes = blk_end_bidi_request E r error nr_bytes 0"

definition raw_blk_end_request :: "kenv \<Rightarrow> rid \<Rightarrow> errno option \<Rightarrow> u32 \<Rightarrow> kst \<Rightarrow> (bool \<times> kst) option" where
  "raw_blk_end_request E r error nr_bytes = raw_blk_end_bidi_request E r error nr_bytes 0"

definition blk_end_request_all :: "kenv \<Rightarrow> rid \<Rightarrow> errno option \<Rightarrow> kst \<Rightarrow> kst option" where
  "blk_end_request_all E r error s = do {
     let bidi_bytes = (case next_rq (rqs s r) of None \<Rightarrow> 0 | Some n \<Rightarrow> blk_rq_bytes (rqs s n));
     (pending, s) \<leftarrow> blk_end_bidi_request E r error (blk_rq_bytes (rqs s r)) bidi_bytes s;
     bug_on pending;
     Some s
   }"

definition raw_blk_end_request_all :: "kenv \<Rightarrow> rid \<Rightarrow> errno option \<Rightarrow> kst \<Rightarrow> kst option" where
  "raw_blk_end_request_all E r error s = do {
     let bidi_bytes = (case next_rq (rqs s r) of None \<Rightarrow> 0 | Some n \<Rightarrow> blk_rq_bytes (rqs s n));
     (pending, s) \<leftarrow> raw_blk_end_bidi_request E r error (blk_rq_bytes (rqs s r)) bidi_bytes s;
     bug_on pending;
     Some s
   }"

definition blk_end_request_cur :: "kenv \<Rightarrow> rid \<Rightarrow> errno option \<Rightarrow> kst \<Rightarrow> (bool \<times> kst) option" where
  "blk_end_request_cur E r error s = blk_end_request E r error (blk_rq_cur_bytes E s (rqs s r)) s"

definition raw_blk_end_request_cur :: "kenv \<Rightarrow> rid \<Rightarrow> errno option \<Rightarrow> kst \<Rightarrow> (bool \<times> kst) option" where
  "raw_blk_end_request_cur E r error s =
     raw_blk_end_request E r error (blk_rq_cur_bytes E s (rqs s r)) s"

section \<open>Failure boundaries\<close>

partial_function (option) err_bytes_walk ::
  "rq_flags \<Rightarrow> bid option \<Rightarrow> u32 \<Rightarrow> kst \<Rightarrow> u32 option" where
  "err_bytes_walk ff b bytes s =
     (case b of
        None \<Rightarrow> Some bytes
      | Some b \<Rightarrow>
          if bi_rw (bios s b) \<inter> ff \<noteq> ff then Some bytes
          else err_bytes_walk ff (bi_next (bios s b)) (bytes + bi_size (bios s b)) s)"

definition blk_rq_err_bytes :: "'a kconf_scheme \<Rightarrow> rid \<Rightarrow> kst \<Rightarrow> u32 option" where
  "blk_rq_err_bytes E r s =
     (if REQ_MIXED_MERGE \<notin> cmd_flags (rqs s r) then Some (blk_rq_bytes (rqs s r))
      else do {
        bytes \<leftarrow> err_bytes_walk (cmd_flags (rqs s r) \<inter> REQ_FAILFAST_MASK E) (rq_bio (rqs s r)) 0 s;
        bug_on (blk_rq_bytes (rqs s r) \<noteq> 0 \<and> bytes = 0);
        Some bytes
      })"

definition blk_end_request_err :: "kenv \<Rightarrow> rid \<Rightarrow> errno option \<Rightarrow> kst \<Rightarrow> (bool \<times> kst) option" where
  "blk_end_request_err E r error s = do {
     n \<leftarrow> blk_rq_err_bytes E r s;
     blk_end_request E r error n s
   }"

definition raw_blk_end_request_err :: "kenv \<Rightarrow> rid \<Rightarrow> errno option \<Rightarrow> kst \<Rightarrow> (bool \<times> kst) option" where
  "raw_blk_end_request_err E r error s = do {
     n \<leftarrow> blk_rq_err_bytes E r s;
     raw_blk_end_request E r error n s
   }"

section \<open>Preparing a request for a bio\<close>

definition blk_rq_bio_prep :: "'a kconf_scheme \<Rightarrow> rid \<Rightarrow> bid \<Rightarrow> kst \<Rightarrow> kst" where
  "blk_rq_bio_prep E r b s =
     (let bio = bios s b;
          s = upd_rq r (cmd_flags_update (\<lambda>F. F \<union> (bi_rw bio \<inter> {REQ_WRITE}))) s;
          s = (if bio_has_data E bio
               then upd_rq r (nr_phys_segments_update (\<lambda>_. bio_phys_segments E bio)) s else s);
          s = upd_rq r (data_len_update (\<lambda>_. bi_size bio)) s;
          s = upd_rq r (biotail_update (\<lambda>_. Some b)) (upd_rq r (rq_bio_update (\<lambda>_. Some b)) s)
      in case bi_bdev bio of
           None \<Rightarrow> s
         | Some d \<Rightarrow> upd_rq r (rq_disk_update (\<lambda>_. Some (bd_disk (bdevs s d)))) s)"

definition init_request_from_bio :: "'a kconf_scheme \<Rightarrow> rid \<Rightarrow> bid \<Rightarrow> kst \<Rightarrow> kst" where
  "init_request_from_bio E r b s =
     (let bio = bios s b;
          s = upd_rq r (cmd_type_update (\<lambda>_. REQ_TYPE_FS)) s;
          s = upd_rq r (cmd_flags_update (\<lambda>F. F \<union> (bi_rw bio \<inter> REQ_COMMON_MASK E))) s;
          s = (if REQ_RAHEAD \<in> bi_rw bio
               then upd_rq r (cmd_flags_update (\<lambda>F. F \<union> REQ_FAILFAST_MASK E)) s else s);
          s = upd_rq r (\<lambda>x. x\<lparr>errors := 0, rq_sector := bi_sector bio, ioprio := bi_prio bio\<rparr>) s
      in blk_rq_bio_prep E r b s)"

section \<open>Requeueing\<close>

definition blk_requeue_request :: "kenv \<Rightarrow> qid \<Rightarrow> rid \<Rightarrow> kst \<Rightarrow> kst option" where
  "blk_requeue_request E q r s = do {
     let s = blk_delete_timer r s;
     let s = blk_clear_rq_complete r s;
     let s = (if REQ_QUEUED \<in> cmd_flags (rqs s r) then blk_queue_end_tag E q r s else s);
     bug_on (blk_queued_rq (rqs s r));
     elv_requeue_request E q r s
   }"

definition add_acct_request :: "kenv \<Rightarrow> qid \<Rightarrow> rid \<Rightarrow> elv_insert \<Rightarrow> kst \<Rightarrow> kst option" where
  "add_acct_request E q r wh s = do {
     s \<leftarrow> blk_account_io_start E r True s;
     raw_elv_add_request E q r wh s
   }"

definition blk_lld_busy :: "kenv \<Rightarrow> qid \<Rightarrow> kst \<Rightarrow> int" where
  "blk_lld_busy E q s =
     (case lld_busy_fn (queues s q) of None \<Rightarrow> 0 | Some f \<Rightarrow> call_lld_busy_fn E f q s)"

end
