(* ===== verification/Blk_Dispatch.thy ===== *)
theory Blk_Dispatch
  imports Blk_Complete
begin

text \<open>
  Handing requests to the driver: \<open>__elv_next_request\<close> of \<open>src/scheduler/kernel/blk.h\<close>, and
  \<open>blk_peek_request\<close>, \<open>blk_dequeue_request\<close>, \<open>blk_start_request\<close> and \<open>blk_fetch_request\<close> of
  \<open>src/scheduler/kernel/blk-core.c\<close>.
\<close>

section \<open>Dequeueing\<close>

definition blk_dequeue_request :: "rid \<Rightarrow> kst \<Rightarrow> kst option" where
  "blk_dequeue_request r s = do {
     bug_on (queuelist (rqs s r) = None);
     bug_on (ELV_ON_HASH (rqs s r));
     let s = list_del_init r s;
     if blk_account_rq (rqs s r) then do {
       q \<leftarrow> rq_q (rqs s r);
       Some (upd_q q (in_flight_update
               (\<lambda>f. f(rq_is_sync (rqs s r) := f (rq_is_sync (rqs s r)) + 1))) s)
     } else Some s
   }"

definition blk_add_timer :: "rid \<Rightarrow> kst \<Rightarrow> kst" where
  "blk_add_timer r = emit (EvRq r add_timer)"

definition blk_start_request :: "rid \<Rightarrow> kst \<Rightarrow> kst option" where
  "blk_start_request r s = do {
     s \<leftarrow> blk_dequeue_request r s;
     let s = upd_rq r (\<lambda>x. x\<lparr>resid_len := blk_rq_bytes x\<rparr>) s;
     let s = (case next_rq (rqs s r) of
                None \<Rightarrow> s
              | Some n \<Rightarrow> upd_rq n (\<lambda>x. x\<lparr>resid_len := blk_rq_bytes x\<rparr>) s);
     bug_on (atom_complete (rqs s r));
     Some (blk_add_timer r s)
   }"

section \<open>The next request\<close>

text \<open>
  \<open>blk_get_flush_queue(q, NULL)\<close>: a multi-queue device would read the missing context.
\<close>

definition blk_get_flush_queue_noctx :: "request_queue \<Rightarrow> blk_flush_queue option option" where
  "blk_get_flush_queue_noctx q = (if \<not> mq_ops q then Some (q_fq q) else None)"

datatype 'a loop_res = Again | Done 'a

text \<open>One round of the loop of \<open>__elv_next_request\<close>.\<close>

definition elv_next_round :: "kenv \<Rightarrow> qid \<Rightarrow> kst \<Rightarrow> (rid option loop_res \<times> kst) option" where
  "elv_next_round E q s =
     (case linked s (QHead q) of
        r # _ \<Rightarrow> Some (Done (Some r), upd_rq r (start_service_update (\<lambda>_. now_ts s)) s)
      | [] \<Rightarrow> do {
          fq \<leftarrow> q_fq (queues s q);
          if flush_pending_idx fq \<noteq> flush_running_idx fq \<and> \<not> queue_flush_queueable (queues s q)
          then Some (Done None, upd_q q (q_fq_update (\<lambda>_. Some (fq\<lparr>flush_queue_delayed := True\<rparr>))) s)
          else if blk_queue_bypass (queues s q) then Some (Done None, s)
          else do {
            ops \<leftarrow> elv_ops E q s;
            (more, s) \<leftarrow> elevator_dispatch_fn ops q False s;
            Some (if more then Again else Done None, s)
          }
        })"

partial_function (option) elv_next_loop :: "kenv \<Rightarrow> qid \<Rightarrow> kst \<Rightarrow> (rid option \<times> kst) option" where
  "elv_next_loop E q s =
     Option.bind (elv_next_round E q s) (\<lambda>(res, s).
       case res of Again \<Rightarrow> elv_next_loop E q s | Done ro \<Rightarrow> Some (ro, s))"

definition raw_elv_next_request :: "kenv \<Rightarrow> qid \<Rightarrow> kst \<Rightarrow> (rid option \<times> kst) option" where
  "raw_elv_next_request E q s = do {
     _ \<leftarrow> blk_get_flush_queue_noctx (queues s q);
     elv_next_loop E q s
   }"

section \<open>Peeking and fetching\<close>

text \<open>
  The first sight of a request by the driver, and the end of the boundary.
\<close>

definition peek_mark_started :: "kenv \<Rightarrow> qid \<Rightarrow> rid \<Rightarrow> kst \<Rightarrow> kst option" where
  "peek_mark_started E q r s =
     (if REQ_STARTED \<notin> cmd_flags (rqs s r) then do {
        s \<leftarrow> (if REQ_SORTED \<in> cmd_flags (rqs s r) then elv_activate_rq E q r s else Some s);
        Some (set_flag r REQ_STARTED s)
      } else Some s)"

definition peek_boundary :: "'a kconf_scheme \<Rightarrow> qid \<Rightarrow> rid \<Rightarrow> kst \<Rightarrow> kst" where
  "peek_boundary E q r s =
     (if boundary_rq (queues s q) = None \<or> boundary_rq (queues s q) = Some r
      then upd_q q (boundary_rq_update (\<lambda>_. None))
             (upd_q q (end_sector_update (\<lambda>_. rq_end_sector E (rqs s r))) s)
      else s)"

text \<open>The call of \<open>prep_rq_fn\<close> and what its answer means.\<close>

definition peek_prep :: "kenv \<Rightarrow> qid \<Rightarrow> rid \<Rightarrow> kst \<Rightarrow> (rid option loop_res \<times> kst) option" where
  "peek_prep E q r s = do {
     let s = (if dma_drain_size (queues s q) \<noteq> 0 \<and> blk_rq_bytes (rqs s r) \<noteq> 0
              then upd_rq r (nr_phys_segments_update (\<lambda>n. n + 1)) s else s);
     (case prep_rq_fn (queues s q) of
        None \<Rightarrow> Some (Done (Some r), s)
      | Some f \<Rightarrow> do {
          (ret, s) \<leftarrow> call_prep_rq_fn E f q r s;
          (case ret of
             BLKPREP_OK \<Rightarrow> Some (Done (Some r), s)
           | BLKPREP_DEFER \<Rightarrow>
               Some (Done None,
                 if dma_drain_size (queues s q) \<noteq> 0 \<and> blk_rq_bytes (rqs s r) \<noteq> 0 \<and>
                    REQ_DONTPREP \<notin> cmd_flags (rqs s r)
                 then upd_rq r (nr_phys_segments_update (\<lambda>n. n - 1)) s else s)
           | BLKPREP_KILL \<Rightarrow> do {
               let s = set_flag r REQ_QUIET s;
               s \<leftarrow> blk_start_request r s;
               s \<leftarrow> raw_blk_end_request_all E r (Some EIO) s;
               Some (Again, s)
             }
           | BLKPREP_BAD n \<Rightarrow> Some (Done (Some r), s))
        })
   }"

definition peek_round :: "kenv \<Rightarrow> qid \<Rightarrow> kst \<Rightarrow> (rid option loop_res \<times> kst) option" where
  "peek_round E q s = do {
     (ro, s) \<leftarrow> raw_elv_next_request E q s;
     (case ro of
        None \<Rightarrow> Some (Done None, s)
      | Some r \<Rightarrow>
          if \<not> blk_pm_peek_request E (queues s q) (rqs s r) then Some (Done None, s)
          else do {
            s \<leftarrow> peek_mark_started E q r s;
            let s = peek_boundary E q r s;
            if REQ_DONTPREP \<in> cmd_flags (rqs s r) then Some (Done (Some r), s)
            else peek_prep E q r s
          })
   }"

partial_function (option) blk_peek_request :: "kenv \<Rightarrow> qid \<Rightarrow> kst \<Rightarrow> (rid option \<times> kst) option" where
  "blk_peek_request E q s =
     Option.bind (peek_round E q s) (\<lambda>(res, s).
       case res of Again \<Rightarrow> blk_peek_request E q s | Done ro \<Rightarrow> Some (ro, s))"

definition blk_fetch_request :: "kenv \<Rightarrow> qid \<Rightarrow> kst \<Rightarrow> (rid option \<times> kst) option" where
  "blk_fetch_request E q s = do {
     (ro, s) \<leftarrow> blk_peek_request E q s;
     (case ro of
        None \<Rightarrow> Some (None, s)
      | Some r \<Rightarrow> do { s \<leftarrow> blk_start_request r s; Some (Some r, s) })
   }"

end
