(* ===== verification/Blk_Queue.thy ===== *)
theory Blk_Queue
  imports Blk_Dispatch
begin

text \<open>
  Draining a queue, bypass mode, and marking a queue dying, of
  \<open>src/scheduler/kernel/blk-core.c\<close>.
\<close>

section \<open>Draining\<close>

text \<open>Whether something is left that the drain has to wait for.\<close>

definition drain_pending :: "qid \<Rightarrow> bool \<Rightarrow> kst \<Rightarrow> bool" where
  "drain_pending q drain_all s =
     (let x = queues s q in
      nr_rqs_elvpriv x \<noteq> 0 \<or> request_fn_active x \<noteq> 0 \<or>
      (drain_all \<and>
        (linked s (QHead q) \<noteq> [] \<or>
         (\<exists>i \<in> {False, True}. nr_rqs x i \<noteq> 0 \<or> in_flight x i \<noteq> 0 \<or>
            (q_fq x \<noteq> None \<and> linked s (FlushQ q i) \<noteq> [])))))"

text \<open>The part of a round of \<open>__blk_drain_queue\<close> that is done with the lock held.\<close>

definition drain_kick :: "kenv \<Rightarrow> qid \<Rightarrow> bool \<Rightarrow> kst \<Rightarrow> kst option" where
  "drain_kick E q drain_all s = do {
     s \<leftarrow> (if elevator (queues s q) \<noteq> None then elv_drain_elevator E q s else Some s);
     let s = blkcg_drain_queue E q s;
     s \<leftarrow> (if linked s (QHead q) \<noteq> [] \<and> request_fn (queues s q) \<noteq> None
           then raw_blk_run_queue E q s else Some s);
     _ \<leftarrow> (if drain_all then blk_get_flush_queue_noctx (queues s q) else Some None);
     Some s
   }"

partial_function (option) drain_queue_loop :: "kenv \<Rightarrow> qid \<Rightarrow> bool \<Rightarrow> kst \<Rightarrow> kst option" where
  "drain_queue_loop E q drain_all s =
     Option.bind (drain_kick E q drain_all s) (\<lambda>s.
       if \<not> drain_pending q drain_all s then Some s
       else Option.bind (unlock_q q s) (\<lambda>s.
              let s = msleep E s
              in Option.bind (lock_q q s) (\<lambda>s. drain_queue_loop E q drain_all s)))"

definition wake_all_rls :: "kenv \<Rightarrow> qid \<Rightarrow> kst \<Rightarrow> kst" where
  "wake_all_rls E q s =
     fold (\<lambda>l s. emit (EvRl l (wake_up_all True)) (emit (EvRl l (wake_up_all False)) s))
       (blk_queue_rls E q s) s"

definition raw_blk_drain_queue :: "kenv \<Rightarrow> qid \<Rightarrow> bool \<Rightarrow> kst \<Rightarrow> kst option" where
  "raw_blk_drain_queue E q drain_all s = do {
     s \<leftarrow> drain_queue_loop E q drain_all s;
     Some (if request_fn (queues s q) \<noteq> None then wake_all_rls E q s else s)
   }"

section \<open>Bypass mode\<close>

definition blk_queue_bypass_start :: "kenv \<Rightarrow> qid \<Rightarrow> kst \<Rightarrow> kst option" where
  "blk_queue_bypass_start E q s = do {
     s \<leftarrow> lock_q q s;
     let s = upd_q q (bypass_depth_update (\<lambda>n. n + 1)) s;
     let s = queue_flag_set QUEUE_FLAG_BYPASS q s;
     s \<leftarrow> unlock_q q s;
     if blk_queue_init_done (queues s q) then do {
       s \<leftarrow> lock_q q s;
       s \<leftarrow> raw_blk_drain_queue E q False s;
       s \<leftarrow> unlock_q q s;
       Some (emit (EvQ q synchronize_rcu) s)
     } else Some s
   }"

definition blk_queue_bypass_end :: "qid \<Rightarrow> kst \<Rightarrow> kst option" where
  "blk_queue_bypass_end q s = do {
     s \<leftarrow> lock_q q s;
     let s = upd_q q (bypass_depth_update (\<lambda>n. n - 1)) s;
     let s = (if bypass_depth (queues s q) = 0 then queue_flag_clear QUEUE_FLAG_BYPASS q s else s);
     unlock_q q s
   }"

definition blk_set_queue_dying :: "kenv \<Rightarrow> qid \<Rightarrow> kst \<Rightarrow> kst" where
  "blk_set_queue_dying E q s =
     (let s = queue_flag_set_unlocked QUEUE_FLAG_DYING q s
      in if mq_ops (queues s q) then blk_mq_wake_waiters E q s
         else fold (\<lambda>l s. if rq_pool (rls s l)
                          then emit (EvRl l (wake_up False)) (emit (EvRl l (wake_up True)) s) else s)
                (blk_queue_rls E q s) s)"

end
