(* ===== verification/Elv_Registry.thy ===== *)
theory Elv_Registry
  imports Blk_Queue
begin

text \<open>
  The list of registered schedulers and the scheduler of a queue: \<open>elevator_find\<close> to
  \<open>elevator_exit\<close>, \<open>elv_register\<close> to \<open>elv_iosched_show\<close> of
  \<open>src/scheduler/kernel/elevator.c\<close>.
\<close>

section \<open>Finding a scheduler\<close>

definition elevator_find :: "string \<Rightarrow> kst \<Rightarrow> etid option" where
  "elevator_find name s = find (\<lambda>e. elevator_name (etypes s e) = name) (elv_list s)"

definition elevator_get :: "kenv \<Rightarrow> string \<Rightarrow> bool \<Rightarrow> kst \<Rightarrow> (etid option \<times> kst) option" where
  "elevator_get E name try_loading s = do {
     s \<leftarrow> spin_lock ElvListLock s;
     let e = elevator_find name s;
     (e, s) \<leftarrow> (if e = None \<and> try_loading then do {
                  s \<leftarrow> spin_unlock ElvListLock s;
                  let s = request_module E (name @ ''-iosched'') s;
                  s \<leftarrow> spin_lock ElvListLock s;
                  Some (elevator_find name s, s)
                } else Some (e, s));
     let (e, s) = (case e of
                     None \<Rightarrow> (None, s)
                   | Some t \<Rightarrow> if try_module_get E t s
                                then (Some t, module_refs_update (\<lambda>m. m(t := m t + 1)) s)
                                else (None, s));
     s \<leftarrow> spin_unlock ElvListLock s;
     Some (e, s)
   }"

definition elevator_setup :: "'a kconf_scheme \<Rightarrow> string \<Rightarrow> kst \<Rightarrow> kst" where
  "elevator_setup E str = chosen_elevator_update (\<lambda>_. take (ELV_NAME_MAX E - 1) str)"

definition load_default_elevator_module :: "kenv \<Rightarrow> kst \<Rightarrow> kst option" where
  "load_default_elevator_module E s =
     (if chosen_elevator s = [] then Some s
      else do {
        s \<leftarrow> spin_lock ElvListLock s;
        let e = elevator_find (chosen_elevator s) s;
        s \<leftarrow> spin_unlock ElvListLock s;
        Some (if e = None then request_module E (chosen_elevator s @ ''-iosched'') s else s)
      })"

section \<open>The scheduler of a queue\<close>

text \<open>
  The choice of \<open>elevator_init\<close>: the given name, or else the boot parameter, the configured
  default and \<open>noop\<close>. \<open>Inl\<close> is the error return for an unknown name; \<open>Inr None\<close> means that not
  even \<open>noop\<close> is there.
\<close>

definition elevator_choose ::
  "kenv \<Rightarrow> string option \<Rightarrow> kst \<Rightarrow> ((errno + etid option) \<times> kst) option" where
  "elevator_choose E name s = do {
     (e, s) \<leftarrow> (case name of None \<Rightarrow> Some (None, s) | Some n \<Rightarrow> elevator_get E n True s);
     if name \<noteq> None \<and> e = None then Some (Inl EINVAL, s)
     else do {
       (e, s) \<leftarrow> (if e = None \<and> chosen_elevator s \<noteq> []
                  then elevator_get E (chosen_elevator s) False s else Some (e, s));
       (e, s) \<leftarrow> (if e = None then do {
                    (e, s) \<leftarrow> elevator_get E (CONFIG_DEFAULT_IOSCHED E) False s;
                    if e = None then elevator_get E ''noop'' False s else Some (e, s)
                  } else Some (e, s));
       Some (Inr e, s)
     }
   }"

definition elevator_init :: "kenv \<Rightarrow> qid \<Rightarrow> string option \<Rightarrow> kst \<Rightarrow> (errno option \<times> kst) option" where
  "elevator_init E q name s =
     (if elevator (queues s q) \<noteq> None then Some (None, s)
      else do {
        let s = upd_list (QHead q) (\<lambda>_. []) s;
        let s = upd_q q (\<lambda>x. x\<lparr>last_merge := None, end_sector := 0, boundary_rq := None\<rparr>) s;
        (c, s) \<leftarrow> elevator_choose E name s;
        (case c of
           Inl err \<Rightarrow> Some (Some err, s)
         | Inr eo \<Rightarrow> do {
             t \<leftarrow> eo;
             (err, s) \<leftarrow> elevator_init_fn (et_ops E t) q t s;
             Some (err, if err \<noteq> None then elevator_put t s else s)
           })
      })"

definition elevator_exit :: "kenv \<Rightarrow> eqid \<Rightarrow> kst \<Rightarrow> kst option" where
  "elevator_exit E e s = do {
     s \<leftarrow> spin_lock (EqSysfsMutex e) s;
     s \<leftarrow> (case elevator_exit_fn (et_ops E (eq_type (elvqs s e))) of
             Some f \<Rightarrow> f e s
           | None \<Rightarrow> Some s);
     s \<leftarrow> spin_unlock (EqSysfsMutex e) s;
     Some (kobject_put_elv e s)
   }"

section \<open>Registering with sysfs\<close>

fun create_attr_files :: "kenv \<Rightarrow> eqid \<Rightarrow> string list \<Rightarrow> kst \<Rightarrow> kst" where
  "create_attr_files E e [] s = s"
| "create_attr_files E e (a # as) s =
     (let (failed, s) = sysfs_create_file E e a s in if failed then s else create_attr_files E e as s)"

definition elv_register_queue :: "kenv \<Rightarrow> qid \<Rightarrow> kst \<Rightarrow> (errno option \<times> kst) option" where
  "elv_register_queue E q s = do {
     e \<leftarrow> elevator (queues s q);
     (case kobject_add_elv E e q s of
        Some err \<Rightarrow> Some (Some err, s)
      | None \<Rightarrow> do {
          let t = eq_type (elvqs s e);
          let s = (case elevator_attrs (etypes s t) of
                     None \<Rightarrow> s | Some as \<Rightarrow> create_attr_files E e as s);
          let s = emit (EvElv e (kobject_uevent True)) s;
          let s = upd_eq e (registered_update (\<lambda>_. True)) s;
          s \<leftarrow> (case elevator_registered_fn (et_ops E t) of Some f \<Rightarrow> f q s | None \<Rightarrow> Some s);
          Some (None, s)
        })
   }"

definition elv_unregister_queue :: "qid option \<Rightarrow> kst \<Rightarrow> kst option" where
  "elv_unregister_queue qo s =
     (case qo of
        None \<Rightarrow> Some s
      | Some q \<Rightarrow> do {
          e \<leftarrow> elevator (queues s q);
          let s = emit (EvElv e (kobject_uevent False)) s;
          let s = emit (EvElv e kobject_del) s;
          Some (upd_eq e (registered_update (\<lambda>_. False)) s)
        })"

section \<open>Registering a scheduler\<close>

text \<open>\<open>icq_min\<close> and \<open>icq_min_align\<close> are the size and the alignment of \<open>struct io_cq\<close>.\<close>

definition elv_register :: "u64 \<Rightarrow> u64 \<Rightarrow> etid \<Rightarrow> kst \<Rightarrow> (errno option \<times> kst) option" where
  "elv_register icq_min icq_min_align t s =
     (let bad = (icq_size (etypes s t) \<noteq> 0 \<and>
                 (icq_size (etypes s t) < icq_min \<or> icq_align (etypes s t) < icq_min_align))
      in if bad then Some (Some EINVAL, s)
         else do {
           let (cache, s) = (if icq_size (etypes s t) \<noteq> 0 then
                               (case kmalloc s of
                                  (None, s) \<Rightarrow>
                                    (False, etypes_update (\<lambda>m. m(t := (m t)\<lparr>icq_cache := False\<rparr>)) s)
                                | (Some _, s) \<Rightarrow>
                                    (True, etypes_update (\<lambda>m. m(t := (m t)\<lparr>icq_cache := True\<rparr>)) s))
                             else (True, s));
           if \<not> cache then Some (Some ENOMEM, s)
           else do {
             s \<leftarrow> spin_lock ElvListLock s;
             if elevator_find (elevator_name (etypes s t)) s \<noteq> None then do {
               s \<leftarrow> spin_unlock ElvListLock s;
               Some (Some EBUSY,
                 if icq_cache (etypes s t) then emit (EvElv t destroy_icq_cache) s else s)
             } else do {
               let s = elv_list_update (\<lambda>l. l @ [t]) s;
               s \<leftarrow> spin_unlock ElvListLock s;
               Some (None, s)
             }
           }
         })"

definition elv_unregister :: "etid \<Rightarrow> kst \<Rightarrow> kst option" where
  "elv_unregister t s = do {
     s \<leftarrow> spin_lock ElvListLock s;
     let s = elv_list_update (filter (\<lambda>x. x \<noteq> t)) s;
     s \<leftarrow> spin_unlock ElvListLock s;
     Some (if icq_cache (etypes s t)
           then etypes_update (\<lambda>m. m(t := (m t)\<lparr>icq_cache := False\<rparr>))
                  (emit (EvElv t destroy_icq_cache) s)
           else s)
   }"

section \<open>Switching schedulers\<close>

text \<open>The labels \<open>fail_register\<close> and \<open>fail_init\<close>: go back to the old scheduler.\<close>

definition elevator_switch_back :: "kenv \<Rightarrow> qid \<Rightarrow> eqid \<Rightarrow> errno \<Rightarrow> kst \<Rightarrow> (errno option \<times> kst) option"
where
  "elevator_switch_back E q old err s = do {
     let s = upd_q q (elevator_update (\<lambda>_. Some old)) s;
     (_, s) \<leftarrow> elv_register_queue E q s;
     s \<leftarrow> blk_queue_bypass_end q s;
     Some (Some err, s)
   }"

definition elevator_switch :: "kenv \<Rightarrow> qid \<Rightarrow> etid \<Rightarrow> kst \<Rightarrow> (errno option \<times> kst) option" where
  "elevator_switch E q new_e s = do {
     old \<leftarrow> elevator (queues s q);
     let was_registered = registered (elvqs s old);
     s \<leftarrow> blk_queue_bypass_start E q s;
     s \<leftarrow> (if was_registered then elv_unregister_queue (Some q) s else Some s);
     s \<leftarrow> lock_q q s;
     let s = ioc_clear_queue E q s;
     s \<leftarrow> unlock_q q s;
     (err, s) \<leftarrow> elevator_init_fn (et_ops E new_e) q new_e s;
     (case err of
        Some er \<Rightarrow> elevator_switch_back E q old er s
      | None \<Rightarrow> do {
          (err, s) \<leftarrow> (if was_registered then elv_register_queue E q s else Some (None, s));
          (case err of
             Some er \<Rightarrow> do {
               e \<leftarrow> elevator (queues s q);
               s \<leftarrow> elevator_exit E e s;
               elevator_switch_back E q old er s
             }
           | None \<Rightarrow> do {
               s \<leftarrow> elevator_exit E old s;
               s \<leftarrow> blk_queue_bypass_end q s;
               Some (None, s)
             })
        })
   }"

text \<open>
  \<open>strlcpy\<close> truncates the name; \<open>strstrip\<close> cuts white space off the end of the buffer and returns
  a pointer behind the white space at its start. The comparison with the current name uses the
  buffer.
\<close>

definition raw_elevator_change :: "kenv \<Rightarrow> qid \<Rightarrow> string \<Rightarrow> kst \<Rightarrow> (errno option \<times> kst) option" where
  "raw_elevator_change E q name s =
     (case elevator (queues s q) of
        None \<Rightarrow> Some (Some ENXIO, s)
      | Some cur \<Rightarrow> do {
          let buf = take (ELV_NAME_MAX E - 1) name;
          let (buf, stripped) = strstrip E buf;
          (eo, s) \<leftarrow> elevator_get E stripped True s;
          (case eo of
             None \<Rightarrow> Some (Some EINVAL, s)
           | Some t \<Rightarrow> do {
               cur \<leftarrow> elevator (queues s q);
               if buf = elevator_name (etypes s (eq_type (elvqs s cur)))
               then Some (None, elevator_put t s)
               else elevator_switch E q t s
             })
        })"

definition elevator_change :: "kenv \<Rightarrow> qid \<Rightarrow> string \<Rightarrow> kst \<Rightarrow> (errno option \<times> kst) option" where
  "elevator_change E q name s = do {
     s \<leftarrow> spin_lock (SysfsMutex q) s;
     (ret, s) \<leftarrow> raw_elevator_change E q name s;
     s \<leftarrow> spin_unlock (SysfsMutex q) s;
     Some (ret, s)
   }"

text \<open>A write to the sysfs attribute returns the number of bytes taken or an error.\<close>

definition elv_iosched_store ::
  "kenv \<Rightarrow> qid \<Rightarrow> string \<Rightarrow> nat \<Rightarrow> kst \<Rightarrow> ((errno + nat) \<times> kst) option" where
  "elv_iosched_store E q name cnt s =
     (if elevator (queues s q) = None then Some (Inr cnt, s)
      else do {
        (ret, s) \<leftarrow> raw_elevator_change E q name s;
        Some (case ret of None \<Rightarrow> (Inr cnt, s) | Some err \<Rightarrow> (Inl err, s))
      })"

definition elv_iosched_show :: "qid \<Rightarrow> kst \<Rightarrow> (string \<times> kst) option" where
  "elv_iosched_show q s =
     (case elevator (queues s q) of
        None \<Rightarrow> Some (''none'' @ [CHR 0x0A], s)
      | Some e \<Rightarrow>
          if \<not> blk_queue_stackable (queues s q) then Some (''none'' @ [CHR 0x0A], s)
          else do {
            let name = elevator_name (etypes s (eq_type (elvqs s e)));
            s \<leftarrow> spin_lock ElvListLock s;
            let out = concat (map (\<lambda>t. let n = elevator_name (etypes s t)
                                       in if name = n then ''['' @ name @ ''] '' else n @ '' '')
                               (elv_list s));
            s \<leftarrow> spin_unlock ElvListLock s;
            Some (out @ [CHR 0x0A], s)
          })"

end
