(* ===== verification/Blk_Lifecycle.thy ===== *)
theory Blk_Lifecycle
  imports Elv_Registry
begin

text \<open>
  Creating and destroying a queue: \<open>blk_cleanup_queue\<close> to \<open>blk_init_allocated_queue\<close> of
  \<open>src/scheduler/kernel/blk-core.c\<close>.
\<close>

section \<open>Request lists\<close>

definition blk_init_rl :: "kenv \<Rightarrow> rlid \<Rightarrow> qid \<Rightarrow> kst \<Rightarrow> errno option \<times> kst" where
  "blk_init_rl E l q s =
     (if rq_pool (rls s l) then (None, s)
      else let s = upd_rl l (\<lambda>x. x\<lparr>rl_q := q, count := (\<lambda>_. 0), starved := (\<lambda>_. False)\<rparr>) s;
               ok = (\<not> mempool_create_fails E s);
               s = upd_rl l (rq_pool_update (\<lambda>_. ok)) s
           in if \<not> rq_pool (rls s l) then (Some ENOMEM, s) else (None, s))"

definition blk_exit_rl :: "rlid \<Rightarrow> kst \<Rightarrow> kst" where
  "blk_exit_rl l s = (if rq_pool (rls s l) then emit (EvRl l destroy_pool) s else s)"

section \<open>Allocation\<close>

definition NUMA_NO_NODE :: int where "NUMA_NO_NODE = -1"

text \<open>
  A failure undoes the steps before it, from the label reached on.
\<close>

definition blk_alloc_queue_node :: "kenv \<Rightarrow> int \<Rightarrow> kst \<Rightarrow> qid option \<times> kst" where
  "blk_alloc_queue_node E node_id s =
     (case kmalloc s of
        (None, s) \<Rightarrow> (None, s)
      | (Some q, s) \<Rightarrow>
          (let s = upd_q q (\<lambda>_. queue_zero) s;
               fail_q = (\<lambda>s. (None, emit (EvQ q free_queue) s));
               fail_id = (\<lambda>s. fail_q (emit (EvQ q ida_remove) s));
               fail_split = (\<lambda>s. fail_id (emit (EvQ q bioset_free) s));
               fail_bdi = (\<lambda>s. fail_split (emit (EvQ q bdi_destroy) s))
           in if ida_simple_get_fails E s then fail_q s
              else if bioset_create_fails E s then fail_id s
              else let s = upd_q q (q_node_update (\<lambda>_. node_id)) s
                   in if bdi_init_fails E s then fail_split s
                      else let s = upd_list (QHead q) (\<lambda>_. []) s;
                               s = upd_q q (queue_lock_update (\<lambda>_. OwnLock q)) s;
                               s = locks_update (\<lambda>m. m(OwnLock q := False, SysfsMutex q := False)) s;
                               s = upd_q q (bypass_depth_update (\<lambda>_. 1)) s;
                               s = queue_flag_set_unlocked QUEUE_FLAG_BYPASS q s
                           in if blkcg_init_queue_fails E q s then fail_bdi s else (Some q, s)))"

definition blk_alloc_queue :: "kenv \<Rightarrow> kst \<Rightarrow> qid option \<times> kst" where
  "blk_alloc_queue E = blk_alloc_queue_node E NUMA_NO_NODE"

section \<open>Destruction\<close>

definition blk_cleanup_queue :: "kenv \<Rightarrow> qid \<Rightarrow> kst \<Rightarrow> kst option" where
  "blk_cleanup_queue E q s = do {
     let l = queue_lock (queues s q);
     s \<leftarrow> spin_lock (SysfsMutex q) s;
     let s = blk_set_queue_dying E q s;
     s \<leftarrow> spin_lock l s;
     let s = upd_q q (bypass_depth_update (\<lambda>n. n + 1)) s;
     let s = queue_flag_set QUEUE_FLAG_BYPASS q s;
     let s = queue_flag_set QUEUE_FLAG_NOMERGES q s;
     let s = queue_flag_set QUEUE_FLAG_NOXMERGES q s;
     let s = queue_flag_set QUEUE_FLAG_DYING q s;
     s \<leftarrow> spin_unlock l s;
     s \<leftarrow> spin_unlock (SysfsMutex q) s;
     s \<leftarrow> (if mq_ops (queues s q) then do {
             s \<leftarrow> blk_mq_freeze_queue E q s;
             spin_lock l s
           } else do {
             s \<leftarrow> spin_lock l s;
             raw_blk_drain_queue E q True s
           });
     let s = queue_flag_set QUEUE_FLAG_DEAD q s;
     s \<leftarrow> spin_unlock l s;
     let s = emit (EvQ q del_laptop_timer) s;
     let s = blk_sync_queue q s;
     s \<leftarrow> (if mq_ops (queues s q) then blk_mq_free_queue E q s else Some s);
     s \<leftarrow> spin_lock l s;
     let s = (if queue_lock (queues s q) \<noteq> OwnLock q
              then upd_q q (queue_lock_update (\<lambda>_. OwnLock q)) s else s);
     s \<leftarrow> spin_unlock l s;
     let s = emit (EvQ q bdi_unregister) s;
     Some (blk_put_queue q s)
   }"

section \<open>Initialisation\<close>

definition blk_init_allocated_queue ::
  "kenv \<Rightarrow> qid option \<Rightarrow> code \<Rightarrow> lockid option \<Rightarrow> kst \<Rightarrow> (qid option \<times> kst) option" where
  "blk_init_allocated_queue E qo rfn l s =
     (case qo of
        None \<Rightarrow> Some (None, s)
      | Some q \<Rightarrow>
          (case blk_alloc_flush_queue E q s of
             (None, s) \<Rightarrow> Some (None, upd_q q (q_fq_update (\<lambda>_. None)) s)
           | (Some fq, s) \<Rightarrow>
               (let s = upd_q q (q_fq_update (\<lambda>_. Some fq)) s;
                    (err, s) = blk_init_rl E (RootRl q) q s
                in if err \<noteq> None then Some (None, emit (EvQ q free_flush_queue) s)
                   else do {
                     let s = upd_q q (\<lambda>x. x\<lparr>request_fn := Some rfn, prep_rq_fn := None,
                                unprep_rq_fn := None,
                                queue_flags := queue_flags x OR QUEUE_FLAG_DEFAULT\<rparr>) s;
                     let s = (case l of None \<Rightarrow> s
                              | Some k \<Rightarrow> upd_q q (queue_lock_update (\<lambda>_. k)) s);
                     let s = blk_queue_make_request E q (blk_queue_bio_code E) s;
                     let s = upd_q q (sg_reserved_size_update (\<lambda>_. 0x7FFFFFFF)) s;
                     s \<leftarrow> spin_lock (SysfsMutex q) s;
                     (err, s) \<leftarrow> elevator_init E q None s;
                     s \<leftarrow> spin_unlock (SysfsMutex q) s;
                     Some (if err \<noteq> None then (None, emit (EvQ q free_flush_queue) s)
                           else (Some q, s))
                   })))"

definition blk_init_queue_node ::
  "kenv \<Rightarrow> code \<Rightarrow> lockid option \<Rightarrow> int \<Rightarrow> kst \<Rightarrow> (qid option \<times> kst) option" where
  "blk_init_queue_node E rfn l node_id s =
     (case blk_alloc_queue_node E node_id s of
        (None, s) \<Rightarrow> Some (None, s)
      | (Some uninit_q, s) \<Rightarrow> do {
          (q, s) \<leftarrow> blk_init_allocated_queue E (Some uninit_q) rfn l s;
          s \<leftarrow> (if q = None then blk_cleanup_queue E uninit_q s else Some s);
          Some (q, s)
        })"

definition blk_init_queue :: "kenv \<Rightarrow> code \<Rightarrow> lockid option \<Rightarrow> kst \<Rightarrow> (qid option \<times> kst) option" where
  "blk_init_queue E rfn l = blk_init_queue_node E rfn l NUMA_NO_NODE"

end
