(* ===== verification/Req_Track.thy ===== *)
theory Req_Track
  imports Blk_Complete
begin

text \<open>
  The request tracker: the system calls of \<open>src/scheduler/req_track.c\<close> that switch the recording in
  \<open>blk_finish_request\<close> on and off and copy its table out, and the program
  \<open>src/scheduler/tester.c\<close> that uses them.
\<close>

section \<open>The system calls\<close>

definition start_req_track :: "kst \<Rightarrow> int \<times> kst" where
  "start_req_track s =
     (0, serv_recording_update (\<lambda>_. True) (requests_seen_update (\<lambda>_. 0) s))"

text \<open>
  \<open>get_requests_seen\<close> copies \<open>sizeof(int)\<close> bytes to the address it is given. The caller's variable
  is a cell of 64 bits on a little-endian machine, of which the copy replaces the low half; when
  the address is bad, nothing is copied and the call returns 0 all the same.
\<close>

definition get_requests_seen :: "bool \<Rightarrow> u64 \<Rightarrow> kst \<Rightarrow> int \<times> u64" where
  "get_requests_seen fault cell s =
     (0, if fault then cell else (cell AND NOT (mask 32)) OR ucast (requests_seen s))"

text \<open>
  \<open>end_req_track\<close> copies the recorded entries to an array of the caller; \<open>room\<close> is the number of
  entries that can be written there.
\<close>

definition end_req_track :: "nat \<Rightarrow> (nat \<Rightarrow> req_stuff) \<Rightarrow> kst \<Rightarrow> int \<times> (nat \<Rightarrow> req_stuff) \<times> kst" where
  "end_req_track room data s =
     (let s = serv_recording_update (\<lambda>_. False) s
      in (0, (\<lambda>i. if i < min room (unat (requests_seen s)) then stored_reqs s i else data i), s))"

section \<open>The tester\<close>

definition REQS_REQUESTED :: int where "REQS_REQUESTED = 19500"

definition get_ms :: "timespec \<Rightarrow> u64" where
  "get_ms t = tv_sec t * 1000 + word_of_int (c_div (sint (tv_nsec t)) 1000000)"

text \<open>
  The polling loop; \<open>others\<close> is what the rest of the system does between two polls. It starts the
  recording a second time once more than 500 requests were seen.
\<close>

partial_function (option) tester_poll ::
  "(kst \<Rightarrow> kst) \<Rightarrow> bool \<Rightarrow> u64 \<Rightarrow> kst \<Rightarrow> (u64 \<times> kst) option" where
  "tester_poll others started reqs s =
     (let reqs = snd (get_requests_seen False reqs s);
          again = (\<not> started \<and> sint reqs > 500);
          s = (if again then snd (start_req_track s) else s)
      in if sint reqs < REQS_REQUESTED then tester_poll others (started \<or> again) reqs (others s)
         else Some (reqs, s))"

text \<open>The lines printed: every line shows the process of the first entry.\<close>

definition tester_lines :: "(nat \<Rightarrow> req_stuff) \<Rightarrow> (int \<times> u64 \<times> u64 \<times> u64) list" where
  "tester_lines data =
     map (\<lambda>i. (rs_pid (data 0), get_ms (rs_arrival (data i)), get_ms (rs_serv_start (data i)),
               get_ms (rs_end (data i)))) [0..<nat REQS_REQUESTED]"

definition tester_main ::
  "(kst \<Rightarrow> kst) \<Rightarrow> u64 \<Rightarrow> (nat \<Rightarrow> req_stuff) \<Rightarrow> kst \<Rightarrow> ((int \<times> u64 \<times> u64 \<times> u64) list \<times> kst) option"
where
  "tester_main others reqs data s = do {
     let s = snd (start_req_track s);
     (_, s) \<leftarrow> tester_poll others False reqs s;
     let (_, data, s) = end_req_track (nat REQS_REQUESTED) data s;
     Some (tester_lines data, s)
   }"

section \<open>What is recorded\<close>

text \<open>A request is recorded if both parts of its arrival time are non-zero.\<close>

definition tracked :: "kst \<Rightarrow> rid \<Rightarrow> bool" where
  "tracked s r \<longleftrightarrow> tv_sec (start_wait (rqs s r)) \<noteq> 0 \<and> tv_nsec (start_wait (rqs s r)) \<noteq> 0"

definition stuff_of :: "kst \<Rightarrow> rid \<times> timespec \<Rightarrow> req_stuff" where
  "stuff_of s = (\<lambda>(r, t). \<lparr>rs_pid = cur_pid s, rs_arrival = start_wait (rqs s r),
     rs_serv_start = start_service (rqs s r), rs_end = t\<rparr>)"

text \<open>The measurements of a sequence of requests, each finished at a time of its own.\<close>

fun finish_all :: "'a kconf_scheme \<Rightarrow> (rid \<times> timespec) list \<Rightarrow> kst \<Rightarrow> kst" where
  "finish_all E [] s = s"
| "finish_all E ((r, t) # es) s = finish_all E es (req_track E r (now_ts_update (\<lambda>_. t) s))"

lemma req_track_frame [simp]:
  "rqs (req_track E r s) = rqs s" "cur_pid (req_track E r s) = cur_pid s"
  "serv_recording (req_track E r s) = serv_recording s"
  by (simp_all add: req_track_def Let_def)

lemma req_track_seen:
  assumes "serv_recording s" and "unat (requests_seen s) \<le> REQS_RECORDED"
  shows "unat (requests_seen (req_track E r s)) =
      (if tracked s r \<and> unat (requests_seen s) < REQS_RECORDED
       then Suc (unat (requests_seen s)) else unat (requests_seen s))"
    and "stored_reqs (req_track E r s) =
      (if tracked s r \<and> unat (requests_seen s) < REQS_RECORDED
       then (stored_reqs s)(unat (requests_seen s) := stuff_of s (r, now_ts s)) else stored_reqs s)"
proof -
  have "unat (requests_seen s + 1) = Suc (unat (requests_seen s))"
    using assms(2) unat_add_lem [of "requests_seen s" 1] by (simp add: REQS_RECORDED_def)
  then show "unat (requests_seen (req_track E r s)) =
      (if tracked s r \<and> unat (requests_seen s) < REQS_RECORDED
       then Suc (unat (requests_seen s)) else unat (requests_seen s))"
    using assms by (simp add: req_track_def Let_def tracked_def add.commute)
  show "stored_reqs (req_track E r s) =
      (if tracked s r \<and> unat (requests_seen s) < REQS_RECORDED
       then (stored_reqs s)(unat (requests_seen s) := stuff_of s (r, now_ts s)) else stored_reqs s)"
    using assms by (simp add: req_track_def Let_def tracked_def stuff_of_def)
qed

definition recs_of :: "kst \<Rightarrow> (rid \<times> timespec) list \<Rightarrow> req_stuff list" where
  "recs_of s es = map (stuff_of s) (filter (\<lambda>(r, _). tracked s r) es)"

lemma finish_all_table:
  assumes "serv_recording s" and "unat (requests_seen s) \<le> REQS_RECORDED"
    and "t = finish_all E es s"
  shows "unat (requests_seen t) = min REQS_RECORDED (unat (requests_seen s) + length (recs_of s es)) \<and>
    (\<forall>i < unat (requests_seen s). stored_reqs t i = stored_reqs s i) \<and>
    (\<forall>i. unat (requests_seen s) \<le> i \<longrightarrow> i < unat (requests_seen t) \<longrightarrow>
       stored_reqs t i = recs_of s es ! (i - unat (requests_seen s)))"
  using assms
proof (induction es arbitrary: s)
  case Nil
  then show ?case by (simp add: recs_of_def)
next
  case (Cons e es)
  obtain r ts where e: "e = (r, ts)" by (cases e)
  let ?s = "now_ts_update (\<lambda>_. ts) s"
  let ?u = "req_track E r ?s"
  have le: "unat (requests_seen ?s) \<le> REQS_RECORDED" and rec: "serv_recording ?s"
    using Cons.prems(1,2) by simp_all
  note seen = req_track_seen [OF rec le, of E r]
  have tr: "tracked ?s = tracked s" "stuff_of ?s = stuff_of s" "recs_of ?u es = recs_of s es"
    by (auto simp: tracked_def stuff_of_def recs_of_def fun_eq_iff)
  have le': "unat (requests_seen ?u) \<le> REQS_RECORDED"
    using le unfolding seen(1) by auto
  have t: "t = finish_all E es ?u" using Cons.prems(3) e by simp
  have rec': "serv_recording ?u" using rec by simp
  note IH = Cons.IH [OF rec' le' t, unfolded tr]
  show ?case
  proof (cases "tracked s r \<and> unat (requests_seen s) < REQS_RECORDED")
    case True
    have n: "unat (requests_seen ?u) = Suc (unat (requests_seen s))"
      and st: "stored_reqs ?u = (stored_reqs s)(unat (requests_seen s) := stuff_of s (r, ts))"
      using True seen by (simp_all add: tr)
    have "recs_of s (e # es) = stuff_of s (r, ts) # recs_of s es"
      using True by (simp add: e recs_of_def)
    then show ?thesis
      using IH by (auto simp: n st nth_Cons' le_Suc_eq Suc_le_eq)
  next
    case False
    have n: "unat (requests_seen ?u) = unat (requests_seen s)"
      and st: "stored_reqs ?u = stored_reqs s"
      using False seen by (auto simp: tr)
    show ?thesis
    proof (cases "tracked s r")
      case True
      then have "unat (requests_seen s) = REQS_RECORDED"
        using False Cons.prems(2) by simp
      then show ?thesis using IH by (simp add: n st)
    next
      case False
      then have "recs_of s (e # es) = recs_of s es" by (simp add: e recs_of_def)
      then show ?thesis using IH by (simp add: n st)
    qed
  qed
qed

text \<open>
  C32: the tracker records exactly the first 19500 requests. After \<open>start_req_track\<close>, whatever
  requests finish, \<open>end_req_track\<close> returns 0 and hands an array that has room for the table the
  measurements of the requests whose arrival time has no zero part, in the order in which they
  finished and up to the capacity of the table; the count that \<open>get_requests_seen\<close> shows is the
  number of entries, and the rest of the array is left alone.
\<close>

theorem req_track_table:
  assumes "finish_all E es (snd (start_req_track s)) = t"
    and "end_req_track REQS_RECORDED data t = (ret, data', u)"
    and "recs = map (stuff_of s) (filter (\<lambda>(r, _). tracked s r) es)"
  shows "ret = 0 \<and> \<not> serv_recording u \<and>
    unat (requests_seen u) = min REQS_RECORDED (length recs) \<and>
    map data' [0..<unat (requests_seen u)] = take REQS_RECORDED recs \<and>
    (\<forall>i \<ge> unat (requests_seen u). data' i = data i)"
proof -
  let ?s = "snd (start_req_track s)"
  have tr: "recs_of ?s es = recs"
    unfolding assms(3)
    by (auto simp: start_req_track_def tracked_def stuff_of_def recs_of_def fun_eq_iff)
  have u: "requests_seen u = requests_seen t" "ret = 0" "\<not> serv_recording u"
    and data': "data' = (\<lambda>i. if i < min REQS_RECORDED (unat (requests_seen t)) then stored_reqs t i
      else data i)"
    using assms(2) by (auto simp: end_req_track_def Let_def)
  have tab: "unat (requests_seen t) = min REQS_RECORDED (length recs)"
    "\<forall>i < unat (requests_seen t). stored_reqs t i = recs ! i"
    using finish_all_table [of ?s t E es] assms(1) unfolding tr
    by (simp_all add: start_req_track_def)
  then have "map data' [0..<unat (requests_seen t)] = take REQS_RECORDED recs"
    unfolding data' by (intro nth_equalityI) auto
  then show ?thesis
    using tab u by (auto simp: data')
qed

definition track_one :: kst where
  "track_one =
     kst_zero\<lparr>rqs := (\<lambda>_. rq_zero)(2 := rq_zero\<lparr>start_wait := \<lparr>tv_sec = 5, tv_nsec = 7\<rparr>\<rparr>)\<rparr>"

theorem req_track_table_witness:
  "\<exists>u d. end_req_track REQS_RECORDED (\<lambda>_. stuff_zero)
      (finish_all env_zero [(1, ts_zero), (2, ts_zero)] (snd (start_req_track track_one)))
     = (0, d, u) \<and> requests_seen u = 1 \<and> d 0 = stuff_of track_one (2, ts_zero)"
proof -
  let ?es = "[(1, ts_zero), (2, ts_zero)]"
  let ?t = "finish_all env_zero ?es (snd (start_req_track track_one))"
  obtain ret d u where r: "end_req_track REQS_RECORDED (\<lambda>_. stuff_zero) ?t = (ret, d, u)"
    by (metis prod_cases3)
  have "\<not> tracked track_one 1" and "tracked track_one 2"
    by (simp_all add: tracked_def track_one_def rq_zero_def ts_zero_def)
  then have recs: "[stuff_of track_one (2, ts_zero)] =
      map (stuff_of track_one) (filter (\<lambda>(r, _). tracked track_one r) ?es)"
    by simp
  note facts = req_track_table [OF refl r recs]
  have 1: "unat (requests_seen u) = 1" and ret: "ret = 0"
    using facts by (simp_all add: REQS_RECORDED_def)
  then have "requests_seen u = 1" by (metis unat_1 word_unat_eq_iff)
  moreover have "d 0 = stuff_of track_one (2, ts_zero)"
    using facts unfolding 1 by (simp add: REQS_RECORDED_def)
  ultimately show ?thesis using r ret by blast
qed

text \<open>
  What the caller of \<open>get_requests_seen\<close> reads. The call replaces the low half of the
  variable: a caller with an 8-byte variable reads the count exactly if the high half of the
  variable was zero before the call, and the high half is never changed.
\<close>

theorem get_requests_seen_low_half:
  "snd (get_requests_seen False cell s) = ucast (requests_seen s) \<longleftrightarrow> drop_bit 32 cell = 0"
proof -
  have low: "drop_bit 32 (ucast (requests_seen s) :: u64) = 0"
  proof (rule bit_word_eqI)
    fix i
    show "bit (drop_bit 32 (ucast (requests_seen s) :: u64)) i = bit (0 :: u64) i"
      by (auto simp: bit_drop_bit_eq bit_ucast_iff dest: bit_imp_le_length)
  qed
  have high: "drop_bit 32 (snd (get_requests_seen False cell s)) = drop_bit 32 cell"
  proof (rule bit_word_eqI)
    fix i
    have "\<not> bit (ucast (requests_seen s) :: u64) (32 + i)"
      by (auto simp: bit_ucast_iff dest: bit_imp_le_length)
    moreover assume "i < LENGTH(64)"
    ultimately show "bit (drop_bit 32 (snd (get_requests_seen False cell s))) i = bit (drop_bit 32 cell) i"
      by (auto simp: get_requests_seen_def bit_drop_bit_eq bit_or_iff bit_and_iff bit_not_iff bit_mask_iff
          dest: bit_imp_le_length)
  qed
  have "cell AND NOT (mask 32) = 0" if "drop_bit 32 cell = 0"
  proof (rule bit_word_eqI)
    fix i
    have "bit (drop_bit 32 cell) (i - 32) = bit (0 :: u64) (i - 32)"
      using that by simp
    then show "bit (cell AND NOT (mask 32)) i = bit (0 :: u64) i"
      by (cases "i < 32") (auto simp: bit_and_iff bit_not_iff bit_mask_iff bit_drop_bit_eq)
  qed
  then have "drop_bit 32 cell = 0 \<Longrightarrow> snd (get_requests_seen False cell s) = ucast (requests_seen s)"
    by (simp add: get_requests_seen_def)
  then show ?thesis using low high by metis
qed

end
