(* ===== verification/Greedy.thy ===== *)
theory Greedy
  imports Elv_Object Blk_Zero
begin

text \<open>
  The greedy scheduler, \<open>src/scheduler/kernel/greedy-iosched.c\<close>. The lists \<open>gd->higher\<close> and
  \<open>gd->lower\<close> are \<open>GHigher g\<close> and \<open>GLower g\<close> of the linked lists, \<open>gd->prev_pos\<close> is a field of
  \<^typ>\<open>greedy_data\<close>.
\<close>

section \<open>The operations\<close>

definition greedy_data_of :: "qid \<Rightarrow> kst \<Rightarrow> gdid option" where
  "greedy_data_of q s = do { e \<leftarrow> elevator (queues s q); elevator_data (elvqs s e) }"

definition greedy_merged_requests :: "qid \<Rightarrow> rid \<Rightarrow> rid \<Rightarrow> kst \<Rightarrow> kst option" where
  "greedy_merged_requests q rq nxt s = Some (list_del_init nxt s)"

text \<open>
  The choice of \<open>greedy_dispatch\<close>: the first request of the upper list, unless the first one of
  the lower list is nearer; the two distances are \<open>int\<close>s, so they are truncated to 32 bits.
\<close>

definition greedy_target :: "gdid \<Rightarrow> kst \<Rightarrow> rid option" where
  "greedy_target g s =
     (case linked s (GHigher g) of
        target # _ \<Rightarrow>
          (case linked s (GLower g) of
             lower # _ \<Rightarrow>
               (let up_dist = to_int (blk_rq_pos (rqs s target) - prev_pos (gds s g));
                    down_dist = to_int (prev_pos (gds s g) - blk_rq_pos (rqs s lower))
                in if up_dist > down_dist then Some lower else Some target)
           | [] \<Rightarrow> Some target)
      | [] \<Rightarrow>
          (case linked s (GLower g) of
             target # _ \<Rightarrow> Some target
           | [] \<Rightarrow> None))"

definition greedy_dispatch :: "'a kconf_scheme \<Rightarrow> qid \<Rightarrow> bool \<Rightarrow> kst \<Rightarrow> (bool \<times> kst) option" where
  "greedy_dispatch E q force s = do {
     g \<leftarrow> greedy_data_of q s;
     (case greedy_target g s of
        None \<Rightarrow> Some (False, s)
      | Some target \<Rightarrow>
          (let s = list_del_init target s;
               s = elv_dispatch_add_tail E q target s;
               s = upd_gd g (prev_pos_update (\<lambda>_. rq_end_sector E (rqs s target))) s
           in Some (True, s)))
   }"

definition add_to_higher :: "rid \<Rightarrow> gdid \<Rightarrow> kst \<Rightarrow> kst" where
  "add_to_higher r g s =
     list_insert (add_after_first (\<lambda>p. blk_rq_pos (rqs s p) > blk_rq_pos (rqs s r)) r)
       r (GHigher g) s"

definition add_to_lower :: "rid \<Rightarrow> gdid \<Rightarrow> kst \<Rightarrow> kst" where
  "add_to_lower r g s =
     list_insert (add_after_first (\<lambda>p. blk_rq_pos (rqs s p) < blk_rq_pos (rqs s r)) r)
       r (GLower g) s"

definition greedy_add_request :: "qid \<Rightarrow> rid \<Rightarrow> kst \<Rightarrow> kst option" where
  "greedy_add_request q r s = do {
     g \<leftarrow> greedy_data_of q s;
     Some (if prev_pos (gds s g) > blk_rq_pos (rqs s r) then add_to_lower r g s
           else add_to_higher r g s)
   }"

text \<open>
  The neighbour of a request on its list. At the end of one of the two scheduler lists it is
  \<open>NULL\<close>; an unlinked request is its own neighbour; and at the end of any other list the code
  takes the list head for a request.
\<close>

fun list_neighbour :: "rid \<Rightarrow> rid list \<Rightarrow> rid option" where
  "list_neighbour r (x # y # ys) = (if y = r then Some x else list_neighbour r (y # ys))"
| "list_neighbour r xs = None"

definition greedy_neighbour :: "(rid list \<Rightarrow> rid list) \<Rightarrow> qid \<Rightarrow> rid \<Rightarrow> kst \<Rightarrow> rid option option" where
  "greedy_neighbour dir q r s = do {
     g \<leftarrow> greedy_data_of q s;
     (case queuelist (rqs s r) of
        None \<Rightarrow> Some (Some r)
      | Some l \<Rightarrow>
          (case list_neighbour r (dir (linked s l)) of
             Some p \<Rightarrow> Some (Some p)
           | None \<Rightarrow> (if l = GHigher g \<or> l = GLower g then Some None else None)))
   }"

definition greedy_former_request :: "qid \<Rightarrow> rid \<Rightarrow> kst \<Rightarrow> rid option option" where
  "greedy_former_request = greedy_neighbour (\<lambda>xs. xs)"

definition greedy_latter_request :: "qid \<Rightarrow> rid \<Rightarrow> kst \<Rightarrow> rid option option" where
  "greedy_latter_request = greedy_neighbour rev"

definition greedy_init_queue :: "qid \<Rightarrow> etid \<Rightarrow> kst \<Rightarrow> (errno option \<times> kst) option" where
  "greedy_init_queue q t s =
     (case elevator_alloc q t s of
        (None, s) \<Rightarrow> Some (Some ENOMEM, s)
      | (Some eq, s) \<Rightarrow>
          (case kmalloc s of
             (None, s) \<Rightarrow> Some (Some ENOMEM, kobject_put_elv eq s)
           | (Some gd, s) \<Rightarrow> do {
               let s = upd_eq eq (elevator_data_update (\<lambda>_. Some gd)) s;
               let s = upd_list (GHigher gd) (\<lambda>_. []) s;
               let s = upd_list (GLower gd) (\<lambda>_. []) s;
               let s = upd_gd gd (prev_pos_update (\<lambda>_. 0)) s;
               s \<leftarrow> lock_q q s;
               let s = upd_q q (elevator_update (\<lambda>_. Some eq)) s;
               s \<leftarrow> unlock_q q s;
               Some (None, s)
             }))"

definition greedy_exit_queue :: "eqid \<Rightarrow> kst \<Rightarrow> kst option" where
  "greedy_exit_queue e s = do {
     gd \<leftarrow> elevator_data (elvqs s e);
     bug_on (linked s (GHigher gd) \<noteq> []);
     bug_on (linked s (GLower gd) \<noteq> []);
     Some (emit (EvElv gd kfree_greedy) s)
   }"

definition elevator_greedy :: "'a kconf_scheme \<Rightarrow> elevator_ops" where
  "elevator_greedy E = \<lparr>
     elevator_merge_fn = None,
     elevator_merged_fn = None,
     elevator_merge_req_fn = Some greedy_merged_requests,
     elevator_allow_merge_fn = None,
     elevator_bio_merged_fn = None,
     elevator_dispatch_fn = greedy_dispatch E,
     elevator_add_req_fn = greedy_add_request,
     elevator_activate_req_fn = None,
     elevator_deactivate_req_fn = None,
     elevator_completed_req_fn = None,
     elevator_former_req_fn = Some greedy_former_request,
     elevator_latter_req_fn = Some greedy_latter_request,
     elevator_set_req_fn = None,
     elevator_put_req_fn = None,
     elevator_may_queue_fn = None,
     elevator_init_fn = greedy_init_queue,
     elevator_exit_fn = Some greedy_exit_queue,
     elevator_registered_fn = None\<rparr>"

section \<open>Effect of the operations on the lists\<close>

lemma lists_ok_cong:
  assumes "linked t = linked s" and "\<And>r. queuelist (rqs t r) = queuelist (rqs s r)"
  shows "lists_ok t \<longleftrightarrow> lists_ok s"
  using assms by (simp add: lists_ok_def)

lemma elv_rqhash_del_queuelist [simp]:
  "queuelist (rqs (elv_rqhash_del q r s) x) = queuelist (rqs s x)"
  "linked (elv_rqhash_del q r s) = linked s"
  "queues (elv_rqhash_del q r s) = queues s"
  "gds (elv_rqhash_del q r s) = gds s"
  "elevator_data (elvqs (elv_rqhash_del q r s) e) = elevator_data (elvqs s e)"
  "rq_sector (rqs (elv_rqhash_del q r s) x) = rq_sector (rqs s x)"
  by (auto simp: elv_rqhash_del_def raw_elv_rqhash_del_def hash_del_def split: option.split prod.split)

lemma elv_dispatch_add_tail_lists [simp]:
  "linked (elv_dispatch_add_tail E q r s) = (linked s)(QHead q := linked s (QHead q) @ [r])"
  "elevator (queues (elv_dispatch_add_tail E q r s) q') = elevator (queues s q')"
  "elevator_data (elvqs (elv_dispatch_add_tail E q r s) e) = elevator_data (elvqs s e)"
  "gds (elv_dispatch_add_tail E q r s) = gds s"
  by (auto simp: elv_dispatch_add_tail_def Let_def list_add_tail_def list_insert_def)

lemma elv_dispatch_add_tail_ok:
  assumes "lists_ok s" and "queuelist (rqs s r) = None"
  shows "lists_ok (elv_dispatch_add_tail E q r s)"
proof -
  have ok: "lists_ok (elv_rqhash_del q r t) \<longleftrightarrow> lists_ok t" for t
    by (rule lists_ok_cong) simp_all
  show ?thesis
    unfolding elv_dispatch_add_tail_def Let_def
    by (rule lists_ok_add_tail) (use assms in \<open>auto simp: lists_ok_def\<close>)
qed

definition greedy_pending :: "gdid \<Rightarrow> kst \<Rightarrow> rid multiset" where
  "greedy_pending g s = mset (linked s (GHigher g)) + mset (linked s (GLower g))"

definition greedy_inv :: "qid \<Rightarrow> gdid \<Rightarrow> kst \<Rightarrow> bool" where
  "greedy_inv q g s \<longleftrightarrow> lists_ok s \<and> greedy_data_of q s = Some g"

lemma greedy_data_of_cong:
  assumes "elevator (queues t q) = elevator (queues s q)"
    and "\<And>e. elevator_data (elvqs t e) = elevator_data (elvqs s e)"
  shows "greedy_data_of q t = greedy_data_of q s"
  using assms by (simp add: greedy_data_of_def)

lemma greedy_target_cases:
  "greedy_target g s = None \<longleftrightarrow> greedy_pending g s = {#}"
  "greedy_target g s = Some r \<Longrightarrow>
     (\<exists>xs. linked s (GHigher g) = r # xs) \<or> (\<exists>xs. linked s (GLower g) = r # xs)"
  by (auto simp: greedy_target_def greedy_pending_def Let_def split: list.splits if_splits)

lemma greedy_dispatch_empty:
  assumes "greedy_inv q g s" and "greedy_pending g s = {#}"
  shows "greedy_dispatch E q force s = Some (False, s)"
  using assms greedy_target_cases(1) [of g s]
  by (simp add: greedy_dispatch_def greedy_inv_def)

lemma greedy_dispatch_move:
  assumes inv: "greedy_inv q g s" and ne: "greedy_pending g s \<noteq> {#}"
  shows "\<exists>r t. greedy_dispatch E q force s = Some (True, t) \<and> greedy_inv q g t \<and>
    r \<in># greedy_pending g s \<and> greedy_pending g t = greedy_pending g s - {#r#} \<and>
    linked t (QHead q) = linked s (QHead q) @ [r]"
proof -
  from ne obtain r where r: "greedy_target g s = Some r"
    using greedy_target_cases(1) [of g s] by auto
  have ok: "lists_ok s" and gd: "greedy_data_of q s = Some g"
    using inv by (simp_all add: greedy_inv_def)
  define s1 where "s1 = list_del_init r s"
  define s2 where "s2 = elv_dispatch_add_tail E q r s1"
  define t where "t = upd_gd g (prev_pos_update (\<lambda>_. rq_end_sector E (rqs s2 r))) s2"
  obtain l xs where l: "linked s l = r # xs" and lg: "l = GHigher g \<or> l = GLower g"
    using greedy_target_cases(2) [OF r] by blast
  have s1: "s1 = upd_rq r (queuelist_update (\<lambda>_. None)) (upd_list l tl s)"
    unfolding s1_def by (rule list_del_init_first [OF ok l])
  have ok1: "lists_ok s1" and free: "queuelist (rqs s1 r) = None"
    using ok by (auto simp: s1_def)
  have "lists_ok s2"
    unfolding s2_def by (rule elv_dispatch_add_tail_ok [OF ok1 free])
  then have okt: "lists_ok t"
    by (auto simp: t_def lists_ok_def)
  have gdt: "greedy_data_of q t = Some g"
    using gd by (subst greedy_data_of_cong [of _ _ s]) (simp_all add: t_def s2_def s1)
  have "greedy_dispatch E q force s = Some (True, t)"
    using r gd by (simp add: greedy_dispatch_def t_def s2_def s1_def Let_def)
  moreover have "r \<in># greedy_pending g s"
    using l lg by (auto simp: greedy_pending_def)
  moreover have "greedy_pending g t = greedy_pending g s - {#r#}"
    using l lg by (auto simp: greedy_pending_def t_def s2_def s1)
  moreover have "linked t (QHead q) = linked s (QHead q) @ [r]"
    using lg by (auto simp: t_def s2_def s1)
  ultimately show ?thesis
    using okt gdt by (auto simp: greedy_inv_def)
qed

interpretation greedy_io: io_scheduler
  "greedy_dispatch E q force" "greedy_pending g" "\<lambda>s. linked s (QHead q)" "greedy_inv q g"
  for E q force g
  by unfold_locales (simp_all add: greedy_dispatch_empty greedy_dispatch_move)

text \<open>
  C8: draining. A greedy scheduler in a consistent state is always drained: the loop that
  calls \<open>greedy_dispatch\<close> until it reports failure returns, both lists are empty afterwards, and
  the dispatch queue has grown by exactly the requests that were on them, each once.
\<close>

theorem greedy_drain_complete:
  assumes "lists_ok s" and "greedy_data_of q s = Some g"
  shows "\<exists>t rs. drain_loop (greedy_dispatch E q True) s = Some t \<and>
    linked t (GHigher g) = [] \<and> linked t (GLower g) = [] \<and>
    linked t (QHead q) = linked s (QHead q) @ rs \<and>
    mset rs = mset (linked s (GHigher g)) + mset (linked s (GLower g))"
  using greedy_io.drain_moves_all [of q g s E True] assms
  by (auto simp: greedy_inv_def greedy_pending_def)

section \<open>Order\<close>

text \<open>The head of each list is the request of its list that is farthest from the other list.\<close>

definition heads_extreme :: "gdid \<Rightarrow> kst \<Rightarrow> bool" where
  "heads_extreme g s \<longleftrightarrow>
     (\<forall>p \<in> set (linked s (GHigher g)).
        blk_rq_pos (rqs s p) \<le> blk_rq_pos (rqs s (hd (linked s (GHigher g))))) \<and>
     (\<forall>p \<in> set (linked s (GLower g)).
        blk_rq_pos (rqs s p) \<ge> blk_rq_pos (rqs s (hd (linked s (GLower g)))))"

text \<open>The calls of \<open>greedy_add_request\<close> for a sequence of requests.\<close>

fun greedy_add_all :: "qid \<Rightarrow> rid list \<Rightarrow> kst \<Rightarrow> kst option" where
  "greedy_add_all q [] s = Some s"
| "greedy_add_all q (r # rs) s = do { s \<leftarrow> greedy_add_request q r s; greedy_add_all q rs s }"

lemma list_insert_pos [simp]:
  "blk_rq_pos (rqs (list_insert f r l s) p) = blk_rq_pos (rqs s p)"
  by (simp add: list_insert_def blk_rq_pos_def)

lemma list_insert_linked [simp]:
  "linked (list_insert f r l s) = (linked s)(l := f (linked s l))"
  by (simp add: list_insert_def)

lemma greedy_add_request_extreme:
  assumes "greedy_add_request q r s = Some t" and "greedy_data_of q s = Some g"
    and "heads_extreme g s"
  shows "heads_extreme g t"
  using assms
  by (auto simp: greedy_add_request_def add_to_higher_def add_to_lower_def heads_extreme_def
      hd_add_after_first not_less split: if_splits) (meson le_less_trans less_le_not_le linear order.trans)+


lemma greedy_add_request_data:
  assumes "greedy_add_request q r s = Some t" and "greedy_data_of q s = Some g"
  shows "greedy_data_of q t = Some g" and "\<And>p. blk_rq_pos (rqs t p) = blk_rq_pos (rqs s p)"
    and "prev_pos (gds t g) = prev_pos (gds s g)"
    and "linked t (GHigher g) = (if prev_pos (gds s g) > blk_rq_pos (rqs s r) then linked s (GHigher g)
      else add_after_first (\<lambda>p. blk_rq_pos (rqs s p) > blk_rq_pos (rqs s r)) r (linked s (GHigher g)))"
    and "linked t (GLower g) = (if prev_pos (gds s g) > blk_rq_pos (rqs s r)
      then add_after_first (\<lambda>p. blk_rq_pos (rqs s p) < blk_rq_pos (rqs s r)) r (linked s (GLower g))
      else linked s (GLower g))"
proof -
  have "greedy_data_of q t = greedy_data_of q s"
    by (rule greedy_data_of_cong)
      (use assms in \<open>auto simp: greedy_add_request_def add_to_higher_def add_to_lower_def list_insert_def\<close>)
  with assms show "greedy_data_of q t = Some g" by simp
  show "\<And>p. blk_rq_pos (rqs t p) = blk_rq_pos (rqs s p)" "prev_pos (gds t g) = prev_pos (gds s g)"
    "linked t (GHigher g) = (if prev_pos (gds s g) > blk_rq_pos (rqs s r) then linked s (GHigher g)
      else add_after_first (\<lambda>p. blk_rq_pos (rqs s p) > blk_rq_pos (rqs s r)) r (linked s (GHigher g)))"
    "linked t (GLower g) = (if prev_pos (gds s g) > blk_rq_pos (rqs s r)
      then add_after_first (\<lambda>p. blk_rq_pos (rqs s p) < blk_rq_pos (rqs s r)) r (linked s (GLower g))
      else linked s (GLower g))"
    using assms by (auto simp: greedy_add_request_def add_to_higher_def add_to_lower_def
        list_insert_def blk_rq_pos_def)
qed

text \<open>
  C17: \<open>greedy_add_request\<close> files each request on the side of the arm it lies on, and keeps at the
  head of each list the request of that list that is farthest from the arm. Starting with empty
  lists, any sequence of additions ends with exactly the requests at or above \<open>prev_pos\<close> on the
  upper list and the others on the lower one; the head of the upper list has the highest sector
  of its list, the head of the lower list the lowest. These heads are what \<open>greedy_dispatch\<close>
  chooses from.
\<close>

theorem greedy_add_all_heads:
  assumes "greedy_data_of q s = Some g"
    and "linked s (GHigher g) = []" and "linked s (GLower g) = []"
  shows "\<exists>t. greedy_add_all q rs s = Some t \<and>
    mset (linked t (GHigher g)) = mset (filter (\<lambda>r. blk_rq_pos (rqs s r) \<ge> prev_pos (gds s g)) rs) \<and>
    mset (linked t (GLower g)) = mset (filter (\<lambda>r. blk_rq_pos (rqs s r) < prev_pos (gds s g)) rs) \<and>
    heads_extreme g t"
proof -
  have gen: "\<exists>t. greedy_add_all q rs s = Some t \<and> heads_extreme g t \<and>
    mset (linked t (GHigher g)) = mset (linked s (GHigher g)) +
      mset (filter (\<lambda>r. blk_rq_pos (rqs s r) \<ge> prev_pos (gds s g)) rs) \<and>
    mset (linked t (GLower g)) = mset (linked s (GLower g)) +
      mset (filter (\<lambda>r. blk_rq_pos (rqs s r) < prev_pos (gds s g)) rs)"
    if "greedy_data_of q s = Some g" "heads_extreme g s" for s
    using that
  proof (induction rs arbitrary: s)
    case Nil
    then show ?case by simp
  next
    case (Cons r rs)
    then obtain u where u: "greedy_add_request q r s = Some u"
      by (auto simp: greedy_add_request_def)
    note d = greedy_add_request_data [OF u Cons.prems(1)]
    from Cons.IH [OF d(1) greedy_add_request_extreme [OF u Cons.prems]] u show ?case
      by (auto simp: d not_less split: if_splits)
  qed
  have "heads_extreme g s" using assms by (simp add: heads_extreme_def)
  from gen [OF assms(1) this] assms(2,3) show ?thesis by auto
qed

text \<open>
  C27: the choice between the two lists. When both distances are below \<open>2^31\<close> sectors,
  \<open>greedy_dispatch\<close> moves to the end of the dispatch queue whichever of the two list heads is
  nearer to the arm, the upper one when they are equally near, and leaves the arm at its end.
\<close>

theorem greedy_dispatch_nearer:
  assumes inv: "lists_ok s" "greedy_data_of q s = Some g"
    and hi: "linked s (GHigher g) = h # hs" and lo: "linked s (GLower g) = l # ls"
    and up: "unat (blk_rq_pos (rqs s h) - prev_pos (gds s g)) < 2 ^ 31"
    and down: "unat (prev_pos (gds s g) - blk_rq_pos (rqs s l)) < 2 ^ 31"
  shows "\<exists>t. greedy_dispatch E q force s = Some (True, t) \<and>
    (let r = (if blk_rq_pos (rqs s h) - prev_pos (gds s g) > prev_pos (gds s g) - blk_rq_pos (rqs s l)
              then l else h)
     in linked t (QHead q) = linked s (QHead q) @ [r] \<and>
        prev_pos (gds t g) = rq_end_sector E (rqs t r))"
proof -
  define r where "r = (if blk_rq_pos (rqs s h) - prev_pos (gds s g) > prev_pos (gds s g) - blk_rq_pos (rqs s l)
              then l else h)"
  have "greedy_target g s = Some r"
    using hi lo up down by (simp add: greedy_target_def r_def to_int_small word_less_def)
  moreover have "queuelist (rqs s h) = Some (GHigher g)" "queuelist (rqs s l) = Some (GLower g)"
    using lists_okD(2) [OF inv(1), of h "GHigher g"] lists_okD(2) [OF inv(1), of l "GLower g"] hi lo
    by simp_all
  then have "queuelist (rqs s r) = Some (if r = h then GHigher g else GLower g)"
    by (auto simp: r_def)
  ultimately show ?thesis
    using inv(2) unfolding r_def [symmetric]
    by (simp add: greedy_dispatch_def Let_def list_del_init_def)
qed

text \<open>
  C28: the farther request is served first. A request below the only queued one is linked after it,
  not in its place: when the lists are empty and two requests at or above the arm are added, the
  farther one first, then \<open>greedy_dispatch\<close> sends the arm to the farther one.
\<close>

theorem greedy_farther_first:
  assumes "greedy_data_of q s = Some g"
    and "linked s (GHigher g) = []" and "linked s (GLower g) = []"
    and "prev_pos (gds s g) \<le> blk_rq_pos (rqs s near)"
    and "blk_rq_pos (rqs s near) < blk_rq_pos (rqs s far)"
  shows "\<exists>t u. greedy_add_all q [far, near] s = Some t \<and> linked t (GHigher g) = [far, near] \<and>
    greedy_dispatch E q force t = Some (True, u) \<and>
    linked u (QHead q) = linked s (QHead q) @ [far]"
proof -
  obtain s1 where s1: "greedy_add_request q far s = Some s1"
    using assms(1) by (auto simp: greedy_add_request_def)
  note d1 = greedy_add_request_data [OF s1 assms(1)]
  obtain t where t: "greedy_add_request q near s1 = Some t"
    using d1(1) by (auto simp: greedy_add_request_def)
  note d2 = greedy_add_request_data [OF t d1(1)]
  have far: "\<not> prev_pos (gds s g) > blk_rq_pos (rqs s far)"
    and near: "\<not> prev_pos (gds s g) > blk_rq_pos (rqs s near)"
    using assms(4,5) by auto
  have hi: "linked t (GHigher g) = [far, near]" and lo: "linked t (GLower g) = []"
    using d2(4,5) d1(2-5) far near assms(2,3,5) by (simp_all add: add_after_first_def)
  have link: "queuelist (rqs t far) = Some (GHigher g)" "linked t (QHead q) = linked s (QHead q)"
    using s1 t assms(1) d1(1) d1(2,3) far near
    by (auto simp: greedy_add_request_def add_to_higher_def list_insert_def)
  have tg: "greedy_target g t = Some far" by (simp add: greedy_target_def hi lo)
  obtain b u where u: "greedy_dispatch E q force t = Some (b, u)"
    using tg d2(1) by (auto simp: greedy_dispatch_def Let_def)
  with tg d2(1) link have "b" "linked u (QHead q) = linked s (QHead q) @ [far]"
    by (auto simp: greedy_dispatch_def Let_def list_del_init_def)
  then show ?thesis using s1 t u hi by auto
qed

definition greedy_two :: kst where
  "greedy_two = kst_zero
     \<lparr>queues := (\<lambda>_. queue_zero\<lparr>elevator := Some 7\<rparr>),
      elvqs := (\<lambda>_. eq_zero\<lparr>elevator_data := Some 8\<rparr>),
      rqs := (\<lambda>_. rq_zero)(1 := rq_zero\<lparr>rq_sector := 10\<rparr>, 2 := rq_zero\<lparr>rq_sector := 5\<rparr>)\<rparr>"

theorem greedy_farther_first_witness:
  "\<exists>t u. greedy_add_all 0 [1, 2] greedy_two = Some t \<and>
     greedy_dispatch env_zero 0 False t = Some (True, u) \<and> linked u (QHead 0) = [1] \<and>
     blk_rq_pos (rqs greedy_two 2) < blk_rq_pos (rqs greedy_two 1)"
  using greedy_farther_first [of 0 greedy_two 8 2 1 env_zero False]
  by (auto simp: greedy_two_def kst_zero_def greedy_data_of_def queue_zero_def eq_zero_def
      blk_rq_pos_def)

text \<open>Two requests on the two lists of one scheduler, the state of the concrete runs.\<close>

definition greedy_both :: kst where
  "greedy_both = greedy_two
     \<lparr>linked := (\<lambda>_. [])(GHigher 8 := [1], GLower 8 := [2]),
      gds := (\<lambda>_. \<lparr>prev_pos = 8\<rparr>),
      rqs := (\<lambda>_. rq_zero)(1 := rq_zero\<lparr>rq_sector := 10, queuelist := Some (GHigher 8)\<rparr>,
                            2 := rq_zero\<lparr>rq_sector := 5, queuelist := Some (GLower 8)\<rparr>)\<rparr>"

lemma greedy_both_ok: "lists_ok greedy_both" "greedy_data_of 0 greedy_both = Some 8"
  by (auto simp: greedy_both_def greedy_two_def kst_zero_def lists_ok_def rq_zero_def
      greedy_data_of_def queue_zero_def eq_zero_def)

theorem greedy_drain_complete_witness:
  "\<exists>t rs. drain_loop (greedy_dispatch env_zero 0 True) greedy_both = Some t \<and>
    linked t (GHigher 8) = [] \<and> linked t (GLower 8) = [] \<and> mset rs = {#1, 2#} \<and>
    linked t (QHead 0) = rs"
  using greedy_drain_complete [OF greedy_both_ok, of env_zero]
  by (auto simp: greedy_both_def greedy_two_def kst_zero_def)

theorem greedy_add_all_heads_witness:
  "\<exists>t. greedy_add_all 0 [1, 2] greedy_two = Some t \<and> mset (linked t (GHigher 8)) = {#1, 2#} \<and>
    heads_extreme 8 t"
  using greedy_add_all_heads [of 0 greedy_two 8 "[1, 2]"]
  by (auto simp: greedy_two_def kst_zero_def greedy_data_of_def queue_zero_def eq_zero_def)

theorem greedy_dispatch_nearer_witness:
  "\<exists>t. greedy_dispatch env_zero 0 False greedy_both = Some (True, t) \<and> linked t (QHead 0) = [1]"
  using greedy_dispatch_nearer [OF greedy_both_ok, of 1 "[]" 2 "[]" env_zero False]
  by (auto simp: greedy_both_def greedy_two_def kst_zero_def blk_rq_pos_def Let_def)

end
