(* ===== verification/Greedy_Starve.thy ===== *)
theory Greedy_Starve
  imports Greedy
begin

text \<open>
  The greedy scheduler under a stream of requests: one that comes in at the arm is always the nearest,
  so a request on the other side waits as long as the stream goes on.
\<close>

section \<open>A stream of requests\<close>

text \<open>Each request of the stream is queued and then one request is dispatched.\<close>

fun greedy_serve :: "'a kconf_scheme \<Rightarrow> qid \<Rightarrow> rid list \<Rightarrow> kst \<Rightarrow> kst option" where
  "greedy_serve E q [] s = Some s"
| "greedy_serve E q (r # rs) s = do {
     s \<leftarrow> greedy_add_request q r s;
     (_, s) \<leftarrow> greedy_dispatch E q False s;
     greedy_serve E q rs s
   }"

text \<open>The requests follow each other on the disk, from the sector \<open>p\<close> on.\<close>

fun contiguous :: "kst \<Rightarrow> sector_t \<Rightarrow> rid list \<Rightarrow> bool" where
  "contiguous s p [] = True"
| "contiguous s p (r # rs) \<longleftrightarrow> blk_rq_pos (rqs s r) = p \<and>
     contiguous s (p + ucast (blk_rq_sectors (rqs s r))) rs"

definition end_sector_std :: "'a kconf_scheme \<Rightarrow> bool" where
  "end_sector_std E \<longleftrightarrow> rq_end_sector E = (\<lambda>rq. blk_rq_pos rq + ucast (blk_rq_sectors rq))"

definition same_place :: "kst \<Rightarrow> kst \<Rightarrow> bool" where
  "same_place s t \<longleftrightarrow> (\<forall>r. blk_rq_pos (rqs t r) = blk_rq_pos (rqs s r) \<and>
     blk_rq_sectors (rqs t r) = blk_rq_sectors (rqs s r))"

lemma contiguous_same: "same_place s t \<Longrightarrow> contiguous t p rs = contiguous s p rs"
  by (induction rs arbitrary: p) (simp_all add: same_place_def)

lemma hash_del_len [simp]: "data_len (rqs (elv_rqhash_del q r s) x) = data_len (rqs s x)"
  by (auto simp: elv_rqhash_del_def raw_elv_rqhash_del_def hash_del_def split: option.split prod.split)

lemma same_place_ops:
  "same_place s (list_insert f r l s)" "same_place s (list_del_init r s)"
  "same_place s (elv_dispatch_add_tail E q r s)"
  by (auto simp: same_place_def list_insert_def list_del_init_def elv_dispatch_add_tail_def
      list_add_tail_def Let_def blk_rq_pos_def blk_rq_sectors_def blk_rq_bytes_def split: option.split)

lemma same_place_trans: "same_place s t \<Longrightarrow> same_place t u \<Longrightarrow> same_place s u"
  by (simp add: same_place_def)

section \<open>One request of the stream\<close>

definition waiting :: "qid \<Rightarrow> gdid \<Rightarrow> rid \<Rightarrow> rid list \<Rightarrow> kst \<Rightarrow> bool" where
  "waiting q g far xs s \<longleftrightarrow> greedy_data_of q s = Some g \<and> linked s (GHigher g) = [] \<and>
     linked s (GLower g) = far # xs"

lemma serve_one:
  assumes std: "end_sector_std E" and w: "waiting q g far xs s" and free: "queuelist (rqs s r) = None"
    and pos: "blk_rq_pos (rqs s r) = prev_pos (gds s g)"
    and above: "unat (blk_rq_pos (rqs s far)) < unat (prev_pos (gds s g))"
    and dist: "unat (prev_pos (gds s g)) - unat (blk_rq_pos (rqs s far)) < 2 ^ 31"
  shows "\<exists>t u. greedy_add_request q r s = Some t \<and> greedy_dispatch E q False t = Some (True, u) \<and>
    waiting q g far xs u \<and> prev_pos (gds u g) = prev_pos (gds s g) + ucast (blk_rq_sectors (rqs s r)) \<and>
    linked u (QHead q) = linked s (QHead q) @ [r] \<and> same_place s u \<and>
    (\<forall>x. x \<noteq> r \<longrightarrow> queuelist (rqs u x) = queuelist (rqs s x))"
proof -
  have gd: "greedy_data_of q s = Some g" using w by (simp add: waiting_def)
  define t where "t = add_to_higher r g s"
  have add: "greedy_add_request q r s = Some t"
    using gd pos by (simp add: greedy_add_request_def t_def)
  note d = greedy_add_request_data [OF add gd]
  have t: "linked t (GHigher g) = [r]" "linked t (GLower g) = far # xs" "linked t (QHead q) = linked s (QHead q)"
    "queuelist (rqs t r) = Some (GHigher g)" "\<And>x. x \<noteq> r \<Longrightarrow> queuelist (rqs t x) = queuelist (rqs s x)"
    and st: "same_place s t"
    using w same_place_ops(1)
    by (simp_all add: t_def add_to_higher_def waiting_def add_after_first_def)
      (simp_all add: list_insert_def)
  have "unat (prev_pos (gds s g) - blk_rq_pos (rqs s far)) =
      unat (prev_pos (gds s g)) - unat (blk_rq_pos (rqs s far))"
    using above by (simp add: unat_sub_if')
  then have "to_int (prev_pos (gds t g) - blk_rq_pos (rqs t far)) \<ge> 0"
    using dist d(2,3) by (simp add: to_int_small)
  then have tgt: "greedy_target g t = Some r"
    using t(1,2) d(2,3) pos by (simp add: greedy_target_def to_int_def)
  define t1 where "t1 = list_del_init r t"
  define t2 where "t2 = elv_dispatch_add_tail E q r t1"
  define u where "u = upd_gd g (prev_pos_update (\<lambda>_. rq_end_sector E (rqs t2 r))) t2"
  have t1: "t1 = upd_rq r (queuelist_update (\<lambda>_. None)) (upd_list (GHigher g) (\<lambda>_. []) t)"
    using t(1,4) by (simp add: t1_def list_del_init_def)
  have disp: "greedy_dispatch E q False t = Some (True, u)"
    using tgt d(1) by (simp add: greedy_dispatch_def Let_def u_def t2_def t1_def)
  have st2: "same_place s t2"
    unfolding t2_def t1_def by (rule same_place_trans [OF same_place_trans [OF st same_place_ops(2)] same_place_ops(3)])
  then have su: "same_place s u" by (simp add: u_def same_place_def)
  have "greedy_data_of q u = Some g"
    using d(1) by (subst greedy_data_of_cong [of _ _ t]) (simp_all add: u_def t2_def t1)
  moreover have "linked u (GHigher g) = []" "linked u (GLower g) = far # xs"
    "linked u (QHead q) = linked s (QHead q) @ [r]" using t by (simp_all add: u_def t2_def t1)
  moreover have "prev_pos (gds u g) = prev_pos (gds s g) + ucast (blk_rq_sectors (rqs s r))"
    using st2 std pos by (simp add: u_def end_sector_std_def same_place_def)
  moreover have "queuelist (rqs u x) = queuelist (rqs s x)" if "x \<noteq> r" for x
    using t(5) [OF that] that
    by (simp add: u_def t2_def t1 elv_dispatch_add_tail_def Let_def list_add_tail_def list_insert_def)
  ultimately show ?thesis using add disp su unfolding waiting_def by blast
qed

text \<open>
  C21: starvation. Let a request wait below the arm with nothing above it, and let a stream of requests
  come in that starts at the arm and goes on without gaps, less than \<open>2^31\<close> sectors away from the
  waiting one. The scheduler serves exactly the stream, in order, and the request still waits
  at the head of its list, however long the stream is.
\<close>

theorem greedy_starves:
  assumes std: "end_sector_std E" and data: "greedy_data_of q s = Some g"
    and hi: "linked s (GHigher g) = []" and lo: "linked s (GLower g) = far # xs"
    and rs: "distinct rs" "\<forall>r \<in> set rs. queuelist (rqs s r) = None"
    and seq: "contiguous s (prev_pos (gds s g)) rs"
    and near: "\<forall>r \<in> set rs. unat (blk_rq_pos (rqs s far)) < unat (blk_rq_pos (rqs s r)) \<and>
      unat (blk_rq_pos (rqs s r)) - unat (blk_rq_pos (rqs s far)) < 2 ^ 31"
  shows "\<exists>t. greedy_serve E q rs s = Some t \<and> linked t (QHead q) = linked s (QHead q) @ rs \<and>
    linked t (GLower g) = far # xs"
proof -
  have "waiting q g far xs s" using data hi lo by (simp add: waiting_def)
  with rs seq near
  have "\<exists>t. greedy_serve E q rs s = Some t \<and> linked t (QHead q) = linked s (QHead q) @ rs \<and>
      waiting q g far xs t"
  proof (induction rs arbitrary: s)
    case (Cons r rs)
    have r: "blk_rq_pos (rqs s r) = prev_pos (gds s g)" using Cons.prems by simp
    obtain t u where t: "greedy_add_request q r s = Some t" "greedy_dispatch E q False t = Some (True, u)"
      and u: "waiting q g far xs u" "linked u (QHead q) = linked s (QHead q) @ [r]"
      "prev_pos (gds u g) = prev_pos (gds s g) + ucast (blk_rq_sectors (rqs s r))"
      "same_place s u" "\<forall>x. x \<noteq> r \<longrightarrow> queuelist (rqs u x) = queuelist (rqs s x)"
      using serve_one [OF std Cons.prems(5) _ r] Cons.prems(2,4) r by auto
    have "\<exists>t. greedy_serve E q rs u = Some t \<and> linked t (QHead q) = linked u (QHead q) @ rs \<and>
        waiting q g far xs t"
    proof (rule Cons.IH)
      show "\<forall>x \<in> set rs. queuelist (rqs u x) = None" using Cons.prems(1,2) u(5) by auto
      show "contiguous u (prev_pos (gds u g)) rs"
        using Cons.prems(3) r by (simp add: u(3) contiguous_same [OF u(4)])
      show "\<forall>x \<in> set rs. unat (blk_rq_pos (rqs u far)) < unat (blk_rq_pos (rqs u x)) \<and>
          unat (blk_rq_pos (rqs u x)) - unat (blk_rq_pos (rqs u far)) < 2 ^ 31"
        using Cons.prems(4) u(4) by (simp add: same_place_def)
    qed (use Cons.prems u in auto)
    with t u(2) show ?case by auto
  qed simp
  then show ?thesis by (auto simp: waiting_def)
qed

text \<open>The scheduler of \<open>greedy_both\<close> with its arm at 8, the request at sector 5, and two more.\<close>

definition greedy_stream :: kst where
  "greedy_stream = greedy_both
     \<lparr>linked := (\<lambda>_. [])(GLower 8 := [2]),
      rqs := (\<lambda>_. rq_zero)(2 := rq_zero\<lparr>rq_sector := 5, queuelist := Some (GLower 8)\<rparr>,
        3 := rq_zero\<lparr>rq_sector := 8, data_len := 1024\<rparr>, 4 := rq_zero\<lparr>rq_sector := 10\<rparr>)\<rparr>"

theorem greedy_starves_witness:
  "\<exists>t. greedy_serve env_zero 0 [3, 4] greedy_stream = Some t \<and> linked t (QHead 0) = [3, 4] \<and>
    linked t (GLower 8) = [2]"
proof -
  have std: "end_sector_std env_zero" by (simp add: end_sector_std_def env_zero_def)
  have "greedy_data_of 0 greedy_stream = Some 8"
    by (simp add: greedy_stream_def greedy_both_def greedy_two_def greedy_data_of_def queue_zero_def
        eq_zero_def)
  from greedy_starves [OF std this, of 2 "[]" "[3, 4]"] show ?thesis
    by (simp add: greedy_stream_def greedy_both_def greedy_two_def kst_zero_def blk_rq_pos_def
        blk_rq_sectors_def blk_rq_bytes_def rq_zero_def)
qed

end
