(* ===== verification/Kyouko.thy ===== *)
theory Kyouko
  imports Blk_Prelude
begin

text \<open>
  The driver of the Kyouko3 graphics card with DMA, \<open>src/lab4/mymod.c\<close> and \<open>src/lab4/reg.h\<close>.

  The card is a parameter: its state is a type variable, and \<open>ky_env\<close> says how it answers the
  reads and writes of its registers and what the services of the kernel do. The DMA memory that
  the driver shares with the card is part of the driver's state, as a list of entries for the
  command FIFO and a list of buffer descriptors; an access outside an array is \<open>None\<close>.
\<close>

section \<open>Registers\<close>

definition Device_RAM :: u32 where "Device_RAM = 0x0020"
definition ModeSet :: u32 where "ModeSet = 0x1008"
definition InterruptSet :: u32 where "InterruptSet = 0x100C"
definition Acceleration :: u32 where "Acceleration = 0x1010"
definition FifoStart :: u32 where "FifoStart = 0x1020"
definition FifoEnd :: u32 where "FifoEnd = 0x1024"
definition BufferA_Address :: u32 where "BufferA_Address = 0x2000"
definition BufferA_Config :: u32 where "BufferA_Config = 0x2008"
definition Command_Primitive :: u32 where "Command_Primitive = 0x3000"
definition Vertex_Emit :: u32 where "Vertex_Emit = 0x3004"
definition Clear_Buffer :: u32 where "Clear_Buffer = 0x3008"
definition Flush :: u32 where "Flush = 0x3FFC"
definition InterruptStatus :: u32 where "InterruptStatus = 0x4008"
definition FifoHead :: u32 where "FifoHead = 0x4010"
definition FifoTail :: u32 where "FifoTail = 0x4014"
definition Vertex_Coordinate :: u32 where "Vertex_Coordinate = 0x5000"
definition Vertex_Color :: u32 where "Vertex_Color = 0x5010"
definition Clear_Color :: u32 where "Clear_Color = 0x5100"
definition Frame_Objects :: u32 where "Frame_Objects = 0x8000"
definition DAC_Objects :: u32 where "DAC_Objects = 0x9000"

definition GRAPHICS_ON :: int where "GRAPHICS_ON = 9"
definition FIFO_ENTRIES :: u32 where "FIFO_ENTRIES = 1024"
definition NUM_BUFS :: u32 where "NUM_BUFS = 8"

datatype ky_cmd = VMODE | BIND_DMA | START_DMA | FIFO_QUEUE | FIFO_FLUSH | UNBIND_DMA | OTHER_CMD u32

section \<open>State\<close>

record fifo_entry =
  command :: u32
  entry_value :: u32

record ky_fifo =
  fifo_p_base :: u64
  fifo_k_base :: "fifo_entry list"
  head :: u32
  tail_cache :: u32

text \<open>
  Of the kernel address of a buffer, \<open>k_base\<close>, only whether it is not \<open>NULL\<close> is kept.
\<close>

record k_dmabuff =
  p_base :: u64
  k_mapped :: bool
  cmdCount :: u32
  u_dma_bufferAddress :: u64

record vm_area =
  vm_start :: u64
  vm_end :: u64
  vm_pgoff :: u64

text \<open>Calls of kernel services that change no state of the driver.\<close>

datatype ky_event =
    Pci_enable | Pci_set_master | Pci_disable | Cdev_add | Cdev_del | Pci_register | Pci_unregister
  | Ioremap u64 u32 | Iounmap | Pci_free u32 u64 | User_store u64 u64 | Munmap u64 u32
  | Enable_msi | Disable_msi | Request_irq | Free_irq | Wake_up | Sleep_ms nat

record 'd kyouko =
  ky_vma :: "vm_area option"
  p_control_base :: u64
  p_card_ram_base :: u64
  k_control_mapped :: bool
  fifo :: ky_fifo
  dmabuffs :: "k_dmabuff list"
  dma_fill :: u32
  dma_drain :: u32
  graphics_on :: u32
  isFull :: bool
  ky_lock :: bool
  mmap_index :: u32
  dev :: 'd
  ky_log :: "ky_event list"
  ky_pages :: "(u64 \<times> u64) list"

text \<open>
  \<open>ky_sleep\<close> is what happens while the caller sleeps in \<open>wait_event_interruptible\<close>, interrupts
  included; \<open>dev_step\<close> is what the card does while the caller is in \<open>schedule()\<close>.
\<close>

record 'd ky_env =
  dev_read :: "u32 \<Rightarrow> 'd \<Rightarrow> u32 \<times> 'd"
  dev_write :: "u32 \<Rightarrow> u32 \<Rightarrow> 'd \<Rightarrow> 'd"
  dev_step :: "'d \<Rightarrow> 'd"
  ky_sleep :: "'d kyouko \<Rightarrow> 'd kyouko"
  signal_pending :: "'d \<Rightarrow> bool"
  pci_resource_start :: "nat \<Rightarrow> u64"
  pci_alloc_consistent :: "u32 \<Rightarrow> 'd kyouko \<Rightarrow> u64 option"
  remap_pfn_range :: "vm_area \<Rightarrow> u64 \<Rightarrow> u64 \<Rightarrow> int"
  user_mmap :: "nat \<Rightarrow> 'd kyouko \<Rightarrow> vm_area option"
  copy_entry :: "u32 \<Rightarrow> 'd \<Rightarrow> fifo_entry"
  pci_enable_msi :: "'d \<Rightarrow> int"
  request_irq :: "'d \<Rightarrow> int"

abbreviation ky_note :: "ky_event \<Rightarrow> 'd kyouko \<Rightarrow> 'd kyouko" where
  "ky_note e \<equiv> ky_log_update (\<lambda>l. l @ [e])"

section \<open>Register and FIFO access\<close>

definition K_READ_REG :: "'d ky_env \<Rightarrow> u32 \<Rightarrow> 'd kyouko \<Rightarrow> (u32 \<times> 'd kyouko) option" where
  "K_READ_REG E reg s =
     (if k_control_mapped s then
        (let (v, d) = dev_read E (drop_bit 2 reg) (dev s) in Some (v, dev_update (\<lambda>_. d) s))
      else None)"

definition K_WRITE_REG :: "'d ky_env \<Rightarrow> u32 \<Rightarrow> u32 \<Rightarrow> 'd kyouko \<Rightarrow> 'd kyouko option" where
  "K_WRITE_REG E reg v s =
     (if k_control_mapped s then Some (dev_update (dev_write E (drop_bit 2 reg) v) s) else None)"

definition FIFO_WRITE :: "u32 \<Rightarrow> u32 \<Rightarrow> 'd kyouko \<Rightarrow> 'd kyouko option" where
  "FIFO_WRITE reg v s =
     (let h = unat (head (fifo s)) in
      if h < length (fifo_k_base (fifo s)) then
        (let s = fifo_update (fifo_k_base_update (\<lambda>k. k[h := \<lparr>command = reg, entry_value = v\<rparr>])) s;
             s = fifo_update (head_update (\<lambda>n. n + 1)) s
         in Some (if head (fifo s) \<ge> FIFO_ENTRIES then fifo_update (head_update (\<lambda>_. 0)) s else s))
      else None)"

fun k_write_all :: "'d ky_env \<Rightarrow> (u32 \<times> u32) list \<Rightarrow> 'd kyouko \<Rightarrow> 'd kyouko option" where
  "k_write_all E [] s = Some s"
| "k_write_all E ((r, v) # ws) s = do { s \<leftarrow> K_WRITE_REG E r v s; k_write_all E ws s }"

fun fifo_write_all :: "(u32 \<times> u32) list \<Rightarrow> 'd kyouko \<Rightarrow> 'd kyouko option" where
  "fifo_write_all [] s = Some s"
| "fifo_write_all ((r, v) # ws) s = do { s \<leftarrow> FIFO_WRITE r v s; fifo_write_all ws s }"

section \<open>Probing, opening and mapping\<close>

definition kyouko3_probe :: "'d ky_env \<Rightarrow> 'd kyouko \<Rightarrow> 'd kyouko" where
  "kyouko3_probe E s =
     ky_note Pci_set_master (ky_note Pci_enable
       (s\<lparr>p_control_base := pci_resource_start E 1, p_card_ram_base := pci_resource_start E 2\<rparr>))"

definition kyouko3_remove :: "'d kyouko \<Rightarrow> 'd kyouko" where
  "kyouko3_remove = ky_note Pci_disable"

text \<open>\<open>pause\<close>: wait until the card has emptied the FIFO.\<close>

partial_function (option) ky_pause :: "'d ky_env \<Rightarrow> 'd kyouko \<Rightarrow> 'd kyouko option" where
  "ky_pause E s =
     Option.bind (K_READ_REG E FifoTail s) (\<lambda>(v, s).
       if v \<noteq> 0 then ky_pause E (dev_update (dev_step E) s) else Some s)"

text \<open>8192 bytes of shared memory hold 1024 entries; without memory the array is empty.\<close>

definition init_fifo :: "'d ky_env \<Rightarrow> 'd kyouko \<Rightarrow> 'd kyouko option" where
  "init_fifo E s = do {
     let (p, k) = (case pci_alloc_consistent E 8192 s of
                     None \<Rightarrow> (fifo_p_base (fifo s), [])
                   | Some p \<Rightarrow> (p, replicate 1024 \<lparr>command = 0, entry_value = 0\<rparr>));
     let s = s\<lparr>fifo := \<lparr>fifo_p_base = p, fifo_k_base = k, head = 0, tail_cache = 0\<rparr>\<rparr>;
     s \<leftarrow> K_WRITE_REG E FifoStart (ucast (fifo_p_base (fifo s))) s;
     s \<leftarrow> K_WRITE_REG E FifoEnd (ucast (fifo_p_base (fifo s) + 8192)) s;
     ky_pause E s
   }"

definition kyouko3_open :: "'d ky_env \<Rightarrow> 'd kyouko \<Rightarrow> 'd kyouko option" where
  "kyouko3_open E s = do {
     let s = ky_note (Ioremap (p_control_base s) 65536) (s\<lparr>k_control_mapped := True\<rparr>);
     (ramsize, s) \<leftarrow> K_READ_REG E Device_RAM s;
     let ramsize = ramsize * (1024 * 1024);
     let s = ky_note (Ioremap (p_card_ram_base s) ramsize) s;
     s \<leftarrow> init_fifo E s;
     Some (s\<lparr>dma_fill := 0, dma_drain := 0\<rparr>)
   }"

definition kyouko3_release :: "'d kyouko \<Rightarrow> 'd kyouko" where
  "kyouko3_release s =
     ky_note (Pci_free 8192 (fifo_p_base (fifo s))) (ky_note Iounmap (ky_note Iounmap s))"

definition PAGE_SHIFT :: nat where "PAGE_SHIFT = 12"

text \<open>
  A mapping: \<open>ky_pages\<close> notes the address it starts at and the page frame it shows, newest last.
\<close>

abbreviation show_page :: "vm_area \<Rightarrow> u64 \<Rightarrow> 'd kyouko \<Rightarrow> 'd kyouko" where
  "show_page v pfn \<equiv> ky_pages_update (\<lambda>l. l @ [(vm_start v, pfn)])"

definition kyouko3_mmap :: "'d ky_env \<Rightarrow> vm_area \<Rightarrow> 'd kyouko \<Rightarrow> (int \<times> 'd kyouko) option" where
  "kyouko3_mmap E v s =
     (let s = s\<lparr>ky_vma := Some v\<rparr>;
          off = push_bit PAGE_SHIFT (vm_pgoff v);
          len = vm_end v - vm_start v;
          control = drop_bit PAGE_SHIFT (p_control_base s);
          ram = drop_bit PAGE_SHIFT (p_card_ram_base s);
          buffer = drop_bit PAGE_SHIFT (p_base (dmabuffs s ! unat (mmap_index s)))
      in if off = 0 then Some (remap_pfn_range E v control len, show_page v control s)
         else if off = 0x80000000 then Some (remap_pfn_range E v ram len, show_page v ram s)
         else if unat (mmap_index s) < length (dmabuffs s)
         then Some (remap_pfn_range E v buffer len,
                    show_page v buffer (s\<lparr>mmap_index := (mmap_index s + 1) mod NUM_BUFS\<rparr>))
         else None)"

section \<open>DMA transfers\<close>

definition ky_lock_irq :: "'d kyouko \<Rightarrow> 'd kyouko option" where
  "ky_lock_irq s = (if ky_lock s then None else Some (s\<lparr>ky_lock := True\<rparr>))"

definition ky_unlock_irq :: "'d kyouko \<Rightarrow> 'd kyouko option" where
  "ky_unlock_irq s = (if ky_lock s then Some (s\<lparr>ky_lock := False\<rparr>) else None)"

text \<open>\<open>wait_event_interruptible\<close>: sleep until the condition holds or a signal arrives.\<close>

partial_function (option) wait_dma :: "'d ky_env \<Rightarrow> 'd kyouko \<Rightarrow> 'd kyouko option" where
  "wait_dma E s =
     (if dma_fill s \<noteq> dma_drain s \<or> \<not> isFull s \<or> signal_pending E (dev s) then Some s
      else wait_dma E (ky_sleep E s))"

text \<open>The part of \<open>initiate_transfer\<close> up to the wait; \<^term>\<open>True\<close> if the card was free.\<close>

definition transfer_submit :: "'d ky_env \<Rightarrow> u32 \<Rightarrow> 'd kyouko \<Rightarrow> (bool \<times> 'd kyouko) option" where
  "transfer_submit E n s = do {
     s \<leftarrow> ky_lock_irq s;
     let f = unat (dma_fill s);
     if f < length (dmabuffs s) then
       if dma_fill s = dma_drain s \<and> \<not> isFull s then do {
         s \<leftarrow> FIFO_WRITE BufferA_Address (ucast (p_base (dmabuffs s ! f))) s;
         s \<leftarrow> FIFO_WRITE BufferA_Config n s;
         let s = s\<lparr>dma_fill := (dma_fill s + 1) mod NUM_BUFS\<rparr>;
         s \<leftarrow> ky_unlock_irq s;
         s \<leftarrow> K_WRITE_REG E FifoHead (head (fifo s)) s;
         Some (True, s)
       } else do {
         let s = s\<lparr>dmabuffs := (dmabuffs s)[f := (dmabuffs s ! f)\<lparr>cmdCount := n\<rparr>]\<rparr>;
         let s = s\<lparr>dma_fill := (dma_fill s + 1) mod NUM_BUFS\<rparr>;
         let s = (if dma_fill s = dma_drain s then s\<lparr>isFull := True\<rparr> else s);
         s \<leftarrow> ky_unlock_irq s;
         Some (False, s)
       }
     else None
   }"

text \<open>The message at the start reads the second word of the buffer at \<open>dma_fill\<close>.\<close>

definition initiate_transfer :: "'d ky_env \<Rightarrow> u32 \<Rightarrow> 'd kyouko \<Rightarrow> (u32 \<times> 'd kyouko) option" where
  "initiate_transfer E n s = do {
     bug_on (\<not> (unat (dma_fill s) < length (dmabuffs s) \<and> k_mapped (dmabuffs s ! unat (dma_fill s))));
     (direct, s) \<leftarrow> transfer_submit E n s;
     if direct then Some (0, s)
     else do {
       s \<leftarrow> (if isFull s then wait_dma E s else Some s);
       Some (1, s)
     }
   }"

datatype irqreturn = IRQ_NONE | IRQ_HANDLED

text \<open>
  The interrupt handler. In its test, \<open>==\<close> binds tighter than \<open>&\<close>.
\<close>

definition rkintr :: "'d ky_env \<Rightarrow> 'd kyouko \<Rightarrow> (irqreturn \<times> 'd kyouko) option" where
  "rkintr E s = do {
     (iflags, s) \<leftarrow> K_READ_REG E InterruptStatus s;
     s \<leftarrow> K_WRITE_REG E InterruptStatus 0xf s;
     if iflags AND (if (0x02 :: u32) = 0 then 1 else 0) \<noteq> 0 then Some (IRQ_NONE, s)
     else do {
       let s = s\<lparr>dma_drain := (dma_drain s + 1) mod NUM_BUFS\<rparr>;
       let d = unat (dma_drain s);
       bug_on (\<not> d < length (dmabuffs s));
       s \<leftarrow> FIFO_WRITE BufferA_Address (ucast (p_base (dmabuffs s ! d))) s;
       s \<leftarrow> FIFO_WRITE BufferA_Config (cmdCount (dmabuffs s ! d)) s;
       s \<leftarrow> K_WRITE_REG E FifoHead (head (fifo s)) s;
       let s = (if dma_fill s \<noteq> dma_drain s then ky_note Wake_up (s\<lparr>isFull := False\<rparr>) else s);
       Some (IRQ_HANDLED, s)
     }
   }"

section \<open>The ioctl\<close>

text \<open>The bits of the float 1.0.\<close>

definition one_as_int :: u32 where "one_as_int = 0x3F800000"

definition vmode_on_regs :: "(u32 \<times> u32) list" where
  "vmode_on_regs =
     [(Frame_Objects + 0x0000, 1024), (Frame_Objects + 0x0004, 768),
      (Frame_Objects + 0x0008, 1024 * 4), (Frame_Objects + 0x000C, 0xf888),
      (Frame_Objects + 0x0010, 0), (Acceleration, 0x40000000),
      (DAC_Objects + 0x0000, 1024), (DAC_Objects + 0x0004, 768), (DAC_Objects + 0x0008, 0),
      (DAC_Objects + 0x000C, 0), (DAC_Objects + 0x0010, 0), (ModeSet, 1)]"

definition vmode_on_cmds :: "(u32 \<times> u32) list" where
  "vmode_on_cmds =
     [(Clear_Color, 0), (Clear_Color + 4, 0), (Clear_Color + 8, 0), (Clear_Color + 12, one_as_int),
      (Clear_Buffer, 0x03), (Flush, 0)]"

definition ky_vmode :: "'d ky_env \<Rightarrow> u32 \<Rightarrow> 'd kyouko \<Rightarrow> 'd kyouko option" where
  "ky_vmode E arg s =
     (if sint arg = GRAPHICS_ON then do {
        s \<leftarrow> k_write_all E vmode_on_regs s;
        let s = ky_note (Sleep_ms 10) s;
        s \<leftarrow> fifo_write_all vmode_on_cmds s;
        Some (s\<lparr>graphics_on := 1\<rparr>)
      } else do {
        s \<leftarrow> k_write_all E [(Acceleration, 0x80000000), (ModeSet, 0)] s;
        Some (s\<lparr>graphics_on := 0\<rparr>)
      })"

partial_function (option) flush_loop :: "'d ky_env \<Rightarrow> 'd kyouko \<Rightarrow> 'd kyouko option" where
  "flush_loop E s =
     (if tail_cache (fifo s) = head (fifo s) then Some s
      else Option.bind (K_READ_REG E FifoTail s) (\<lambda>(v, s).
             flush_loop E (dev_update (dev_step E) (fifo_update (tail_cache_update (\<lambda>_. v)) s))))"

definition fifo_flush :: "'d ky_env \<Rightarrow> 'd kyouko \<Rightarrow> 'd kyouko option" where
  "fifo_flush E s = do {
     s \<leftarrow> K_WRITE_REG E FifoHead (head (fifo s)) s;
     flush_loop E s
   }"

text \<open>
  \<open>BIND_DMA\<close>, one buffer: shared memory, and a mapping of it for the user, which calls
  \<open>kyouko3_mmap\<close>; the address goes to the user's array (entries of 16 bytes).
\<close>

definition bind_one :: "'d ky_env \<Rightarrow> u32 \<Rightarrow> nat \<Rightarrow> 'd kyouko \<Rightarrow> 'd kyouko option" where
  "bind_one E arg i s = do {
     bug_on (\<not> i < length (dmabuffs s));
     let s = (case pci_alloc_consistent E (124 * 1024) s of
                None \<Rightarrow> s\<lparr>dmabuffs := (dmabuffs s)[i := (dmabuffs s ! i)\<lparr>k_mapped := False\<rparr>]\<rparr>
              | Some p \<Rightarrow> s\<lparr>dmabuffs := (dmabuffs s)
                  [i := (dmabuffs s ! i)\<lparr>p_base := p, k_mapped := True\<rparr>]\<rparr>);
     s \<leftarrow> (case user_mmap E i s of
             None \<Rightarrow> Some s
           | Some v \<Rightarrow> do { (_, s) \<leftarrow> kyouko3_mmap E (v\<lparr>vm_pgoff := 0x90000\<rparr>) s; Some s });
     v \<leftarrow> ky_vma s;
     let s = ky_note (User_store (ucast arg + 16 * of_nat i) (vm_start v)) s;
     Some (s\<lparr>dmabuffs := (dmabuffs s)[i := (dmabuffs s ! i)\<lparr>u_dma_bufferAddress := vm_start v\<rparr>]\<rparr>)
   }"

fun bind_all :: "'d ky_env \<Rightarrow> u32 \<Rightarrow> nat list \<Rightarrow> 'd kyouko \<Rightarrow> 'd kyouko option" where
  "bind_all E arg [] s = Some s"
| "bind_all E arg (i # is) s = do { s \<leftarrow> bind_one E arg i s; bind_all E arg is s }"

definition bind_dma :: "'d ky_env \<Rightarrow> u32 \<Rightarrow> 'd kyouko \<Rightarrow> (int \<times> 'd kyouko) option" where
  "bind_dma E arg s = do {
     s \<leftarrow> bind_all E arg [0..<unat NUM_BUFS] s;
     let ret = pci_enable_msi E (dev s);
     let s = ky_note Enable_msi s;
     if ret \<noteq> 0 then Some (ret, s)
     else do {
       let ret = request_irq E (dev s);
       let s = ky_note Request_irq s;
       if ret \<noteq> 0 then Some (ret, ky_note Disable_msi s)
       else do { s \<leftarrow> K_WRITE_REG E InterruptSet 0x02 s; Some (0, s) }
     }
   }"

fun unbind_all :: "nat list \<Rightarrow> 'd kyouko \<Rightarrow> 'd kyouko option" where
  "unbind_all [] s = Some s"
| "unbind_all (i # is) s =
     (if i < length (dmabuffs s) then
        unbind_all is
          (ky_note (Pci_free (124 * 1024) (p_base (dmabuffs s ! i)))
            (ky_note (Munmap (u_dma_bufferAddress (dmabuffs s ! i)) (124 * 1024)) s))
      else None)"

definition unbind_dma :: "'d ky_env \<Rightarrow> 'd kyouko \<Rightarrow> 'd kyouko option" where
  "unbind_dma E s = do {
     s \<leftarrow> unbind_all [0..<unat NUM_BUFS] s;
     s \<leftarrow> K_WRITE_REG E InterruptSet 0 s;
     Some (ky_note Disable_msi (ky_note Free_irq s))
   }"

text \<open>The parameter of the handler has 32 bits, the argument of the system call 64.\<close>

definition kyouko3_ioctl :: "'d ky_env \<Rightarrow> ky_cmd \<Rightarrow> u64 \<Rightarrow> 'd kyouko \<Rightarrow> (int \<times> 'd kyouko) option"
where
  "kyouko3_ioctl E cmd uarg s =
     (let arg = ucast uarg :: u32 in
      case cmd of
        VMODE \<Rightarrow> do { s \<leftarrow> ky_vmode E arg s; Some (0, s) }
      | FIFO_QUEUE \<Rightarrow> do {
          let e = copy_entry E arg (dev s);
          s \<leftarrow> FIFO_WRITE (command e) (entry_value e) s;
          Some (0, s)
        }
      | FIFO_FLUSH \<Rightarrow> do { s \<leftarrow> fifo_flush E s; Some (0, s) }
      | BIND_DMA \<Rightarrow> bind_dma E arg s
      | START_DMA \<Rightarrow> do { (_, s) \<leftarrow> initiate_transfer E arg s; Some (0, s) }
      | UNBIND_DMA \<Rightarrow> do { s \<leftarrow> unbind_dma E s; Some (0, s) }
      | OTHER_CMD _ \<Rightarrow> Some (0, s))"

definition my_init_function :: "'d kyouko \<Rightarrow> 'd kyouko" where
  "my_init_function s = ky_note Pci_register (ky_note Cdev_add s)"

definition my_exit_function :: "'d kyouko \<Rightarrow> 'd kyouko" where
  "my_exit_function s = ky_note Pci_unregister (ky_note Cdev_del s)"

end
