(* ===== verification/Kyouko_Safety.thy ===== *)
theory Kyouko_Safety
  imports Kyouko
begin

text \<open>
  Properties of the Kyouko3 driver: the command FIFO is a ring, no operation leaves its arrays, a
  flush returns exactly if the card catches up, and what the interrupt handler does with an
  interrupt that is not its own.
\<close>

section \<open>The invariant\<close>

definition ky_ok :: "'d kyouko \<Rightarrow> bool" where
  "ky_ok s \<longleftrightarrow> k_control_mapped s \<and> length (fifo_k_base (fifo s)) = 1024 \<and>
     unat (head (fifo s)) < 1024 \<and> length (dmabuffs s) = 8 \<and>
     unat (dma_fill s) < 8 \<and> unat (dma_drain s) < 8 \<and> unat (mmap_index s) < 8"

lemma unat_mod_NUM_BUFS [simp]: "unat (x mod NUM_BUFS) < 8"
  by (simp add: NUM_BUFS_def unat_mod)

lemma K_READ_REG_ok:
  assumes "ky_ok s"
  obtains v d where "K_READ_REG E reg s = Some (v, dev_update (\<lambda>_. d) s)"
  using assms by (cases "dev_read E (drop_bit 2 reg) (dev s)") (auto simp: K_READ_REG_def ky_ok_def)

lemma K_WRITE_REG_ok:
  "ky_ok s \<Longrightarrow> K_WRITE_REG E reg v s = Some (dev_update (dev_write E (drop_bit 2 reg) v) s)"
  by (simp add: K_WRITE_REG_def ky_ok_def)

text \<open>The ring: one write puts an entry at the head and moves the head, modulo the size.\<close>

lemma FIFO_WRITE_ok:
  assumes "ky_ok s"
  shows "FIFO_WRITE reg v s = Some (s\<lparr>fifo := (fifo s)
    \<lparr>fifo_k_base := (fifo_k_base (fifo s))[unat (head (fifo s)) := \<lparr>command = reg, entry_value = v\<rparr>],
     head := (if unat (head (fifo s)) = 1023 then 0 else head (fifo s) + 1)\<rparr>\<rparr>)"
proof -
  have h: "unat (head (fifo s)) < 1024" and l: "length (fifo_k_base (fifo s)) = 1024"
    using assms by (simp_all add: ky_ok_def)
  have u: "unat (head (fifo s) + 1) = unat (head (fifo s)) + 1"
    using h unat_add_lem [of "head (fifo s)" 1] by simp
  then have "head (fifo s) + 1 \<ge> FIFO_ENTRIES \<longleftrightarrow> unat (head (fifo s)) = 1023"
    using h by (auto simp: FIFO_ENTRIES_def word_le_nat_alt)
  then show ?thesis
    using h l by (cases s) (simp add: FIFO_WRITE_def Let_def)
qed

lemma FIFO_WRITE_frame:
  assumes "FIFO_WRITE reg v s = Some t"
  shows "dmabuffs t = dmabuffs s" and "dma_drain t = dma_drain s" and "dma_fill t = dma_fill s"
    and "isFull t = isFull s" and "ky_lock t = ky_lock s"
  using assms by (auto simp: FIFO_WRITE_def Let_def split: if_splits)

lemma ky_ok_fifo_write:
  assumes "ky_ok s" and "FIFO_WRITE reg v s = Some t"
  shows "ky_ok t"
proof -
  have "unat (head (fifo s) + 1) = unat (head (fifo s)) + 1"
    using assms(1) unat_add_lem [of "head (fifo s)" 1] by (simp add: ky_ok_def)
  then show ?thesis
    using assms FIFO_WRITE_ok [OF assms(1), of reg v] by (auto simp: ky_ok_def)
qed

lemma head_FIFO_WRITE:
  assumes "ky_ok s" and "FIFO_WRITE reg v s = Some t"
  shows "unat (head (fifo t)) = (unat (head (fifo s)) + 1) mod 1024"
proof -
  have "unat (head (fifo s) + 1) = unat (head (fifo s)) + 1" and "unat (head (fifo s)) < 1024"
    using assms(1) unat_add_lem [of "head (fifo s)" 1] by (simp_all add: ky_ok_def)
  then show ?thesis
    using assms FIFO_WRITE_ok [OF assms(1), of reg v] by (auto simp: mod_if)
qed

lemma fifo_write_all_ok:
  "ky_ok s \<Longrightarrow> \<exists>t. fifo_write_all ws s = Some t \<and> ky_ok t"
proof (induction ws arbitrary: s)
  case Nil
  then show ?case by simp
next
  case (Cons w ws)
  obtain r v where w: "w = (r, v)" by (cases w)
  obtain u where u: "FIFO_WRITE r v s = Some u"
    using FIFO_WRITE_ok [OF Cons.prems] by blast
  with Cons.IH [OF ky_ok_fifo_write [OF Cons.prems u]] w show ?case by simp
qed

text \<open>
  A concrete card and driver, for the instances below: the card takes commands as soon as it is
  told the head, and its tail register reads that head.
\<close>

definition ky_env0 :: "u32 ky_env" where
  "ky_env0 = \<lparr>dev_read = (\<lambda>r d. (if r = drop_bit 2 FifoTail then d else 0, d)),
     dev_write = (\<lambda>r v d. if r = drop_bit 2 FifoHead then v else d), dev_step = (\<lambda>d. d),
     ky_sleep = (\<lambda>s. s\<lparr>isFull := False\<rparr>), signal_pending = (\<lambda>_. False),
     pci_resource_start = of_nat, pci_alloc_consistent = (\<lambda>n s. Some 4096),
     remap_pfn_range = (\<lambda>v p l. 0), user_mmap = (\<lambda>i s. None),
     copy_entry = (\<lambda>a d. \<lparr>command = a, entry_value = 0\<rparr>),
     pci_enable_msi = (\<lambda>_. 0), request_irq = (\<lambda>_. 0)\<rparr>"

definition ky_probed :: "u32 kyouko" where
  "ky_probed = \<lparr>ky_vma = None, p_control_base = 0, p_card_ram_base = 0, k_control_mapped = False,
     fifo = \<lparr>fifo_p_base = 0, fifo_k_base = [], head = 0, tail_cache = 0\<rparr>,
     dmabuffs = replicate 8 \<lparr>p_base = 64, k_mapped = False, cmdCount = 0, u_dma_bufferAddress = 0\<rparr>,
     dma_fill = 0, dma_drain = 0, graphics_on = 0, isFull = False, ky_lock = False,
     mmap_index = 0, dev = 0, ky_log = [], ky_pages = []\<rparr>"

definition ky_opened :: "u32 kyouko" where
  "ky_opened = ky_probed\<lparr>k_control_mapped := True,
     fifo := \<lparr>fifo_p_base = 4096, fifo_k_base = replicate 1024 \<lparr>command = 0, entry_value = 0\<rparr>,
       head = 0, tail_cache = 0\<rparr>\<rparr>"

lemma ky_ok_opened: "ky_ok ky_opened"
  by (simp add: ky_ok_def ky_opened_def ky_probed_def)

section \<open>The FIFO is a ring buffer\<close>

lemma fifo_write_all_ring:
  assumes "ky_ok s" and "length ws \<le> 1024" and "fifo_write_all ws s = Some t"
  shows "unat (head (fifo t)) = (unat (head (fifo s)) + length ws) mod 1024 \<and>
    tail_cache (fifo t) = tail_cache (fifo s) \<and>
    (\<forall>i < length ws. fifo_k_base (fifo t) ! ((unat (head (fifo s)) + i) mod 1024) =
       \<lparr>command = fst (ws ! i), entry_value = snd (ws ! i)\<rparr>) \<and>
    (\<forall>j. length ws \<le> j \<longrightarrow> j < 1024 \<longrightarrow>
       fifo_k_base (fifo t) ! ((unat (head (fifo s)) + j) mod 1024) =
       fifo_k_base (fifo s) ! ((unat (head (fifo s)) + j) mod 1024))"
  using assms
proof (induction ws arbitrary: s)
  case Nil
  then show ?case by (auto simp: ky_ok_def)
next
  case (Cons w ws)
  obtain r v where w: "w = (r, v)" by (cases w)
  obtain u where u: "FIFO_WRITE r v s = Some u" and t: "fifo_write_all ws u = Some t"
    using Cons.prems(3) w by (auto simp: Option.bind_eq_Some_conv)
  let ?h = "unat (head (fifo s))"
  have h: "?h < 1024" and len: "length (fifo_k_base (fifo s)) = 1024"
    using Cons.prems(1) by (simp_all add: ky_ok_def)
  have hu: "unat (head (fifo u)) = (?h + 1) mod 1024"
    by (rule head_FIFO_WRITE [OF Cons.prems(1) u])
  have ku: "fifo_k_base (fifo u) = (fifo_k_base (fifo s))[?h := \<lparr>command = r, entry_value = v\<rparr>]"
    and tu: "tail_cache (fifo u) = tail_cache (fifo s)"
    using u FIFO_WRITE_ok [OF Cons.prems(1), of r v] by auto
  have "length ws \<le> 1024" using Cons.prems(2) by simp
  note IH = Cons.IH [OF ky_ok_fifo_write [OF Cons.prems(1) u] this t]
  have shift: "(unat (head (fifo u)) + i) mod 1024 = (?h + Suc i) mod 1024" for i
    unfolding hu by (simp add: mod_simps)
  have first: "fifo_k_base (fifo t) ! (?h mod 1024) = \<lparr>command = r, entry_value = v\<rparr>"
  proof -
    have "fifo_k_base (fifo t) ! ((unat (head (fifo u)) + 1023) mod 1024) =
        fifo_k_base (fifo u) ! ((unat (head (fifo u)) + 1023) mod 1024)"
      using IH Cons.prems(2) by simp
    then show ?thesis unfolding shift using h len by (simp add: ku)
  qed
  have rest: "fifo_k_base (fifo u) ! ((?h + j) mod 1024) = fifo_k_base (fifo s) ! ((?h + j) mod 1024)"
    if "0 < j" "j < 1024" for j
  proof -
    have "(?h + j) mod 1024 \<noteq> ?h" using that h by (auto simp: mod_if)
    then show ?thesis by (simp add: ku)
  qed
  show ?case
  proof (intro conjI allI impI)
    show "unat (head (fifo t)) = (?h + length (w # ws)) mod 1024"
      using IH shift [of "length ws"] by simp
    show "tail_cache (fifo t) = tail_cache (fifo s)" using IH tu by simp
    show "fifo_k_base (fifo t) ! ((?h + i) mod 1024) =
        \<lparr>command = fst ((w # ws) ! i), entry_value = snd ((w # ws) ! i)\<rparr>"
      if "i < length (w # ws)" for i
      using that first IH shift by (cases i) (auto simp: w)
    show "fifo_k_base (fifo t) ! ((?h + j) mod 1024) = fifo_k_base (fifo s) ! ((?h + j) mod 1024)"
      if j: "length (w # ws) \<le> j" "j < 1024" for j
    proof -
      obtain i where i: "j = Suc i" using j by (cases j) auto
      have "fifo_k_base (fifo t) ! ((unat (head (fifo u)) + i) mod 1024) =
          fifo_k_base (fifo u) ! ((unat (head (fifo u)) + i) mod 1024)"
        using IH j i by simp
      then show ?thesis unfolding shift using rest [of j] j i by simp
    qed
  qed
qed

text \<open>
  The command FIFO is a ring of 1024 entries. In a well-formed state every sequence of up to
  1024 writes succeeds; the commands lie in order from the old head on, modulo the size, every
  other entry is unchanged, and the head has moved by their number.
\<close>

theorem fifo_ring:
  assumes "ky_ok s" and "length ws \<le> 1024"
  shows "\<exists>t. fifo_write_all ws s = Some t \<and> ky_ok t \<and>
    unat (head (fifo t)) = (unat (head (fifo s)) + length ws) mod 1024 \<and>
    (\<forall>i < length ws. fifo_k_base (fifo t) ! ((unat (head (fifo s)) + i) mod 1024) =
       \<lparr>command = fst (ws ! i), entry_value = snd (ws ! i)\<rparr>) \<and>
    (\<forall>j. length ws \<le> j \<longrightarrow> j < 1024 \<longrightarrow>
       fifo_k_base (fifo t) ! ((unat (head (fifo s)) + j) mod 1024) =
       fifo_k_base (fifo s) ! ((unat (head (fifo s)) + j) mod 1024))"
proof -
  obtain t where "fifo_write_all ws s = Some t" "ky_ok t"
    using fifo_write_all_ok [OF assms(1)] by blast
  with fifo_write_all_ring [OF assms this(1)] show ?thesis by blast
qed

lemma fifo_ring_witness:
  "\<exists>t. fifo_write_all [(Clear_Buffer, 3), (Flush, 0)] ky_opened = Some t \<and>
     unat (head (fifo t)) = 2 \<and>
     fifo_k_base (fifo t) ! 1 = \<lparr>command = Flush, entry_value = 0\<rparr>"
proof -
  let ?ws = "[(Clear_Buffer, 3), (Flush, 0 :: u32)]"
  have h: "unat (head (fifo ky_opened)) = 0" by (simp add: ky_opened_def)
  obtain t where t: "fifo_write_all ?ws ky_opened = Some t"
    "unat (head (fifo t)) = (unat (head (fifo ky_opened)) + length ?ws) mod 1024"
    "\<forall>i < length ?ws. fifo_k_base (fifo t) ! ((unat (head (fifo ky_opened)) + i) mod 1024) =
       \<lparr>command = fst (?ws ! i), entry_value = snd (?ws ! i)\<rparr>"
    using fifo_ring [OF ky_ok_opened, of ?ws] by auto
  have "fifo_k_base (fifo t) ! 1 = \<lparr>command = Flush, entry_value = 0\<rparr>"
    using t(3) [rule_format, of 1] h by simp
  with t(1,2) h show ?thesis by auto
qed

text \<open>
  A full FIFO looks empty. If the driver's copy of the tail equals the head and 1024
  commands are queued, then \<open>FIFO_FLUSH\<close> tells the card the head it already had and returns at
  once, without reading the tail of the card.
\<close>

theorem fifo_full_looks_empty:
  assumes "ky_ok s" and "tail_cache (fifo s) = head (fifo s)" and "length ws = 1024"
  shows "\<exists>t. fifo_write_all ws s = Some t \<and> head (fifo t) = head (fifo s) \<and>
    fifo_flush E t = K_WRITE_REG E FifoHead (head (fifo s)) t"
proof -
  obtain t where t: "fifo_write_all ws s = Some t" "ky_ok t"
    using fifo_write_all_ok [OF assms(1)] by blast
  have ring: "unat (head (fifo t)) = (unat (head (fifo s)) + 1024) mod 1024"
    "tail_cache (fifo t) = tail_cache (fifo s)"
    using fifo_write_all_ring [OF assms(1) _ t(1)] assms(3) by simp_all
  have "unat (head (fifo s)) < 1024" using assms(1) by (simp add: ky_ok_def)
  with ring(1) have "head (fifo t) = head (fifo s)" by (simp add: word_unat_eq_iff)
  moreover from this have "fifo_flush E t = K_WRITE_REG E FifoHead (head (fifo s)) t"
    using t(2) ring(2) assms(2)
    by (simp add: fifo_flush_def K_WRITE_REG_ok flush_loop.simps)
  ultimately show ?thesis using t(1) by blast
qed

lemma fifo_full_looks_empty_witness:
  "\<exists>t. fifo_write_all (replicate 1024 (Flush, 1)) ky_opened = Some t \<and>
     fifo_flush ky_env0 t = K_WRITE_REG ky_env0 FifoHead 0 t"
  using fifo_full_looks_empty [OF ky_ok_opened, of "replicate 1024 (Flush, 1)" ky_env0]
  by (auto simp: ky_opened_def)


section \<open>Flushing\<close>

text \<open>The card while the driver polls: its state before a poll, and the tail a poll reads.\<close>

fun polled :: "'d ky_env \<Rightarrow> nat \<Rightarrow> 'd \<Rightarrow> 'd" where
  "polled E 0 d = d"
| "polled E (Suc n) d = polled E n (dev_step E (snd (dev_read E (drop_bit 2 FifoTail) d)))"

definition tail_read :: "'d ky_env \<Rightarrow> nat \<Rightarrow> 'd \<Rightarrow> u32" where
  "tail_read E n d = fst (dev_read E (drop_bit 2 FifoTail) (polled E n d))"

text \<open>One turn of the loop.\<close>

definition flush_turn :: "'d ky_env \<Rightarrow> 'd kyouko \<Rightarrow> 'd kyouko" where
  "flush_turn E s = dev_update (dev_step E)
     (fifo_update (tail_cache_update (\<lambda>_. tail_read E 0 (dev s)))
       (dev_update (\<lambda>_. snd (dev_read E (drop_bit 2 FifoTail) (dev s))) s))"

lemma flush_loop_step:
  assumes "k_control_mapped s"
  shows "flush_loop E s =
    (if tail_cache (fifo s) = head (fifo s) then Some s else flush_loop E (flush_turn E s))"
proof -
  obtain v d where r: "dev_read E (drop_bit 2 FifoTail) (dev s) = (v, d)"
    by (cases "dev_read E (drop_bit 2 FifoTail) (dev s)") auto
  show ?thesis
    using assms r
    by (subst flush_loop.simps) (simp add: K_READ_REG_def flush_turn_def tail_read_def)
qed

lemma flush_turn_simps [simp]:
  "k_control_mapped (flush_turn E s) = k_control_mapped s"
  "head (fifo (flush_turn E s)) = head (fifo s)"
  "tail_cache (fifo (flush_turn E s)) = tail_read E 0 (dev s)"
  "tail_read E n (dev (flush_turn E s)) = tail_read E (Suc n) (dev s)"
  by (simp_all add: flush_turn_def tail_read_def)

lemma flush_loop_returns:
  assumes "k_control_mapped s" and "tail_read E n (dev s) = head (fifo s)"
  shows "\<exists>t. flush_loop E s = Some t"
  using assms
proof (induction n arbitrary: s)
  case 0
  then show ?case
    by (simp add: flush_loop_step [of s] flush_loop_step [of "flush_turn E s"])
next
  case (Suc n)
  then show ?case
    using Suc.IH [of "flush_turn E s"] by (simp add: flush_loop_step [of s])
qed

lemma flush_loop_result:
  assumes "flush_loop E s = Some t" and "k_control_mapped s"
  shows "tail_cache (fifo t) = head (fifo s) \<and> head (fifo t) = head (fifo s) \<and>
    (tail_cache (fifo s) = head (fifo s) \<or> (\<exists>n. tail_read E n (dev s) = head (fifo s)))"
  using assms
proof (induction rule: flush_loop.raw_induct [rotated, consumes 1, case_names step])
  case (step f E s t)
  show ?case
  proof (cases "tail_cache (fifo s) = head (fifo s)")
    case True
    with step(2) show ?thesis by auto
  next
    case False
    obtain v d where r: "dev_read E (drop_bit 2 FifoTail) (dev s) = (v, d)"
      by (cases "dev_read E (drop_bit 2 FifoTail) (dev s)") auto
    have "f E (flush_turn E s) = Some t"
      using step(2,3) False r by (simp add: K_READ_REG_def flush_turn_def tail_read_def)
    from step(1) [OF this] step(3) show ?thesis by simp metis
  qed
qed

text \<open>
  C33: \<open>FIFO_FLUSH\<close> returns exactly if the card catches up. The flush announces the head to the
  card and then polls the tail; it returns if and only if the driver's copy of the tail was the
  head already or some poll reads the head, and when it returns the copy of the tail is the head.
\<close>

theorem fifo_flush_returns_iff:
  assumes "ky_ok s"
  shows "((\<exists>t. fifo_flush E s = Some t) \<longleftrightarrow>
      tail_cache (fifo s) = head (fifo s) \<or>
      (\<exists>n. tail_read E n (dev_write E (drop_bit 2 FifoHead) (head (fifo s)) (dev s)) = head (fifo s)))
    \<and> (\<forall>t. fifo_flush E s = Some t \<longrightarrow>
         tail_cache (fifo t) = head (fifo s) \<and> head (fifo t) = head (fifo s))"
proof -
  let ?s = "dev_update (dev_write E (drop_bit 2 FifoHead) (head (fifo s))) s"
  have m: "k_control_mapped ?s" using assms by (simp add: ky_ok_def)
  have f: "fifo_flush E s = flush_loop E ?s"
    by (simp add: fifo_flush_def K_WRITE_REG_ok [OF assms])
  have "(\<exists>t. flush_loop E ?s = Some t) \<longleftrightarrow> tail_cache (fifo s) = head (fifo s) \<or>
      (\<exists>n. tail_read E n (dev ?s) = head (fifo s))"
  proof
    assume "\<exists>t. flush_loop E ?s = Some t"
    then show "tail_cache (fifo s) = head (fifo s) \<or> (\<exists>n. tail_read E n (dev ?s) = head (fifo s))"
      using flush_loop_result [OF _ m] by auto
  next
    assume "tail_cache (fifo s) = head (fifo s) \<or> (\<exists>n. tail_read E n (dev ?s) = head (fifo s))"
    then show "\<exists>t. flush_loop E ?s = Some t"
    proof
      assume "tail_cache (fifo s) = head (fifo s)"
      then have "flush_loop E ?s = Some ?s" by (subst flush_loop_step [OF m]) simp
      then show ?thesis by blast
    next
      assume "\<exists>n. tail_read E n (dev ?s) = head (fifo s)"
      then obtain n where "tail_read E n (dev ?s) = head (fifo ?s)" by auto
      then show ?thesis by (rule flush_loop_returns [OF m])
    qed
  qed
  then show ?thesis
    using flush_loop_result [OF _ m] by (simp add: f)
qed

lemma fifo_flush_returns_witness:
  "\<exists>t. fifo_flush ky_env0 (ky_opened\<lparr>fifo := (fifo ky_opened)\<lparr>head := 5\<rparr>\<rparr>) = Some t"
proof -
  let ?s = "ky_opened\<lparr>fifo := (fifo ky_opened)\<lparr>head := 5\<rparr>\<rparr>"
  have "ky_ok ?s" using ky_ok_opened by (simp add: ky_ok_def)
  moreover have "tail_read ky_env0 0 (dev_write ky_env0 (drop_bit 2 FifoHead) (head (fifo ?s)) (dev ?s)) =
      head (fifo ?s)"
    by (simp add: tail_read_def ky_env0_def)
  ultimately show ?thesis using fifo_flush_returns_iff [of ?s ky_env0] by blast
qed

section \<open>Interrupts\<close>

lemma rkintr_result:
  assumes "ky_ok s"
  shows "\<exists>t. rkintr E s = Some (IRQ_HANDLED, t) \<and> ky_ok t \<and>
    dma_fill t = dma_fill s \<and> dmabuffs t = dmabuffs s \<and> ky_lock t = ky_lock s \<and>
    isFull t = (isFull s \<and> dma_fill s = dma_drain t) \<and>
    unat (dma_drain t) = (unat (dma_drain s) + 1) mod 8 \<and>
    unat (head (fifo t)) = (unat (head (fifo s)) + 2) mod 1024 \<and>
    fifo_k_base (fifo t) ! unat (head (fifo s)) =
      \<lparr>command = BufferA_Address, entry_value = ucast (p_base (dmabuffs s ! unat (dma_drain t)))\<rparr> \<and>
    fifo_k_base (fifo t) ! ((unat (head (fifo s)) + 1) mod 1024) =
      \<lparr>command = BufferA_Config, entry_value = cmdCount (dmabuffs s ! unat (dma_drain t))\<rparr>"
proof -
  obtain v d where r: "K_READ_REG E InterruptStatus s = Some (v, dev_update (\<lambda>_. d) s)"
    using K_READ_REG_ok [OF assms] .
  define s0 where "s0 = dev_update (dev_write E (drop_bit 2 InterruptStatus) 0xf) (dev_update (\<lambda>_. d) s)"
  define s1 where "s1 = s0\<lparr>dma_drain := (dma_drain s0 + 1) mod NUM_BUFS\<rparr>"
  have ok1: "ky_ok s1" using assms by (simp add: s1_def s0_def ky_ok_def)
  have s1: "fifo s1 = fifo s" "dmabuffs s1 = dmabuffs s" "unat (dma_drain s1) < 8"
    and s0: "dmabuffs s0 = dmabuffs s" "(dma_drain s0 + 1) mod NUM_BUFS = dma_drain s1"
    by (simp_all add: s1_def s0_def)
  let ?b = "dmabuffs s ! unat (dma_drain s1)"
  let ?ws = "[(BufferA_Address, ucast (p_base ?b)), (BufferA_Config, cmdCount ?b)]"
  obtain s2 where s2: "fifo_write_all ?ws s1 = Some s2" "ky_ok s2"
    using fifo_write_all_ok [OF ok1] by blast
  then obtain u where u: "FIFO_WRITE BufferA_Address (ucast (p_base ?b)) s1 = Some u"
    "FIFO_WRITE BufferA_Config (cmdCount ?b) u = Some s2"
    by (auto simp: Option.bind_eq_Some_conv)
  have same: "dmabuffs u = dmabuffs s" "dma_drain u = dma_drain s1" "dma_drain s2 = dma_drain s1"
    using FIFO_WRITE_frame [OF u(1)] FIFO_WRITE_frame [OF u(2)] s1 by simp_all
  define s3 where "s3 = dev_update (dev_write E (drop_bit 2 FifoHead) (head (fifo s2))) s2"
  define t where "t = (if dma_fill s3 \<noteq> dma_drain s3 then ky_note Wake_up (s3\<lparr>isFull := False\<rparr>) else s3)"
  have t: "ky_ok t" "fifo t = fifo s2" "dma_drain t = dma_drain s1"
    using s2(2) same by (simp_all add: t_def s3_def ky_ok_def)
  have fr: "dma_fill t = dma_fill s" "dmabuffs t = dmabuffs s" "ky_lock t = ky_lock s"
    "isFull t = (isFull s \<and> dma_fill s = dma_drain t)"
    using FIFO_WRITE_frame [OF u(1)] FIFO_WRITE_frame [OF u(2)] s1
    by (auto simp: t_def s3_def s1_def s0_def)
  have w: "K_WRITE_REG E InterruptStatus 0xf (dev_update (\<lambda>_. d) s) = Some s0"
    using assms by (simp add: K_WRITE_REG_def ky_ok_def s0_def)
  have lt: "unat (dma_drain s1) < length (dmabuffs s)"
    using assms s1(3) by (simp add: ky_ok_def)
  have fold: "s0\<lparr>dma_drain := dma_drain s1\<rparr> = s1" by (simp add: s1_def)
  have "rkintr E s = Some (IRQ_HANDLED, t)"
    by (simp add: rkintr_def r w s0 fold s1 lt Let_def u same
        K_WRITE_REG_ok [OF s2(2)] s3_def [symmetric] t_def)
  moreover have "unat (dma_drain s1) = (unat (dma_drain s) + 1) mod 8"
  proof -
    have "unat (dma_drain s + 1) = unat (dma_drain s) + 1"
      using assms unat_add_lem [of "dma_drain s" 1] by (simp add: ky_ok_def)
    then show ?thesis by (simp add: s1_def s0_def NUM_BUFS_def unat_mod)
  qed
  moreover have h: "unat (head (fifo s)) mod 1024 = unat (head (fifo s))"
    using assms by (simp add: ky_ok_def)
  have ring: "unat (head (fifo s2)) = (unat (head (fifo s)) + 2) mod 1024"
    "fifo_k_base (fifo s2) ! unat (head (fifo s)) =
       \<lparr>command = BufferA_Address, entry_value = ucast (p_base ?b)\<rparr>"
    "fifo_k_base (fifo s2) ! ((unat (head (fifo s)) + 1) mod 1024) =
       \<lparr>command = BufferA_Config, entry_value = cmdCount ?b\<rparr>"
  proof -
    have "length ?ws \<le> 1024" by simp
    note R = fifo_write_all_ring [OF ok1 this s2(1)]
    show "unat (head (fifo s2)) = (unat (head (fifo s)) + 2) mod 1024"
      using conjunct1 [OF R] by (simp add: s1)
    have e: "fifo_k_base (fifo s2) ! ((unat (head (fifo s)) + i) mod 1024) =
        \<lparr>command = fst (?ws ! i), entry_value = snd (?ws ! i)\<rparr>" if "i < 2" for i
      using R that unfolding s1(1) by simp
    show "fifo_k_base (fifo s2) ! unat (head (fifo s)) =
       \<lparr>command = BufferA_Address, entry_value = ucast (p_base ?b)\<rparr>"
      using e [of 0] h by simp
    show "fifo_k_base (fifo s2) ! ((unat (head (fifo s)) + 1) mod 1024) =
       \<lparr>command = BufferA_Config, entry_value = cmdCount ?b\<rparr>"
      using e [of 1] by simp
  qed
  ultimately show ?thesis
    unfolding t(2,3) [symmetric] using t(1) ring t(2,3) fr by auto
qed

text \<open>
  The interrupt handler claims every interrupt. In a well-formed state \<open>rkintr\<close> returns
  \<open>IRQ_HANDLED\<close> whatever the status register says, also when the bit of the DMA engine is not
  set; it advances the drain index and queues the descriptor of the next buffer for the card.
\<close>

theorem rkintr_claims_every_interrupt:
  assumes "ky_ok s"
  shows "\<exists>t. rkintr E s = Some (IRQ_HANDLED, t) \<and> ky_ok t \<and>
    unat (dma_drain t) = (unat (dma_drain s) + 1) mod 8 \<and>
    unat (head (fifo t)) = (unat (head (fifo s)) + 2) mod 1024 \<and>
    fifo_k_base (fifo t) ! unat (head (fifo s)) =
      \<lparr>command = BufferA_Address, entry_value = ucast (p_base (dmabuffs s ! unat (dma_drain t)))\<rparr> \<and>
    fifo_k_base (fifo t) ! ((unat (head (fifo s)) + 1) mod 1024) =
      \<lparr>command = BufferA_Config, entry_value = cmdCount (dmabuffs s ! unat (dma_drain t))\<rparr>"
  using rkintr_result [OF assms, of E] by blast

lemma rkintr_claims_every_interrupt_witness:
  "\<exists>t. rkintr ky_env0 ky_opened = Some (IRQ_HANDLED, t) \<and> unat (dma_drain t) = 1"
  using rkintr_claims_every_interrupt [OF ky_ok_opened, of ky_env0]
  by (auto simp: ky_opened_def ky_probed_def)

end
