(* ===== verification/Refine.thy ===== *)
theory Refine
  imports Main
begin

text \<open>
  State machines and what it means that one implements another. A step relation has labels, which
  are what is seen of a step from outside; a run is a sequence of steps. The locale \<open>simulation\<close>
  is the contract between an implementation and its specification: an invariant, an abstraction
  function, and that every step of the implementation is a step of the specification with the same
  label. Its interpretations are the scheduler queue as a bag of requests, in \<open>Elv_Steps\<close>, and the
  DMA buffers of the graphics driver as a queue, in \<open>Kyouko_Ring\<close>.
\<close>

inductive runs :: "('a \<Rightarrow> 's \<Rightarrow> 's \<Rightarrow> bool) \<Rightarrow> 'a list \<Rightarrow> 's \<Rightarrow> 's \<Rightarrow> bool" for step where
  runs_none: "runs step [] s s"
| runs_more: "step a s t \<Longrightarrow> runs step as t u \<Longrightarrow> runs step (a # as) s u"

inductive_simps runs_Nil [simp]: "runs step [] s t"
inductive_simps runs_Cons: "runs step (a # as) s t"

lemma runs_append: "runs step (as @ bs) s u \<longleftrightarrow> (\<exists>t. runs step as s t \<and> runs step bs t u)"
  by (induction as arbitrary: s) (auto simp: runs_Cons)

text \<open>If a label determines what its step does, a sequence of labels determines where a run ends.\<close>

lemma runs_unique:
  assumes det: "\<And>a x y z. step a x y \<Longrightarrow> step a x z \<Longrightarrow> y = z"
    and "runs step as s t" and "runs step as s u"
  shows "t = u"
  using assms(2,3)
proof (induction arbitrary: u rule: runs.induct)
  case (runs_more a s t as v)
  from runs_more.prems obtain w where "step a s w" "runs step as w u" by (auto simp: runs_Cons)
  with runs_more.IH runs_more.hyps(1) det show ?case by blast
qed simp

locale simulation =
  fixes step :: "'a \<Rightarrow> 's \<Rightarrow> 's \<Rightarrow> bool" and inv :: "'s \<Rightarrow> bool"
    and abst :: "'s \<Rightarrow> 't" and spec :: "'a \<Rightarrow> 't \<Rightarrow> 't \<Rightarrow> bool"
  assumes step_inv: "step a s t \<Longrightarrow> inv s \<Longrightarrow> inv t"
    and step_spec: "step a s t \<Longrightarrow> inv s \<Longrightarrow> spec a (abst s) (abst t)"
begin

lemma runs_spec:
  assumes "runs step as s t" and "inv s"
  shows "inv t \<and> runs spec as (abst s) (abst t)"
  using assms by (induction rule: runs.induct) (auto simp: runs_Cons intro: step_inv step_spec)

end

end
