(* ===== verification/Kyouko_Ring.thy ===== *)
theory Kyouko_Ring
  imports Kyouko_Safety Refine
begin

text \<open>
  The queue of DMA buffers of the Kyouko3 driver. The indices \<open>dma_fill\<close> and \<open>dma_drain\<close> and the
  flag \<open>isFull\<close> represent a queue of buffer numbers (an abstraction function), \<open>START_DMA\<close> and the
  interrupt handler are compared with its operations; and the states that the entry points of the
  driver reach from an open device are an inductive relation with an invariant.
\<close>

section \<open>The abstract queue\<close>

definition ring_list :: "nat \<Rightarrow> nat \<Rightarrow> bool \<Rightarrow> nat list" where
  "ring_list d f full = map (\<lambda>i. (d + i) mod 8) [0..<(if full then 8 else (f + 8 - d) mod 8)]"

definition ky_pending :: "'d kyouko \<Rightarrow> nat list" where
  "ky_pending s = ring_list (unat (dma_drain s)) (unat (dma_fill s)) (isFull s)"

definition ky_ring_ok :: "'d kyouko \<Rightarrow> bool" where
  "ky_ring_ok s \<longleftrightarrow> ky_ok s \<and> \<not> ky_lock s \<and> (isFull s \<longrightarrow> dma_fill s = dma_drain s)"

lemma ring_push_all:
  "list_all (\<lambda>d. list_all (\<lambda>f.
     ring_list d ((f + 1) mod 8) ((f + 1) mod 8 = d) = ring_list d f False @ [f]) [0..<8]) [0..<8]"
  by code_simp

lemma ring_push:
  assumes "d < 8" and "f < 8"
  shows "ring_list d ((f + 1) mod 8) ((f + 1) mod 8 = d) = ring_list d f False @ [f]"
  using ring_push_all assms by (auto simp: list_all_iff)

lemma ring_pop_all:
  "list_all (\<lambda>d. list_all (\<lambda>f. list_all (\<lambda>b.
     (b \<longrightarrow> f = d) \<longrightarrow> ring_list d f b \<noteq> [] \<longrightarrow>
       ring_list ((d + 1) mod 8) f False = tl (ring_list d f b) \<and> hd (ring_list d f b) = d)
     [True, False]) [0..<8]) [0..<8]"
  by code_simp

lemma ring_pop:
  assumes "d < 8" and "f < 8" and "b \<Longrightarrow> f = d" and "ring_list d f b \<noteq> []"
  shows "ring_list ((d + 1) mod 8) f False = tl (ring_list d f b) \<and> hd (ring_list d f b) = d"
  using ring_pop_all assms by (cases b) (auto simp: list_all_iff)

lemma ring_empty_all:
  "list_all (\<lambda>d. list_all (\<lambda>f.
     (ring_list d f False = [] \<longleftrightarrow> f = d) \<and> ring_list d f True \<noteq> [] \<and>
     length (ring_list ((d + 1) mod 8) d False) = 7) [0..<8]) [0..<8]"
  by code_simp

lemma ring_empty:
  assumes "d < 8" and "f < 8"
  shows "ring_list d f b = [] \<longleftrightarrow> \<not> b \<and> f = d"
  using ring_empty_all assms by (cases b) (auto simp: list_all_iff)

lemma ring_underflow:
  assumes "d < 8"
  shows "length (ring_list ((d + 1) mod 8) d False) = 7"
  using ring_empty_all assms by (auto simp: list_all_iff)

lemma unat_next_buf:
  fixes x :: u32
  assumes "unat x < 8"
  shows "unat ((x + 1) mod NUM_BUFS) = (unat x + 1) mod 8"
proof -
  have "unat (x + 1) = unat x + 1" using assms unat_add_lem [of x 1] by simp
  then show ?thesis by (simp add: NUM_BUFS_def unat_mod)
qed

lemma ky_ring_bounds:
  assumes "ky_ring_ok s"
  shows "ky_ok s" and "\<not> ky_lock s" and "unat (dma_drain s) < 8" and "unat (dma_fill s) < 8"
    and "length (dmabuffs s) = 8" and "isFull s \<Longrightarrow> dma_fill s = dma_drain s"
  using assms by (simp_all add: ky_ring_ok_def ky_ok_def)

lemma ky_pending_empty:
  "ky_ring_ok s \<Longrightarrow> ky_pending s = [] \<longleftrightarrow> \<not> isFull s \<and> dma_fill s = dma_drain s"
  by (simp add: ky_pending_def ring_empty ky_ring_bounds word_unat_eq_iff)

section \<open>Queueing a buffer\<close>

lemma transfer_submit_queue:
  assumes ok: "ky_ring_ok s" and nf: "\<not> isFull s" and busy: "dma_fill s \<noteq> dma_drain s"
  shows "\<exists>t. transfer_submit E n s = Some (False, t) \<and> ky_ring_ok t \<and> fifo t = fifo s \<and>
    dma_drain t = dma_drain s \<and> unat (dma_fill t) = (unat (dma_fill s) + 1) mod 8 \<and>
    isFull t = (dma_fill t = dma_drain t) \<and>
    dmabuffs t = (dmabuffs s)[unat (dma_fill s) :=
      (dmabuffs s ! unat (dma_fill s))\<lparr>cmdCount := n\<rparr>]"
  using ky_ring_bounds [OF ok] nf busy unat_next_buf [of "dma_fill s"]
  by (auto simp: transfer_submit_def ky_lock_irq_def ky_unlock_irq_def Let_def
      ky_ring_ok_def ky_ok_def)

lemma transfer_submit_direct:
  assumes ok: "ky_ring_ok s" and nf: "\<not> isFull s" and idle: "dma_fill s = dma_drain s"
  shows "\<exists>t. transfer_submit E n s = Some (True, t) \<and> ky_ring_ok t \<and>
    dma_drain t = dma_drain s \<and> unat (dma_fill t) = (unat (dma_fill s) + 1) mod 8 \<and>
    dma_fill t \<noteq> dma_drain t \<and> \<not> isFull t \<and> dmabuffs t = dmabuffs s \<and>
    fifo_k_base (fifo t) ! unat (head (fifo s)) = \<lparr>command = BufferA_Address,
      entry_value = ucast (p_base (dmabuffs s ! unat (dma_fill s)))\<rparr> \<and>
    fifo_k_base (fifo t) ! ((unat (head (fifo s)) + 1) mod 1024) =
      \<lparr>command = BufferA_Config, entry_value = n\<rparr> \<and>
    dev t = dev_write E (drop_bit 2 FifoHead) (head (fifo t)) (dev s)"
proof -
  note b = ky_ring_bounds [OF ok]
  define s0 where "s0 = s\<lparr>ky_lock := True\<rparr>"
  have ok0: "ky_ok s0" using b by (simp add: s0_def ky_ok_def)
  let ?b = "dmabuffs s ! unat (dma_fill s)"
  let ?ws = "[(BufferA_Address, ucast (p_base ?b)), (BufferA_Config, n)]"
  obtain s2 where s2: "fifo_write_all ?ws s0 = Some s2" "ky_ok s2"
    using fifo_write_all_ok [OF ok0] by blast
  then obtain u where u: "FIFO_WRITE BufferA_Address (ucast (p_base ?b)) s0 = Some u"
    "FIFO_WRITE BufferA_Config n u = Some s2"
    by (auto simp: Option.bind_eq_Some_conv)
  have fr: "dmabuffs s2 = dmabuffs s" "dma_drain s2 = dma_drain s" "dma_fill s2 = dma_fill s"
    "\<not> isFull s2" "ky_lock s2" "dmabuffs u = dmabuffs s"
    using FIFO_WRITE_frame [OF u(1)] FIFO_WRITE_frame [OF u(2)] nf by (simp_all add: s0_def)
  have dv: "dev s2 = dev s"
    using u by (auto simp: FIFO_WRITE_def s0_def Let_def split: if_splits)
  define s3 where "s3 = s2\<lparr>dma_fill := (dma_fill s + 1) mod NUM_BUFS, ky_lock := False\<rparr>"
  have ok3: "ky_ok s3" using s2(2) by (simp add: s3_def ky_ok_def)
  define t where "t = dev_update (dev_write E (drop_bit 2 FifoHead) (head (fifo s3))) s3"
  have h: "unat (head (fifo s)) mod 1024 = unat (head (fifo s))" "fifo s0 = fifo s"
    using b(1) by (simp_all add: ky_ok_def s0_def)
  have e: "fifo_k_base (fifo s2) ! ((unat (head (fifo s)) + i) mod 1024) =
      \<lparr>command = fst (?ws ! i), entry_value = snd (?ws ! i)\<rparr>" if "i < 2" for i
    using fifo_write_all_ring [OF ok0 _ s2(1)] that h by simp
  have "transfer_submit E n s = Some (True, t)"
    using b(2,3,5) nf idle fr u K_WRITE_REG_ok [OF ok3, of E FifoHead]
    by (simp add: transfer_submit_def ky_lock_irq_def s0_def ky_unlock_irq_def Let_def s3_def t_def)
  moreover have f: "unat (dma_fill t) = (unat (dma_fill s) + 1) mod 8"
    using b by (simp add: t_def s3_def unat_next_buf)
  moreover have "(unat (dma_fill s) + 1) mod 8 \<noteq> unat (dma_fill s)"
    using b(4) by (auto simp: mod_if)
  then have "dma_fill t \<noteq> dma_drain t"
    using f idle fr by (auto simp: t_def s3_def)
  ultimately show ?thesis
    using fr b idle ok3 dv e [of 0] e [of 1] h
    by (auto simp: t_def s3_def ky_ring_ok_def ky_ok_def)
qed

lemma submit_enqueues:
  assumes "ky_ring_ok s" and "\<not> isFull s"
  shows "\<exists>t. transfer_submit E n s = Some (ky_pending s = [], t) \<and> ky_ring_ok t \<and>
    ky_pending t = ky_pending s @ [unat (dma_fill s)] \<and>
    (if ky_pending s = []
     then fifo_k_base (fifo t) ! ((unat (head (fifo s)) + 1) mod 1024) =
            \<lparr>command = BufferA_Config, entry_value = n\<rparr>
     else fifo t = fifo s \<and> cmdCount (dmabuffs t ! unat (dma_fill s)) = n)"
proof (cases "dma_fill s = dma_drain s")
  case True
  from transfer_submit_direct [OF assms this, of E n] obtain t where
    t: "transfer_submit E n s = Some (True, t)" "ky_ring_ok t" "dma_drain t = dma_drain s"
      "unat (dma_fill t) = (unat (dma_fill s) + 1) mod 8" "dma_fill t \<noteq> dma_drain t" "\<not> isFull t"
      "fifo_k_base (fifo t) ! ((unat (head (fifo s)) + 1) mod 1024) =
        \<lparr>command = BufferA_Config, entry_value = n\<rparr>"
    by blast
  have e: "ky_pending s = []" using assms True by (simp add: ky_pending_empty)
  have "(unat (dma_fill s) + 1) mod 8 \<noteq> unat (dma_drain s)"
    using t(3,4,5) by (simp add: word_unat_eq_iff)
  then have "ky_pending t = ky_pending s @ [unat (dma_fill s)]"
    using ring_push [of "unat (dma_drain s)" "unat (dma_fill s)"] t(3,4,6) assms
      ky_ring_bounds [OF assms(1)] by (simp add: ky_pending_def)
  with t e show ?thesis by auto
next
  case False
  from transfer_submit_queue [OF assms this, of E n] obtain t where
    t: "transfer_submit E n s = Some (False, t)" "ky_ring_ok t" "fifo t = fifo s"
      "dma_drain t = dma_drain s" "unat (dma_fill t) = (unat (dma_fill s) + 1) mod 8"
      "isFull t = (dma_fill t = dma_drain t)"
      "dmabuffs t = (dmabuffs s)[unat (dma_fill s) :=
        (dmabuffs s ! unat (dma_fill s))\<lparr>cmdCount := n\<rparr>]"
    by blast
  have e: "ky_pending s \<noteq> []" using assms False by (simp add: ky_pending_empty)
  have "isFull t = ((unat (dma_fill s) + 1) mod 8 = unat (dma_drain s))"
    using t(4,5,6) by (simp add: word_unat_eq_iff)
  then have "ky_pending t = ky_pending s @ [unat (dma_fill s)]"
    using ring_push [of "unat (dma_drain s)" "unat (dma_fill s)"] t(4,5) assms
      ky_ring_bounds [OF assms(1)] by (simp add: ky_pending_def)
  with t e ky_ring_bounds [OF assms(1)] show ?thesis by auto
qed

text \<open>
  \<open>START_DMA\<close> enqueues. If the queue of buffers is not full, the part of \<open>START_DMA\<close> before the
  wait always completes and appends the buffer at \<open>dma_fill\<close> to the queue; the buffer is handed to
  the card at once, with the caller's count, exactly if the queue was empty, and otherwise the
  count is kept with the buffer.
\<close>

theorem start_dma_enqueues:
  assumes "ky_ring_ok s" and "\<not> isFull s"
  shows "\<exists>t. transfer_submit E n s = Some (ky_pending s = [], t) \<and> ky_ring_ok t \<and>
    ky_pending t = ky_pending s @ [unat (dma_fill s)] \<and>
    (if ky_pending s = []
     then fifo_k_base (fifo t) ! ((unat (head (fifo s)) + 1) mod 1024) =
            \<lparr>command = BufferA_Config, entry_value = n\<rparr>
     else fifo t = fifo s \<and> cmdCount (dmabuffs t ! unat (dma_fill s)) = n)"
  by (rule submit_enqueues [OF assms])

lemma ky_ring_opened: "ky_ring_ok ky_opened"
  using ky_ok_opened by (simp add: ky_ring_ok_def ky_opened_def ky_probed_def)

lemma start_dma_enqueues_witness:
  "\<exists>t. transfer_submit ky_env0 7 ky_opened = Some (True, t) \<and> ky_pending t = [0]"
proof -
  have e: "ky_pending ky_opened = []" and f: "unat (dma_fill ky_opened) = 0"
    by (simp_all add: ky_opened_def ky_probed_def ky_pending_def ring_list_def)
  have nf: "\<not> isFull ky_opened" by (simp add: ky_opened_def ky_probed_def)
  from start_dma_enqueues [OF ky_ring_opened nf, of ky_env0 7] e f show ?thesis by auto
qed

section \<open>An interrupt\<close>

lemma irq_dequeues:
  assumes "ky_ring_ok s" and "ky_pending s \<noteq> []"
  shows "\<exists>t. rkintr E s = Some (IRQ_HANDLED, t) \<and> ky_ring_ok t \<and>
    ky_pending t = tl (ky_pending s) \<and>
    (\<forall>b bs. ky_pending t = b # bs \<longrightarrow>
      fifo_k_base (fifo t) ! unat (head (fifo s)) =
        \<lparr>command = BufferA_Address, entry_value = ucast (p_base (dmabuffs s ! b))\<rparr> \<and>
      fifo_k_base (fifo t) ! ((unat (head (fifo s)) + 1) mod 1024) =
        \<lparr>command = BufferA_Config, entry_value = cmdCount (dmabuffs s ! b)\<rparr>)"
proof -
  note b = ky_ring_bounds [OF assms(1)]
  obtain t where t: "rkintr E s = Some (IRQ_HANDLED, t)" "ky_ok t" "dma_fill t = dma_fill s"
    "ky_lock t = ky_lock s" "isFull t = (isFull s \<and> dma_fill s = dma_drain t)"
    "unat (dma_drain t) = (unat (dma_drain s) + 1) mod 8"
    "fifo_k_base (fifo t) ! unat (head (fifo s)) = \<lparr>command = BufferA_Address,
       entry_value = ucast (p_base (dmabuffs s ! unat (dma_drain t)))\<rparr>"
    "fifo_k_base (fifo t) ! ((unat (head (fifo s)) + 1) mod 1024) = \<lparr>command = BufferA_Config,
       entry_value = cmdCount (dmabuffs s ! unat (dma_drain t))\<rparr>"
    using rkintr_result [OF b(1), of E] by blast
  have "(unat (dma_drain s) + 1) mod 8 \<noteq> unat (dma_drain s)" using b(3) by (auto simp: mod_if)
  then have "dma_drain t \<noteq> dma_drain s" using t(6) by auto
  then have nf: "\<not> isFull t" using t(5) b(6) by auto
  then have ok: "ky_ring_ok t" using t b(2) by (simp add: ky_ring_ok_def)
  have "ky_pending t = tl (ky_pending s)"
    using ring_pop [OF b(3,4), of "isFull s"] b(6) assms(2) t(3,6) nf
    by (simp add: ky_pending_def)
  moreover have "x = unat (dma_drain t)" if "ky_pending t = x # xs" for x xs
    using ring_pop [OF ky_ring_bounds(3,4) [OF ok], of "isFull t"] that nf
    by (simp add: ky_pending_def)
  ultimately show ?thesis using t ok by blast
qed

text \<open>
  An interrupt dequeues. If a transfer is pending, the interrupt handler removes the head of
  the queue, and if another buffer is pending then, that buffer and its count go to the card.
\<close>

theorem rkintr_dequeues:
  assumes "ky_ring_ok s" and "ky_pending s \<noteq> []"
  shows "\<exists>t. rkintr E s = Some (IRQ_HANDLED, t) \<and> ky_ring_ok t \<and>
    ky_pending t = tl (ky_pending s) \<and>
    (\<forall>b bs. ky_pending t = b # bs \<longrightarrow>
      fifo_k_base (fifo t) ! unat (head (fifo s)) =
        \<lparr>command = BufferA_Address, entry_value = ucast (p_base (dmabuffs s ! b))\<rparr> \<and>
      fifo_k_base (fifo t) ! ((unat (head (fifo s)) + 1) mod 1024) =
        \<lparr>command = BufferA_Config, entry_value = cmdCount (dmabuffs s ! b)\<rparr>)"
  by (rule irq_dequeues [OF assms])

lemma rkintr_dequeues_witness:
  "let s = ky_opened\<lparr>dma_fill := 2\<rparr> in
   \<exists>t. rkintr ky_env0 s = Some (IRQ_HANDLED, t) \<and> ky_pending s = [0, 1] \<and> ky_pending t = [1]"
proof -
  let ?s = "ky_opened\<lparr>dma_fill := 2\<rparr>"
  have p: "ky_pending ?s = [0, 1]"
    by (simp add: ky_opened_def ky_probed_def ky_pending_def ring_list_def upt_rec)
  have "ky_ring_ok ?s" using ky_ring_opened by (simp add: ky_ring_ok_def ky_ok_def ky_opened_def ky_probed_def)
  from rkintr_dequeues [OF this, of ky_env0] p show ?thesis by (auto simp: Let_def)
qed

text \<open>
  A spurious interrupt makes seven phantom transfers. When no transfer is pending, an interrupt
  moves \<open>dma_drain\<close> past \<open>dma_fill\<close>: afterwards seven buffers that nobody filled are pending.
\<close>

theorem spurious_irq_underflow:
  assumes "ky_ring_ok s" and "ky_pending s = []"
  shows "\<exists>t. rkintr E s = Some (IRQ_HANDLED, t) \<and> ky_ring_ok t \<and> length (ky_pending t) = 7"
proof -
  note b = ky_ring_bounds [OF assms(1)]
  obtain t where t: "rkintr E s = Some (IRQ_HANDLED, t)" "ky_ok t" "dma_fill t = dma_fill s"
    "ky_lock t = ky_lock s" "isFull t = (isFull s \<and> dma_fill s = dma_drain t)"
    "unat (dma_drain t) = (unat (dma_drain s) + 1) mod 8"
    using rkintr_result [OF b(1), of E] by blast
  have e: "\<not> isFull s" "dma_fill s = dma_drain s"
    using assms by (simp_all add: ky_pending_empty)
  then have "length (ky_pending t) = 7"
    using t ring_underflow [OF b(3)] by (simp add: ky_pending_def)
  with t e b(2) show ?thesis by (auto simp: ky_ring_ok_def)
qed

lemma spurious_irq_underflow_witness:
  "\<exists>t. rkintr ky_env0 ky_opened = Some (IRQ_HANDLED, t) \<and> length (ky_pending t) = 7"
proof -
  have "ky_pending ky_opened = []"
    by (simp add: ky_opened_def ky_probed_def ky_pending_def ring_list_def)
  from spurious_irq_underflow [OF ky_ring_opened this, of ky_env0] show ?thesis by blast
qed

section \<open>The queue in a run\<close>

datatype dma_act = Enq nat | Deq nat | Idle

inductive dma_step :: "'d ky_env \<Rightarrow> dma_act \<Rightarrow> 'd kyouko \<Rightarrow> 'd kyouko \<Rightarrow> bool" for E where
  start: "\<not> isFull s \<Longrightarrow> transfer_submit E n s = Some (d, t) \<Longrightarrow> dma_step E (Enq (unat (dma_fill s))) s t"
| irq: "ky_pending s \<noteq> [] \<Longrightarrow> rkintr E s = Some (r, t) \<Longrightarrow> dma_step E (Deq (hd (ky_pending s))) s t"
| cmd: "FIFO_WRITE reg v s = Some t \<Longrightarrow> dma_step E Idle s t"

fun queue_step :: "dma_act \<Rightarrow> nat list \<Rightarrow> nat list \<Rightarrow> bool" where
  "queue_step (Enq b) xs ys \<longleftrightarrow> b < 8 \<and> b \<notin> set xs \<and> ys = xs @ [b]"
| "queue_step (Deq b) xs ys \<longleftrightarrow> xs = b # ys"
| "queue_step Idle xs ys \<longleftrightarrow> ys = xs"

lemma ring_fresh_all: "list_all (\<lambda>d. list_all (\<lambda>f. f \<notin> set (ring_list d f False)) [0..<8]) [0..<8]"
  by code_simp

lemma ring_fresh: "d < 8 \<Longrightarrow> f < 8 \<Longrightarrow> f \<notin> set (ring_list d f False)"
  using ring_fresh_all by (auto simp: list_all_iff)

lemma dma_step_queue:
  assumes "dma_step E a s t" and ok: "ky_ring_ok s"
  shows "ky_ring_ok t \<and> queue_step a (ky_pending s) (ky_pending t)"
  using assms(1)
proof (cases rule: dma_step.cases)
  case (start n d)
  from submit_enqueues [OF ok start(2), of E n] start(3) ky_ring_bounds [OF ok] show ?thesis
    using ring_fresh [of "unat (dma_drain s)" "unat (dma_fill s)"] start(1,2) by (auto simp: ky_pending_def)
next
  case (irq r)
  from irq_dequeues [OF ok irq(2), of E] irq(3) obtain t' where
    "ky_ring_ok t" "ky_pending t = tl (ky_pending s)" by auto
  with irq(1,2) show ?thesis by simp
next
  case (cmd reg v)
  note fr = FIFO_WRITE_frame [OF cmd(2)]
  have "ky_ok t" by (rule ky_ok_fifo_write [OF _ cmd(2)]) (use ok in \<open>simp add: ky_ring_ok_def\<close>)
  with fr ok cmd(1) show ?thesis by (simp add: ky_ring_ok_def ky_pending_def)
qed

interpretation dma: simulation "dma_step E" ky_ring_ok ky_pending queue_step for E
  by unfold_locales (simp_all add: dma_step_queue)



end
