(* ===== verification/Kyouko_Steps.thy ===== *)
theory Kyouko_Steps
  imports Kyouko_Ring
begin

text \<open>
  The Kyouko3 driver as a transition system: the entry points that return, the interrupt handler
  and the steps of the card, from an open device. The invariant says that every index stays
  inside its array and that the spin lock is released, so that no entry point faults.
\<close>

section \<open>Steps\<close>

inductive ky_step :: "'d ky_env \<Rightarrow> 'd kyouko \<Rightarrow> 'd kyouko \<Rightarrow> bool" for E where
  ioctl: "kyouko3_ioctl E cmd arg s = Some (r, t) \<Longrightarrow> ky_step E s t"
| irq: "rkintr E s = Some (q, t) \<Longrightarrow> ky_step E s t"
| mmap: "kyouko3_mmap E v s = Some (r, t) \<Longrightarrow> ky_step E s t"
| card: "ky_step E s (dev_update (dev_step E) s)"

inductive_cases ky_stepE: "ky_step E s t"

definition ky_inv :: "'d kyouko \<Rightarrow> bool" where
  "ky_inv s \<longleftrightarrow> ky_ok s \<and> \<not> ky_lock s"

text \<open>
  Hypotheses on the environment: what happens during a sleep keeps the invariant, and the memory
  for the FIFO is there (the driver does not check).
\<close>

definition ky_sleep_ok :: "'d ky_env \<Rightarrow> bool" where
  "ky_sleep_ok E \<longleftrightarrow> (\<forall>s. ky_inv s \<longrightarrow> ky_inv (ky_sleep E s))"

definition ky_alloc_ok :: "'d ky_env \<Rightarrow> bool" where
  "ky_alloc_ok E \<longleftrightarrow> (\<forall>s. pci_alloc_consistent E 8192 s \<noteq> None)"

inductive ky_reach :: "'d ky_env \<Rightarrow> 'd kyouko \<Rightarrow> bool" for E where
  start: "length (dmabuffs s) = 8 \<Longrightarrow> unat (mmap_index s) < 8 \<Longrightarrow> \<not> ky_lock s \<Longrightarrow>
    kyouko3_open E s = Some t \<Longrightarrow> ky_reach E t"
| step: "ky_reach E s \<Longrightarrow> ky_step E s t \<Longrightarrow> ky_reach E t"

section \<open>Every step keeps the invariant\<close>

lemma ky_inv_dev [simp]: "ky_inv (dev_update f s) = ky_inv s"
  by (simp add: ky_inv_def ky_ok_def)

lemma ky_inv_log [simp]: "ky_inv (ky_log_update f s) = ky_inv s"
  by (simp add: ky_inv_def ky_ok_def)

lemma ky_inv_graphics [simp]: "ky_inv (graphics_on_update f s) = ky_inv s"
  by (simp add: ky_inv_def ky_ok_def)

lemma ky_inv_tail [simp]: "ky_inv (fifo_update (tail_cache_update f) s) = ky_inv s"
  by (simp add: ky_inv_def ky_ok_def)

lemma ky_inv_vma [simp]: "ky_inv (ky_vma_update f s) = ky_inv s"
  by (simp add: ky_inv_def ky_ok_def)

lemma ky_inv_buf [simp]:
  "length l = length (dmabuffs s) \<Longrightarrow> ky_inv (s\<lparr>dmabuffs := l\<rparr>) = ky_inv s"
  by (simp add: ky_inv_def ky_ok_def)

lemma ky_inv_read: "ky_inv s \<Longrightarrow> K_READ_REG E r s = Some (v, t) \<Longrightarrow> ky_inv t"
  by (auto simp: K_READ_REG_def split: if_splits prod.splits)

lemma ky_inv_write: "ky_inv s \<Longrightarrow> \<exists>t. K_WRITE_REG E r v s = Some t \<and> ky_inv t"
  by (auto simp: K_WRITE_REG_def ky_inv_def ky_ok_def)

lemma ky_inv_k_write_all: "ky_inv s \<Longrightarrow> \<exists>t. k_write_all E ws s = Some t \<and> ky_inv t"
proof (induction ws arbitrary: s)
  case (Cons w ws)
  obtain r v where w: "w = (r, v)" by (cases w)
  obtain u where "K_WRITE_REG E r v s = Some u" "ky_inv u"
    using ky_inv_write [OF Cons.prems] by blast
  with Cons.IH w show ?case by simp
qed simp

lemma ky_inv_fifo_write: "ky_inv s \<Longrightarrow> \<exists>t. FIFO_WRITE r v s = Some t \<and> ky_inv t"
  using FIFO_WRITE_ok [of s r v] ky_ok_fifo_write [of s r v] FIFO_WRITE_frame(5) [of r v s]
  by (fastforce simp: ky_inv_def)

lemma ky_inv_fifo_write_all: "ky_inv s \<Longrightarrow> \<exists>t. fifo_write_all ws s = Some t \<and> ky_inv t"
proof (induction ws arbitrary: s)
  case (Cons w ws)
  obtain r v where w: "w = (r, v)" by (cases w)
  obtain u where "FIFO_WRITE r v s = Some u" "ky_inv u"
    using ky_inv_fifo_write [OF Cons.prems] by blast
  with Cons.IH w show ?case by simp
qed simp

lemma ky_inv_vmode: "ky_inv s \<Longrightarrow> \<exists>t. ky_vmode E a s = Some t \<and> ky_inv t"
proof -
  assume s: "ky_inv s"
  obtain u where u: "k_write_all E vmode_on_regs s = Some u" "ky_inv u"
    using ky_inv_k_write_all [OF s] by blast
  have "ky_inv (ky_note (Sleep_ms 10) u)" using u by simp
  from ky_inv_fifo_write_all [OF this] obtain w where
    w: "fifo_write_all vmode_on_cmds (ky_note (Sleep_ms 10) u) = Some w" "ky_inv w" by blast
  obtain x where "k_write_all E [(Acceleration, 0x80000000), (ModeSet, 0)] s = Some x" "ky_inv x"
    using ky_inv_k_write_all [OF s] by blast
  with u w show ?thesis by (auto simp: ky_vmode_def simp del: k_write_all.simps fifo_write_all.simps)
qed

lemma ky_inv_flush_loop: "flush_loop E s = Some t \<Longrightarrow> ky_inv s \<Longrightarrow> ky_inv t"
proof (induction rule: flush_loop.raw_induct [rotated, consumes 1, case_names step])
  case (step f E s t)
  show ?case
  proof (cases "tail_cache (fifo s) = head (fifo s)")
    case True
    with step show ?thesis by auto
  next
    case False
    with step(2) obtain v u where r: "K_READ_REG E FifoTail s = Some (v, u)"
      and f: "f E (dev_update (dev_step E) (fifo_update (tail_cache_update (\<lambda>_. v)) u)) = Some t"
      by (auto simp: Option.bind_eq_Some_conv)
    from step(1) [OF f] ky_inv_read [OF step(3) r] show ?thesis by simp
  qed
qed

lemma ky_inv_wait: "wait_dma E s = Some t \<Longrightarrow> ky_inv s \<Longrightarrow> ky_sleep_ok E \<Longrightarrow> ky_inv t"
proof (induction rule: wait_dma.raw_induct [rotated, consumes 1, case_names step])
  case (step f E s t)
  then show ?case by (auto simp: ky_sleep_ok_def split: if_splits)
qed

lemma ky_inv_submit: "ky_inv s \<Longrightarrow> \<exists>b t. transfer_submit E n s = Some (b, t) \<and> ky_inv t"
proof -
  assume s: "ky_inv s"
  let ?s = "s\<lparr>ky_lock := True\<rparr>"
  let ?b = "dmabuffs s ! unat (dma_fill s)"
  have f: "unat (dma_fill s) < length (dmabuffs s)" and l: "\<not> ky_lock s" and ok: "ky_ok ?s"
    using s by (auto simp: ky_inv_def ky_ok_def)
  obtain t where "fifo_write_all [(BufferA_Address, ucast (p_base ?b)), (BufferA_Config, n)] ?s = Some t"
    "ky_ok t" using fifo_write_all_ok [OF ok] by blast
  then obtain u where u: "FIFO_WRITE BufferA_Address (ucast (p_base ?b)) ?s = Some u"
    "FIFO_WRITE BufferA_Config n u = Some t" "ky_ok t" by (auto simp: Option.bind_eq_Some_conv)
  have fr: "ky_lock t" "dma_fill t = dma_fill s" "dma_fill u = dma_fill s"
    using FIFO_WRITE_frame [OF u(1)] FIFO_WRITE_frame [OF u(2)] by simp_all
  have ok2: "ky_ok (t\<lparr>dma_fill := x mod NUM_BUFS, ky_lock := False\<rparr>)" for x
    using u(3) by (simp add: ky_ok_def)
  show ?thesis
  proof (cases "dma_fill s = dma_drain s \<and> \<not> isFull s")
    case True
    then show ?thesis
      using f l u fr ok2 K_WRITE_REG_ok [OF ok2]
      by (auto simp: transfer_submit_def ky_lock_irq_def ky_unlock_irq_def Let_def ky_inv_def ky_ok_def)
  next
    case False
    then show ?thesis
      using f l s by (auto simp: transfer_submit_def ky_lock_irq_def ky_unlock_irq_def Let_def
          ky_inv_def ky_ok_def)
  qed
qed

lemma ky_inv_transfer:
  assumes "ky_sleep_ok E" and "ky_inv s" and "initiate_transfer E n s = Some (r, t)"
  shows "ky_inv t"
proof -
  obtain b u where u: "transfer_submit E n s = Some (b, u)" "ky_inv u"
    using ky_inv_submit [OF assms(2)] by blast
  with assms show ?thesis
    by (auto simp: initiate_transfer_def Option.bind_eq_Some_conv split: if_splits
        dest: ky_inv_wait)
qed

lemma ky_inv_mmap: "ky_inv s \<Longrightarrow> \<exists>r t. kyouko3_mmap E v s = Some (r, t) \<and> ky_inv t"
  by (auto simp: kyouko3_mmap_def Let_def ky_inv_def ky_ok_def)

lemma ky_inv_bind_one: "ky_inv s \<Longrightarrow> bind_one E a i s = Some t \<Longrightarrow> ky_inv t"
proof -
  assume s: "ky_inv s" and b: "bind_one E a i s = Some t"
  define u where "u = (case pci_alloc_consistent E (124 * 1024) s of
        None \<Rightarrow> s\<lparr>dmabuffs := (dmabuffs s)[i := (dmabuffs s ! i)\<lparr>k_mapped := False\<rparr>]\<rparr>
      | Some p \<Rightarrow> s\<lparr>dmabuffs := (dmabuffs s)[i := (dmabuffs s ! i)\<lparr>p_base := p, k_mapped := True\<rparr>]\<rparr>)"
  have u: "ky_inv u" using s by (auto simp: u_def ky_inv_def ky_ok_def split: option.splits)
  have m: "ky_inv w" if "kyouko3_mmap E v u = Some (r, w)" for v r w
    using ky_inv_mmap [OF u, of E v] that by auto
  show ?thesis
    using b u m unfolding bind_one_def u_def [symmetric] Let_def
    by (auto simp: Option.bind_eq_Some_conv bug_on_def split: if_splits option.splits)
qed

lemma ky_inv_bind_all: "ky_inv s \<Longrightarrow> bind_all E a is s = Some t \<Longrightarrow> ky_inv t"
  by (induction "is" arbitrary: s) (auto simp: Option.bind_eq_Some_conv dest: ky_inv_bind_one)

lemma ky_inv_bind: "ky_inv s \<Longrightarrow> bind_dma E a s = Some (r, t) \<Longrightarrow> ky_inv t"
proof -
  assume s: "ky_inv s" and b: "bind_dma E a s = Some (r, t)"
  from b obtain u where u: "bind_all E a [0..<unat NUM_BUFS] s = Some u"
    by (auto simp: bind_dma_def Option.bind_eq_Some_conv)
  have ok: "ky_inv u" by (rule ky_inv_bind_all [OF s u])
  have w: "ky_inv x" if "K_WRITE_REG E InterruptSet 2 (ky_log_update f u) = Some x" for f x
    using ky_inv_write [of "ky_log_update f u" E InterruptSet 2] ok that by auto
  show ?thesis
    using b u ok by (auto simp: bind_dma_def Let_def Option.bind_eq_Some_conv split: if_splits dest: w)
qed

lemma ky_inv_unbind_all:
  "ky_inv s \<Longrightarrow> list_all (\<lambda>i. i < 8) is \<Longrightarrow> \<exists>t. unbind_all is s = Some t \<and> ky_inv t"
  by (induction "is" arbitrary: s) (simp_all, simp add: ky_inv_def ky_ok_def)

lemma ky_inv_unbind: "ky_inv s \<Longrightarrow> \<exists>t. unbind_dma E s = Some t \<and> ky_inv t"
proof -
  assume s: "ky_inv s"
  have "list_all (\<lambda>i. i < 8) [0..<unat NUM_BUFS]"
    by (simp add: NUM_BUFS_def list_all_iff)
  from ky_inv_unbind_all [OF s this] obtain u where u: "unbind_all [0..<unat NUM_BUFS] s = Some u"
    "ky_inv u" by blast
  obtain w where "K_WRITE_REG E InterruptSet 0 u = Some w" "ky_inv w"
    using ky_inv_write [OF u(2)] by blast
  with u show ?thesis by (simp add: unbind_dma_def)
qed

lemma ky_inv_rkintr: "ky_inv s \<Longrightarrow> \<exists>q t. rkintr E s = Some (q, t) \<and> ky_inv t"
  using rkintr_result [of s E] unfolding ky_inv_def by metis

lemma ky_inv_ioctl:
  assumes "ky_sleep_ok E" and "ky_inv s" and "kyouko3_ioctl E cmd a s = Some (r, t)"
  shows "ky_inv t"
proof (cases cmd)
  case VMODE
  with assms ky_inv_vmode [OF assms(2), of E "ucast a"] show ?thesis
    by (auto simp: kyouko3_ioctl_def)
next
  case BIND_DMA
  with assms show ?thesis by (auto simp: kyouko3_ioctl_def dest: ky_inv_bind)
next
  case START_DMA
  with assms show ?thesis
    by (auto simp: kyouko3_ioctl_def Option.bind_eq_Some_conv dest: ky_inv_transfer)
next
  case FIFO_QUEUE
  let ?e = "copy_entry E (ucast a) (dev s)"
  from FIFO_QUEUE assms have "FIFO_WRITE (command ?e) (entry_value ?e) s = Some t"
    by (auto simp: kyouko3_ioctl_def Let_def Option.bind_eq_Some_conv)
  with ky_inv_fifo_write [OF assms(2), of "command ?e" "entry_value ?e"] show ?thesis by simp
next
  case FIFO_FLUSH
  with assms ky_inv_write [OF assms(2), of E FifoHead "head (fifo s)"] show ?thesis
    by (auto simp: kyouko3_ioctl_def fifo_flush_def Let_def Option.bind_eq_Some_conv
        dest: ky_inv_flush_loop)
next
  case UNBIND_DMA
  with assms ky_inv_unbind [OF assms(2), of E] show ?thesis
    by (auto simp: kyouko3_ioctl_def)
next
  case OTHER_CMD
  with assms show ?thesis by (simp add: kyouko3_ioctl_def)
qed

lemma ky_inv_pause: "ky_pause E s = Some t \<Longrightarrow> ky_inv s \<Longrightarrow> ky_inv t"
proof (induction rule: ky_pause.raw_induct [rotated, consumes 1, case_names step])
  case (step f E s t)
  from step(2) obtain v u where r: "K_READ_REG E FifoTail s = Some (v, u)"
    and f: "(if v \<noteq> 0 then f E (dev_update (dev_step E) u) else Some u) = Some t"
    by (auto simp: Option.bind_eq_Some_conv)
  show ?case
  proof (cases "v = 0")
    case True
    with f ky_inv_read [OF step(3) r] show ?thesis by simp
  next
    case False
    then have "f E (dev_update (dev_step E) u) = Some t" using f by simp
    from step(1) [OF this] ky_inv_read [OF step(3) r] show ?thesis by simp
  qed
qed

lemma ky_inv_open:
  assumes "ky_alloc_ok E" and "length (dmabuffs s) = 8" and "unat (mmap_index s) < 8"
    and "\<not> ky_lock s" and "kyouko3_open E s = Some t"
  shows "ky_inv t"
proof -
  from assms(5) obtain v u w where r: "K_READ_REG E Device_RAM
      (ky_note (Ioremap (p_control_base s) 65536) (s\<lparr>k_control_mapped := True\<rparr>)) = Some (v, u)"
    and i: "init_fifo E (ky_note (Ioremap (p_card_ram_base u) (v * 1048576)) u) = Some w"
    and t: "t = w\<lparr>dma_fill := 0, dma_drain := 0\<rparr>"
    by (auto simp: kyouko3_open_def Let_def Option.bind_eq_Some_conv)
  have u: "k_control_mapped u" "length (dmabuffs u) = 8" "unat (mmap_index u) < 8" "\<not> ky_lock u"
    using r assms by (auto simp: K_READ_REG_def split: prod.splits)
  let ?u = "ky_note (Ioremap (p_card_ram_base u) (v * 1048576)) u"
  obtain p where p: "pci_alloc_consistent E 8192 ?u = Some p"
    using assms(1) unfolding ky_alloc_ok_def by blast
  let ?x = "?u\<lparr>fifo := \<lparr>fifo_p_base = p,
    fifo_k_base = replicate 1024 \<lparr>command = 0, entry_value = 0\<rparr>, head = 0, tail_cache = 0\<rparr>,
    dma_fill := 0, dma_drain := 0\<rparr>"
  define good where "good y \<longleftrightarrow> ky_inv (y\<lparr>dma_fill := 0, dma_drain := 0\<rparr>)" for y :: "'a kyouko"
  have wr: "good y'" if "K_WRITE_REG E r b y = Some y'" "good y" for r b y y'
    using that by (auto simp: K_WRITE_REG_def good_def ky_inv_def ky_ok_def split: if_splits)
  have pa: "ky_pause E y = Some y' \<Longrightarrow> good y \<Longrightarrow> good y'" for y y'
  proof (induction rule: ky_pause.raw_induct [rotated, consumes 1, case_names step])
    case (step f E y y')
    from step(2) obtain b z where rd: "K_READ_REG E FifoTail y = Some (b, z)"
      and f: "(if b \<noteq> 0 then f E (dev_update (dev_step E) z) else Some z) = Some y'"
      by (auto simp: Option.bind_eq_Some_conv)
    have "good z" "good (dev_update (dev_step E) z)"
      using rd step(3) by (auto simp: K_READ_REG_def good_def ky_inv_def ky_ok_def split: prod.splits if_splits)
    with f step(1) show ?case by (auto split: if_splits)
  qed
  have "good (?u\<lparr>fifo := \<lparr>fifo_p_base = p,
    fifo_k_base = replicate 1024 \<lparr>command = 0, entry_value = 0\<rparr>, head = 0, tail_cache = 0\<rparr>\<rparr>)"
    using u by (simp add: good_def ky_inv_def ky_ok_def)
  then have "good w"
    using i p by (auto simp: init_fifo_def Option.bind_eq_Some_conv dest: wr pa)
  then show ?thesis by (simp add: t good_def)
qed

section \<open>The reachable states\<close>

lemma ky_inv_step: "ky_sleep_ok E \<Longrightarrow> ky_step E s t \<Longrightarrow> ky_inv s \<Longrightarrow> ky_inv t"
proof -
  assume e: "ky_sleep_ok E" and st: "ky_step E s t" and s: "ky_inv s"
  from st show "ky_inv t"
  proof cases
    case ioctl
    then show ?thesis using ky_inv_ioctl [OF e s] by blast
  next
    case irq
    then show ?thesis using ky_inv_rkintr [OF s, of E] by auto
  next
    case (mmap v r)
    then show ?thesis using ky_inv_mmap [OF s, of E v] by auto
  next
    case card
    then show ?thesis using s by simp
  qed
qed

lemma ky_reach_inv:
  assumes "ky_reach E s" and "ky_alloc_ok E" and "ky_sleep_ok E"
  shows "ky_inv s"
  using assms(1)
proof induction
  case (start s t)
  then show ?case using ky_inv_open [OF assms(2)] by blast
next
  case (step s t)
  then show ?case using ky_inv_step [OF assms(3)] by blast
qed


lemma ky_env0_ok: "ky_alloc_ok ky_env0" "ky_sleep_ok ky_env0"
  by (simp_all add: ky_alloc_ok_def ky_sleep_ok_def ky_env0_def ky_inv_def ky_ok_def)

lemma ky_open0: "\<exists>t. kyouko3_open ky_env0 ky_probed = Some t"
  by (simp add: kyouko3_open_def init_fifo_def K_READ_REG_def K_WRITE_REG_def ky_env0_def
      ky_probed_def ky_pause.simps Let_def FifoTail_def FifoHead_def FifoStart_def FifoEnd_def)


end
