(* ===== verification/Blk_Plug.thy ===== *)
theory Blk_Plug
  imports Blk_Dispatch
begin

text \<open>
  Plugging: a task collects requests on a private list and hands them over together.
  \<open>blk_start_plug\<close> to \<open>blk_finish_plug\<close> of \<open>src/scheduler/kernel/blk-core.c\<close>.
\<close>

definition blk_start_plug :: "plugid \<Rightarrow> kst \<Rightarrow> kst" where
  "blk_start_plug p s =
     (if cur_plug s \<noteq> None then s
      else cur_plug_update (\<lambda>_. Some p)
             (plug_cbs_update (\<lambda>m. m(p := []))
               (upd_list (PlugMq p) (\<lambda>_. []) (upd_list (PlugList p) (\<lambda>_. []) s))))"

text \<open>
  The order in which a plug is flushed, by queue and then by sector. The comparison function
  is positive, never negative, unless the first request comes strictly before the second;
  \<open>list_sort\<close> is a parameter, called with the test whether the comparison is positive.
\<close>

definition plug_rq_cmp :: "rid \<Rightarrow> rid \<Rightarrow> kst \<Rightarrow> bool" where
  "plug_rq_cmp a b s =
     (\<not> (case (rq_q (rqs s a), rq_q (rqs s b)) of
            (None, None) \<Rightarrow> blk_rq_pos (rqs s a) < blk_rq_pos (rqs s b)
          | (None, Some _) \<Rightarrow> True
          | (Some _, None) \<Rightarrow> False
          | (Some x, Some y) \<Rightarrow> x < y \<or> (x = y \<and> blk_rq_pos (rqs s a) < blk_rq_pos (rqs s b))))"

definition queue_unplugged :: "kenv \<Rightarrow> qid \<Rightarrow> bool \<Rightarrow> kst \<Rightarrow> kst option" where
  "queue_unplugged E q from_schedule s = do {
     s \<leftarrow> (if from_schedule then Some (blk_run_queue_async q s) else raw_blk_run_queue E q s);
     unlock_q q s
   }"

text \<open>
  The callbacks: the list is taken off the plug and worked through, and this is repeated while
  callbacks add new ones.
\<close>

partial_function (option) run_callbacks ::
  "kenv \<Rightarrow> plugid \<Rightarrow> bool \<Rightarrow> nat list \<Rightarrow> kst \<Rightarrow> kst option" where
  "run_callbacks E p from_schedule cbs s =
     (case cbs of
        c # cs \<Rightarrow>
          Option.bind (call_plug_cb E (cb_callback (plug_cb s c)) c from_schedule s)
            (run_callbacks E p from_schedule cs)
      | [] \<Rightarrow>
          (if plug_cbs s p = [] then Some s
           else run_callbacks E p from_schedule (plug_cbs s p)
                  (plug_cbs_update (\<lambda>m. m(p := [])) s)))"

definition flush_plug_callbacks :: "kenv \<Rightarrow> plugid \<Rightarrow> bool \<Rightarrow> kst \<Rightarrow> kst option" where
  "flush_plug_callbacks E p from_schedule s = run_callbacks E p from_schedule [] s"

text \<open>\<open>sizeof_cb\<close> is the size of \<open>struct blk_plug_cb\<close>.\<close>

definition blk_check_plugged ::
  "code \<Rightarrow> nat \<Rightarrow> int \<Rightarrow> int \<Rightarrow> kst \<Rightarrow> (nat option \<times> kst) option" where
  "blk_check_plugged unplug data sz sizeof_cb s =
     (case cur_plug s of
        None \<Rightarrow> Some (None, s)
      | Some p \<Rightarrow>
          (case find (\<lambda>c. cb_callback (plug_cb s c) = unplug \<and> cb_data (plug_cb s c) = data)
                  (plug_cbs s p) of
             Some c \<Rightarrow> Some (Some c, s)
           | None \<Rightarrow> do {
               bug_on (sz < sizeof_cb);
               Some (case kmalloc s of
                  (None, s) \<Rightarrow> (None, s)
                | (Some c, s) \<Rightarrow>
                    (Some c, plug_cbs_update (\<lambda>m. m(p := c # m p))
                       (plug_cb_update (\<lambda>m. m(c := \<lparr>cb_callback = unplug, cb_data = data\<rparr>)) s)))
             }))"

text \<open>
  The loop over the sorted list, with the queue whose lock is held. The local list is
  \<^term>\<open>LocalList\<close>.
\<close>

definition flush_plug_round :: "kenv \<Rightarrow> bool \<Rightarrow> qid option \<Rightarrow> rid \<Rightarrow> kst \<Rightarrow> (qid option \<times> kst) option"
where
  "flush_plug_round E from_schedule cur r s = do {
     let s = list_del_init r s;
     q \<leftarrow> rq_q (rqs s r);
     s \<leftarrow> (if cur \<noteq> Some q then do {
             s \<leftarrow> (case cur of None \<Rightarrow> Some s | Some q' \<Rightarrow> queue_unplugged E q' from_schedule s);
             lock_q q s
           } else Some s);
     s \<leftarrow> (if blk_queue_dying (queues s q) then raw_blk_end_request_all E r (Some ENODEV) s
           else if cmd_flags (rqs s r) \<inter> {REQ_FLUSH, REQ_FUA} \<noteq> {}
           then raw_elv_add_request E q r ELEVATOR_INSERT_FLUSH s
           else raw_elv_add_request E q r ELEVATOR_INSERT_SORT_MERGE s);
     Some (Some q, s)
   }"

partial_function (option) flush_plug_loop ::
  "kenv \<Rightarrow> bool \<Rightarrow> qid option \<Rightarrow> kst \<Rightarrow> (qid option \<times> kst) option" where
  "flush_plug_loop E from_schedule cur s =
     (case linked s LocalList of
        [] \<Rightarrow> Some (cur, s)
      | r # _ \<Rightarrow> Option.bind (flush_plug_round E from_schedule cur r s)
                  (\<lambda>(cur, s). flush_plug_loop E from_schedule cur s))"

text \<open>\<open>list_splice_init\<close> moves a whole list.\<close>

definition list_move_all :: "lid \<Rightarrow> lid \<Rightarrow> kst \<Rightarrow> kst" where
  "list_move_all l k s =
     (let xs = linked s l
      in upd_list l (\<lambda>_. []) (upd_list k (\<lambda>ys. xs @ ys)
           (rqs_update (\<lambda>m r. if r \<in> set xs then (m r)\<lparr>queuelist := Some k\<rparr> else m r) s)))"

definition blk_flush_plug_list :: "kenv \<Rightarrow> plugid \<Rightarrow> bool \<Rightarrow> kst \<Rightarrow> kst option" where
  "blk_flush_plug_list E p from_schedule s = do {
     s \<leftarrow> flush_plug_callbacks E p from_schedule s;
     s \<leftarrow> (if linked s (PlugMq p) \<noteq> [] then blk_mq_flush_plug_list E p from_schedule s else Some s);
     if linked s (PlugList p) = [] then Some s
     else do {
       let s = upd_list LocalList (\<lambda>_. []) s;
       let s = list_move_all (PlugList p) LocalList s;
       let s = upd_list LocalList (list_sort E (\<lambda>a b. plug_rq_cmp a b s)) s;
       (cur, s) \<leftarrow> flush_plug_loop E from_schedule None s;
       (case cur of None \<Rightarrow> Some s | Some q \<Rightarrow> queue_unplugged E q from_schedule s)
     }
   }"

definition blk_finish_plug :: "kenv \<Rightarrow> plugid \<Rightarrow> kst \<Rightarrow> kst option" where
  "blk_finish_plug E p s =
     (if cur_plug s \<noteq> Some p then Some s
      else do {
        s \<leftarrow> blk_flush_plug_list E p False s;
        Some (cur_plug_update (\<lambda>_. None) s)
      })"

definition blk_flush_plug :: "kenv \<Rightarrow> kst \<Rightarrow> kst option" where
  "blk_flush_plug E s =
     (case cur_plug s of None \<Rightarrow> Some s | Some p \<Rightarrow> blk_flush_plug_list E p False s)"

definition blk_schedule_flush_plug :: "kenv \<Rightarrow> kst \<Rightarrow> kst option" where
  "blk_schedule_flush_plug E s =
     (case cur_plug s of None \<Rightarrow> Some s | Some p \<Rightarrow> blk_flush_plug_list E p True s)"

definition blk_needs_flush_plug :: "kst \<Rightarrow> bool" where
  "blk_needs_flush_plug s =
     (case cur_plug s of
        None \<Rightarrow> False
      | Some p \<Rightarrow> linked s (PlugList p) \<noteq> [] \<or> linked s (PlugMq p) \<noteq> [] \<or> plug_cbs s p \<noteq> [])"

end
