(* ===== verification/Blkdev_Limits.thy ===== *)
theory Blkdev_Limits
  imports Blk_Zero
begin

text \<open>
  The limits of a queue: the inline functions of \<open>src/scheduler/kernel/blkdev.h\<close> that compute how
  large a request may be, how it has to be aligned and where two bios leave a gap. The arithmetic
  is that of \<open>unsigned int\<close>, with a conversion to \<open>int\<close> where the function returns one; a division
  by zero is \<open>None\<close>.
\<close>

section \<open>Devices and sizes\<close>

definition bdev_get_queue :: "bdevid \<Rightarrow> kst \<Rightarrow> qid option" where
  "bdev_get_queue d s = disk_queue (disks s (bd_disk (bdevs s d)))"

definition blk_queue_cluster :: "request_queue \<Rightarrow> bool" where
  "blk_queue_cluster q = cluster (limits q)"

definition queue_max_segments :: "request_queue \<Rightarrow> u16" where
  "queue_max_segments q = max_segments (limits q)"

definition queue_virt_boundary :: "request_queue \<Rightarrow> u64" where
  "queue_virt_boundary q = virt_boundary_mask (limits q)"

definition queue_bounce_pfn :: "request_queue \<Rightarrow> u64" where
  "queue_bounce_pfn q = bounce_pfn (limits q)"

definition queue_segment_boundary :: "request_queue \<Rightarrow> u64" where
  "queue_segment_boundary q = seg_boundary_mask (limits q)"

definition queue_max_sectors :: "request_queue \<Rightarrow> u32" where
  "queue_max_sectors q = max_sectors (limits q)"

definition queue_max_hw_sectors :: "request_queue \<Rightarrow> u32" where
  "queue_max_hw_sectors q = max_hw_sectors (limits q)"

definition queue_max_segment_size :: "request_queue \<Rightarrow> u32" where
  "queue_max_segment_size q = max_segment_size (limits q)"

definition queue_physical_block_size :: "request_queue \<Rightarrow> u32" where
  "queue_physical_block_size q = physical_block_size (limits q)"

definition queue_io_min :: "request_queue \<Rightarrow> u32" where
  "queue_io_min q = io_min (limits q)"

definition queue_io_opt :: "request_queue \<Rightarrow> u32" where
  "queue_io_opt q = io_opt (limits q)"

definition queue_logical_block_size :: "request_queue option \<Rightarrow> u16" where
  "queue_logical_block_size q =
     (case q of
        None \<Rightarrow> 512
      | Some q \<Rightarrow> if logical_block_size (limits q) \<noteq> 0 then logical_block_size (limits q) else 512)"

definition bdev_logical_block_size :: "bdevid \<Rightarrow> kst \<Rightarrow> u16" where
  "bdev_logical_block_size d s = queue_logical_block_size (map_option (queues s) (bdev_get_queue d s))"

definition bdev_write_same :: "bdevid \<Rightarrow> kst \<Rightarrow> u32" where
  "bdev_write_same d s =
     (case bdev_get_queue d s of
        None \<Rightarrow> 0
      | Some q \<Rightarrow> max_write_same_sectors (limits (queues s q)))"

definition queue_discard_zeroes_data :: "request_queue \<Rightarrow> u32" where
  "queue_discard_zeroes_data q =
     (if max_discard_sectors (limits q) \<noteq> 0 \<and> discard_zeroes_data (limits q) = 1 then 1 else 0)"

text \<open>What a device asks of its queue, which it must have; the \<open>int\<close> results reinterpret the word.\<close>

definition bdev_physical_block_size :: "bdevid \<Rightarrow> kst \<Rightarrow> u32 option" where
  "bdev_physical_block_size d s = do { q \<leftarrow> bdev_get_queue d s; Some (queue_physical_block_size (queues s q)) }"

definition bdev_io_min :: "bdevid \<Rightarrow> kst \<Rightarrow> int option" where
  "bdev_io_min d s = do { q \<leftarrow> bdev_get_queue d s; Some (sint (queue_io_min (queues s q))) }"

definition bdev_io_opt :: "bdevid \<Rightarrow> kst \<Rightarrow> int option" where
  "bdev_io_opt d s = do { q \<leftarrow> bdev_get_queue d s; Some (sint (queue_io_opt (queues s q))) }"

definition bdev_discard_zeroes_data :: "bdevid \<Rightarrow> kst \<Rightarrow> u32 option" where
  "bdev_discard_zeroes_data d s = do { q \<leftarrow> bdev_get_queue d s; Some (queue_discard_zeroes_data (queues s q)) }"

text \<open>
  A file system gives blocks; the calls of \<open>blk-lib.c\<close>, which are parameters, take sectors. The block
  size is given by its logarithm, at least 9.
\<close>

definition sb_issue_discard ::
  "(bdevid \<Rightarrow> sector_t \<Rightarrow> sector_t \<Rightarrow> u32 \<Rightarrow> u64 \<Rightarrow> 'r) \<Rightarrow> bdevid \<Rightarrow> nat \<Rightarrow>
     sector_t \<Rightarrow> sector_t \<Rightarrow> u32 \<Rightarrow> u64 \<Rightarrow> 'r option" where
  "sb_issue_discard blkdev_issue_discard bdev blocksize_bits block nr_blocks gfp_mask flags =
     (if blocksize_bits < 9 then None
      else Some (blkdev_issue_discard bdev (push_bit (blocksize_bits - 9) block)
             (push_bit (blocksize_bits - 9) nr_blocks) gfp_mask flags))"

definition sb_issue_zeroout ::
  "(bdevid \<Rightarrow> sector_t \<Rightarrow> sector_t \<Rightarrow> u32 \<Rightarrow> bool \<Rightarrow> 'r) \<Rightarrow> bdevid \<Rightarrow> nat \<Rightarrow>
     sector_t \<Rightarrow> sector_t \<Rightarrow> u32 \<Rightarrow> 'r option" where
  "sb_issue_zeroout blkdev_issue_zeroout bdev blocksize_bits block nr_blocks gfp_mask =
     (if blocksize_bits < 9 then None
      else Some (blkdev_issue_zeroout bdev (push_bit (blocksize_bits - 9) block)
             (push_bit (blocksize_bits - 9) nr_blocks) gfp_mask True))"

section \<open>The size of a request\<close>

definition blk_queue_get_max_sectors :: "request_queue \<Rightarrow> rq_flags \<Rightarrow> u32" where
  "blk_queue_get_max_sectors q flags =
     (if REQ_DISCARD \<in> flags then min (max_discard_sectors (limits q)) (drop_bit 9 (- 1))
      else if REQ_WRITE_SAME \<in> flags then max_write_same_sectors (limits q)
      else max_sectors (limits q))"

definition blk_max_size_offset :: "request_queue \<Rightarrow> sector_t \<Rightarrow> u32" where
  "blk_max_size_offset q offset =
     (if chunk_sectors (limits q) = 0 then max_sectors (limits q)
      else ucast (ucast (chunk_sectors (limits q)) - (offset AND ucast (chunk_sectors (limits q) - 1))))"

definition blk_rq_get_max_sectors :: "kst \<Rightarrow> request \<Rightarrow> u32 option" where
  "blk_rq_get_max_sectors s rq = do {
     q \<leftarrow> rq_q rq;
     Some (if cmd_type rq = REQ_TYPE_BLOCK_PC then max_hw_sectors (limits (queues s q))
           else if chunk_sectors (limits (queues s q)) = 0 \<or> REQ_DISCARD \<in> cmd_flags rq
           then blk_queue_get_max_sectors (queues s q) (cmd_flags rq)
           else min (blk_max_size_offset (queues s q) (blk_rq_pos rq))
                  (blk_queue_get_max_sectors (queues s q) (cmd_flags rq)))
   }"

partial_function (option) count_bios :: "bid option \<Rightarrow> u32 \<Rightarrow> kst \<Rightarrow> u32 option" where
  "count_bios b n s =
     (case b of None \<Rightarrow> Some n | Some b \<Rightarrow> count_bios (bi_next (bios s b)) (n + 1) s)"

definition blk_rq_count_bios :: "request \<Rightarrow> kst \<Rightarrow> u32 option" where
  "blk_rq_count_bios rq s = count_bios (rq_bio rq) 0 s"

section \<open>Alignment\<close>

definition queue_alignment_offset :: "request_queue \<Rightarrow> int" where
  "queue_alignment_offset q =
     (if misaligned (limits q) then - 1 else sint (alignment_offset (limits q)))"

definition queue_limit_alignment_offset ::
  "'a kconf_scheme \<Rightarrow> queue_limits \<Rightarrow> sector_t \<Rightarrow> int option" where
  "queue_limit_alignment_offset E lim sector =
     (let granularity = max (physical_block_size lim) (io_min lim) in
      if drop_bit 9 granularity = 0 then None
      else let alignment = push_bit 9 (sector_div E sector (drop_bit 9 granularity))
           in Some (sint ((granularity + alignment_offset lim - alignment) mod granularity)))"

definition queue_discard_alignment :: "request_queue \<Rightarrow> int" where
  "queue_discard_alignment q =
     (if discard_misaligned (limits q) then - 1 else sint (discard_alignment (limits q)))"

definition queue_limit_discard_alignment ::
  "'a kconf_scheme \<Rightarrow> queue_limits \<Rightarrow> sector_t \<Rightarrow> int" where
  "queue_limit_discard_alignment E lim sector =
     (if max_discard_sectors lim = 0 then 0
      else let alignment = drop_bit 9 (discard_alignment lim);
               granularity = drop_bit 9 (discard_granularity lim)
           in if granularity = 0 then 0
              else let offset = sector_div E sector granularity;
                       offset = (granularity + alignment - offset) mod granularity
                   in sint (push_bit 9 offset :: u32))"

definition queue_dma_alignment :: "request_queue option \<Rightarrow> u32" where
  "queue_dma_alignment q = (case q of Some q \<Rightarrow> dma_alignment q | None \<Rightarrow> 511)"

definition blk_rq_aligned :: "request_queue \<Rightarrow> u64 \<Rightarrow> u32 \<Rightarrow> bool" where
  "blk_rq_aligned q addr len =
     (let alignment = queue_dma_alignment (Some q) OR dma_pad_mask q
      in addr AND ucast alignment = 0 \<and> len AND alignment = 0)"

text \<open>The loop of \<open>blksize_bits\<close> runs its body at least once.\<close>

function blksize_bits_loop :: "u32 \<Rightarrow> nat \<Rightarrow> nat" where
  "blksize_bits_loop sz bits =
     (let bits = bits + 1; sz = drop_bit 1 sz
      in if sz > 256 then blksize_bits_loop sz bits else bits)"
  by pat_completeness auto
termination
proof (relation "measure (\<lambda>(sz, bits). unat sz)")
  fix sz sz' :: u32 and bits b :: nat
  assume "b = bits + 1" and sz: "sz' = drop_bit 1 sz" and "256 < sz'"
  then have "0 < unat sz'" by (simp add: word_less_nat_alt)
  moreover have "unat sz' = unat sz div 2"
    by (simp add: sz drop_bit_eq_div unat_div)
  ultimately show "((sz', b), (sz, bits)) \<in> measure (\<lambda>(sz, bits). unat sz)"
    by simp
qed simp

definition blksize_bits :: "u32 \<Rightarrow> nat" where
  "blksize_bits sz = blksize_bits_loop sz 8"

section \<open>Gaps\<close>

text \<open>A page vector is given by its offset and length.\<close>

definition bvec_gap_to_prev :: "request_queue \<Rightarrow> u32 \<times> u32 \<Rightarrow> u32 \<Rightarrow> bool" where
  "bvec_gap_to_prev q bprv offset =
     (if queue_virt_boundary q = 0 then False
      else offset \<noteq> 0 \<or> (ucast (fst bprv + snd bprv) AND queue_virt_boundary q \<noteq> 0))"

section \<open>Properties\<close>

text \<open>
  C30: a request that is as large as \<open>blk_max_size_offset\<close> allows never crosses a chunk. For every
  queue whose chunk size is a power of two of at most \<open>2^31\<close> sectors, and for every position, the
  size allowed is positive and ends exactly at the next multiple of the chunk size.
\<close>

theorem blk_max_size_offset_chunk:
  assumes "unat (chunk_sectors (limits q)) = 2 ^ k" and "k < 32"
  shows "0 < unat (blk_max_size_offset q offset) \<and>
    unat (blk_max_size_offset q offset) \<le> 2 ^ k \<and>
    (unat offset + unat (blk_max_size_offset q offset)) mod 2 ^ k = 0"
proof -
  let ?c = "chunk_sectors (limits q)"
  have c0: "?c \<noteq> 0" using assms by auto
  have ge: "1 \<le> ?c" using c0 by (simp add: word_le_nat_alt Suc_le_eq unat_gt_0)
  have lt32: "(2 :: nat) ^ k \<le> 2 ^ 31"
    using assms(2) by (intro power_increasing) simp_all
  have "unat (?c - 1) = 2 ^ k - 1"
    using ge assms(1) by (simp add: unat_sub)
  then have m: "unat (ucast (?c - 1) :: u64) = mask k"
    using lt32 by (simp add: unsigned_ucast_eq take_bit_nat_eq_self_iff mask_eq_exp_minus_1)
  have cc: "unat (ucast ?c :: u64) = 2 ^ k"
    using assms by (simp add: unsigned_ucast_eq take_bit_nat_eq_self_iff)
  have o: "unat (offset AND ucast (?c - 1)) = unat offset mod 2 ^ k"
    by (simp add: unsigned_and_eq m take_bit_eq_mask flip: take_bit_eq_mod)
  have "unat ((ucast ?c :: u64) - (offset AND ucast (?c - 1))) = 2 ^ k - unat offset mod 2 ^ k"
    by (subst unat_sub) (simp_all add: word_le_nat_alt o cc less_imp_le)
  then have r: "unat (blk_max_size_offset q offset) = 2 ^ k - unat offset mod 2 ^ k"
    using c0 lt32 by (simp add: blk_max_size_offset_def unsigned_ucast_eq take_bit_nat_eq_self_iff)
  have "unat offset mod 2 ^ k < 2 ^ k" by simp
  moreover from this have "unat offset + (2 ^ k - unat offset mod 2 ^ k) = unat offset div 2 ^ k * 2 ^ k + 2 ^ k"
    using div_mult_mod_eq [of "unat offset" "2 ^ k"] by linarith
  then have "(unat offset + (2 ^ k - unat offset mod 2 ^ k)) mod 2 ^ k = 0"
    by simp
  ultimately show ?thesis unfolding r by simp
qed

theorem blk_max_size_offset_chunk_witness:
  "(1000 + unat (blk_max_size_offset (queue_zero\<lparr>limits := limits_zero\<lparr>chunk_sectors := 256\<rparr>\<rparr>) 1000)) mod 256 = 0"
  using blk_max_size_offset_chunk
    [of "queue_zero\<lparr>limits := limits_zero\<lparr>chunk_sectors := 256\<rparr>\<rparr>" 8 1000] by simp

end
