(* ===== verification/Blk_Submit.thy ===== *)
theory Blk_Submit
  imports Blk_Plug Blkdev_Limits
begin

text \<open>
  The way of a bio into a queue: merging into a request, \<open>blk_queue_bio\<close>,
  \<open>generic_make_request\<close> with its checks, \<open>submit_bio\<close> and the insertion of a cloned request, of
  \<open>src/scheduler/kernel/blk-core.c\<close>. \<open>q->make_request_fn\<close> is \<open>blk_queue_bio\<close> or a function of
  a driver.
\<close>

section \<open>Merging a bio into a request\<close>

definition merge_mixed :: "kenv \<Rightarrow> rid \<Rightarrow> rq_flags \<Rightarrow> kst \<Rightarrow> kst" where
  "merge_mixed E r ff s =
     (if cmd_flags (rqs s r) \<inter> REQ_FAILFAST_MASK E \<noteq> ff then blk_rq_set_mixed_merge E r s else s)"

definition bio_attempt_back_merge :: "kenv \<Rightarrow> qid \<Rightarrow> rid \<Rightarrow> bid \<Rightarrow> kst \<Rightarrow> (bool \<times> kst) option" where
  "bio_attempt_back_merge E q r b s = do {
     let ff = bi_rw (bios s b) \<inter> REQ_FAILFAST_MASK E;
     let (ok, s) = ll_back_merge_fn E q r b s;
     if \<not> ok then Some (False, s)
     else do {
       let s = merge_mixed E r ff s;
       t \<leftarrow> biotail (rqs s r);
       let s = upd_bio t (bi_next_update (\<lambda>_. Some b)) s;
       let s = upd_rq r (biotail_update (\<lambda>_. Some b)) s;
       let s = upd_rq r (data_len_update (\<lambda>n. n + bi_size (bios s b))) s;
       let s = upd_rq r (ioprio_update (\<lambda>p. ioprio_best E p (bi_prio (bios s b)))) s;
       s \<leftarrow> blk_account_io_start E r False s;
       Some (True, s)
     }
   }"

definition bio_attempt_front_merge :: "kenv \<Rightarrow> qid \<Rightarrow> rid \<Rightarrow> bid \<Rightarrow> kst \<Rightarrow> (bool \<times> kst) option" where
  "bio_attempt_front_merge E q r b s = do {
     let ff = bi_rw (bios s b) \<inter> REQ_FAILFAST_MASK E;
     let (ok, s) = ll_front_merge_fn E q r b s;
     if \<not> ok then Some (False, s)
     else do {
       let s = merge_mixed E r ff s;
       let s = upd_bio b (bi_next_update (\<lambda>_. rq_bio (rqs s r))) s;
       let s = upd_rq r (rq_bio_update (\<lambda>_. Some b)) s;
       let s = upd_rq r (rq_sector_update (\<lambda>_. bi_sector (bios s b))) s;
       let s = upd_rq r (data_len_update (\<lambda>n. n + bi_size (bios s b))) s;
       let s = upd_rq r (ioprio_update (\<lambda>p. ioprio_best E p (bi_prio (bios s b)))) s;
       s \<leftarrow> blk_account_io_start E r False s;
       Some (True, s)
     }
   }"

text \<open>
  The walk over the plugged requests, from the last one; it counts the requests of the queue and
  remembers the last one it met.
\<close>

fun plug_merge_walk ::
  "kenv \<Rightarrow> qid \<Rightarrow> bid \<Rightarrow> rid list \<Rightarrow> u32 \<Rightarrow> rid option \<Rightarrow> kst \<Rightarrow>
     (bool \<times> u32 \<times> rid option \<times> kst) option" where
  "plug_merge_walk E q b [] n same s = Some (False, n, same, s)"
| "plug_merge_walk E q b (r # rs) n same s = do {
     let (n, same) = (if rq_q (rqs s r) = Some q then (n + 1, Some r) else (n, same));
     if rq_q (rqs s r) \<noteq> Some q \<or> \<not> blk_rq_merge_ok E r b s
     then plug_merge_walk E q b rs n same s
     else do {
       (merged, s) \<leftarrow> (case blk_try_merge E r b s of
                          ELEVATOR_BACK_MERGE \<Rightarrow> bio_attempt_back_merge E q r b s
                        | ELEVATOR_FRONT_MERGE \<Rightarrow> bio_attempt_front_merge E q r b s
                        | ELEVATOR_NO_MERGE \<Rightarrow> Some (False, s));
       if merged then Some (True, n, same, s) else plug_merge_walk E q b rs n same s
     }
   }"

definition blk_attempt_plug_merge ::
  "kenv \<Rightarrow> qid \<Rightarrow> bid \<Rightarrow> u32 \<Rightarrow> kst \<Rightarrow> (bool \<times> u32 \<times> rid option \<times> kst) option" where
  "blk_attempt_plug_merge E q b request_count s =
     (case cur_plug s of
        None \<Rightarrow> Some (False, request_count, None, s)
      | Some p \<Rightarrow>
          plug_merge_walk E q b
            (rev (linked s (if mq_ops (queues s q) then PlugMq p else PlugList p))) 0 None s)"

section \<open>Queueing a bio\<close>

definition BLK_MAX_REQUEST_COUNT :: u32 where "BLK_MAX_REQUEST_COUNT = 16"

text \<open>Under the queue lock: try to merge the bio into a request of the scheduler.\<close>

definition queue_bio_merge :: "kenv \<Rightarrow> qid \<Rightarrow> bid \<Rightarrow> kst \<Rightarrow> (bool \<times> kst) option" where
  "queue_bio_merge E q b s = do {
     (el_ret, ro, s) \<leftarrow> elv_merge E q b s;
     (case el_ret of
        ELEVATOR_BACK_MERGE \<Rightarrow> do {
          r \<leftarrow> ro;
          (ok, s) \<leftarrow> bio_attempt_back_merge E q r b s;
          if ok then do {
            s \<leftarrow> elv_bio_merged E q r b s;
            (merged, s) \<leftarrow> attempt_back_merge E q r s;
            s \<leftarrow> (if \<not> merged then elv_merged_request E q r el_ret s else Some s);
            Some (True, s)
          } else Some (False, s)
        }
      | ELEVATOR_FRONT_MERGE \<Rightarrow> do {
          r \<leftarrow> ro;
          (ok, s) \<leftarrow> bio_attempt_front_merge E q r b s;
          if ok then do {
            s \<leftarrow> elv_bio_merged E q r b s;
            (merged, s) \<leftarrow> attempt_front_merge E q r s;
            s \<leftarrow> (if \<not> merged then elv_merged_request E q r el_ret s else Some s);
            Some (True, s)
          } else Some (False, s)
        }
      | ELEVATOR_NO_MERGE \<Rightarrow> Some (False, s))
   }"

text \<open>From the label \<open>get_rq\<close> on, entered with the queue lock held.\<close>

definition queue_bio_get_rq :: "kenv \<Rightarrow> qid \<Rightarrow> bid \<Rightarrow> bool \<Rightarrow> elv_insert \<Rightarrow> u32 \<Rightarrow> kst \<Rightarrow> kst option" where
  "queue_bio_get_rq E q b sync wh request_count s = do {
     let rw_flags = (bi_rw (bios s b) \<inter> {REQ_WRITE}) \<union> (if sync then {REQ_SYNC} else {});
     (res, s) \<leftarrow> get_request E q rw_flags (Some b) True s;
     (case res of
        Inl err \<Rightarrow> do {
          let s = upd_bio b (bi_error_update (\<lambda>_. Some err)) s;
          let s = bio_endio b s;
          unlock_q q s
        }
      | Inr r \<Rightarrow> do {
          let s = init_request_from_bio E r b s;
          let s = (if test_qflag QUEUE_FLAG_SAME_COMP (queues s q)
                   then upd_rq r (cpu_update (\<lambda>_. cur_cpu s)) s else s);
          (case cur_plug s of
             Some p \<Rightarrow> do {
               s \<leftarrow> (if request_count \<ge> BLK_MAX_REQUEST_COUNT
                     then blk_flush_plug_list E p False s else Some s);
               let s = list_add_tail r (PlugList p) s;
               blk_account_io_start E r True s
             }
           | None \<Rightarrow> do {
               s \<leftarrow> lock_q q s;
               s \<leftarrow> add_acct_request E q r wh s;
               s \<leftarrow> raw_blk_run_queue E q s;
               unlock_q q s
             })
        })
   }"

definition blk_queue_bio :: "kenv \<Rightarrow> qid \<Rightarrow> bid \<Rightarrow> kst \<Rightarrow> kst option" where
  "blk_queue_bio E q b s = do {
     let sync = (REQ_SYNC \<in> bi_rw (bios s b));
     let (b, s) = blk_queue_split E q b s;
     let (b, s) = blk_queue_bounce E q b s;
     let (bad, s) = (if bio_integrity_enabled E b s then bio_integrity_prep E b s else (False, s));
     if bad then Some (bio_endio b (upd_bio b (bi_error_update (\<lambda>_. Some EIO)) s))
     else if bi_rw (bios s b) \<inter> {REQ_FLUSH, REQ_FUA} \<noteq> {} then do {
       s \<leftarrow> lock_q q s;
       queue_bio_get_rq E q b sync ELEVATOR_INSERT_FLUSH 0 s
     } else do {
       (merged, request_count, _, s) \<leftarrow>
         (if \<not> blk_queue_nomerges (queues s q) then blk_attempt_plug_merge E q b 0 s
          else Some (False, 0, None, s));
       if merged then Some s
       else do {
         s \<leftarrow> lock_q q s;
         (merged, s) \<leftarrow> queue_bio_merge E q b s;
         if merged then unlock_q q s
         else queue_bio_get_rq E q b sync ELEVATOR_INSERT_SORT request_count s
       }
     }
   }"

section \<open>Checks\<close>

definition blk_partition_remap :: "'a kconf_scheme \<Rightarrow> bid \<Rightarrow> kst \<Rightarrow> kst option" where
  "blk_partition_remap E b s = do {
     d \<leftarrow> bi_bdev (bios s b);
     Some (if bio_sectors E (bios s b) \<noteq> 0 \<and> d \<noteq> bd_contains (bdevs s d)
           then upd_bio b (\<lambda>x. x\<lparr>bi_sector := bi_sector x + start_sect (parts s (bd_part (bdevs s d))),
                                 bi_bdev := Some (bd_contains (bdevs s d))\<rparr>) s
           else s)
   }"

definition should_fail_request :: "kenv \<Rightarrow> partid \<Rightarrow> u32 \<Rightarrow> kst \<Rightarrow> bool" where
  "should_fail_request E p bytes s =
     (CONFIG_FAIL_MAKE_REQUEST E \<and> make_it_fail (parts s p) \<and> should_fail E bytes s)"

text \<open>Whether the bio extends beyond the end of its device.\<close>

definition bio_check_eod :: "bid \<Rightarrow> u32 \<Rightarrow> kst \<Rightarrow> bool option" where
  "bio_check_eod b nr_sectors s =
     (if nr_sectors = 0 then Some False
      else do {
        d \<leftarrow> bi_bdev (bios s b);
        let maxsector = signed_drop_bit 9 (bd_size (bdevs s d));
        let sector = bi_sector (bios s b);
        Some (maxsector \<noteq> 0 \<and>
              (maxsector < ucast nr_sectors \<or> maxsector - ucast nr_sectors < sector))
      })"

datatype check_res = CheckOk | CheckDrop | CheckEnd "errno option"

text \<open>The checks of the flags of a bio, after those of its place on the device.\<close>

definition check_bio_flags :: "kenv \<Rightarrow> qid \<Rightarrow> bid \<Rightarrow> u32 \<Rightarrow> kst \<Rightarrow> (check_res \<times> kst) option" where
  "check_bio_flags E q b nr_sectors s = do {
     let noflush = (bi_rw (bios s b) \<inter> {REQ_FLUSH, REQ_FUA} \<noteq> {} \<and>
                    flush_flags (queues s q) = {});
     let s = (if noflush
              then upd_bio b (bi_rw_update (\<lambda>F. F - {REQ_FLUSH, REQ_FUA})) s else s);
     if noflush \<and> nr_sectors = 0 then Some (CheckEnd None, s)
     else if REQ_DISCARD \<in> bi_rw (bios s b) \<and>
        (\<not> blk_queue_discard (queues s q) \<or>
         (REQ_SECURE \<in> bi_rw (bios s b) \<and> \<not> blk_queue_secdiscard (queues s q)))
     then Some (CheckEnd (Some EOPNOTSUPP), s)
     else do {
       d \<leftarrow> bi_bdev (bios s b);
       if REQ_WRITE_SAME \<in> bi_rw (bios s b) \<and> bdev_write_same d s = 0
       then Some (CheckEnd (Some EOPNOTSUPP), s)
       else do {
         let s = create_io_context E s;
         let (ok, s) = blkcg_bio_issue_check E q b s;
         Some (if ok then CheckOk else CheckDrop, s)
       }
     }
   }"

text \<open>The checks up to the point where the bio is accepted or ended with an error.\<close>

definition make_request_checks :: "kenv \<Rightarrow> bid \<Rightarrow> kst \<Rightarrow> (check_res \<times> kst) option" where
  "make_request_checks E b s = do {
     let nr_sectors = bio_sectors E (bios s b);
     eod \<leftarrow> bio_check_eod b nr_sectors s;
     if eod then Some (CheckEnd (Some EIO), s)
     else do {
       d \<leftarrow> bi_bdev (bios s b);
       (case bdev_get_queue d s of
          None \<Rightarrow> Some (CheckEnd (Some EIO), s)
        | Some q \<Rightarrow> do {
            let p = bd_part (bdevs s d);
            if should_fail_request E p (bi_size (bios s b)) s \<or>
               should_fail_request E (part0 (disks s (part_disk (parts s p)))) (bi_size (bios s b)) s
            then Some (CheckEnd (Some EIO), s)
            else do {
              s \<leftarrow> blk_partition_remap E b s;
              eod \<leftarrow> bio_check_eod b nr_sectors s;
              if eod then Some (CheckEnd (Some EIO), s)
              else check_bio_flags E q b nr_sectors s
            }
          })
     }
   }"

definition generic_make_request_checks :: "kenv \<Rightarrow> bid \<Rightarrow> kst \<Rightarrow> (bool \<times> kst) option" where
  "generic_make_request_checks E b s = do {
     (res, s) \<leftarrow> make_request_checks E b s;
     (case res of
        CheckOk \<Rightarrow> Some (True, s)
      | CheckDrop \<Rightarrow> Some (False, s)
      | CheckEnd err \<Rightarrow> Some (False, bio_endio b (upd_bio b (bi_error_update (\<lambda>_. err)) s)))
   }"

section \<open>Submitting\<close>

definition make_request :: "kenv \<Rightarrow> qid \<Rightarrow> bid \<Rightarrow> kst \<Rightarrow> kst option" where
  "make_request E q b s = do {
     f \<leftarrow> make_request_fn (queues s q);
     if f = blk_queue_bio_code E then blk_queue_bio E q b s else call_make_request_fn E f q b s
   }"

text \<open>
  The loop of \<open>generic_make_request\<close>. A bio that is submitted by a \<open>make_request_fn\<close> is appended
  to \<open>current->bio_list\<close>, from which the loop takes the next one.
\<close>

partial_function (option) make_request_loop :: "kenv \<Rightarrow> bid \<Rightarrow> kst \<Rightarrow> kst option" where
  "make_request_loop E b s =
     Option.bind (bi_bdev (bios s b)) (\<lambda>d.
     Option.bind (bdev_get_queue d s) (\<lambda>q.
     Option.bind (make_request E q b s) (\<lambda>s.
       case cur_bio_list s of
         None \<Rightarrow> None
       | Some [] \<Rightarrow> Some s
       | Some (b' # bs) \<Rightarrow> make_request_loop E b' (cur_bio_list_update (\<lambda>_. Some bs) s))))"

definition generic_make_request :: "kenv \<Rightarrow> bid \<Rightarrow> kst \<Rightarrow> kst option" where
  "generic_make_request E b s = do {
     (ok, s) \<leftarrow> generic_make_request_checks E b s;
     if \<not> ok then Some s
     else (case cur_bio_list s of
        Some bs \<Rightarrow>
          Some (cur_bio_list_update (\<lambda>_. Some (bs @ [b])) (upd_bio b (bi_next_update (\<lambda>_. None)) s))
      | None \<Rightarrow> do {
          bug_on (bi_next (bios s b) \<noteq> None);
          s \<leftarrow> make_request_loop E b (cur_bio_list_update (\<lambda>_. Some []) s);
          Some (cur_bio_list_update (\<lambda>_. None) s)
        })
   }"

text \<open>The events \<^term>\<open>EvVm\<close> count sectors written (\<^term>\<open>True\<close>) and read.\<close>

definition submit_bio :: "kenv \<Rightarrow> rq_flags \<Rightarrow> bid \<Rightarrow> kst \<Rightarrow> kst option" where
  "submit_bio E rw b s = do {
     let s = upd_bio b (bi_rw_update (\<lambda>F. F \<union> rw)) s;
     s \<leftarrow> (if bio_has_data E (bios s b) then do {
             cnt \<leftarrow> (if REQ_WRITE_SAME \<in> rw then do {
                       d \<leftarrow> bi_bdev (bios s b);
                       Some (ucast (drop_bit 9 (bdev_logical_block_size d s)))
                     } else Some (bio_sectors E (bios s b)));
             Some (if REQ_WRITE \<in> rw then emit (EvVm True cnt) s
                   else emit (EvVm False cnt) (emit (EvTaskRead (bi_size (bios s b))) s))
           } else Some s);
     generic_make_request E b s
   }"

section \<open>Requests made by other drivers\<close>

definition blk_rq_check_limits :: "kenv \<Rightarrow> qid \<Rightarrow> rid \<Rightarrow> kst \<Rightarrow> errno option \<times> kst" where
  "blk_rq_check_limits E q r s =
     (if \<not> rq_mergeable E (rqs s r) then (None, s)
      else if blk_rq_sectors (rqs s r) > blk_queue_get_max_sectors (queues s q) (cmd_flags (rqs s r))
      then (Some EIO, s)
      else let s = blk_recalc_rq_segments E r s
           in if nr_phys_segments (rqs s r) > queue_max_segments (queues s q) then (Some EIO, s)
              else (None, s))"

definition blk_insert_cloned_request :: "kenv \<Rightarrow> qid \<Rightarrow> rid \<Rightarrow> kst \<Rightarrow> (errno option \<times> kst) option" where
  "blk_insert_cloned_request E q r s = do {
     let (bad, s) = blk_rq_check_limits E q r s;
     if bad \<noteq> None then Some (Some EIO, s)
     else if (case rq_disk (rqs s r) of
                None \<Rightarrow> False
              | Some d \<Rightarrow> should_fail_request E (part0 (disks s d)) (blk_rq_bytes (rqs s r)) s)
     then Some (Some EIO, s)
     else if mq_ops (queues s q) then do {
       s \<leftarrow> (if blk_queue_io_stat (queues s q) then blk_account_io_start E r True s else Some s);
       s \<leftarrow> blk_mq_insert_request E r s;
       Some (None, s)
     } else do {
       s \<leftarrow> lock_q q s;
       if blk_queue_dying (queues s q) then do { s \<leftarrow> unlock_q q s; Some (Some ENODEV, s) }
       else do {
         bug_on (blk_queued_rq (rqs s r));
         let wh = (if cmd_flags (rqs s r) \<inter> {REQ_FLUSH, REQ_FUA} \<noteq> {}
                   then ELEVATOR_INSERT_FLUSH else ELEVATOR_INSERT_BACK);
         s \<leftarrow> add_acct_request E q r wh s;
         s \<leftarrow> (if wh = ELEVATOR_INSERT_FLUSH then raw_blk_run_queue E q s else Some s);
         s \<leftarrow> unlock_q q s;
         Some (None, s)
       }
     }
   }"

section \<open>Cloning\<close>

partial_function (option) blk_rq_unprep_clone :: "rid \<Rightarrow> kst \<Rightarrow> kst option" where
  "blk_rq_unprep_clone r s =
     (case rq_bio (rqs s r) of
        None \<Rightarrow> Some s
      | Some b \<Rightarrow>
          blk_rq_unprep_clone r
            (emit (EvBio b put_bio) (upd_rq r (rq_bio_update (\<lambda>_. bi_next (bios s b))) s)))"

definition raw_blk_rq_prep_clone :: "'a kconf_scheme \<Rightarrow> rid \<Rightarrow> rid \<Rightarrow> kst \<Rightarrow> kst" where
  "raw_blk_rq_prep_clone E dst src s =
     (let x = rqs s src in upd_rq dst (\<lambda>y. y
        \<lparr>cpu := cpu x,
         cmd_flags := cmd_flags y \<union> (cmd_flags x \<inter> REQ_CLONE_MASK E) \<union> {REQ_NOMERGE},
         cmd_type := cmd_type x, rq_sector := blk_rq_pos x, data_len := blk_rq_bytes x,
         nr_phys_segments := nr_phys_segments x, ioprio := ioprio x, extra_len := extra_len x\<rparr>) s)"

text \<open>The walk over the bios of the source; the answer is the clone to release on failure.\<close>

datatype clone_res = Cloned | Clone_failed "bid option"

partial_function (option) clone_bios ::
  "kenv \<Rightarrow> rid \<Rightarrow> code option \<Rightarrow> bid option \<Rightarrow> kst \<Rightarrow> (clone_res \<times> kst) option" where
  "clone_bios E r ctr b s =
     (case b of
        None \<Rightarrow> Some (Cloned, s)
      | Some src \<Rightarrow>
          (case bio_clone_fast E src s of
             (None, s) \<Rightarrow> Some (Clone_failed None, s)
           | (Some c, s) \<Rightarrow>
               (let (bad, s) = (case ctr of None \<Rightarrow> (False, s) | Some f \<Rightarrow> call_bio_ctr E f c src s)
                in if bad then Some (Clone_failed (Some c), s)
                   else Option.bind
                          (if rq_bio (rqs s r) \<noteq> None then
                             (case biotail (rqs s r) of
                                None \<Rightarrow> None
                              | Some t \<Rightarrow> Some (upd_rq r (biotail_update (\<lambda>_. Some c))
                                                (upd_bio t (bi_next_update (\<lambda>_. Some c)) s)))
                           else Some (upd_rq r (\<lambda>x. x\<lparr>rq_bio := Some c, biotail := Some c\<rparr>) s))
                          (\<lambda>s. clone_bios E r ctr (bi_next (bios s src)) s))))"

definition blk_rq_prep_clone ::
  "kenv \<Rightarrow> rid \<Rightarrow> rid \<Rightarrow> code option \<Rightarrow> kst \<Rightarrow> (errno option \<times> kst) option" where
  "blk_rq_prep_clone E r src ctr s = do {
     (res, s) \<leftarrow> clone_bios E r ctr (rq_bio (rqs s src)) s;
     (case res of
        Cloned \<Rightarrow> Some (None, raw_blk_rq_prep_clone E r src s)
      | Clone_failed c \<Rightarrow> do {
          let s = (case c of None \<Rightarrow> s | Some b \<Rightarrow> emit (EvBio b put_bio) s);
          s \<leftarrow> blk_rq_unprep_clone r s;
          Some (Some ENOMEM, s)
        })
   }"

end
