(* ===== verification/Elv_Greedy.thy ===== *)
theory Elv_Greedy
  imports Greedy Elv_Core
begin

text \<open>
  The elevator core with the greedy scheduler installed: which requests an insertion point hands
  to the scheduler, that a drain brings all of them to the dispatch queue, and that the count
  \<open>q->nr_sorted\<close> agrees with the requests the scheduler holds.
\<close>

section \<open>The installed scheduler\<close>

definition greedy_installed :: "kenv \<Rightarrow> qid \<Rightarrow> gdid \<Rightarrow> kst \<Rightarrow> bool" where
  "greedy_installed E q g s \<longleftrightarrow> (\<exists>e. elevator (queues s q) = Some e \<and>
     elevator_data (elvqs s e) = Some g \<and> et_ops E (eq_type (elvqs s e)) = elevator_greedy E)"

lemma greedy_installed_cong:
  assumes "elevator (queues t q) = elevator (queues s q)"
    and "\<And>e. elevator_data (elvqs t e) = elevator_data (elvqs s e)"
    and "\<And>e. eq_type (elvqs t e) = eq_type (elvqs s e)"
  shows "greedy_installed E q g t = greedy_installed E q g s"
  using assms by (simp add: greedy_installed_def)

lemma greedy_installed_ops:
  assumes "greedy_installed E q g s"
  shows "elv_ops E q s = Some (elevator_greedy E)" and "greedy_data_of q s = Some g"
  using assms by (auto simp: greedy_installed_def elv_ops_def greedy_data_of_def)

text \<open>The call that draining makes.\<close>

definition elv_dispatch :: "kenv \<Rightarrow> qid \<Rightarrow> kst \<Rightarrow> (bool \<times> kst) option" where
  "elv_dispatch E q s = do { ops \<leftarrow> elv_ops E q s; elevator_dispatch_fn ops q True s }"

lemma elv_drain_elevator_eq:
  "elv_drain_elevator E q s = do {
     s \<leftarrow> drain_loop (elv_dispatch E q) s;
     Some (if nr_sorted (queues s q) \<noteq> 0 then elv_drain_printed_update (\<lambda>n. n + 1) s else s)
   }"
  by (simp add: elv_drain_elevator_def elv_dispatch_def [abs_def])

text \<open>
  The invariant of a queue with a greedy scheduler: the lists are consistent and \<open>nr_sorted\<close> is
  the number of requests the scheduler holds.
\<close>

definition elv_sorted_ok :: "kenv \<Rightarrow> qid \<Rightarrow> gdid \<Rightarrow> kst \<Rightarrow> bool" where
  "elv_sorted_ok E q g s \<longleftrightarrow> lists_ok s \<and> greedy_installed E q g s \<and>
     nr_sorted (queues s q) = of_nat (size (greedy_pending g s))"

lemma elv_rqhash_del_frame [simp]:
  "eq_type (elvqs (elv_rqhash_del q r s) e) = eq_type (elvqs s e)"
  "elv_drain_printed (elv_rqhash_del q r s) = elv_drain_printed s"
  by (auto simp: elv_rqhash_del_def raw_elv_rqhash_del_def hash_del_def split: option.split prod.split)

lemma elv_dispatch_add_tail_frame [simp]:
  "eq_type (elvqs (elv_dispatch_add_tail E q r s) e) = eq_type (elvqs s e)"
  "nr_sorted (queues (elv_dispatch_add_tail E q r s) q) = nr_sorted (queues s q) - 1"
  "elv_drain_printed (elv_dispatch_add_tail E q r s) = elv_drain_printed s"
  by (auto simp: elv_dispatch_add_tail_def Let_def list_add_tail_def list_insert_def)

lemma list_del_init_frame [simp]:
  "elvqs (list_del_init r s) = elvqs s" "queues (list_del_init r s) = queues s"
  "elv_drain_printed (list_del_init r s) = elv_drain_printed s" "gds (list_del_init r s) = gds s"
  by (simp_all add: list_del_init_def split: option.split)

lemma greedy_dispatch_frame:
  assumes "greedy_dispatch E q force s = Some (b, t)" and "greedy_installed E q g s"
  shows "greedy_installed E q g t" and "elv_drain_printed t = elv_drain_printed s"
    and "nr_sorted (queues t q) = (if b then nr_sorted (queues s q) - 1 else nr_sorted (queues s q))"
proof -
  have "greedy_installed E q g t = greedy_installed E q g s"
    by (rule greedy_installed_cong)
      (use assms(1) in \<open>auto simp: greedy_dispatch_def Let_def Option.bind_eq_Some_conv split: option.splits\<close>)
  then show "greedy_installed E q g t" using assms(2) by simp
  show "elv_drain_printed t = elv_drain_printed s"
    and "nr_sorted (queues t q) = (if b then nr_sorted (queues s q) - 1 else nr_sorted (queues s q))"
    using assms(1)
    by (auto simp: greedy_dispatch_def Let_def Option.bind_eq_Some_conv split: option.splits)
qed

lemma elv_dispatch_greedy:
  assumes "greedy_installed E q g s"
  shows "elv_dispatch E q s = greedy_dispatch E q True s"
  using greedy_installed_ops [OF assms] by (simp add: elevator_greedy_def elv_dispatch_def)

lemma greedy_dispatch_others:
  assumes "greedy_dispatch E q force s = Some (b, t)" and "greedy_data_of q s = Some g"
    and "x \<notin># greedy_pending g s"
  shows "rqs t x = rqs s x"
proof (cases "greedy_target g s")
  case None
  with assms show ?thesis by (simp add: greedy_dispatch_def)
next
  case (Some r)
  then have "r \<noteq> x"
    using greedy_target_cases(2) [OF Some] assms(3) by (auto simp: greedy_pending_def)
  with Some assms(1,2) show ?thesis
    by (auto simp: greedy_dispatch_def Let_def elv_dispatch_add_tail_def list_add_tail_def
        list_insert_def list_del_init_def elv_rqhash_del_def raw_elv_rqhash_del_def hash_del_def
        split: option.split prod.split)
qed

text \<open>
  The scheduler as the drain sees it, through \<open>q->elevator->type->ops\<close>, is a scheduler in the sense
  of the interface. Its invariant includes the count, the number of complaints, and that the
  requests in a set \<open>A\<close>, which are not the scheduler's, stay as they are.
\<close>

definition elv_drain_inv ::
  "kenv \<Rightarrow> qid \<Rightarrow> gdid \<Rightarrow> int \<Rightarrow> rid set \<Rightarrow> (rid \<Rightarrow> request) \<Rightarrow> kst \<Rightarrow> bool" where
  "elv_drain_inv E q g n A m s \<longleftrightarrow> elv_sorted_ok E q g s \<and> elv_drain_printed s = n \<and>
     (\<forall>x \<in> A. x \<notin># greedy_pending g s \<and> rqs s x = m x)"

lemma elv_dispatch_empty:
  assumes "elv_drain_inv E q g n A m s" and "greedy_pending g s = {#}"
  shows "elv_dispatch E q s = Some (False, s)"
  using assms greedy_dispatch_empty [of q g s E True] greedy_installed_ops(2) [of E q g s]
  by (simp add: elv_drain_inv_def elv_sorted_ok_def greedy_inv_def elv_dispatch_greedy [of E q g s])

lemma elv_dispatch_move:
  assumes inv: "elv_drain_inv E q g n A m s" and ne: "greedy_pending g s \<noteq> {#}"
  shows "\<exists>r t. elv_dispatch E q s = Some (True, t) \<and> elv_drain_inv E q g n A m t \<and>
    r \<in># greedy_pending g s \<and> greedy_pending g t = greedy_pending g s - {#r#} \<and>
    linked t (QHead q) = linked s (QHead q) @ [r]"
proof -
  have gi: "greedy_installed E q g s" and ok: "lists_ok s"
    and n: "nr_sorted (queues s q) = of_nat (size (greedy_pending g s))"
    using inv by (simp_all add: elv_drain_inv_def elv_sorted_ok_def)
  have "greedy_inv q g s" using ok greedy_installed_ops(2) [OF gi] by (simp add: greedy_inv_def)
  from greedy_dispatch_move [OF this ne, of E True] obtain r t where
    t: "greedy_dispatch E q True s = Some (True, t)" "greedy_inv q g t" "r \<in># greedy_pending g s"
      "greedy_pending g t = greedy_pending g s - {#r#}" "linked t (QHead q) = linked s (QHead q) @ [r]"
    by blast
  note fr = greedy_dispatch_frame [OF t(1) gi]
    and oth = greedy_dispatch_others [OF t(1) greedy_installed_ops(2) [OF gi]]
  obtain k where k: "size (greedy_pending g s) = Suc k"
    using t(3) by (metis insert_DiffM size_add_mset)
  then have "size (greedy_pending g t) = k" using t(3,4) by (simp add: size_Diff_singleton)
  then have "nr_sorted (queues t q) = of_nat (size (greedy_pending g t))"
    using fr(3) n k by simp
  then have "elv_drain_inv E q g n A m t"
    using t(2,4) fr(1,2) inv oth
    by (auto simp: elv_drain_inv_def elv_sorted_ok_def greedy_inv_def dest: in_diffD)
  moreover have "elv_dispatch E q s = Some (True, t)"
    using elv_dispatch_greedy [OF gi] t(1) by simp
  ultimately show ?thesis using t by blast
qed

interpretation elv_io: io_scheduler
  "elv_dispatch E q" "greedy_pending g" "\<lambda>s. linked s (QHead q)" "elv_drain_inv E q g n A m"
  for E q g n A m
  by unfold_locales (rule elv_dispatch_empty elv_dispatch_move; assumption)+

lemma elv_drain_all:
  assumes "elv_sorted_ok E q g s"
  shows "\<exists>t rs. elv_drain_elevator E q s = Some t \<and> elv_sorted_ok E q g t \<and>
    greedy_pending g t = {#} \<and> nr_sorted (queues t q) = 0 \<and>
    elv_drain_printed t = elv_drain_printed s \<and>
    linked t (QHead q) = linked s (QHead q) @ rs \<and> mset rs = greedy_pending g s \<and>
    (\<forall>x. x \<notin># greedy_pending g s \<longrightarrow> rqs t x = rqs s x)"
proof -
  have "elv_drain_inv E q g (elv_drain_printed s) {x. x \<notin># greedy_pending g s} (rqs s) s"
    using assms by (simp add: elv_drain_inv_def)
  from elv_io.drain_moves_all [OF this] obtain t rs where
    t: "drain_loop (elv_dispatch E q) s = Some t" "greedy_pending g t = {#}"
      "elv_drain_inv E q g (elv_drain_printed s) {x. x \<notin># greedy_pending g s} (rqs s) t"
      "linked t (QHead q) = linked s (QHead q) @ rs" "mset rs = greedy_pending g s"
    by blast
  then have z: "nr_sorted (queues t q) = 0" by (simp add: elv_sorted_ok_def elv_drain_inv_def)
  then have "elv_drain_elevator E q s = Some t" using t(1) by (simp add: elv_drain_elevator_eq)
  with t z show ?thesis by (auto simp: elv_drain_inv_def)
qed

section \<open>Before the insertion point\<close>

text \<open>The state in which \<open>__elv_add_request\<close> reaches its \<open>switch\<close>, and the insertion point there.\<close>

definition elv_entry :: "kenv \<Rightarrow> qid \<Rightarrow> rid \<Rightarrow> elv_insert \<Rightarrow> kst \<Rightarrow> elv_insert \<times> kst" where
  "elv_entry E q r wh s =
     elv_insert_where E q r wh (upd_rq r (rq_q_update (\<lambda>_. Some q))
       (blk_pm_add_request E q r (upd_rq r (start_wait_update (\<lambda>_. now_ts s)) s)))"

lemma blk_pm_add_request_frame [simp]:
  "rqs (blk_pm_add_request E q r s) = rqs s" "linked (blk_pm_add_request E q r s) = linked s"
  "elvqs (blk_pm_add_request E q r s) = elvqs s" "gds (blk_pm_add_request E q r s) = gds s"
  "elevator (queues (blk_pm_add_request E q r s) q') = elevator (queues s q')"
  "nr_sorted (queues (blk_pm_add_request E q r s) q') = nr_sorted (queues s q')"
  "queue_flags (queues (blk_pm_add_request E q r s) q') = queue_flags (queues s q')"
  "last_merge (queues (blk_pm_add_request E q r s) q') = last_merge (queues s q')"
  "elv_drain_printed (blk_pm_add_request E q r s) = elv_drain_printed s"
  by (simp_all add: blk_pm_add_request_def Let_def)

lemma elv_entry_frame [simp]:
  "linked (snd (elv_entry E q r wh s)) = linked s" "elvqs (snd (elv_entry E q r wh s)) = elvqs s"
  "gds (snd (elv_entry E q r wh s)) = gds s"
  "elevator (queues (snd (elv_entry E q r wh s)) q') = elevator (queues s q')"
  "nr_sorted (queues (snd (elv_entry E q r wh s)) q') = nr_sorted (queues s q')"
  "queuelist (rqs (snd (elv_entry E q r wh s)) x) = queuelist (rqs s x)"
  "cmd_flags (rqs (snd (elv_entry E q r wh s)) x) = cmd_flags (rqs s x)"
  "cmd_type (rqs (snd (elv_entry E q r wh s)) x) = cmd_type (rqs s x)"
  "rq_sector (rqs (snd (elv_entry E q r wh s)) x) = rq_sector (rqs s x)"
  "elv_drain_printed (snd (elv_entry E q r wh s)) = elv_drain_printed s"
  by (simp_all add: elv_entry_def elv_insert_where_def)

lemma elv_entry_ok [simp]:
  "elv_sorted_ok E q g (snd (elv_entry E q r wh s)) = elv_sorted_ok E q g s"
  "greedy_pending g (snd (elv_entry E q r wh s)) = greedy_pending g s"
proof -
  have "lists_ok (snd (elv_entry E q r wh s)) = lists_ok s" by (rule lists_ok_cong) simp_all
  moreover have "greedy_installed E q g (snd (elv_entry E q r wh s)) = greedy_installed E q g s"
    by (rule greedy_installed_cong) simp_all
  ultimately show "elv_sorted_ok E q g (snd (elv_entry E q r wh s)) = elv_sorted_ok E q g s"
    by (simp add: elv_sorted_ok_def greedy_pending_def)
  show "greedy_pending g (snd (elv_entry E q r wh s)) = greedy_pending g s"
    by (simp add: greedy_pending_def)
qed

lemma elv_entry_where:
  "fst (elv_entry E q r wh s) =
     (if REQ_SOFTBARRIER \<notin> cmd_flags (rqs s r) \<and> REQ_ELVPRIV \<notin> cmd_flags (rqs s r) \<and>
         (wh = ELEVATOR_INSERT_SORT \<or> wh = ELEVATOR_INSERT_SORT_MERGE)
      then ELEVATOR_INSERT_BACK else wh)"
  by (auto simp: elv_entry_def elv_insert_where_def)

lemma set_flag_ok [simp]:
  "elv_sorted_ok E q g (set_flag r f s) = elv_sorted_ok E q g s"
  "greedy_pending g (set_flag r f s) = greedy_pending g s"
proof -
  have "lists_ok (set_flag r f s) = lists_ok s" by (rule lists_ok_cong) simp_all
  moreover have "greedy_installed E q g (set_flag r f s) = greedy_installed E q g s"
    by (rule greedy_installed_cong) simp_all
  ultimately show "elv_sorted_ok E q g (set_flag r f s) = elv_sorted_ok E q g s"
    by (simp add: elv_sorted_ok_def greedy_pending_def)
  show "greedy_pending g (set_flag r f s) = greedy_pending g s"
    by (simp add: greedy_pending_def)
qed

section \<open>The insertion points\<close>

text \<open>
  C34: a back insertion is a barrier. When a request enters a queue with the greedy scheduler at the
  back, or for sorting without scheduler data, everything the scheduler holds goes to the dispatch
  queue before it, each request once; the request is the last one there, marked as a barrier, the
  scheduler is left empty with a correct count, and then the queue is run.
\<close>

theorem insert_back_barrier:
  assumes ok: "elv_sorted_ok E q g s" and free: "queuelist (rqs s r) = None"
    and wh: "wh = ELEVATOR_INSERT_BACK \<or> (wh \<in> {ELEVATOR_INSERT_SORT, ELEVATOR_INSERT_SORT_MERGE} \<and>
      cmd_flags (rqs s r) \<inter> {REQ_ELVPRIV, REQ_SOFTBARRIER} = {})"
  shows "\<exists>t rs. raw_elv_add_request E q r wh s = raw_blk_run_queue E q t \<and>
    linked t (QHead q) = linked s (QHead q) @ rs @ [r] \<and> mset rs = greedy_pending g s \<and>
    REQ_SOFTBARRIER \<in> cmd_flags (rqs t r) \<and> elv_sorted_ok E q g t \<and> greedy_pending g t = {#} \<and> nr_sorted (queues t q) = 0 \<and>
    elv_drain_printed t = elv_drain_printed s"
proof -
  define u where "u = set_flag r REQ_SOFTBARRIER (snd (elv_entry E q r wh s))"
  have ins: "fst (elv_entry E q r wh s) = ELEVATOR_INSERT_BACK"
    using wh by (auto simp: elv_entry_where)
  have u: "elv_sorted_ok E q g u" "greedy_pending g u = greedy_pending g s"
    "linked u = linked s" "queuelist (rqs u r) = None"
    "elv_drain_printed u = elv_drain_printed s"
    using ok free by (simp_all add: u_def)
  from elv_drain_all [OF u(1)] obtain t rs where
    t: "elv_drain_elevator E q u = Some t" "elv_sorted_ok E q g t" "greedy_pending g t = {#}"
      "nr_sorted (queues t q) = 0" "elv_drain_printed t = elv_drain_printed s"
      "linked t (QHead q) = linked s (QHead q) @ rs" "mset rs = greedy_pending g s"
      "\<forall>x. x \<notin># greedy_pending g s \<longrightarrow> rqs t x = rqs u x"
    using u by auto
  have "r \<notin># greedy_pending g s"
    using ok free lists_okD(2) [of s r] by (auto simp: elv_sorted_ok_def greedy_pending_def)
  then have r: "queuelist (rqs t r) = None" "REQ_SOFTBARRIER \<in> cmd_flags (rqs t r)"
    using t(8) u(4) by (auto simp: u_def)
  define v where "v = list_add_tail r (QHead q) t"
  have "raw_elv_add_request E q r wh s = raw_blk_run_queue E q v"
    using t(1) ins
    by (simp add: raw_elv_add_request_def elv_entry_def [symmetric] Let_def case_prod_beta u_def v_def)
  moreover have "lists_ok v"
    using t(2) r by (auto simp: v_def elv_sorted_ok_def)
  moreover have "greedy_installed E q g v = greedy_installed E q g t"
    by (rule greedy_installed_cong) (simp_all add: v_def list_add_tail_def list_insert_def)
  ultimately show ?thesis
    using t r
    by (intro exI [of _ v] exI [of _ rs])
      (auto simp: v_def elv_sorted_ok_def greedy_pending_def list_add_tail_def list_insert_def)
qed

lemma greedy_add_request_ok:
  assumes lo: "lists_ok s" and gi: "greedy_installed E q g s"
    and free: "queuelist (rqs s r) = None" and t: "greedy_add_request q r s = Some t"
  shows "lists_ok t" and "greedy_installed E q g t"
    and "greedy_pending g t = add_mset r (greedy_pending g s)"
    and "queues t = queues s" and "cmd_flags (rqs t x) = cmd_flags (rqs s x)"
    and "linked t (QHead q) = linked s (QHead q)"
    and "x \<noteq> r \<Longrightarrow> rqs t x = rqs s x"
proof -
  note gd = greedy_installed_ops(2) [OF gi]
  have nin: "r \<notin> set (linked s l)" for l using lists_okD(2) [OF lo] free by simp
  show "lists_ok t"
    using t gd lo free nin
    by (auto simp: greedy_add_request_def add_to_lower_def add_to_higher_def
        intro!: lists_ok_insert lists_okD(1) [OF lo] split: if_splits)
  have "greedy_installed E q g t = greedy_installed E q g s"
    by (rule greedy_installed_cong)
      (use t gd in \<open>auto simp: greedy_add_request_def add_to_lower_def add_to_higher_def list_insert_def\<close>)
  then show "greedy_installed E q g t" using gi by simp
  show "greedy_pending g t = add_mset r (greedy_pending g s)" "queues t = queues s"
    "cmd_flags (rqs t x) = cmd_flags (rqs s x)" "linked t (QHead q) = linked s (QHead q)"
    "x \<noteq> r \<Longrightarrow> rqs t x = rqs s x"
    using t gd
    by (auto simp: greedy_add_request_def greedy_pending_def add_to_lower_def add_to_higher_def
        list_insert_def split: if_splits)
qed

text \<open>The state in which the sorted insertion calls the scheduler.\<close>

definition sort_marked :: "kenv \<Rightarrow> qid \<Rightarrow> eqid \<Rightarrow> rid \<Rightarrow> kst \<Rightarrow> kst" where
  "sort_marked E q e r s =
     (let s = upd_q q (nr_sorted_update (\<lambda>n. n + 1)) (set_flag r REQ_SORTED s)
      in if rq_mergeable E (rqs s r)
         then (let s = set_flag r REQ_HASHED (hash_add E e r (rq_hash_key (rqs s r)) s)
               in if last_merge (queues s q) = None
                  then upd_q q (last_merge_update (\<lambda>_. Some r)) s else s)
         else s)"

lemma sort_marked_frame [simp]:
  "queuelist (rqs (sort_marked E q e r s) x) = queuelist (rqs s x)"
  "linked (sort_marked E q e r s) = linked s"
  "elevator (queues (sort_marked E q e r s) q') = elevator (queues s q')"
  "queue_flags (queues (sort_marked E q e r s) q') = queue_flags (queues s q')"
  "elevator_data (elvqs (sort_marked E q e r s) e') = elevator_data (elvqs s e')"
  "eq_type (elvqs (sort_marked E q e r s) e') = eq_type (elvqs s e')"
  "nr_sorted (queues (sort_marked E q e r s) q) = nr_sorted (queues s q) + 1"
  "REQ_SORTED \<in> cmd_flags (rqs (sort_marked E q e r s) r)"
  "x \<noteq> r \<Longrightarrow> rqs (sort_marked E q e r s) x = rqs s x"
  by (auto simp: sort_marked_def Let_def hash_add_def)

lemma sort_marked_hashed:
  assumes "cmd_type (rqs s r) = REQ_TYPE_FS" and "REQ_HASHED \<notin> cmd_flags (rqs s r)"
  shows "REQ_HASHED \<in> cmd_flags (rqs (sort_marked E q e r s) r) \<longleftrightarrow>
    insert REQ_SORTED (cmd_flags (rqs s r)) \<inter> REQ_NOMERGE_FLAGS E = {}"
  using assms by (auto simp: sort_marked_def Let_def hash_add_def rq_mergeable_def)

lemma elv_insert_sort_greedy:
  assumes "greedy_installed E q g s" and "elevator (queues s q) = Some e"
    and "cmd_type (rqs s r) = REQ_TYPE_FS" and "REQ_HASHED \<notin> cmd_flags (rqs s r)"
  shows "elv_insert_sort E q r s = greedy_add_request q r (sort_marked E q e r s)"
proof -
  have "greedy_installed E q g (sort_marked E q e r s) = greedy_installed E q g s"
    by (rule greedy_installed_cong) simp_all
  then have ops: "elv_ops E q (sort_marked E q e r s) = Some (elevator_greedy E)"
    using assms(1) greedy_installed_ops(1) by metis
  let ?s = "upd_q q (nr_sorted_update (\<lambda>n. n + 1)) (set_flag r REQ_SORTED s)"
  have "(if rq_mergeable E (rqs ?s r) then do {
             s \<leftarrow> elv_rqhash_add E q r ?s;
             Some (if last_merge (queues s q) = None
                   then upd_q q (last_merge_update (\<lambda>_. Some r)) s else s)
           } else Some ?s) = Some (sort_marked E q e r s)"
    using assms(2,4) by (simp add: sort_marked_def elv_rqhash_add_def ELV_ON_HASH_def Let_def)
  then show ?thesis
    using assms(3) ops by (simp add: elv_insert_sort_def Let_def elevator_greedy_def)
qed

lemma insert_sort_run:
  assumes ok: "elv_sorted_ok E q g s" and free: "queuelist (rqs s r) = None"
    and fs: "cmd_type (rqs s r) = REQ_TYPE_FS"
    and fl: "REQ_ELVPRIV \<in> cmd_flags (rqs s r)" "cmd_flags (rqs s r) \<inter> {REQ_HASHED, REQ_SOFTBARRIER} = {}"
  obtains e u t where "u = snd (elv_entry E q r ELEVATOR_INSERT_SORT s)"
    and "raw_elv_add_request E q r ELEVATOR_INSERT_SORT s = Some t"
    and "greedy_add_request q r (sort_marked E q e r u) = Some t"
    and "lists_ok (sort_marked E q e r u)" and "greedy_installed E q g (sort_marked E q e r u)"
    and "queuelist (rqs (sort_marked E q e r u) r) = None"
proof -
  define u where "u = snd (elv_entry E q r ELEVATOR_INSERT_SORT s)"
  have ins: "elv_entry E q r ELEVATOR_INSERT_SORT s = (ELEVATOR_INSERT_SORT, u)"
    using fl by (simp add: u_def prod_eq_iff elv_entry_where)
  have u: "elv_sorted_ok E q g u" "queuelist (rqs u r) = None" "cmd_type (rqs u r) = REQ_TYPE_FS"
    "REQ_HASHED \<notin> cmd_flags (rqs u r)"
    using ok free fs fl by (auto simp: u_def)
  from u(1) obtain e where e: "greedy_installed E q g u" "elevator (queues u q) = Some e" "lists_ok u"
    by (auto simp: elv_sorted_ok_def greedy_installed_def)
  define v where "v = sort_marked E q e r u"
  have v: "lists_ok v" "greedy_installed E q g v" "queuelist (rqs v r) = None"
    using e(1,3) u(2) lists_ok_cong [of v u] greedy_installed_cong [of v q u E g] by (simp_all add: v_def)
  obtain t where t: "greedy_add_request q r v = Some t"
    using greedy_installed_ops(2) [OF v(2)] by (auto simp: greedy_add_request_def)
  have "raw_elv_add_request E q r ELEVATOR_INSERT_SORT s = elv_insert_sort E q r u"
    using ins by (simp add: raw_elv_add_request_def elv_entry_def [symmetric] Let_def)
  also have "\<dots> = Some t"
    using elv_insert_sort_greedy [OF e(1,2) u(3,4)] t by (simp add: v_def)
  finally show thesis using that u_def t v by (simp add: v_def)
qed

text \<open>
  A sorted insertion reaches the scheduler. A file-system request with scheduler data that is
  not hashed enters at the sorting point: the scheduler holds it in addition to what it held, the
  count is kept, the dispatch queue and all other requests are untouched, and the request is in the
  merge hash exactly if none of its flags forbids merging.
\<close>

theorem insert_sort_pending:
  assumes ok: "elv_sorted_ok E q g s" and free: "queuelist (rqs s r) = None"
    and fs: "cmd_type (rqs s r) = REQ_TYPE_FS"
    and fl: "REQ_ELVPRIV \<in> cmd_flags (rqs s r)" "cmd_flags (rqs s r) \<inter> {REQ_HASHED, REQ_SOFTBARRIER} = {}"
  shows "\<exists>t. raw_elv_add_request E q r ELEVATOR_INSERT_SORT s = Some t \<and> elv_sorted_ok E q g t \<and>
    greedy_pending g t = add_mset r (greedy_pending g s) \<and>
    linked t (QHead q) = linked s (QHead q) \<and> REQ_SORTED \<in> cmd_flags (rqs t r) \<and>
    (REQ_HASHED \<in> cmd_flags (rqs t r) \<longleftrightarrow>
       insert REQ_SORTED (cmd_flags (rqs s r)) \<inter> REQ_NOMERGE_FLAGS E = {}) \<and>
    (\<forall>x. x \<noteq> r \<longrightarrow> rqs t x = rqs s x)"
proof -
  obtain e u t where ut: "u = snd (elv_entry E q r ELEVATOR_INSERT_SORT s)"
    "raw_elv_add_request E q r ELEVATOR_INSERT_SORT s = Some t"
    "greedy_add_request q r (sort_marked E q e r u) = Some t"
    and v: "lists_ok (sort_marked E q e r u)" "greedy_installed E q g (sort_marked E q e r u)"
      "queuelist (rqs (sort_marked E q e r u) r) = None"
    by (rule insert_sort_run [OF assms])
  define v where "v = sort_marked E q e r u"
  note T = greedy_add_request_ok [OF v ut(3), folded v_def]
  have u: "cmd_type (rqs u r) = REQ_TYPE_FS" "REQ_HASHED \<notin> cmd_flags (rqs u r)"
    "cmd_flags (rqs u r) = cmd_flags (rqs s r)" using fs fl by (auto simp: ut(1))
  have oth: "rqs u x = rqs s x" if "x \<noteq> r" for x
    using that by (simp add: ut(1) elv_entry_def elv_insert_where_def)
  have pend: "greedy_pending g v = greedy_pending g s"
    by (simp add: v_def ut(1) greedy_pending_def)
  have "elv_sorted_ok E q g t"
    using T(1-4) pend ok by (simp add: elv_sorted_ok_def v_def ut(1))
  moreover have "REQ_HASHED \<in> cmd_flags (rqs t r) \<longleftrightarrow>
      insert REQ_SORTED (cmd_flags (rqs s r)) \<inter> REQ_NOMERGE_FLAGS E = {}"
    unfolding T(5) v_def using sort_marked_hashed [OF u(1,2), of E q e] u(3) by simp
  moreover have "REQ_SORTED \<in> cmd_flags (rqs t r)" unfolding T(5) by (simp add: v_def)
  moreover have "rqs t x = rqs s x" if "x \<noteq> r" for x
    using T(7) [OF that] oth that by (simp add: v_def)
  ultimately show ?thesis
    using ut(2) T(3,6) pend by (auto simp: v_def ut(1))
qed

section \<open>Concrete runs\<close>

text \<open>
  A queue whose scheduler holds the requests 1 and 2; request 3 is new and has scheduler data,
  request 4 has none.
\<close>

definition greedy_env :: kenv where
  "greedy_env = env_zero\<lparr>et_ops := (\<lambda>_. elevator_greedy env_zero)\<rparr>"

definition greedy_busy :: kst where
  "greedy_busy = greedy_both
     \<lparr>queues := (\<lambda>_. queue_zero\<lparr>elevator := Some 7, nr_sorted := 2\<rparr>),
      rqs := (rqs greedy_both)(3 := rq_zero\<lparr>rq_sector := 12, cmd_type := REQ_TYPE_FS,
        cmd_flags := {REQ_ELVPRIV}\<rparr>)\<rparr>"

lemma elevator_greedy_et_ops: "elevator_greedy (et_ops_update f E) = elevator_greedy E"
proof -
  have "elv_dispatch_add_tail (et_ops_update f E) = elv_dispatch_add_tail E"
    by (intro ext) (simp add: elv_dispatch_add_tail_def Let_def)
  then have "greedy_dispatch (et_ops_update f E) = greedy_dispatch E"
    by (intro ext) (simp add: greedy_dispatch_def Let_def cong: option.case_cong)
  then show ?thesis by (simp add: elevator_greedy_def)
qed

lemma elevator_greedy_env: "et_ops greedy_env = (\<lambda>_. elevator_greedy greedy_env)"
  by (simp add: greedy_env_def elevator_greedy_et_ops)

lemma greedy_busy_ok: "elv_sorted_ok greedy_env 0 8 greedy_busy"
  "greedy_pending 8 greedy_busy = {#1, 2#}"
proof -
  have "lists_ok greedy_busy = lists_ok greedy_both"
    by (rule lists_ok_cong)
      (auto simp: greedy_busy_def greedy_both_def greedy_two_def rq_zero_def)
  then show "elv_sorted_ok greedy_env 0 8 greedy_busy"
    using greedy_both_ok
    by (simp add: elv_sorted_ok_def greedy_installed_def elevator_greedy_env greedy_busy_def
        queue_zero_def greedy_both_def greedy_two_def eq_zero_def greedy_pending_def)
  show "greedy_pending 8 greedy_busy = {#1, 2#}"
    by (simp add: greedy_busy_def greedy_both_def greedy_pending_def add_mset_commute)
qed

lemma insert_back_barrier_witness:
  "\<exists>t rs. raw_elv_add_request greedy_env 0 4 ELEVATOR_INSERT_SORT greedy_busy =
     raw_blk_run_queue greedy_env 0 t \<and> linked t (QHead 0) = rs @ [4] \<and> mset rs = {#1, 2#}"
proof -
  have f: "queuelist (rqs greedy_busy 4) = None"
    and fl: "cmd_flags (rqs greedy_busy 4) \<inter> {REQ_ELVPRIV, REQ_SOFTBARRIER} = {}"
    and h: "linked greedy_busy (QHead 0) = []"
    by (simp_all add: greedy_busy_def greedy_both_def rq_zero_def)
  from insert_back_barrier [OF greedy_busy_ok(1) f, of ELEVATOR_INSERT_SORT] fl h greedy_busy_ok(2)
  show ?thesis by auto
qed

lemma insert_sort_pending_witness:
  "\<exists>t. raw_elv_add_request greedy_env 0 3 ELEVATOR_INSERT_SORT greedy_busy = Some t \<and>
     greedy_pending 8 t = {#1, 2, 3#} \<and> REQ_HASHED \<in> cmd_flags (rqs t 3)"
proof -
  have f: "queuelist (rqs greedy_busy 3) = None" "cmd_type (rqs greedy_busy 3) = REQ_TYPE_FS"
    "REQ_ELVPRIV \<in> cmd_flags (rqs greedy_busy 3)"
    "cmd_flags (rqs greedy_busy 3) \<inter> {REQ_HASHED, REQ_SOFTBARRIER} = {}"
    "insert REQ_SORTED (cmd_flags (rqs greedy_busy 3)) \<inter> REQ_NOMERGE_FLAGS greedy_env = {}"
    by (simp_all add: greedy_busy_def rq_zero_def greedy_env_def env_zero_def)
  from insert_sort_pending [OF greedy_busy_ok(1) f(1-4)] f(5) greedy_busy_ok(2)
  show ?thesis by (auto simp: add_mset_commute)
qed

end
