(* ===== verification/Elv_Steps.thy ===== *)
theory Elv_Steps
  imports Elv_Greedy Blk_Dispatch Refine
begin

text \<open>
  A queue with the greedy scheduler as a state machine. Its steps are the operations of the elevator
  that move a request: insertion at its several points, dispatching, draining, and the removal of a
  request from the dispatch queue by the driver. Its specification is a bag of requests.
\<close>

section \<open>Steps\<close>

text \<open>What a step does as seen from outside: a request enters, a request leaves, or neither.\<close>

datatype elv_act = Enter rid | Leave rid | Move

inductive elv_step :: "kenv \<Rightarrow> qid \<Rightarrow> elv_act \<Rightarrow> kst \<Rightarrow> kst \<Rightarrow> bool" for E q where
  sort: "queuelist (rqs s r) = None \<Longrightarrow> cmd_type (rqs s r) = REQ_TYPE_FS \<Longrightarrow>
    REQ_ELVPRIV \<in> cmd_flags (rqs s r) \<Longrightarrow> cmd_flags (rqs s r) \<inter> {REQ_HASHED, REQ_SOFTBARRIER} = {} \<Longrightarrow>
    raw_elv_add_request E q r ELEVATOR_INSERT_SORT s = Some t \<Longrightarrow> elv_step E q (Enter r) s t"
| front: "queuelist (rqs s r) = None \<Longrightarrow> wh = ELEVATOR_INSERT_FRONT \<or> wh = ELEVATOR_INSERT_REQUEUE \<Longrightarrow>
    raw_elv_add_request E q r wh s = Some t \<Longrightarrow> elv_step E q (Enter r) s t"
| dispatch: "elv_ops E q s = Some ops \<Longrightarrow> elevator_dispatch_fn ops q force s = Some (b, t) \<Longrightarrow>
    elv_step E q Move s t"
| drain: "elv_drain_elevator E q s = Some t \<Longrightarrow> elv_step E q Move s t"
| take: "queuelist (rqs s r) = Some (QHead q) \<Longrightarrow> blk_dequeue_request r s = Some t \<Longrightarrow>
    elv_step E q (Leave r) s t"

section \<open>The specification: a bag\<close>

definition elv_bag :: "qid \<Rightarrow> gdid \<Rightarrow> kst \<Rightarrow> rid multiset" where
  "elv_bag q g s = mset (linked s (QHead q)) + greedy_pending g s"

fun bag_step :: "elv_act \<Rightarrow> rid multiset \<Rightarrow> rid multiset \<Rightarrow> bool" where
  "bag_step (Enter r) b c \<longleftrightarrow> r \<notin># b \<and> c = add_mset r b"
| "bag_step (Leave r) b c \<longleftrightarrow> b = add_mset r c"
| "bag_step Move b c \<longleftrightarrow> c = b"

lemma queuelist_not_in_bag:
  assumes "lists_ok s" and "queuelist (rqs s r) = None"
  shows "r \<notin># elv_bag q g s"
  using lists_okD(2) [OF assms(1)] assms(2) by (simp add: elv_bag_def greedy_pending_def)

lemma list_add_ok:
  assumes ok: "elv_sorted_ok E q g s" and free: "queuelist (rqs s r) = None"
  shows "elv_sorted_ok E q g (list_add r (QHead q) s)" and
    "elv_bag q g (list_add r (QHead q) s) = add_mset r (elv_bag q g s)"
proof -
  have "greedy_installed E q g (list_add r (QHead q) s) = greedy_installed E q g s"
    by (rule greedy_installed_cong) (simp_all add: list_add_def list_insert_def)
  then show "elv_sorted_ok E q g (list_add r (QHead q) s)"
    using ok free by (auto simp: elv_sorted_ok_def greedy_pending_def list_add_def list_insert_def
        intro!: lists_ok_add [unfolded list_add_def list_insert_def])
  show "elv_bag q g (list_add r (QHead q) s) = add_mset r (elv_bag q g s)"
    by (simp add: elv_bag_def greedy_pending_def list_add_def list_insert_def)
qed

lemma front_step:
  assumes ok: "elv_sorted_ok E q g s" and free: "queuelist (rqs s r) = None"
    and wh: "wh = ELEVATOR_INSERT_FRONT \<or> wh = ELEVATOR_INSERT_REQUEUE"
    and run: "raw_elv_add_request E q r wh s = Some t"
  shows "elv_sorted_ok E q g t \<and> elv_bag q g t = add_mset r (elv_bag q g s)"
proof -
  define u where "u = set_flag r REQ_SOFTBARRIER (snd (elv_entry E q r wh s))"
  have ins: "fst (elv_entry E q r wh s) = wh" using wh by (auto simp: elv_entry_where)
  have u: "elv_sorted_ok E q g u" "queuelist (rqs u r) = None" "elv_bag q g u = elv_bag q g s"
    using ok free by (simp_all add: u_def elv_bag_def)
  have "t = list_add r (QHead q) u"
    using run wh ins
    by (auto simp: raw_elv_add_request_def elv_entry_def [symmetric] Let_def case_prod_beta u_def)
  then show ?thesis using list_add_ok [OF u(1,2)] u(3) by simp
qed

lemma sort_step:
  assumes "elv_sorted_ok E q g s" and "queuelist (rqs s r) = None" and "cmd_type (rqs s r) = REQ_TYPE_FS"
    and "REQ_ELVPRIV \<in> cmd_flags (rqs s r)" "cmd_flags (rqs s r) \<inter> {REQ_HASHED, REQ_SOFTBARRIER} = {}"
    and "raw_elv_add_request E q r ELEVATOR_INSERT_SORT s = Some t"
  shows "elv_sorted_ok E q g t \<and> elv_bag q g t = add_mset r (elv_bag q g s)"
  using insert_sort_pending [OF assms(1-5)] assms(6) by (auto simp: elv_bag_def)

lemma dispatch_step:
  assumes ok: "elv_sorted_ok E q g s" and t: "greedy_dispatch E q force s = Some (b, t)"
  shows "elv_sorted_ok E q g t \<and> elv_bag q g t = elv_bag q g s"
proof -
  have gi: "greedy_installed E q g s" and lo: "lists_ok s"
    using ok by (simp_all add: elv_sorted_ok_def)
  have inv: "greedy_inv q g s" using lo greedy_installed_ops(2) [OF gi] by (simp add: greedy_inv_def)
  have same: "greedy_dispatch E q force s = elv_dispatch E q s"
    unfolding elv_dispatch_greedy [OF gi] by (simp add: greedy_dispatch_def)
  show ?thesis
  proof (cases "greedy_pending g s = {#}")
    case True
    with greedy_dispatch_empty [OF inv, of E force] t ok show ?thesis by simp
  next
    case False
    have "elv_drain_inv E q g (elv_drain_printed s) {} (rqs s) s"
      using ok by (simp add: elv_drain_inv_def)
    from elv_dispatch_move [OF this False] t show ?thesis
      unfolding same by (auto simp: elv_drain_inv_def elv_bag_def)
  qed
qed

lemma drain_step:
  assumes "elv_sorted_ok E q g s" and "elv_drain_elevator E q s = Some t"
  shows "elv_sorted_ok E q g t \<and> elv_bag q g t = elv_bag q g s"
  using elv_drain_all [OF assms(1)] assms(2) by (auto simp: elv_bag_def)

lemma take_step:
  assumes ok: "elv_sorted_ok E q g s" and r: "queuelist (rqs s r) = Some (QHead q)"
    and run: "blk_dequeue_request r s = Some t"
  shows "elv_sorted_ok E q g t \<and> elv_bag q g s = add_mset r (elv_bag q g t)"
proof -
  have lo: "lists_ok s" using ok by (simp add: elv_sorted_ok_def)
  let ?s = "list_del_init r s"
  have t: "linked t = linked ?s" "rqs t = rqs ?s" "elvqs t = elvqs ?s" "gds t = gds ?s"
    "\<And>q'. elevator (queues t q') = elevator (queues ?s q')"
    "\<And>q'. nr_sorted (queues t q') = nr_sorted (queues ?s q')"
    using run by (auto simp: blk_dequeue_request_def Let_def Option.bind_eq_Some_conv bug_on_def split: if_splits)
  have "lists_ok t = lists_ok ?s" by (rule lists_ok_cong) (simp_all add: t)
  moreover have "greedy_installed E q g t = greedy_installed E q g s"
    by (rule greedy_installed_cong) (simp_all add: t)
  moreover have l: "linked t = (linked s)(QHead q := filter (\<lambda>x. x \<noteq> r) (linked s (QHead q)))"
    using r by (simp add: t list_del_init_def)
  then have p: "greedy_pending g t = greedy_pending g s" by (simp add: greedy_pending_def)
  moreover have "mset (linked s (QHead q)) = add_mset r (mset (linked t (QHead q)))"
  proof -
    have "r \<in> set (linked s (QHead q))" "distinct (linked s (QHead q))"
      using lists_okD [OF lo] r by simp_all
    moreover from this have "filter (\<lambda>x. x \<noteq> r) (linked s (QHead q)) = remove1 r (linked s (QHead q))"
      by (simp add: distinct_remove1_removeAll removeAll_filter_not_eq eq_commute)
    ultimately show ?thesis by (simp add: l)
  qed
  ultimately show ?thesis using ok by (auto simp: elv_sorted_ok_def elv_bag_def t)
qed

lemma elv_step_bag:
  assumes "elv_step E q a s t" and ok: "elv_sorted_ok E q g s"
  shows "elv_sorted_ok E q g t \<and> bag_step a (elv_bag q g s) (elv_bag q g t)"
  using assms(1)
proof (cases rule: elv_step.cases)
  case (sort r)
  with sort_step [OF ok] queuelist_not_in_bag [of s r q g] ok show ?thesis by (auto simp: elv_sorted_ok_def)
next
  case (front r wh)
  with front_step [OF ok] queuelist_not_in_bag [of s r q g] ok show ?thesis
    by (metis bag_step.simps(1) elv_sorted_ok_def)
next
  case (dispatch ops force b)
  have "ops = elevator_greedy E"
    using dispatch ok greedy_installed_ops(1) [of E q g s] by (simp add: elv_sorted_ok_def)
  with dispatch have "greedy_dispatch E q force s = Some (b, t)" by (simp add: elevator_greedy_def)
  from dispatch_step [OF ok this] dispatch(1) show ?thesis by simp
next
  case drain
  with drain_step [OF ok] show ?thesis by simp
next
  case (take r)
  with take_step [OF ok] show ?thesis by simp
qed

interpretation elv: simulation "elv_step E q" "elv_sorted_ok E q g" "elv_bag q g" bag_step
  for E q g
  by unfold_locales (simp_all add: elv_step_bag)



end
