(* ===== verification/Blk_Views.thy ===== *)
theory Blk_Views
  imports Blk_Access
begin

text \<open>
  Views of the state, for stating what an operation leaves alone: what a request carries, what a
  driver sees of its queue, and what the outside has been told.
\<close>

section \<open>Requests and queues\<close>

text \<open>What a request carries.\<close>

definition carried :: "request \<Rightarrow> bid option \<times> bid option \<times> sector_t \<times> u32" where
  "carried rq = (rq_bio rq, biotail rq, rq_sector rq, data_len rq)"

abbreviation own_flags :: rq_flags where
  "own_flags \<equiv> {REQ_ALLOCED, REQ_QUEUED, REQ_DONTPREP, REQ_FLUSH_SEQ, REQ_IO_STAT}"

lemma rw_is_sync_flags [simp]:
  "x \<notin> {REQ_WRITE, REQ_SYNC} \<Longrightarrow> rw_is_sync (insert x F) = rw_is_sync F"
  "x \<notin> {REQ_WRITE, REQ_SYNC} \<Longrightarrow> rw_is_sync (F - {x}) = rw_is_sync F"
  by (auto simp: rw_is_sync_def)

text \<open>
  All that a completion looks at and that stays as it is on the way to the driver; the last
  component says which counter of the request list the request is part of.
\<close>

definition cargo :: "request \<Rightarrow> _" where
  "cargo rq = (carried rq, rq_q rq, rq_rl rq, next_rq rq, end_io rq, atom_complete rq,
     cmd_flags rq \<inter> own_flags, rw_is_sync (cmd_flags rq))"

lemma cargoD:
  assumes "cargo a = cargo b"
  shows "carried a = carried b" "rq_q a = rq_q b" "rq_rl a = rq_rl b" "next_rq a = next_rq b"
    "end_io a = end_io b" "atom_complete a = atom_complete b"
    "cmd_flags a \<inter> own_flags = cmd_flags b \<inter> own_flags"
    "rw_is_sync (cmd_flags a) = rw_is_sync (cmd_flags b)"
  using assms by (simp_all only: cargo_def prod.inject)

lemma cargo_update [simp]:
  "cargo (queuelist_update f1 x) = cargo x" "cargo (hash_node_update f2 x) = cargo x"
  "cargo (start_service_update f3 x) = cargo x" "cargo (start_wait_update f4 x) = cargo x"
  "cargo (nr_phys_segments_update f5 x) = cargo x" "cargo (resid_len_update f6 x) = cargo x"
  "cargo (cpu_update f7 x) = cargo x"
  by (simp_all add: cargo_def carried_def)

lemma cargo_flags [simp]:
  "(\<And>F. f F \<inter> own_flags = F \<inter> own_flags) \<Longrightarrow> (\<And>F. rw_is_sync (f F) = rw_is_sync F) \<Longrightarrow>
     cargo (cmd_flags_update f x) = cargo x"
  "f' \<notin> own_flags \<union> {REQ_WRITE, REQ_SYNC} \<Longrightarrow> cargo (cmd_flags_update (\<lambda>F. F - {f'}) x) = cargo x"
  by (simp add: cargo_def carried_def, auto simp: cargo_def carried_def)

lemma cargo_same_queue [simp]: "rq_q x = qo \<Longrightarrow> cargo (rq_q_update (\<lambda>_. qo) x) = cargo x"
  by (simp add: cargo_def carried_def)

lemma cargo_if [simp]: "cargo (if c then x else y) = (if c then cargo x else cargo y)"
  by simp

text \<open>When a request has been queued, and when it was given to the driver.\<close>

definition stamps :: "request \<Rightarrow> timespec \<times> timespec" where
  "stamps rq = (start_wait rq, start_service rq)"

lemma stamps_update [simp]:
  "stamps (queuelist_update f1 x) = stamps x" "stamps (hash_node_update f2 x) = stamps x"
  "stamps (cmd_flags_update f3 x) = stamps x" "stamps (nr_phys_segments_update f4 x) = stamps x"
  "stamps (resid_len_update f5 x) = stamps x" "stamps (rq_q_update f6 x) = stamps x"
  "stamps (if c then x else y) = (if c then stamps x else stamps y)"
  by (simp_all add: stamps_def)

text \<open>What a driver sees of its queue besides the requests.\<close>

definition drv_view :: "request_queue \<Rightarrow> _" where
  "drv_view q = (queue_lock q, queue_flags q, q_fq q, mq_ops q, prep_rq_fn q, q_dev q, request_fn q)"

lemma drv_viewD:
  assumes "drv_view a = drv_view b"
  shows "queue_lock a = queue_lock b" "queue_flags a = queue_flags b" "q_fq a = q_fq b" "mq_ops a = mq_ops b"
    "prep_rq_fn a = prep_rq_fn b" "q_dev a = q_dev b" "request_fn a = request_fn b"
  using assms by (simp_all add: drv_view_def)

lemma drv_view_update [simp]:
  "drv_view (nr_sorted_update f1 x) = drv_view x" "drv_view (last_merge_update f2 x) = drv_view x"
  "drv_view (nr_pending_update f3 x) = drv_view x" "drv_view (end_sector_update f4 x) = drv_view x"
  "drv_view (boundary_rq_update f5 x) = drv_view x" "drv_view (in_flight_update f6 x) = drv_view x"
  "drv_view (nr_rqs_update f7 x) = drv_view x" "drv_view (nr_rqs_elvpriv_update f8 x) = drv_view x"
  "drv_view (request_fn_active_update f9 x) = drv_view x"
  by (simp_all add: drv_view_def)

text \<open>This, the scheduler and the limits.\<close>

definition q_side :: "request_queue \<Rightarrow> _" where
  "q_side q = (drv_view q, elevator q, nr_requests q, nr_congestion_on q)"

lemma q_side_if [simp]: "q_side (if c then x else y) = (if c then q_side x else q_side y)"
  "(if x' = q then q_side (m q) else q_side (m x')) = q_side (m x')"
  by simp_all

lemma q_side_update [simp]:
  "q_side (nr_sorted_update f1 q) = q_side q" "q_side (last_merge_update f2 q) = q_side q"
  "q_side (end_sector_update f3 q) = q_side q" "q_side (boundary_rq_update f4 q) = q_side q"
  "q_side (in_flight_update f5 q) = q_side q" "q_side (nr_pending_update f6 q) = q_side q"
  "q_side (request_fn_active_update f7 q) = q_side q"
  by (simp_all add: q_side_def)

lemma q_sideD:
  assumes "q_side a = q_side b"
  shows "drv_view a = drv_view b" "elevator a = elevator b" "nr_requests a = nr_requests b"
    "nr_congestion_on a = nr_congestion_on b"
  using assms by (simp_all add: q_side_def)

section \<open>The outside\<close>

text \<open>The bios that have been ended, in order, with their errors.\<close>

definition bios_ended :: "kst \<Rightarrow> (bid \<times> errno option) list" where
  "bios_ended s = List.map_filter (\<lambda>e. case e of EvBio b (endio x) \<Rightarrow> Some (b, x) | _ \<Rightarrow> None) (ktrace s)"

text \<open>What a completion tells the outside: the ended bios, and the numbers of the request tracker.\<close>

definition tracked :: "kst \<Rightarrow> u64 \<times> u64 \<times> u64 \<times> u32 \<times> (nat \<Rightarrow> req_stuff)" where
  "tracked s = (sum_of_services s, sum_of_waits s, num_requests_seen s, requests_seen s, stored_reqs s)"

definition told :: "kst \<Rightarrow> _" where
  "told s = (bios_ended s, tracked s)"

lemma told_emit [simp]: "(\<And>b x. e \<noteq> EvBio b (endio x)) \<Longrightarrow> told (emit e s) = told s"
  by (auto simp: told_def tracked_def bios_ended_def map_filter_def split: kevent.splits bio_call.splits)

lemma told_update [simp]:
  "told (rqs_update f1 s) = told s" "told (bios_update f2 s) = told s" "told (queues_update f3 s) = told s"
  "told (rls_update f4 s) = told s" "told (locks_update f5 s) = told s" "told (parts_update f6 s) = told s"
  "told (rq_allocated_update f7 s) = told s" "told (linked_update f8 s) = told s"
  "told (elvqs_update f9 s) = told s" "told (gds_update f10 s) = told s" "told (iocs_update f11 s) = told s"
  "told (heap_next_update f12 s) = told s" "told (cur_plug_update f13 s) = told s"
  "told (plug_cbs_update f14 s) = told s"
  by (simp_all add: told_def tracked_def bios_ended_def)

text \<open>The bios, what has been told, and the requests that exist.\<close>

definition outside :: "kst \<Rightarrow> _" where
  "outside s = (bios s, told s, rq_allocated s)"

lemma outside_emit [simp]: "(\<And>b x. e \<noteq> EvBio b (endio x)) \<Longrightarrow> outside (emit e s) = outside s"
  by (simp add: outside_def)

lemma outside_update [simp]:
  "outside (rqs_update f1 s) = outside s" "outside (queues_update f2 s) = outside s"
  "outside (linked_update f3 s) = outside s" "outside (elvqs_update f4 s) = outside s"
  "outside (gds_update f5 s) = outside s" "outside (locks_update f6 s) = outside s"
  "outside (rls_update f7 s) = outside s" "outside (cur_plug_update f8 s) = outside s"
  "outside (plug_cbs_update f9 s) = outside s"
  by (simp_all add: outside_def)

text \<open>What a release leaves alone.\<close>

definition q_view :: "request_queue \<Rightarrow> _" where
  "q_view q = (drv_view q, elevator q, nr_sorted q, last_merge q, nr_requests q, nr_congestion_on q)"

text \<open>What belongs to the tasks, to the set-up of the schedulers and to the clock.\<close>

definition tasks :: "kst \<Rightarrow> _" where
  "tasks s = (etypes s, cur_plug s, plug_cbs s, alloc_fails s, heap_next s, now_ts s, serv_recording s)"

lemma tasksD:
  assumes "tasks a = tasks b"
  shows "etypes a = etypes b" "cur_plug a = cur_plug b" "plug_cbs a = plug_cbs b" "alloc_fails a = alloc_fails b"
    "heap_next a = heap_next b" "now_ts a = now_ts b" "serv_recording a = serv_recording b"
  using assms by (simp_all add: tasks_def)

lemma tasks_update [simp]:
  "tasks (rqs_update f1 s) = tasks s" "tasks (bios_update f2 s) = tasks s" "tasks (queues_update f3 s) = tasks s"
  "tasks (linked_update f4 s) = tasks s" "tasks (elvqs_update f5 s) = tasks s" "tasks (gds_update f6 s) = tasks s"
  "tasks (locks_update f7 s) = tasks s" "tasks (rls_update f8 s) = tasks s" "tasks (parts_update f9 s) = tasks s"
  "tasks (rq_allocated_update f10 s) = tasks s" "tasks (ktrace_update f11 s) = tasks s"
  by (simp_all add: tasks_def)

definition world :: "kst \<Rightarrow> _" where
  "world s = (rqs s, bios s, linked s, elvqs s, locks s, \<lambda>l. rl_q (rls s l), \<lambda>q. q_view (queues s q), tasks s)"

lemma worldD:
  assumes "world a = world b"
  shows "rqs a = rqs b" "bios a = bios b" "linked a = linked b" "elvqs a = elvqs b" "locks a = locks b"
    "rl_q (rls a l) = rl_q (rls b l)" "drv_view (queues a q) = drv_view (queues b q)"
    "elevator (queues a q) = elevator (queues b q)" "nr_sorted (queues a q) = nr_sorted (queues b q)"
    "last_merge (queues a q) = last_merge (queues b q)" "nr_requests (queues a q) = nr_requests (queues b q)"
    "nr_congestion_on (queues a q) = nr_congestion_on (queues b q)" "tasks a = tasks b"
  using assms by (auto simp: world_def q_view_def fun_eq_iff)

lemma world_emit [simp]:
  "world (emit e s) = world s" "world (parts_update f s) = world s" "world (rq_allocated_update f' s) = world s"
  by (simp_all add: world_def)

lemma world_upd [simp]:
  "(\<And>m x. q_view (f m x) = q_view (m x)) \<Longrightarrow> world (queues_update f s) = world s"
  "(\<And>m x. rl_q (f' m x) = rl_q (m x)) \<Longrightarrow> world (rls_update f' s) = world s"
  by (simp_all add: world_def fun_eq_iff)

lemma q_view_update [simp]:
  "q_view (nr_rqs_update f1 q) = q_view q" "q_view (nr_rqs_elvpriv_update f2 q) = q_view q"
  "q_view (in_flight_update f3 q) = q_view q" "q_view (nr_pending_update f4 q) = q_view q"
  by (simp_all add: q_view_def)

end
