(* ===== verification/Blk_Flush.thy ===== *)
theory Blk_Flush
  imports Elv_Steps Blk_Plug Blk_Views
begin

text \<open>
  Flushing a plug into a queue with the greedy scheduler: every request that a task has collected
  reaches the scheduler.
\<close>

section \<open>One request\<close>

text \<open>A request as \<open>blk_queue_bio\<close> leaves it on a plug: for the queue \<open>q\<close>, with scheduler data.\<close>

definition plugged :: "qid \<Rightarrow> request \<Rightarrow> bool" where
  "plugged q rq \<longleftrightarrow> cmd_type rq = REQ_TYPE_FS \<and> rq_q rq = Some q \<and> REQ_ELVPRIV \<in> cmd_flags rq \<and>
     cmd_flags rq \<inter> {REQ_HASHED, REQ_SOFTBARRIER, REQ_FLUSH, REQ_FUA} = {}"

text \<open>
  The queue is alive and no two of its requests are merged: merging is switched off, or only the
  simple merges are tried and \<open>blk-merge.c\<close> declines to merge two requests.
\<close>

definition no_rq_merge :: "kenv \<Rightarrow> bool" where
  "no_rq_merge E \<longleftrightarrow> (\<forall>q a b s. blk_attempt_req_merge E q a b s = Some (False, s))"

definition plain_queue :: "kenv \<Rightarrow> qid \<Rightarrow> kst \<Rightarrow> bool" where
  "plain_queue E q s \<longleftrightarrow> \<not> blk_queue_dying (queues s q) \<and>
     (blk_queue_nomerges (queues s q) \<or> blk_queue_noxmerges (queues s q) \<and> no_rq_merge E)"

lemma insert_merge_off:
  assumes "plain_queue E q s" and "REQ_ELVPRIV \<in> cmd_flags (rqs s r)"
  shows "raw_elv_add_request E q r ELEVATOR_INSERT_SORT_MERGE s =
    raw_elv_add_request E q r ELEVATOR_INSERT_SORT s"
proof -
  define s1 where "s1 = upd_rq r (rq_q_update (\<lambda>_. Some q))
    (blk_pm_add_request E q r (upd_rq r (start_wait_update (\<lambda>_. now_ts s)) s))"
  define u where "u = snd (elv_insert_where E q r ELEVATOR_INSERT_SORT s1)"
  have w: "elv_insert_where E q r wh s1 = (wh, u)"
    if "wh = ELEVATOR_INSERT_SORT \<or> wh = ELEVATOR_INSERT_SORT_MERGE" for wh
    using that assms(2) by (auto simp: elv_insert_where_def u_def s1_def)
  have "queue_flags (queues u q) = queue_flags (queues s q)"
    by (simp add: u_def s1_def elv_insert_where_def)
  then have "elv_attempt_insert_merge E q r u = Some (False, u)"
    using assms(1)
    by (auto simp: elv_attempt_insert_merge_def plain_queue_def test_qflag_def no_rq_merge_def split: option.split)
  then show ?thesis
    by (simp add: raw_elv_add_request_def s1_def [symmetric] w Let_def)
qed

text \<open>What of the state the insertion of a plugged request leaves alone.\<close>

definition rest_of :: "qid \<Rightarrow> kst \<Rightarrow> _" where
  "rest_of q s = (locks s, \<lambda>x. q_side (queues s x), linked s (QHead q), \<lambda>p. linked s (PlugList p),
     \<lambda>p. linked s (PlugMq p), \<lambda>x. cargo (rqs s x), outside s, rls s, tasks s, \<lambda>e. eq_type (elvqs s e))"

lemma rest_ofD:
  assumes "rest_of q a = rest_of q b"
  shows "locks a = locks b" "q_side (queues a x) = q_side (queues b x)"
    "linked a (QHead q) = linked b (QHead q)" "linked a (PlugList p) = linked b (PlugList p)"
    "linked a (PlugMq p) = linked b (PlugMq p)" "cargo (rqs a r) = cargo (rqs b r)" "outside a = outside b"
    "rls a = rls b" "tasks a = tasks b" "eq_type (elvqs a e) = eq_type (elvqs b e)"
    "drv_view (queues a x) = drv_view (queues b x)"
proof -
  have f: "q_side (queues a x) = q_side (queues b x)" for x using assms by (simp add: rest_of_def fun_eq_iff)
  then show "q_side (queues a x) = q_side (queues b x)" "drv_view (queues a x) = drv_view (queues b x)"
    using f [of x] by (simp_all add: q_side_def)
qed (use assms in \<open>simp_all add: rest_of_def fun_eq_iff\<close>)

lemma rest_of_update [simp]:
  "(\<And>x. q_side (f1 (queues s) x) = q_side (queues s x)) \<Longrightarrow> rest_of q (queues_update f1 s) = rest_of q s"
  "(\<And>x. cargo (f2 (rqs s) x) = cargo (rqs s x)) \<Longrightarrow> rest_of q (rqs_update f2 s) = rest_of q s"
  "(\<And>x. eq_type (f3 (elvqs s) x) = eq_type (elvqs s x)) \<Longrightarrow> rest_of q (elvqs_update f3 s) = rest_of q s"
  "l \<in> {GHigher g, GLower g, LocalList} \<Longrightarrow> rest_of q (linked_update (\<lambda>m. m(l := f4 m)) s) = rest_of q s"
  "(\<And>b x. e \<noteq> EvBio b (endio x)) \<Longrightarrow> rest_of q (emit e s) = rest_of q s"
  by (auto simp: rest_of_def fun_eq_iff)

text \<open>Only requests of \<open>R\<close> are touched; the request that a bio would be merged with first is pending.\<close>

definition touches :: "rid set \<Rightarrow> kst \<Rightarrow> kst \<Rightarrow> bool" where
  "touches R s t \<longleftrightarrow> (\<forall>x. x \<notin> R \<longrightarrow> rqs t x = rqs s x)"

lemma touches_trans: "touches R s t \<Longrightarrow> touches R t u \<Longrightarrow> touches R s u"
  and touches_mono: "touches R s t \<Longrightarrow> R \<subseteq> S \<Longrightarrow> touches S s t"
  by (auto simp: touches_def)

definition last_ok :: "qid \<Rightarrow> gdid \<Rightarrow> kst \<Rightarrow> bool" where
  "last_ok q g s \<longleftrightarrow> (\<forall>r. last_merge (queues s q) = Some r \<longrightarrow> r \<in># greedy_pending g s)"

lemma elv_entry_rest:
  assumes "rq_q (rqs s r) = Some q"
  shows "rest_of q (snd (elv_entry E q r wh s)) = rest_of q s"
    and "linked (snd (elv_entry E q r wh s)) = linked s"
    and "last_merge (queues (snd (elv_entry E q r wh s)) q) = last_merge (queues s q)"
    and "stamps (rqs (snd (elv_entry E q r wh s)) x) =
      (if x = r then (now_ts s, start_service (rqs s r)) else stamps (rqs s x))"
  using assms by (simp_all add: elv_entry_def elv_insert_where_def blk_pm_add_request_def Let_def, simp add: stamps_def)

lemma insert_rest:
  assumes "elv_sorted_ok E q g s" and "queuelist (rqs s r) = None" and "plugged q (rqs s r)"
    and "raw_elv_add_request E q r ELEVATOR_INSERT_SORT s = Some t"
  shows "rest_of q t = rest_of q s" and "linked t LocalList = linked s LocalList"
    and "last_merge (queues t q) \<in> {last_merge (queues s q), Some r}"
    and "stamps (rqs t x) = (if x = r then (now_ts s, start_service (rqs s r)) else stamps (rqs s x))"
proof -
  have fl: "cmd_type (rqs s r) = REQ_TYPE_FS" "REQ_ELVPRIV \<in> cmd_flags (rqs s r)"
    "cmd_flags (rqs s r) \<inter> {REQ_HASHED, REQ_SOFTBARRIER} = {}"
    using assms(3) by (auto simp: plugged_def)
  obtain e u t' where u: "u = snd (elv_entry E q r ELEVATOR_INSERT_SORT s)"
    "raw_elv_add_request E q r ELEVATOR_INSERT_SORT s = Some t'"
    "greedy_add_request q r (sort_marked E q e r u) = Some t'"
    "lists_ok (sort_marked E q e r u)" "greedy_installed E q g (sort_marked E q e r u)"
    "queuelist (rqs (sort_marked E q e r u) r) = None"
    by (rule insert_sort_run [OF assms(1,2) fl])
  have t: "t = t'" using u(2) assms(4) by simp
  have "rest_of q (sort_marked E q e r u) = rest_of q u"
    "last_merge (queues (sort_marked E q e r u) q) \<in> {last_merge (queues u q), Some r}"
    "stamps (rqs (sort_marked E q e r u) x) = stamps (rqs u x)"
    by (simp_all add: sort_marked_def Let_def hash_add_def)
  moreover have "rest_of q t' = rest_of q (sort_marked E q e r u)"
    "queues t' = queues (sort_marked E q e r u)" "linked t' LocalList = linked u LocalList"
    "stamps (rqs t' x) = stamps (rqs (sort_marked E q e r u) x)"
    using u(3) by (auto simp: greedy_add_request_def add_to_higher_def add_to_lower_def list_insert_def
        Option.bind_eq_Some_conv split: if_splits)
  moreover have "rq_q (rqs s r) = Some q" using assms(3) by (simp add: plugged_def)
  note elv_entry_rest [OF this, of E ELEVATOR_INSERT_SORT, folded u(1)]
  ultimately show "rest_of q t = rest_of q s" "linked t LocalList = linked s LocalList"
    "last_merge (queues t q) \<in> {last_merge (queues s q), Some r}"
    "stamps (rqs t x) = (if x = r then (now_ts s, start_service (rqs s r)) else stamps (rqs s x))"
    by (simp_all add: t)
qed

section \<open>The loop\<close>

definition flushing :: "kenv \<Rightarrow> qid \<Rightarrow> gdid \<Rightarrow> kst \<Rightarrow> bool" where
  "flushing E q g s \<longleftrightarrow> elv_sorted_ok E q g s \<and> plain_queue E q s \<and>
     (\<forall>r \<in> set (linked s LocalList). plugged q (rqs s r))"

lemma list_del_init_local:
  assumes ok: "elv_sorted_ok E q g s" and l: "linked s LocalList = r # xs"
  defines "t \<equiv> list_del_init r s"
  shows "elv_sorted_ok E q g t" and "linked t LocalList = xs" and "elv_bag q g t = elv_bag q g s"
    and "queuelist (rqs t r) = None" and "queues t = queues s" and "plugged q (rqs t x) = plugged q (rqs s x)"
    and "rest_of q t = rest_of q s" and "touches {r} s t" and "greedy_pending g t = greedy_pending g s"
proof -
  have lo: "lists_ok s" using ok by (simp add: elv_sorted_ok_def)
  note d = list_del_init_first [OF lo l, folded t_def]
  have "greedy_installed E q g t = greedy_installed E q g s"
    by (rule greedy_installed_cong) (simp_all add: t_def)
  then show "elv_sorted_ok E q g t"
    using ok lists_ok_del_init [OF lo, of r] by (simp add: elv_sorted_ok_def t_def [symmetric] greedy_pending_def d)
  show "linked t LocalList = xs" "elv_bag q g t = elv_bag q g s" "queues t = queues s"
    "queuelist (rqs t r) = None" "plugged q (rqs t x) = plugged q (rqs s x)" "rest_of q t = rest_of q s"
    "touches {r} s t" "greedy_pending g t = greedy_pending g s"
    by (simp_all add: d l elv_bag_def greedy_pending_def plugged_def touches_def)
qed

text \<open>A round with the lock of the queue held.\<close>

lemma flush_round_locked:
  assumes fl: "flushing E q g s" and l: "linked s LocalList = r # xs"
  obtains t where "flush_plug_round E fs (Some q) r s = Some (Some q, t)" and "flushing E q g t"
    and "linked t LocalList = xs" and "elv_bag q g t = add_mset r (elv_bag q g s)"
    and "rest_of q t = rest_of q s" and "touches {r} s t" and "last_ok q g s \<longrightarrow> last_ok q g t"
proof -
  let ?s = "list_del_init r s"
  have ok: "elv_sorted_ok E q g s" and pq: "plain_queue E q s" and pl: "\<forall>x \<in> set (r # xs). plugged q (rqs s x)"
    using fl l by (auto simp: flushing_def)
  note d = list_del_init_local [OF ok l]
  have pr: "plugged q (rqs ?s r)" using pl d(6) by simp
  have pq': "plain_queue E q ?s" using pq by (simp add: plain_queue_def d(5))
  have f: "cmd_type (rqs ?s r) = REQ_TYPE_FS" "REQ_ELVPRIV \<in> cmd_flags (rqs ?s r)"
    "cmd_flags (rqs ?s r) \<inter> {REQ_HASHED, REQ_SOFTBARRIER} = {}" "rq_q (rqs ?s r) = Some q"
    "cmd_flags (rqs ?s r) \<inter> {REQ_FLUSH, REQ_FUA} = {}"
    using pr by (auto simp: plugged_def)
  obtain t where t: "raw_elv_add_request E q r ELEVATOR_INSERT_SORT ?s = Some t" "elv_sorted_ok E q g t"
    "greedy_pending g t = add_mset r (greedy_pending g ?s)" "linked t (QHead q) = linked ?s (QHead q)"
    "\<forall>x. x \<noteq> r \<longrightarrow> rqs t x = rqs ?s x"
    using insert_sort_pending [OF d(1,4) f(1-3)] by blast
  note rest = insert_rest [OF d(1,4) pr t(1)]
  have "\<not> blk_queue_dying (queues ?s q)" using pq' by (simp add: plain_queue_def)
  then have run: "flush_plug_round E fs (Some q) r s = Some (Some q, t)"
    using f(4,5) t(1) insert_merge_off [OF pq' f(2)] by (simp add: flush_plug_round_def)
  have "distinct (r # xs)"
    using lists_okD(1) [of s LocalList] ok l by (simp add: elv_sorted_ok_def)
  then have others: "plugged q (rqs t x)" if "x \<in> set xs" for x
    using t(5) pl d(6) that by (cases "x = r") auto
  have "queue_flags (queues t q) = queue_flags (queues ?s q)"
    using drv_viewD(2) [OF rest_ofD(11) [OF rest(1)]] .
  then have "flushing E q g t"
    using t(2) rest(2) pq' others d(2) by (simp add: flushing_def plain_queue_def test_qflag_def)
  moreover have "elv_bag q g t = add_mset r (elv_bag q g s)"
    using t(3,4) d(3) by (simp add: elv_bag_def)
  moreover have "touches {r} s t" using t(5) d(8) by (simp add: touches_def)
  moreover have "last_ok q g s \<longrightarrow> last_ok q g t"
    using rest(3) d(5,9) t(3) by (auto simp: last_ok_def)
  ultimately show thesis using that [OF run] rest(1,2) d(2,7) by simp
qed

lemma flush_loop_locked:
  assumes "flushing E q g s"
  shows "\<exists>t. flush_plug_loop E fs (Some q) s = Some (Some q, t) \<and> flushing E q g t \<and>
    linked t LocalList = [] \<and> elv_bag q g t = elv_bag q g s + mset (linked s LocalList) \<and>
    rest_of q t = rest_of q s \<and> touches (set (linked s LocalList)) s t \<and> (last_ok q g s \<longrightarrow> last_ok q g t)"
  using assms
proof (induction "linked s LocalList" arbitrary: s)
  case Nil
  then show ?case by (subst flush_plug_loop.simps) (simp add: touches_def)
next
  case (Cons r xs)
  obtain t where t: "flush_plug_round E fs (Some q) r s = Some (Some q, t)" "flushing E q g t"
    "linked t LocalList = xs" "elv_bag q g t = add_mset r (elv_bag q g s)" "rest_of q t = rest_of q s"
    "touches {r} s t" "last_ok q g s \<longrightarrow> last_ok q g t"
    by (rule flush_round_locked [OF Cons.prems Cons.hyps(2) [symmetric], of fs])
  have "flush_plug_loop E fs (Some q) s = flush_plug_loop E fs (Some q) t"
    using t(1) Cons.hyps(2) [symmetric] by (subst flush_plug_loop.simps) simp
  with Cons.hyps(1) [OF t(3) [symmetric] t(2)] t(3-7) Cons.hyps(2) [symmetric] show ?case
    by (auto simp: touches_def)
qed

text \<open>The first round takes the lock.\<close>

lemma list_del_init_locks: "list_del_init r (locks_update f s) = locks_update f (list_del_init r s)"
  by (simp add: list_del_init_def split: option.split)

lemma flush_loop_start:
  assumes "linked s LocalList \<noteq> []" and "\<forall>r \<in> set (linked s LocalList). rq_q (rqs s r) = Some q"
    and "\<not> locks s (queue_lock (queues s q))"
  shows "flush_plug_loop E fs None s =
    flush_plug_loop E fs (Some q) (locks_update (\<lambda>m. m(queue_lock (queues s q) := True)) s)"
proof -
  obtain r xs where l: "linked s LocalList = r # xs" using assms(1) by (cases "linked s LocalList") auto
  let ?d = "list_del_init r s"
  have d: "queues ?d = queues s" "locks ?d = locks s" "rq_q (rqs ?d r) = Some q"
    using assms(2) l by (simp_all add: list_del_init_def split: option.split)
  have "lock_q q ?d = Some (locks_update (\<lambda>m. m(queue_lock (queues s q) := True)) ?d)"
    using assms(3) by (simp add: d)
  then have "flush_plug_round E fs None r s =
      flush_plug_round E fs (Some q) r (locks_update (\<lambda>m. m(queue_lock (queues s q) := True)) s)"
    using d by (simp add: flush_plug_round_def list_del_init_locks Let_def del: spin_lock_eq_Some)
  with l show ?thesis
    by (subst (1 2) flush_plug_loop.simps) simp
qed

section \<open>The whole plug\<close>

lemma flush_callbacks_none: "plug_cbs s p = [] \<Longrightarrow> flush_plug_callbacks E p fs s = Some s"
  by (simp add: flush_plug_callbacks_def run_callbacks.simps)

text \<open>The list of the plug, moved to the local list and sorted.\<close>

definition plug_sorted :: "kenv \<Rightarrow> plugid \<Rightarrow> kst \<Rightarrow> kst" where
  "plug_sorted E p s =
     (let s = list_move_all (PlugList p) LocalList (upd_list LocalList (\<lambda>_. []) s)
      in upd_list LocalList (list_sort E (\<lambda>a b. plug_rq_cmp a b s)) s)"

lemma plug_sorted_ok:
  fixes E :: kenv and p :: plugid
  assumes ok: "elv_sorted_ok E q g s" and e: "linked s LocalList = []"
    and perm: "\<And>f xs. mset (list_sort E f xs) = mset xs"
  defines "t \<equiv> plug_sorted E p s"
  shows "elv_sorted_ok E q g t" and "mset (linked t LocalList) = mset (linked s (PlugList p))"
    and "elv_bag q g t = elv_bag q g s" and "queues t = queues s" and "locks t = locks s"
    and "\<And>r. plugged q (rqs t r) = plugged q (rqs s r)" and "greedy_pending g t = greedy_pending g s"
    and "rest_of q (locks_update f t) = rest_of q (locks_update f (upd_list (PlugList p) (\<lambda>_. []) s))"
    and "touches (set (linked s (PlugList p))) s t"
proof -
  have lo: "lists_ok s" using ok by (simp add: elv_sorted_ok_def)
  show m: "mset (linked t LocalList) = mset (linked s (PlugList p))"
    by (simp add: t_def plug_sorted_def list_move_all_def Let_def perm)
  then have set: "set (linked t LocalList) = set (linked s (PlugList p))"
    and dist: "distinct (linked t LocalList)"
    using lists_okD(1) [OF lo, of "PlugList p"] by (metis set_mset_mset, metis mset_eq_imp_distinct_iff)
  have l: "linked t k = (if k = LocalList then linked t LocalList else if k = PlugList p then [] else linked s k)" for k
    by (simp add: t_def plug_sorted_def list_move_all_def Let_def)
  have ql: "queuelist (rqs t r) = (if r \<in> set (linked s (PlugList p)) then Some LocalList else queuelist (rqs s r))" for r
    by (simp add: t_def plug_sorted_def list_move_all_def Let_def)
  have "lists_ok t"
    unfolding lists_ok_def
  proof (intro conjI allI)
    show "distinct (linked t k)" for k
      using l [of k] dist lists_okD(1) [OF lo, of k] by (auto split: if_splits)
    show "(r \<in> set (linked t k)) = (queuelist (rqs t r) = Some k)" for r k
      using l [of k] set ql [of r] e lists_okD(2) [OF lo, of r LocalList]
        lists_okD(2) [OF lo, of r "PlugList p"] lists_okD(2) [OF lo, of r k]
      by (cases "k = LocalList"; cases "k = PlugList p") auto
  qed
  moreover have "greedy_installed E q g t = greedy_installed E q g s"
    by (rule greedy_installed_cong) (simp_all add: t_def plug_sorted_def list_move_all_def Let_def)
  ultimately show "elv_sorted_ok E q g t"
    using ok l by (simp add: elv_sorted_ok_def greedy_pending_def)
      (simp add: t_def plug_sorted_def list_move_all_def Let_def)
  show "elv_bag q g t = elv_bag q g s" "greedy_pending g t = greedy_pending g s"
    using l by (simp_all add: elv_bag_def greedy_pending_def)
  show "queues t = queues s" "locks t = locks s" "plugged q (rqs t r) = plugged q (rqs s r)"
    "touches (set (linked s (PlugList p))) s t"
    "rest_of q (locks_update f t) = rest_of q (locks_update f (upd_list (PlugList p) (\<lambda>_. []) s))" for r
    by (simp_all add: t_def plug_sorted_def list_move_all_def Let_def plugged_def touches_def)
      (simp add: rest_of_def fun_eq_iff)
qed

text \<open>The state with the requests taken off the plug and the lock taken.\<close>

definition plug_taken :: "qid \<Rightarrow> plugid \<Rightarrow> kst \<Rightarrow> kst" where
  "plug_taken q p s =
     locks_update (\<lambda>m. m(queue_lock (queues s q) := True)) (upd_list (PlugList p) (\<lambda>_. []) s)"

lemma plug_taken_simps [simp]:
  "queues (plug_taken q p s) = queues s" "rqs (plug_taken q p s) = rqs s" "rls (plug_taken q p s) = rls s"
  "outside (plug_taken q p s) = outside s" "tasks (plug_taken q p s) = tasks s" "elvqs (plug_taken q p s) = elvqs s"
  "linked (plug_taken q p s) = (linked s)(PlugList p := [])"
  "locks (plug_taken q p s) = (locks s)(queue_lock (queues s q) := True)"
  by (simp_all add: plug_taken_def)

lemma plug_takenD:
  assumes "rest_of q u = rest_of q (plug_taken q p s)"
  shows "linked u (PlugList p) = []" "locks u (queue_lock (queues u q))" "\<forall>x. cargo (rqs u x) = cargo (rqs s x)"
    "outside u = outside s" "linked u (QHead q) = linked s (QHead q)" "drv_view (queues u x) = drv_view (queues s x)"
    "rls u = rls s" "tasks u = tasks s" "linked u (PlugMq p') = linked s (PlugMq p')"
    "q_side (queues u x) = q_side (queues s x)" "eq_type (elvqs u e) = eq_type (elvqs s e)"
    "locks u = (locks s)(queue_lock (queues s q) := True)"
  using rest_ofD [OF assms] drv_viewD(1) [OF rest_ofD(11) [OF assms, of q]] by simp_all

lemma flush_plug_run:
  assumes ok: "elv_sorted_ok E q g s" and plain: "plain_queue E q s"
    and plug: "linked s (PlugList p) \<noteq> []" "\<forall>r \<in> set (linked s (PlugList p)). plugged q (rqs s r)"
    and none: "plug_cbs s p = []" "linked s (PlugMq p) = []" "linked s LocalList = []"
    and free: "\<not> locks s (queue_lock (queues s q))"
    and perm: "\<And>f xs. mset (list_sort E f xs) = mset xs"
  shows "\<exists>t. blk_flush_plug_list E p fs s = queue_unplugged E q fs t \<and>
    elv_bag q g t = elv_bag q g s + mset (linked s (PlugList p)) \<and> elv_sorted_ok E q g t \<and>
    rest_of q t = rest_of q (plug_taken q p s) \<and> linked t LocalList = [] \<and> plain_queue E q t \<and>
    touches (set (linked s (PlugList p))) s t \<and> (last_ok q g s \<longrightarrow> last_ok q g t)"
proof -
  define u where "u = plug_sorted E p s"
  note U = plug_sorted_ok [OF ok none(3) perm, where p = p, folded u_def]
  have set: "set (linked u LocalList) = set (linked s (PlugList p))"
    using U(2) by (metis set_mset_mset)
  define v where "v = locks_update (\<lambda>m. m(queue_lock (queues u q) := True)) u"
  have lv: "lists_ok v = lists_ok u" by (rule lists_ok_cong) (simp_all add: v_def)
  have gv: "greedy_installed E q g v = greedy_installed E q g u"
    by (rule greedy_installed_cong) (simp_all add: v_def)
  have v: "flushing E q g v" "linked v = linked u" "rqs v = rqs u" "queues v = queues s"
    using U(1,4,6) lv gv plain plug(2) set
    by (auto simp: flushing_def elv_sorted_ok_def plain_queue_def greedy_pending_def v_def)
  have run: "blk_flush_plug_list E p fs s = do {
      (cur, s) \<leftarrow> flush_plug_loop E fs None u;
      (case cur of None \<Rightarrow> Some s | Some q \<Rightarrow> queue_unplugged E q fs s) }"
    using none plug(1) flush_callbacks_none [OF none(1)]
    by (simp add: blk_flush_plug_list_def u_def plug_sorted_def Let_def)
  have "flush_plug_loop E fs None u = flush_plug_loop E fs (Some q) v"
    unfolding v_def
    by (rule flush_loop_start) (use plug set U(4-6) free in \<open>auto simp: plugged_def\<close>)
  moreover from flush_loop_locked [OF v(1), of fs] obtain t where
    t: "flush_plug_loop E fs (Some q) v = Some (Some q, t)" "flushing E q g t" "linked t LocalList = []"
      "elv_bag q g t = elv_bag q g v + mset (linked v LocalList)" "rest_of q t = rest_of q v"
      "touches (set (linked v LocalList)) v t" "last_ok q g v \<longrightarrow> last_ok q g t" by blast
  ultimately have "blk_flush_plug_list E p fs s = queue_unplugged E q fs t" using run by simp
  moreover have "elv_bag q g v = elv_bag q g s" "last_ok q g v = last_ok q g s"
    using U(3,7) v(2,4) by (simp_all add: elv_bag_def last_ok_def greedy_pending_def)
  moreover have "rest_of q v = rest_of q (plug_taken q p s)"
    using U(8) by (simp add: v_def u_def [symmetric] U(4) plug_taken_def)
  moreover have "touches (set (linked s (PlugList p))) s t"
    using t(6) U(9) set v(2,3) by (simp add: touches_def)
  ultimately show ?thesis using t(2-5,7) U(2) v(2) by (auto simp: flushing_def)
qed

text \<open>
  Flushing a plug loses no request. If a plug holds file-system requests for one queue, with the
  greedy scheduler and merging switched off, flushing it returns as soon as running the queue does:
  the plug is empty, exactly its requests have been added to those of the queue, each once, the lists
  and the count \<open>nr_sorted\<close> are consistent, and the queue is run with its lock held.
\<close>

theorem flush_plug_complete:
  assumes ok: "elv_sorted_ok E q g s" and plain: "plain_queue E q s"
    and plug: "linked s (PlugList p) \<noteq> []" "\<forall>r \<in> set (linked s (PlugList p)). plugged q (rqs s r)"
    and none: "plug_cbs s p = []" "linked s (PlugMq p) = []" "linked s LocalList = []"
    and free: "\<not> locks s (queue_lock (queues s q))"
    and perm: "\<And>f xs. mset (list_sort E f xs) = mset xs"
  shows "\<exists>t. blk_flush_plug_list E p fs s = queue_unplugged E q fs t \<and> linked t (PlugList p) = [] \<and>
    elv_bag q g t = elv_bag q g s + mset (linked s (PlugList p)) \<and> elv_sorted_ok E q g t \<and>
    locks t (queue_lock (queues t q))"
proof -
  from flush_plug_run [OF assms] obtain t where
    t: "blk_flush_plug_list E p fs s = queue_unplugged E q fs t" "elv_sorted_ok E q g t"
      "elv_bag q g t = elv_bag q g s + mset (linked s (PlugList p))" "rest_of q t = rest_of q (plug_taken q p s)"
    by blast
  show ?thesis using t(1-3) plug_takenD(1,2) [OF t(4)] by (intro exI [of _ t]) simp
qed

section \<open>An instance\<close>

text \<open>The queue of \<open>greedy_busy\<close> with merging off, and request 3 on a plug.\<close>

definition plug_busy :: kst where
  "plug_busy = greedy_both
     \<lparr>queues := (\<lambda>_. queue_zero\<lparr>elevator := Some 7, nr_sorted := 2, queue_flags := 256\<rparr>),
      linked := (linked greedy_both)(PlugList 0 := [3]),
      rqs := (rqs greedy_both)(3 := rq_zero\<lparr>rq_sector := 12, cmd_type := REQ_TYPE_FS,
        cmd_flags := {REQ_ELVPRIV}, rq_q := Some 0, queuelist := Some (PlugList 0)\<rparr>)\<rparr>"

lemma insert_after_mset: "mset (insert_after gt x xs) = add_mset x (mset xs)"
  by (induction xs) auto

lemma greedy_env_sort: "mset (list_sort greedy_env f xs) = mset xs"
proof -
  have "mset (foldr (insert_after f) xs []) = mset xs"
    by (induction xs) (simp_all add: insert_after_mset)
  then show ?thesis by (simp add: greedy_env_def env_zero_def)
qed

lemma plug_busy_ok: "elv_sorted_ok greedy_env 0 8 plug_busy"
proof -
  have "lists_ok plug_busy"
    by (auto simp: lists_ok_def plug_busy_def greedy_both_def greedy_two_def kst_zero_def rq_zero_def)
  then show ?thesis
    by (simp add: elv_sorted_ok_def greedy_installed_def elevator_greedy_env plug_busy_def
        queue_zero_def greedy_both_def greedy_two_def eq_zero_def greedy_pending_def)
qed

theorem flush_plug_complete_witness:
  "\<exists>t. blk_flush_plug_list greedy_env 0 True plug_busy = queue_unplugged greedy_env 0 True t \<and>
    elv_bag 0 8 t = {#1, 2, 3#} \<and> linked t (PlugList 0) = []"
proof -
  have h: "plain_queue greedy_env 0 plug_busy" "linked plug_busy (PlugList 0) \<noteq> []"
    "\<forall>r \<in> set (linked plug_busy (PlugList 0)). plugged 0 (rqs plug_busy r)"
    "plug_cbs plug_busy 0 = []" "linked plug_busy (PlugMq 0) = []" "linked plug_busy LocalList = []"
    "\<not> locks plug_busy (queue_lock (queues plug_busy 0))"
    by (simp_all add: plain_queue_def test_qflag_def plug_busy_def queue_zero_def plugged_def
        greedy_both_def greedy_two_def kst_zero_def rq_zero_def bit_numeral_rec)
  have "elv_bag 0 8 plug_busy + mset (linked plug_busy (PlugList 0)) = {#1, 2, 3#}"
    by (simp add: elv_bag_def greedy_pending_def plug_busy_def greedy_both_def add_mset_commute)
  with flush_plug_complete [OF plug_busy_ok h greedy_env_sort, of True] show ?thesis by auto
qed

end
