(* ===== verification/Blk_Get.thy ===== *)
theory Blk_Get
  imports Blk_Alloc Elv_Greedy Blk_Views
begin

text \<open>
  Allocating and freeing requests: the lock and the counters. \<open>__get_request\<close> returns with the
  queue lock released exactly if it returns a request, a failure leaves every counter as it was,
  and \<open>__blk_put_request\<close> undoes what a successful call did.
\<close>

section \<open>What the helpers leave alone\<close>

lemma blk_congested_frame [simp]:
  "rls (blk_set_congested E l b s) = rls s" "queues (blk_set_congested E l b s) = queues s"
  "locks (blk_set_congested E l b s) = locks s" "rq_allocated (blk_set_congested E l b s) = rq_allocated s"
  "elvqs (blk_set_congested E l b s) = elvqs s" "etypes (blk_set_congested E l b s) = etypes s"
  "heap_next (blk_set_congested E l b s) = heap_next s" "rqs (blk_set_congested E l b s) = rqs s"
  "alloc_fails (blk_set_congested E l b s) = alloc_fails s"
  "rls (blk_clear_congested E l b s) = rls s" "queues (blk_clear_congested E l b s) = queues s"
  "locks (blk_clear_congested E l b s) = locks s" "rq_allocated (blk_clear_congested E l b s) = rq_allocated s"
  "elvqs (blk_clear_congested E l b s) = elvqs s" "etypes (blk_clear_congested E l b s) = etypes s"
  "heap_next (blk_clear_congested E l b s) = heap_next s" "rqs (blk_clear_congested E l b s) = rqs s"
  "alloc_fails (blk_clear_congested E l b s) = alloc_fails s"
  by (simp_all add: blk_set_congested_def blk_clear_congested_def)

lemma ioc_set_batching_frame [simp]:
  "rls (ioc_set_batching E q i s) = rls s" "queues (ioc_set_batching E q i s) = queues s"
  "locks (ioc_set_batching E q i s) = locks s" "rq_allocated (ioc_set_batching E q i s) = rq_allocated s"
  "elvqs (ioc_set_batching E q i s) = elvqs s" "etypes (ioc_set_batching E q i s) = etypes s"
  "heap_next (ioc_set_batching E q i s) = heap_next s" "rqs (ioc_set_batching E q i s) = rqs s"
  "alloc_fails (ioc_set_batching E q i s) = alloc_fails s"
  by (simp_all add: ioc_set_batching_def split: option.split)

lemma blk_rl_full_frame [simp]:
  "count (rls (blk_set_rl_full l b s) l') = count (rls s l')"
  "starved (rls (blk_set_rl_full l b s) l') = starved (rls s l')"
  "rl_q (rls (blk_set_rl_full l b s) l') = rl_q (rls s l')"
  "queues (blk_set_rl_full l b s) = queues s" "locks (blk_set_rl_full l b s) = locks s"
  "rq_allocated (blk_set_rl_full l b s) = rq_allocated s" "elvqs (blk_set_rl_full l b s) = elvqs s"
  "etypes (blk_set_rl_full l b s) = etypes s" "heap_next (blk_set_rl_full l b s) = heap_next s"
  "rqs (blk_set_rl_full l b s) = rqs s" "alloc_fails (blk_set_rl_full l b s) = alloc_fails s"
  "count (rls (blk_clear_rl_full l b s) l') = count (rls s l')"
  "starved (rls (blk_clear_rl_full l b s) l') = starved (rls s l')"
  "rl_q (rls (blk_clear_rl_full l b s) l') = rl_q (rls s l')"
  "queues (blk_clear_rl_full l b s) = queues s" "locks (blk_clear_rl_full l b s) = locks s"
  "rq_allocated (blk_clear_rl_full l b s) = rq_allocated s" "elvqs (blk_clear_rl_full l b s) = elvqs s"
  "etypes (blk_clear_rl_full l b s) = etypes s" "heap_next (blk_clear_rl_full l b s) = heap_next s"
  "rqs (blk_clear_rl_full l b s) = rqs s" "alloc_fails (blk_clear_rl_full l b s) = alloc_fails s"
  by (simp_all add: blk_set_rl_full_def blk_clear_rl_full_def)

lemma raw_freed_request_frame [simp]:
  "count (rls (raw_freed_request E l b s) l') = count (rls s l')"
  "starved (rls (raw_freed_request E l b s) l') = starved (rls s l')"
  "rl_q (rls (raw_freed_request E l b s) l') = rl_q (rls s l')"
  "queues (raw_freed_request E l b s) = queues s" "locks (raw_freed_request E l b s) = locks s"
  "rq_allocated (raw_freed_request E l b s) = rq_allocated s"
  "elvqs (raw_freed_request E l b s) = elvqs s" "rqs (raw_freed_request E l b s) = rqs s"
  by (simp_all add: raw_freed_request_def Let_def)

text \<open>The counters of a request list and its queue, and the requests that exist.\<close>

definition rl_counters ::
  "rlid \<Rightarrow> kst \<Rightarrow> (bool \<Rightarrow> int) \<times> (bool \<Rightarrow> int) \<times> int \<times> rid set" where
  "rl_counters l s = (count (rls s l), nr_rqs (queues s (rl_q (rls s l))),
     nr_rqs_elvpriv (queues s (rl_q (rls s l))), rq_allocated s)"

lemma freed_request_counters:
  "rl_counters l (freed_request E l flags s) =
     ((count (rls s l))(rw_is_sync flags := count (rls s l) (rw_is_sync flags) - 1),
      (nr_rqs (queues s (rl_q (rls s l))))
        (rw_is_sync flags := nr_rqs (queues s (rl_q (rls s l))) (rw_is_sync flags) - 1),
      nr_rqs_elvpriv (queues s (rl_q (rls s l))) - (if REQ_ELVPRIV \<in> flags then 1 else 0),
      rq_allocated s)"
  by (simp add: rl_counters_def freed_request_def Let_def)

lemma freed_request_frame [simp]:
  "locks (freed_request E l flags s) = locks s"
  "queue_lock (queues (freed_request E l flags s) q) = queue_lock (queues s q)"
  "elevator (queues (freed_request E l flags s) q) = elevator (queues s q)"
  "mq_ops (queues (freed_request E l flags s) q) = mq_ops (queues s q)"
  "elvqs (freed_request E l flags s) = elvqs s"
  "rl_q (rls (freed_request E l flags s) l') = rl_q (rls s l')"
  by (simp_all add: freed_request_def Let_def)

lemma get_request_admit_frame:
  assumes "get_request_admit E l q b i m s = Some t"
  shows "count (rls t l') = count (rls s l')" "rl_q (rls t l') = rl_q (rls s l')"
    "queues t = queues s" "locks t = locks s" "rq_allocated t = rq_allocated s"
    "elvqs t = elvqs s" "etypes t = etypes s" "heap_next t = heap_next s" "rqs t = rqs s"
    "alloc_fails t = alloc_fails s"
  using assms by (auto simp: get_request_admit_def Option.bind_eq_Some_conv split: if_splits)

text \<open>No scheduler data besides the flag: the greedy scheduler has no \<open>io_cq\<close> cache.\<close>

definition greedy_no_icq :: "kenv \<Rightarrow> qid \<Rightarrow> gdid \<Rightarrow> kst \<Rightarrow> bool" where
  "greedy_no_icq E q g s \<longleftrightarrow> greedy_installed E q g s \<and>
     (\<forall>e. elevator (queues s q) = Some e \<longrightarrow> \<not> icq_cache (etypes s (eq_type (elvqs s e))))"

lemma get_request_elvpriv_greedy:
  assumes "greedy_installed E q g s" and "\<not> icq_cache (etypes s et)"
  shows "get_request_elvpriv E q et ioc None r b gf s = Some (upd_rq r (elv_icq_update (\<lambda>_. None)) s)"
proof -
  let ?s = "upd_rq r (elv_icq_update (\<lambda>_. None)) s"
  have "greedy_installed E q g ?s = greedy_installed E q g s"
    by (rule greedy_installed_cong) simp_all
  then have "greedy_installed E q g ?s" using assms(1) by simp
  note greedy_installed_ops(1) [OF this]
  then have "elv_set_request E q r b gf ?s = Some (False, ?s)"
    by (simp add: elv_set_request_def elevator_greedy_def)
  then show ?thesis using assms(2) by (simp add: get_request_elvpriv_def Let_def)
qed

section \<open>Allocation\<close>

text \<open>What a call of \<open>__get_request\<close> does to the counters and to the lock, by its result.\<close>

definition get_outcome ::
  "rlid \<Rightarrow> qid \<Rightarrow> rq_flags \<Rightarrow> kst \<Rightarrow> errno + rid \<Rightarrow> kst \<Rightarrow> bool" where
  "get_outcome l q fl s res t \<longleftrightarrow>
     queue_lock (queues t q) = queue_lock (queues s q) \<and> elvqs t = elvqs s \<and>
     elevator (queues t q) = elevator (queues s q) \<and> mq_ops (queues t q) = mq_ops (queues s q) \<and>
     rl_q (rls t l) = rl_q (rls s l) \<and>
     (case res of
        Inl err \<Rightarrow> locks t = locks s \<and> rl_counters l t = rl_counters l s
      | Inr r \<Rightarrow>
          locks t = (locks s)(queue_lock (queues s q) := False) \<and>
          \<not> blk_queue_dying (queues s q) \<and>
          of_c_int (count (rls s l) (rw_is_sync fl)) < 3 * nr_requests (queues s q) div 2 \<and>
          r = heap_next s \<and> rq_allocated t = insert r (rq_allocated s) \<and>
          count (rls t l) = (count (rls s l))(rw_is_sync fl := count (rls s l) (rw_is_sync fl) + 1) \<and>
          nr_rqs (queues t q) = (nr_rqs (queues s q))
            (rw_is_sync fl := nr_rqs (queues s q) (rw_is_sync fl) + 1) \<and>
          nr_rqs_elvpriv (queues t q) = nr_rqs_elvpriv (queues s q) +
            (if REQ_ELVPRIV \<in> cmd_flags (rqs t r) then 1 else 0) \<and>
          rq_rl (rqs t r) = Some l \<and> rq_q (rqs t r) = Some q \<and> queuelist (rqs t r) = None \<and>
          hash_node (rqs t r) = None \<and> REQ_ALLOCED \<in> cmd_flags (rqs t r) \<and>
          cmd_flags (rqs t r) \<subseteq> fl \<union> {REQ_ALLOCED, REQ_ELVPRIV, REQ_IO_STAT} \<and>
          rw_is_sync (cmd_flags (rqs t r)) = rw_is_sync fl)"

text \<open>The path after admission: the counters go up, the lock is released, and memory is asked for.\<close>

definition get_counted :: "rlid \<Rightarrow> qid \<Rightarrow> bool \<Rightarrow> kst \<Rightarrow> kst" where
  "get_counted l q b s =
     upd_rl l (starved_update (\<lambda>f. f(b := False)))
       (upd_rl l (count_update (\<lambda>f. f(b := f b + 1)))
         (upd_q q (nr_rqs_update (\<lambda>f. f(b := f b + 1))) s))"

definition get_tail :: "kenv \<Rightarrow> rlid \<Rightarrow> qid \<Rightarrow> etid \<Rightarrow> iocid option \<Rightarrow> bool \<Rightarrow> rq_flags \<Rightarrow>
    bid option \<Rightarrow> bool \<Rightarrow> kst \<Rightarrow> ((errno + rid) \<times> kst) option" where
  "get_tail E l q et ioc is_sync fl b gf s = do {
     s \<leftarrow> unlock_q q s;
     (case mempool_alloc s of
        (None, s) \<Rightarrow> do {
          s \<leftarrow> lock_q q s;
          let s = freed_request E l fl s;
          Some (Inl ENOMEM, rq_starved l is_sync s)
        }
      | (Some r, s) \<Rightarrow> do {
          let s = blk_rq_init q r s;
          let s = upd_rq r (rq_rl_update (\<lambda>_. Some l)) s;
          let s = upd_rq r (cmd_flags_update (\<lambda>_. insert REQ_ALLOCED fl)) s;
          s \<leftarrow> (if REQ_ELVPRIV \<in> fl then get_request_elvpriv E q et ioc None r b gf s else Some s);
          Some (Inr r,
            (case ioc of
               None \<Rightarrow> s
             | Some i \<Rightarrow>
                 if ioc_batching E q ioc s
                 then upd_ioc i (nr_batch_requests_update (\<lambda>n. n - 1)) s else s))
        })
   }"

lemma rq_starved_frame [simp]:
  "locks (rq_starved l b s) = locks s" "queues (rq_starved l b s) = queues s"
  "elvqs (rq_starved l b s) = elvqs s" "rl_q (rls (rq_starved l b s) l') = rl_q (rls s l')"
  "rl_counters l' (rq_starved l b s) = rl_counters l' s"
  by (simp_all add: rq_starved_def rl_counters_def)

text \<open>What the path leaves alone.\<close>

definition kept :: "kst \<Rightarrow> _" where
  "kept s = (linked s, bios s, gds s, elvqs s, etypes s, plug_cbs s, cur_plug s, alloc_fails s, told s)"

text \<open>A request as \<open>blk_rq_init\<close> makes it.\<close>

definition fresh_rq :: "qid \<Rightarrow> rlid \<Rightarrow> request \<Rightarrow> bool" where
  "fresh_rq q l rq \<longleftrightarrow> rq_q rq = Some q \<and> rq_rl rq = Some l \<and> next_rq rq = None \<and> end_io rq = None \<and>
     \<not> atom_complete rq"

text \<open>Memory is there.\<close>

lemma get_tail_go:
  assumes gi: "greedy_installed E q g s" and et: "\<not> icq_cache (etypes s et)"
    and lk: "locks s (queue_lock (queues s q))" and al: "\<not> alloc_fails s (heap_next s)"
  defines "r \<equiv> heap_next s"
  shows "\<exists>t. get_tail E l q et ioc is_sync fl b gf s = Some (Inr r, t) \<and> kept t = kept s \<and>
    queues t = queues s \<and> rls t = rls s \<and> locks t = (locks s)(queue_lock (queues s q) := False) \<and>
    heap_next t = Suc (heap_next s) \<and> (\<forall>x. x \<noteq> r \<longrightarrow> rqs t x = rqs s x) \<and>
    cmd_flags (rqs t r) = insert REQ_ALLOCED fl \<and> queuelist (rqs t r) = None \<and> rq_q (rqs t r) = Some q \<and>
    rq_rl (rqs t r) = Some l \<and> hash_node (rqs t r) = None \<and> rq_allocated t = insert r (rq_allocated s) \<and>
    fresh_rq q l (rqs t r)"
proof -
  define u where "u = locks_update (\<lambda>m. m(queue_lock (queues s q) := False)) s"
  have u: "unlock_q q s = Some u" using lk by (simp add: u_def)
  define v where "v = upd_rq r (cmd_flags_update (\<lambda>_. insert REQ_ALLOCED fl))
    (upd_rq r (rq_rl_update (\<lambda>_. Some l)) (blk_rq_init q r
      (rq_allocated_update (insert r) (heap_next_update Suc u))))"
  have v: "kept v = kept s" "queues v = queues s" "rls v = rls s"
    "locks v = (locks s)(queue_lock (queues s q) := False)" "heap_next v = Suc (heap_next s)"
    "\<And>x. x \<noteq> r \<Longrightarrow> rqs v x = rqs s x" "cmd_flags (rqs v r) = insert REQ_ALLOCED fl"
    "queuelist (rqs v r) = None" "rq_q (rqs v r) = Some q" "etypes v = etypes s" "gds v = gds s"
    "elvqs v = elvqs s" "linked v = linked s" "rq_rl (rqs v r) = Some l" "hash_node (rqs v r) = None"
    "rq_allocated v = insert r (rq_allocated s)" "told v = told s" "fresh_rq q l (rqs v r)"
    by (simp_all add: v_def u_def blk_rq_init_def kept_def fresh_rq_def rq_zero_def)
  have "greedy_installed E q g v = greedy_installed E q g s"
    by (rule greedy_installed_cong) (simp_all add: v)
  then have gv: "greedy_installed E q g v" using gi by simp
  have w: "get_request_elvpriv E q et ioc None r b gf v = Some (upd_rq r (elv_icq_update (\<lambda>_. None)) v)"
    using get_request_elvpriv_greedy [OF gv, of et ioc r b gf] et v by simp
  have m: "mempool_alloc u = (Some r, rq_allocated_update (insert r) (heap_next_update Suc u))"
    using al by (simp add: mempool_alloc_def u_def r_def)
  have run: "get_tail E l q et ioc is_sync fl b gf s = Some (Inr r,
      (let s = (if REQ_ELVPRIV \<in> fl then upd_rq r (elv_icq_update (\<lambda>_. None)) v else v)
       in case ioc of None \<Rightarrow> s
          | Some i \<Rightarrow> if ioc_batching E q ioc s
               then upd_ioc i (nr_batch_requests_update (\<lambda>n. n - 1)) s else s))"
    by (simp add: get_tail_def u m v_def [symmetric] Let_def w
        del: spin_lock_eq_Some spin_unlock_eq_Some)
  show ?thesis
    unfolding run using v
    by (auto simp: Let_def kept_def fresh_rq_def split: option.split)
qed

lemma get_tail_outcome:
  assumes gi: "greedy_installed E q g s" and et: "\<not> icq_cache (etypes s et)"
    and q: "rl_q (rls s l) = q" and lk: "locks s (queue_lock (queues s q))"
  shows "\<exists>res t. get_tail E l q et ioc is_sync fl b gf s = Some (res, t) \<and>
    queue_lock (queues t q) = queue_lock (queues s q) \<and> elvqs t = elvqs s \<and>
    elevator (queues t q) = elevator (queues s q) \<and> mq_ops (queues t q) = mq_ops (queues s q) \<and>
    rl_q (rls t l) = rl_q (rls s l) \<and>
    (case res of
       Inl err \<Rightarrow> locks t = locks s \<and> rl_counters l t = rl_counters l (freed_request E l fl s)
     | Inr r \<Rightarrow> locks t = (locks s)(queue_lock (queues s q) := False) \<and> r = heap_next s \<and>
         rl_counters l t = (count (rls s l), nr_rqs (queues s q), nr_rqs_elvpriv (queues s q),
           insert r (rq_allocated s)) \<and>
         rls t = rls s \<and> cmd_flags (rqs t r) = insert REQ_ALLOCED fl \<and>
         rq_rl (rqs t r) = Some l \<and> rq_q (rqs t r) = Some q \<and> queuelist (rqs t r) = None \<and>
         hash_node (rqs t r) = None)"
proof -
  define u where "u = locks_update (\<lambda>m. m(queue_lock (queues s q) := False)) s"
  have u: "unlock_q q s = Some u" using lk by (simp add: u_def)
  show ?thesis
  proof (cases "alloc_fails s (heap_next s)")
    case True
    define v where "v = locks_update (\<lambda>m. m(queue_lock (queues s q) := True)) (heap_next_update Suc u)"
    have "v = heap_next_update Suc s"
      using lk by (cases s) (auto simp: v_def u_def fun_upd_idem_iff)
    then have v: "v = heap_next_update Suc s" .
    have lockv: "spin_lock (queue_lock (queues u q)) (heap_next_update Suc u) = Some v" by (simp add: v_def u_def)
    have m: "mempool_alloc u = (None, heap_next_update Suc u)"
      using True by (simp add: mempool_alloc_def u_def)
    have run: "get_tail E l q et ioc is_sync fl b gf s =
        Some (Inl ENOMEM, rq_starved l is_sync (freed_request E l fl v))"
      by (simp add: get_tail_def u m lockv Let_def del: spin_lock_eq_Some spin_unlock_eq_Some)
    have "rl_counters l (freed_request E l fl (heap_next_update Suc s)) =
        rl_counters l (freed_request E l fl s)"
      by (simp add: freed_request_counters)
    then show ?thesis unfolding run v by simp
  next
    case False
    from get_tail_go [where b = b, OF gi et lk False, of l ioc is_sync fl gf] q show ?thesis
      by (auto simp: kept_def rl_counters_def)
  qed
qed

lemma raw_get_request_cases:
  assumes gi: "greedy_no_icq E q g s" and q: "rl_q (rls s l) = q"
    and e: "elevator (queues s q) = Some e"
  shows "raw_get_request E l fl b gf s =
    (if blk_queue_dying (queues s q) then Some (Inl ENODEV, s)
     else case get_request_admit E l q (rw_is_sync fl) (rq_ioc E b s) ELV_MQUEUE_MAY s of
       None \<Rightarrow> Some (Inl ENOMEM, s)
     | Some a \<Rightarrow>
         if of_c_int (count (rls s l) (rw_is_sync fl)) \<ge> 3 * nr_requests (queues s q) div 2
         then Some (Inl ENOMEM, a)
         else let c = get_counted l q (rw_is_sync fl) a;
                  priv = blk_rq_should_init_elevator b c \<and> \<not> blk_queue_bypass (queues s q);
                  d = (if priv then upd_q q (nr_rqs_elvpriv_update (\<lambda>n. n + 1)) c else c);
                  fl1 = (if priv then insert REQ_ELVPRIV fl else fl);
                  fl2 = (if blk_queue_io_stat (queues s q) then insert REQ_IO_STAT fl1 else fl1)
              in get_tail E l q (eq_type (elvqs s e)) (rq_ioc E b s)
                   (rw_is_sync fl) fl2 b gf d)"
proof -
  have gi': "greedy_installed E q g s" and ni: "\<not> icq_cache (etypes s (eq_type (elvqs s e)))"
    using gi e by (auto simp: greedy_no_icq_def)
  have may: "elv_may_queue E q fl s = Some ELV_MQUEUE_MAY"
    using greedy_installed_ops(1) [OF gi'] by (simp add: elv_may_queue_def elevator_greedy_def)
  show ?thesis
  proof (cases "get_request_admit E l q (rw_is_sync fl) (rq_ioc E b s) ELV_MQUEUE_MAY s")
    case None
    then show ?thesis
      using e may by (simp add: raw_get_request_def q Let_def)
  next
    case (Some a)
    note fr = get_request_admit_frame [OF Some]
    let ?c = "get_counted l q (rw_is_sync fl) a"
    have c: "test_qflag f (queues ?c q) = test_qflag f (queues s q)" "etypes ?c = etypes s" for f
      using fr by (simp_all add: get_counted_def test_qflag_def)
    have d: "test_qflag f (nr_rqs_elvpriv_update (\<lambda>n. n + 1) (queues ?c q)) =
        test_qflag f (queues s q)" for f
      using c(1) [of f] by (simp add: test_qflag_def)
    show ?thesis
      unfolding raw_get_request_def Let_def q get_counted_def [symmetric] get_tail_def
      using e ni may Some fr
      by (cases "blk_rq_should_init_elevator b ?c \<and> \<not> blk_queue_bypass (queues s q)")
        (auto simp: c d Let_def simp del: spin_lock_eq_Some spin_unlock_eq_Some)
  qed
qed

lemma get_request_all_or_nothing_aux:
  assumes gi: "greedy_no_icq E q g s" and q: "rl_q (rls s l) = q"
    and lk: "locks s (queue_lock (queues s q))" and fl: "REQ_ELVPRIV \<notin> fl"
  shows "\<exists>res t. raw_get_request E l fl b gf s = Some (res, t) \<and> get_outcome l q fl s res t"
proof -
  obtain e where e: "elevator (queues s q) = Some e"
    using gi by (auto simp: greedy_no_icq_def greedy_installed_def)
  consider (dying) "blk_queue_dying (queues s q)"
    | (full) "\<not> blk_queue_dying (queues s q)"
        "get_request_admit E l q (rw_is_sync fl) (rq_ioc E b s) ELV_MQUEUE_MAY s = None"
    | (limit) a where "\<not> blk_queue_dying (queues s q)"
        "get_request_admit E l q (rw_is_sync fl) (rq_ioc E b s) ELV_MQUEUE_MAY s = Some a"
        "of_c_int (count (rls s l) (rw_is_sync fl)) \<ge> 3 * nr_requests (queues s q) div 2"
    | (go) a where "\<not> blk_queue_dying (queues s q)"
        "get_request_admit E l q (rw_is_sync fl) (rq_ioc E b s) ELV_MQUEUE_MAY s = Some a"
        "\<not> of_c_int (count (rls s l) (rw_is_sync fl)) \<ge> 3 * nr_requests (queues s q) div 2"
    by (cases "get_request_admit E l q (rw_is_sync fl) (rq_ioc E b s) ELV_MQUEUE_MAY s") auto
  then show ?thesis
  proof cases
    case dying
    then show ?thesis by (simp add: raw_get_request_cases [OF gi q e] get_outcome_def)
  next
    case full
    then show ?thesis by (simp add: raw_get_request_cases [OF gi q e] get_outcome_def)
  next
    case limit
    then show ?thesis
      using get_request_admit_frame [OF limit(2)] q
      by (simp add: raw_get_request_cases [OF gi q e] get_outcome_def rl_counters_def)
  next
    case go
    note fr = get_request_admit_frame [OF go(2)]
    define i where "i = rw_is_sync fl"
    define c where "c = get_counted l q i a"
    define priv where "priv \<longleftrightarrow> blk_rq_should_init_elevator b c \<and> \<not> blk_queue_bypass (queues s q)"
    define d where "d = (if priv then upd_q q (nr_rqs_elvpriv_update (\<lambda>n. n + 1)) c else c)"
    define fl1 where "fl1 = (if priv then insert REQ_ELVPRIV fl else fl)"
    define fl2 where "fl2 = (if blk_queue_io_stat (queues s q) then insert REQ_IO_STAT fl1 else fl1)"
    have priv: "REQ_ELVPRIV \<in> fl2 \<longleftrightarrow> priv" "rw_is_sync fl2 = i"
      using fl by (auto simp: fl2_def fl1_def i_def rw_is_sync_def)
    have d: "rl_q (rls d l) = q" "queue_lock (queues d q) = queue_lock (queues s q)"
      "locks d = locks s" "rq_allocated d = rq_allocated s" "heap_next d = heap_next s"
      "count (rls d l) = (count (rls s l))(i := count (rls s l) i + 1)"
      "nr_rqs (queues d q) = (nr_rqs (queues s q))(i := nr_rqs (queues s q) i + 1)"
      "nr_rqs_elvpriv (queues d q) = nr_rqs_elvpriv (queues s q) + (if priv then 1 else 0)"
      "elvqs d = elvqs s" "etypes d = etypes s" "elevator (queues d q) = elevator (queues s q)"
      "mq_ops (queues d q) = mq_ops (queues s q)"
      using fr q by (simp_all add: d_def c_def get_counted_def)
    let ?et = "eq_type (elvqs s e)"
    have "greedy_installed E q g d = greedy_installed E q g s"
      by (rule greedy_installed_cong) (simp_all add: d)
    then have gd: "greedy_installed E q g d" using gi by (simp add: greedy_no_icq_def)
    have et: "\<not> icq_cache (etypes d ?et)"
      using gi e by (auto simp: d greedy_no_icq_def)
    have run: "raw_get_request E l fl b gf s = get_tail E l q ?et (rq_ioc E b s) i fl2 b gf d"
      using go by (simp add: raw_get_request_cases [OF gi q e] Let_def i_def c_def priv_def d_def fl1_def fl2_def)
    have "locks d (queue_lock (queues d q))" using lk d by simp
    from get_tail_outcome [OF gd et d(1) this, of "rq_ioc E b s" i fl2 b gf] obtain res t where
      t: "get_tail E l q ?et (rq_ioc E b s) i fl2 b gf d = Some (res, t)"
        "queue_lock (queues t q) = queue_lock (queues d q)" "elvqs t = elvqs d"
        "elevator (queues t q) = elevator (queues d q)" "mq_ops (queues t q) = mq_ops (queues d q)"
        "rl_q (rls t l) = rl_q (rls d l)"
        "case res of
           Inl err \<Rightarrow> locks t = locks d \<and> rl_counters l t = rl_counters l (freed_request E l fl2 d)
         | Inr r \<Rightarrow> locks t = (locks d)(queue_lock (queues d q) := False) \<and> r = heap_next d \<and>
             rl_counters l t = (count (rls d l), nr_rqs (queues d q), nr_rqs_elvpriv (queues d q),
               insert r (rq_allocated d)) \<and>
             rls t = rls d \<and> cmd_flags (rqs t r) = insert REQ_ALLOCED fl2 \<and>
             rq_rl (rqs t r) = Some l \<and> rq_q (rqs t r) = Some q \<and> queuelist (rqs t r) = None \<and>
             hash_node (rqs t r) = None"
      by blast
    show ?thesis
    proof (cases res)
      case (Inl err)
      have "rl_counters l t = rl_counters l (freed_request E l fl2 d)" using t(7) Inl by simp
      also have "\<dots> = rl_counters l s"
        unfolding freed_request_counters by (simp add: d priv rl_counters_def q)
      finally have "rl_counters l t = rl_counters l s" .
      then show ?thesis using run t Inl q by (simp add: get_outcome_def d)
    next
      case (Inr r)
      have sync: "rw_is_sync (insert REQ_ALLOCED fl2) = rw_is_sync fl"
        using priv(2) by (simp add: i_def rw_is_sync_def)
      have "fl2 \<subseteq> fl \<union> {REQ_ELVPRIV, REQ_IO_STAT}" by (auto simp: fl2_def fl1_def)
      then show ?thesis
        using run t Inr go priv sync q
        by (auto simp: get_outcome_def d rl_counters_def i_def)
    qed
  qed
qed

text \<open>
  C16: the lock and the counters of an allocation. Called with the queue lock held on a queue with the
  greedy scheduler, \<open>__get_request\<close> always returns. If it fails, the lock is still held and every
  counter of the request list and of the queue is as before, also when the memory ran out after
  they had been raised. If it gives a request, the lock is released, the queue was not dying and
  below one and a half times its size, the request is new, unlinked and unhashed and belongs to the
  list, and the counters have gone up by one, \<open>nr_rqs_elvpriv\<close> exactly if the request has
  \<open>REQ_ELVPRIV\<close>.
\<close>

theorem get_request_all_or_nothing:
  assumes gi: "greedy_no_icq E q g s" and q: "rl_q (rls s l) = q"
    and lk: "locks s (queue_lock (queues s q))" and fl: "REQ_ELVPRIV \<notin> fl"
  shows "\<exists>res t. raw_get_request E l fl b gf s = Some (res, t) \<and> get_outcome l q fl s res t"
  using assms by (rule get_request_all_or_nothing_aux)

section \<open>Release\<close>

lemma world_congested [simp]:
  "world (blk_clear_congested E l b s) = world s" "world (blk_clear_rl_full l b s) = world s"
  by (simp_all add: blk_clear_congested_def blk_clear_rl_full_def)

lemma world_raw_freed_request [simp]: "world (raw_freed_request E l b s) = world s"
  by (simp add: raw_freed_request_def Let_def)

lemma world_freed_request [simp]:
  "world (freed_request E l flags s) = world s" "world (blk_put_rl l s) = world s"
  by (simp_all add: freed_request_def blk_put_rl_def Let_def)

lemma told_congested [simp]:
  "told (blk_clear_congested E l b s) = told s" "told (blk_clear_rl_full l b s) = told s"
  by (simp_all add: blk_clear_congested_def blk_clear_rl_full_def)

lemma told_raw_freed_request [simp]: "told (raw_freed_request E l b s) = told s"
  by (simp add: raw_freed_request_def Let_def)

lemma told_freed_request [simp]:
  "told (freed_request E l flags s) = told s" "told (blk_put_rl l s) = told s"
  by (simp_all add: freed_request_def blk_put_rl_def Let_def)

lemma blk_pm_put_request_frame:
  assumes "rq_q (rqs s r) = Some q"
  shows "\<exists>t. blk_pm_put_request E r s = Some t \<and> rqs t = rqs s \<and> rls t = rls s \<and>
    rq_allocated t = rq_allocated s \<and> elvqs t = elvqs s \<and> locks t = locks s \<and>
    elevator (queues t q') = elevator (queues s q') \<and> nr_rqs (queues t q') = nr_rqs (queues s q') \<and>
    nr_rqs_elvpriv (queues t q') = nr_rqs_elvpriv (queues s q') \<and>
    queue_lock (queues t q') = queue_lock (queues s q') \<and> told t = told s \<and>
    world t = world s"
  using assms by (simp add: blk_pm_put_request_def Let_def)

text \<open>The greedy scheduler has no hook for completed requests.\<close>

lemma elv_completed_request_frame:
  assumes "greedy_installed E q g s"
  obtains t where "elv_completed_request E q r s = Some t" and "greedy_installed E q g t"
    and "rqs t = rqs s" and "rls t = rls s" and "rq_allocated t = rq_allocated s"
    and "locks t = locks s" and "nr_rqs (queues t q) = nr_rqs (queues s q)"
    and "nr_rqs_elvpriv (queues t q) = nr_rqs_elvpriv (queues s q)"
    and "queue_lock (queues t q) = queue_lock (queues s q)" and "told t = told s" and "world t = world s"
proof -
  define u where "u = (if blk_account_rq (rqs s r)
    then upd_q q (in_flight_update (\<lambda>f. f(rq_is_sync (rqs s r) := f (rq_is_sync (rqs s r)) - 1))) s else s)"
  have "greedy_installed E q g u = greedy_installed E q g s"
    by (rule greedy_installed_cong) (simp_all add: u_def)
  then have gi: "greedy_installed E q g u" using assms by simp
  note greedy_installed_ops(1) [OF gi]
  then have "elv_completed_request E q r s = Some u"
    by (auto simp: elv_completed_request_def u_def elevator_greedy_def Let_def)
  then show thesis using gi that by (simp add: u_def)
qed

lemma raw_blk_put_request_counters:
  assumes gi: "greedy_installed E q g s" and mq: "\<not> mq_ops (queues s q)"
    and r: "rq_q (rqs s r) = Some q" "rq_rl (rqs s r) = Some l" "queuelist (rqs s r) = None"
    and fl: "REQ_ALLOCED \<in> cmd_flags (rqs s r)" "REQ_HASHED \<notin> cmd_flags (rqs s r)"
    and q: "rl_q (rls s l) = q"
  shows "\<exists>t. raw_blk_put_request E (Some q) r s = Some t \<and> locks t = locks s \<and>
    queue_lock (queues t q) = queue_lock (queues s q) \<and> told t = told s \<and> world t = world s \<and>
    rl_counters l t =
      ((count (rls s l))(rw_is_sync (cmd_flags (rqs s r)) :=
          count (rls s l) (rw_is_sync (cmd_flags (rqs s r))) - 1),
       (nr_rqs (queues s q))(rw_is_sync (cmd_flags (rqs s r)) :=
          nr_rqs (queues s q) (rw_is_sync (cmd_flags (rqs s r))) - 1),
       nr_rqs_elvpriv (queues s q) - (if REQ_ELVPRIV \<in> cmd_flags (rqs s r) then 1 else 0),
       rq_allocated s - {r})"
proof -
  obtain a where a: "blk_pm_put_request E r s = Some a" "rqs a = rqs s" "rls a = rls s"
    "rq_allocated a = rq_allocated s" "elvqs a = elvqs s" "locks a = locks s"
    "elevator (queues a q) = elevator (queues s q)" "nr_rqs (queues a q) = nr_rqs (queues s q)"
    "nr_rqs_elvpriv (queues a q) = nr_rqs_elvpriv (queues s q)"
    "queue_lock (queues a q) = queue_lock (queues s q)" "told a = told s"
    "world a = world s"
    using blk_pm_put_request_frame [OF r(1), of E q] by blast
  have "greedy_installed E q g a = greedy_installed E q g s"
    by (rule greedy_installed_cong) (simp_all add: a)
  then have ga: "greedy_installed E q g a" using gi by simp
  obtain c where c: "elv_completed_request E q r a = Some c" "greedy_installed E q g c"
    "rqs c = rqs a" "rls c = rls a" "rq_allocated c = rq_allocated a" "locks c = locks a"
    "nr_rqs (queues c q) = nr_rqs (queues a q)"
    "nr_rqs_elvpriv (queues c q) = nr_rqs_elvpriv (queues a q)"
    "queue_lock (queues c q) = queue_lock (queues a q)" "told c = told a"
    "world c = world a"
    by (rule elv_completed_request_frame [OF ga, of r])
  from greedy_installed_ops(1) [OF c(2)] have "elv_put_request E q r c = Some c"
    by (simp add: elv_put_request_def elevator_greedy_def)
  then have put: "elv_put_request E (rl_q (rls c l)) r c = Some c" using a(3) c(4) q by simp
  define b where "b = mempool_free r (if REQ_ELVPRIV \<in> cmd_flags (rqs s r)
    then (case elv_icq (rqs s r) of None \<Rightarrow> c | Some i \<Rightarrow> emit (EvIcq i False) c) else c)"
  have b: "blk_free_request E l r c = Some b" "rls b = rls c" "queues b = queues c"
    "locks b = locks c" "rq_allocated b = rq_allocated c - {r}" "told b = told c"
    "world b = world c"
    using put a(2) c(3)
    by (auto simp: blk_free_request_def b_def mempool_free_def split: option.split)
  have run: "raw_blk_put_request E (Some q) r s =
      Some (blk_put_rl l (freed_request E l (cmd_flags (rqs s r)) b))"
    using mq a(1,2) c(1,3) r fl b(1)
    by (simp add: raw_blk_put_request_def Let_def ELV_ON_HASH_def)
  have "rl_counters l (blk_put_rl l (freed_request E l (cmd_flags (rqs s r)) b)) =
      rl_counters l (freed_request E l (cmd_flags (rqs s r)) b)"
    by (simp add: rl_counters_def blk_put_rl_def)
  then show ?thesis
    unfolding run freed_request_counters using a b c(4-11) q
    by simp (simp add: blk_put_rl_def)
qed

text \<open>
  Releasing a request undoes its allocation. When \<open>__get_request\<close> has given a request, taking
  the queue lock again and calling \<open>__blk_put_request\<close> returns, with the lock still held and with
  the counters of the request list and of the queue and the set of allocated requests as they
  were before the allocation.
\<close>

theorem get_put_roundtrip:
  assumes gi: "greedy_no_icq E q g s" and q: "rl_q (rls s l) = q"
    and lk: "locks s (queue_lock (queues s q))" and mq: "\<not> mq_ops (queues s q)"
    and fl: "fl \<inter> {REQ_ELVPRIV, REQ_HASHED} = {}"
    and new: "heap_next s \<notin> rq_allocated s"
    and get: "raw_get_request E l fl b gf s = Some (Inr r, t)"
  shows "\<exists>u v. lock_q q t = Some u \<and> raw_blk_put_request E (Some q) r u = Some v \<and>
    locks v = locks s \<and> rl_counters l v = rl_counters l s"
proof -
  have "REQ_ELVPRIV \<notin> fl" using fl by auto
  from get_request_all_or_nothing_aux [OF gi q lk this, of b gf] get
  have out: "get_outcome l q fl s (Inr r) t" by auto
  define u where "u = locks_update (\<lambda>m. m(queue_lock (queues t q) := True)) t"
  have lu: "lock_q q t = Some u" using out by (simp add: u_def get_outcome_def)
  have gu: "greedy_installed E q g u"
    using gi out greedy_installed_cong [of u q s E g]
    by (simp add: u_def get_outcome_def greedy_no_icq_def)
  have fl': "REQ_HASHED \<notin> cmd_flags (rqs u r)"
    using out fl by (auto simp: u_def get_outcome_def)
  have "\<not> mq_ops (queues u q)" "rq_q (rqs u r) = Some q" "rq_rl (rqs u r) = Some l"
    "queuelist (rqs u r) = None" "REQ_ALLOCED \<in> cmd_flags (rqs u r)" "rl_q (rls u l) = q"
    using out mq q by (auto simp: u_def get_outcome_def)
  from raw_blk_put_request_counters [OF gu this(1-5) fl' this(6)] obtain v where
    v: "raw_blk_put_request E (Some q) r u = Some v" "locks v = locks u"
      "rl_counters l v =
      ((count (rls u l))(rw_is_sync (cmd_flags (rqs u r)) :=
          count (rls u l) (rw_is_sync (cmd_flags (rqs u r))) - 1),
       (nr_rqs (queues u q))(rw_is_sync (cmd_flags (rqs u r)) :=
          nr_rqs (queues u q) (rw_is_sync (cmd_flags (rqs u r))) - 1),
       nr_rqs_elvpriv (queues u q) - (if REQ_ELVPRIV \<in> cmd_flags (rqs u r) then 1 else 0),
       rq_allocated u - {r})"
    by blast
  have "rl_counters l v = rl_counters l s"
    unfolding v(3) using out q new by (auto simp: u_def get_outcome_def rl_counters_def)
  moreover have "locks v = locks s"
    using v(2) out lk by (auto simp: u_def get_outcome_def fun_upd_idem_iff)
  ultimately show ?thesis using lu v(1) by blast
qed

section \<open>Concrete runs\<close>

definition get_state :: kst where
  "get_state = greedy_busy
     \<lparr>queues := (\<lambda>_. queue_zero\<lparr>elevator := Some 7, nr_sorted := 2, nr_requests := 128\<rparr>),
      locks := (\<lambda>_. True)\<rparr>"

lemma get_state_ok:
  "greedy_no_icq greedy_env 0 8 get_state" "rl_q (rls get_state (RootRl 0)) = 0"
  "locks get_state k" "\<not> mq_ops (queues get_state 0)" "heap_next get_state \<notin> rq_allocated get_state"
  using greedy_busy_ok(1)
  by (simp_all add: greedy_no_icq_def get_state_def elv_sorted_ok_def greedy_installed_def
      greedy_busy_def greedy_both_def greedy_two_def kst_zero_def et_zero_def rl_zero_def queue_zero_def)

lemma get_state_run:
  "\<exists>t. raw_get_request greedy_env (RootRl 0) {REQ_WRITE} None False get_state = Some (Inr 100, t)"
proof -
  have "map_option fst (raw_get_request greedy_env (RootRl 0) {REQ_WRITE} None False get_state) = Some (Inr 100)"
    by code_simp
  thus ?thesis by (auto simp: map_option_eq_Some)
qed

lemma get_request_all_or_nothing_witness:
  "\<exists>t. raw_get_request greedy_env (RootRl 0) {REQ_WRITE} None False get_state = Some (Inr 100, t) \<and>
     get_outcome (RootRl 0) 0 {REQ_WRITE} get_state (Inr 100) t"
  using get_request_all_or_nothing [OF get_state_ok(1-3), of "{REQ_WRITE}" None False] get_state_run
  by auto

lemma get_put_roundtrip_witness:
  "\<exists>t u v. raw_get_request greedy_env (RootRl 0) {REQ_WRITE} None False get_state = Some (Inr 100, t) \<and>
     lock_q 0 t = Some u \<and> raw_blk_put_request greedy_env (Some 0) 100 u = Some v \<and>
     rl_counters (RootRl 0) v = rl_counters (RootRl 0) get_state"
proof -
  obtain t where t: "raw_get_request greedy_env (RootRl 0) {REQ_WRITE} None False get_state = Some (Inr 100, t)"
    using get_state_run by blast
  from get_put_roundtrip [OF get_state_ok(1-4) _ get_state_ok(5) t] t show ?thesis by blast
qed

end
