(* ===== verification/Blk_Plugged.thy ===== *)
theory Blk_Plugged
  imports Blk_Flush Blk_Get Blk_Submit
begin

text \<open>
  From \<open>blk_start_plug\<close> over \<open>blk_queue_bio\<close> to \<open>blk_finish_plug\<close>: the bios that a task submits under a
  plug become requests of the greedy scheduler. The components that work together here are the
  allocation of requests, the submission of bios, the plug, the elevator and the scheduler.
\<close>

section \<open>Allocation with room\<close>

text \<open>What an allocation keeps of a queue, and when there is room for \<open>n\<close> requests without congestion.\<close>

definition q_kept :: "request_queue \<Rightarrow> _" where
  "q_kept q = (drv_view q, elevator q, nr_sorted q, nr_congestion_on q, nr_requests q, last_merge q)"

definition room :: "nat \<Rightarrow> rlid \<Rightarrow> qid \<Rightarrow> kst \<Rightarrow> bool" where
  "room n l q s \<longleftrightarrow> (\<forall>i < n. \<forall>sync.
     count (rls s l) sync + int i + 1 < queue_congestion_on_threshold (queues s q) \<and>
     of_c_int (count (rls s l) sync + int i) < 3 * nr_requests (queues s q) div 2)"

lemma get_room:
  assumes ni: "greedy_no_icq E q g s" and q: "rl_q (rls s l) = q"
    and lk: "locks s (queue_lock (queues s q))" and al: "\<not> alloc_fails s (heap_next s)"
    and pl: "\<not> blk_queue_dying (queues s q)" "\<not> blk_queue_bypass (queues s q)"
      "\<not> blk_queue_io_stat (queues s q)"
    and room: "room (Suc n) l q s" and b: "bi_rw (bios s b) \<inter> {REQ_FLUSH, REQ_FUA} = {}"
  defines "r \<equiv> heap_next s"
  obtains t where "raw_get_request E l fl (Some b) gf s = Some (Inr r, t)" and "kept t = kept s"
    and "\<forall>x. q_kept (queues t x) = q_kept (queues s x)" and "rl_q (rls t l) = q" and "room n l q t"
    and "rq_allocated t = insert r (rq_allocated s)"
    and "locks t = (locks s)(queue_lock (queues s q) := False)" and "heap_next t = Suc (heap_next s)"
    and "\<forall>x. x \<noteq> r \<longrightarrow> rqs t x = rqs s x"
    and "cmd_flags (rqs t r) = insert REQ_ALLOCED (insert REQ_ELVPRIV fl)"
    and "queuelist (rqs t r) = None" and "fresh_rq q l (rqs t r)"
    and "\<forall>x. count (rls t l) x = count (rls s l) x + (if x = rw_is_sync fl then 1 else 0)"
proof -
  have gi: "greedy_installed E q g s" using ni by (simp add: greedy_no_icq_def)
  then obtain e where e: "elevator (queues s q) = Some e" by (auto simp: greedy_installed_def)
  define i where "i = rw_is_sync fl"
  have r0: "count (rls s l) i + 1 < queue_congestion_on_threshold (queues s q)"
    "of_c_int (count (rls s l) i) < 3 * nr_requests (queues s q) div 2"
    using room [unfolded room_def, rule_format, of 0 i] by simp_all
  have adm: "get_request_admit E l q i (rq_ioc E (Some b) s) ELV_MQUEUE_MAY s = Some s"
    using r0(1) by (simp add: get_request_admit_def)
  define d where "d = upd_q q (nr_rqs_elvpriv_update (\<lambda>n. n + 1)) (get_counted l q i s)"
  have d: "kept d = kept s" "\<And>x. q_kept (queues d x) = q_kept (queues s x)" "rl_q (rls d l) = q"
    "locks d = locks s" "heap_next d = heap_next s" "rqs d = rqs s" "etypes d = etypes s"
    "\<And>x. count (rls d l) x = count (rls s l) x + (if x = i then 1 else 0)"
    "rq_allocated d = rq_allocated s" "alloc_fails d = alloc_fails s" "gds d = gds s" "elvqs d = elvqs s"
    using q by (simp_all add: d_def get_counted_def kept_def q_kept_def)
  have "greedy_installed E q g d = greedy_installed E q g s"
    by (rule greedy_installed_cong) (simp_all add: d d_def get_counted_def)
  then have gd: "greedy_installed E q g d" using gi by simp
  have ql: "queue_lock (queues d q) = queue_lock (queues s q)" using d(2) [of q] by (simp add: q_kept_def drv_view_def)
  have ic: "\<not> icq_cache (etypes d (eq_type (elvqs s e)))" using ni e d by (auto simp: greedy_no_icq_def)
  have bb: "bios (get_counted l q i s) = bios s" by (simp add: get_counted_def)
  have run: "raw_get_request E l fl (Some b) gf s =
    get_tail E l q (eq_type (elvqs s e)) (rq_ioc E (Some b) s) i (insert REQ_ELVPRIV fl) (Some b) gf d"
    using pl b r0(2) [unfolded not_le [symmetric]]
    by (simp add: raw_get_request_cases [OF ni q e] i_def [symmetric] adm Let_def
        blk_rq_should_init_elevator_def bb d_def)
  have lk': "locks d (queue_lock (queues d q))" using lk d ql by simp
  from get_tail_go [OF gd ic lk', of l "rq_ioc E (Some b) s" i "insert REQ_ELVPRIV fl" "Some b" gf] al
  obtain t where t: "raw_get_request E l fl (Some b) gf s = Some (Inr r, t)" "kept t = kept s"
    "queues t = queues d" "rls t = rls d" "locks t = (locks s)(queue_lock (queues s q) := False)"
    "heap_next t = Suc (heap_next s)" "\<And>x. x \<noteq> r \<Longrightarrow> rqs t x = rqs s x"
    "cmd_flags (rqs t r) = insert REQ_ALLOCED (insert REQ_ELVPRIV fl)"
    "queuelist (rqs t r) = None" "fresh_rq q l (rqs t r)"
    "rq_allocated t = insert r (rq_allocated s)"
    unfolding run r_def using d ql by auto
  have "room n l q t"
    unfolding room_def
  proof (intro allI impI)
    fix k x assume k: "k < n"
    have "count (rls t l) x + int k = count (rls s l) x + int (if x = i then Suc k else k)"
      using t(4) d(8) [of x] by simp
    moreover have "(if x = i then Suc k else k) < Suc n" using k by simp
    moreover have "nr_congestion_on (queues t q) = nr_congestion_on (queues s q)"
      "nr_requests (queues t q) = nr_requests (queues s q)"
      using t(3) d(2) [of q] by (simp_all add: q_kept_def)
    ultimately show "count (rls t l) x + int k + 1 < queue_congestion_on_threshold (queues t q) \<and>
      of_c_int (count (rls t l) x + int k) < 3 * nr_requests (queues t q) div 2"
      using room [unfolded room_def, rule_format, of "if x = i then Suc k else k" x]
      by (simp add: queue_congestion_on_threshold_def)
  qed
  then show thesis using that [OF t(1,2)] t(3-11) d(2,3,8) by (simp add: i_def)
qed


section \<open>One bio\<close>

text \<open>Parameters at their plainest: no bio is split, bounced or carries integrity data.\<close>

definition plain_env :: "kenv \<Rightarrow> qid \<Rightarrow> rlid \<Rightarrow> bool" where
  "plain_env E q l \<longleftrightarrow> (\<forall>b s. blk_queue_split E q b s = (b, s) \<and> blk_queue_bounce E q b s = (b, s) \<and>
     \<not> bio_integrity_enabled E b s \<and> blk_get_rl E q (Some b) s = l) \<and>
     (REQ_COMMON_MASK E \<union> REQ_FAILFAST_MASK E) \<inter>
       ({REQ_HASHED, REQ_SOFTBARRIER, REQ_ELVPRIV} \<union> own_flags) = {} \<and>
     REQ_FAILFAST_MASK E \<inter> {REQ_FLUSH, REQ_FUA, REQ_WRITE, REQ_SYNC} = {}"

definition plugging :: "kenv \<Rightarrow> qid \<Rightarrow> gdid \<Rightarrow> rlid \<Rightarrow> plugid \<Rightarrow> kst \<Rightarrow> bool" where
  "plugging E q g l p s \<longleftrightarrow> elv_sorted_ok E q g s \<and> greedy_no_icq E q g s \<and> plain_queue E q s \<and>
     (blk_queue_nomerges (queues s q) \<or> last_merge (queues s q) = None) \<and> \<not> blk_queue_bypass (queues s q) \<and> \<not> blk_queue_io_stat (queues s q) \<and> cur_plug s = Some p \<and>
     rl_q (rls s l) = q \<and> \<not> locks s (queue_lock (queues s q)) \<and> (\<forall>n. \<not> alloc_fails s n) \<and>
     plug_cbs s p = [] \<and> linked s (PlugMq p) = [] \<and> linked s LocalList = [] \<and>
     (\<forall>r \<in> set (linked s (PlugList p)). plugged q (rqs s r)) \<and>
     (\<forall>r \<ge> heap_next s. queuelist (rqs s r) = None)"

lemma bio_prep_fields [simp]:
  fixes E :: kenv
  shows "cmd_flags (rqs (blk_rq_bio_prep E r b s) r) = cmd_flags (rqs s r) \<union> (bi_rw (bios s b) \<inter> {REQ_WRITE})"
    and "cmd_type (rqs (blk_rq_bio_prep E r b s) r) = cmd_type (rqs s r)"
    and "rq_q (rqs (blk_rq_bio_prep E r b s) r) = rq_q (rqs s r)"
    and "fresh_rq q l (rqs (blk_rq_bio_prep E r b s) r) = fresh_rq q l (rqs s r)"
    and "queuelist (rqs (blk_rq_bio_prep E r b s) r) = queuelist (rqs s r)"
    and "carried (rqs (blk_rq_bio_prep E r b s) r) =
      (Some b, Some b, rq_sector (rqs s r), bi_size (bios s b))"
    and "x \<noteq> r \<Longrightarrow> rqs (blk_rq_bio_prep E r b s) x = rqs s x"
    and "kept (blk_rq_bio_prep E r b s) = kept s" and "queues (blk_rq_bio_prep E r b s) = queues s"
    and "rls (blk_rq_bio_prep E r b s) = rls s" and "locks (blk_rq_bio_prep E r b s) = locks s"
    and "heap_next (blk_rq_bio_prep E r b s) = heap_next s"
    and "rq_allocated (blk_rq_bio_prep E r b s) = rq_allocated s"
  by (simp_all add: blk_rq_bio_prep_def Let_def carried_def kept_def fresh_rq_def split: option.split)

lemma init_request_fields:
  fixes E :: kenv
  defines "t s r b \<equiv> init_request_from_bio E r b s"
  shows "cmd_flags (rqs (t s r b) r) = cmd_flags (rqs s r) \<union> (bi_rw (bios s b) \<inter> REQ_COMMON_MASK E) \<union>
       (if REQ_RAHEAD \<in> bi_rw (bios s b) then REQ_FAILFAST_MASK E else {}) \<union> (bi_rw (bios s b) \<inter> {REQ_WRITE})"
    and "cmd_type (rqs (t s r b) r) = REQ_TYPE_FS" and "rq_q (rqs (t s r b) r) = rq_q (rqs s r)"
    and "fresh_rq q l (rqs (t s r b) r) = fresh_rq q l (rqs s r)"
    and "queuelist (rqs (t s r b) r) = queuelist (rqs s r)"
    and "carried (rqs (t s r b) r) = (Some b, Some b, bi_sector (bios s b), bi_size (bios s b))"
    and "x \<noteq> r \<Longrightarrow> rqs (t s r b) x = rqs s x"
    and "kept (t s r b) = kept s" and "queues (t s r b) = queues s" and "rls (t s r b) = rls s"
    and "locks (t s r b) = locks s" and "heap_next (t s r b) = heap_next s"
    and "rq_allocated (t s r b) = rq_allocated s"
  by (simp_all add: t_def init_request_from_bio_def Let_def kept_def [of "rqs_update _ _"])
    (simp_all add: kept_def fresh_rq_def)

text \<open>What a new request for a bio is.\<close>

definition new_cargo :: "qid \<Rightarrow> rlid \<Rightarrow> kst \<Rightarrow> bid \<Rightarrow> _" where
  "new_cargo q l s b = ((Some b, Some b, bi_sector (bios s b), bi_size (bios s b)), Some q, Some l,
     None :: rid option, None :: code option, False, {REQ_ALLOCED}, rw_is_sync (bi_rw (bios s b)))"

lemma init_request_plugged:
  assumes "plain_env E q l" and "cmd_flags (rqs s r) = insert REQ_ALLOCED (insert REQ_ELVPRIV fl)"
    and "fl = bi_rw (bios s b) \<inter> {REQ_WRITE, REQ_SYNC}" and "fresh_rq q l (rqs s r)"
    and "bi_rw (bios s b) \<inter> {REQ_FLUSH, REQ_FUA} = {}"
  defines "t \<equiv> init_request_from_bio E r b s"
  shows "plugged q (rqs t r)" and "\<not> blk_do_io_stat (rqs t r)" and "cargo (rqs t r) = new_cargo q l s b"
proof -
  have "REQ_IO_STAT \<notin> cmd_flags (rqs t r)" "REQ_ELVPRIV \<in> cmd_flags (rqs t r)"
    "cmd_flags (rqs t r) \<inter> {REQ_HASHED, REQ_SOFTBARRIER, REQ_FLUSH, REQ_FUA} = {}"
    and own: "cmd_flags (rqs t r) \<inter> own_flags = {REQ_ALLOCED}"
    and sync: "rw_is_sync (cmd_flags (rqs t r)) = rw_is_sync (bi_rw (bios s b))"
    using assms(1-3,5) by (auto simp: t_def init_request_fields plain_env_def rw_is_sync_def)
  then show "plugged q (rqs t r)" "\<not> blk_do_io_stat (rqs t r)"
    using assms(4) by (simp_all add: plugged_def blk_do_io_stat_def t_def init_request_fields fresh_rq_def)
  have "fresh_rq q l (rqs t r)" using assms(4) by (simp add: t_def init_request_fields)
  then show "cargo (rqs t r) = new_cargo q l s b"
    using own sync by (simp add: cargo_def new_cargo_def fresh_rq_def t_def init_request_fields)
qed

lemma plugging_lock:
  assumes "plugging E q g l p s"
  defines "u \<equiv> locks_update (\<lambda>m. m(queue_lock (queues s q) := True)) s"
  shows "lock_q q s = Some u" and "queue_bio_merge E q b u = Some (False, u)"
    and "greedy_no_icq E q g u" and "kept u = kept s" and "queues u = queues s" and "rls u = rls s"
    and "rqs u = rqs s" and "heap_next u = heap_next s"
    and "(locks u)(queue_lock (queues s q) := False) = locks s"
proof -
  have p: "\<not> locks s (queue_lock (queues s q))" "blk_queue_nomerges (queues s q) \<or>
      blk_queue_noxmerges (queues s q) \<and> last_merge (queues s q) = None" "greedy_no_icq E q g s"
    using assms(1) by (auto simp: plugging_def plain_queue_def)
  show "lock_q q s = Some u" using p(1) by (simp add: u_def)
  show "queue_bio_merge E q b u = Some (False, u)"
    using p(2) by (auto simp: queue_bio_merge_def elv_merge_def u_def)
  have "greedy_installed E q g u = greedy_installed E q g s"
    by (rule greedy_installed_cong) (simp_all add: u_def)
  then show "greedy_no_icq E q g u" using p(3) by (simp add: greedy_no_icq_def u_def)
  show "(locks u)(queue_lock (queues s q) := False) = locks s" using p(1) by (simp add: u_def fun_upd_idem_iff)
qed (simp_all add: u_def kept_def)

text \<open>A request of the queue that is linked nowhere is put on the plug.\<close>

lemma plugging_link:
  assumes pl: "plugging E q g l p s" and r: "plugged q (rqs s r)" "queuelist (rqs s r) = None" "r < heap_next s"
  defines "u \<equiv> list_add_tail r (PlugList p) s"
  shows "plugging E q g l p u" and "elv_bag q g u = elv_bag q g s"
    and "linked u = (linked s)(PlugList p := linked s (PlugList p) @ [r])"
proof -
  have P: "elv_sorted_ok E q g s" "greedy_no_icq E q g s"
    "\<forall>r \<in> set (linked s (PlugList p)). plugged q (rqs s r)" "\<forall>r \<ge> heap_next s. queuelist (rqs s r) = None"
    using pl by (simp_all add: plugging_def)
  have ls: "lists_ok s" using P(1) by (simp add: elv_sorted_ok_def)
  have u: "u = upd_rq r (queuelist_update (\<lambda>_. Some (PlugList p))) (upd_list (PlugList p) (\<lambda>xs. xs @ [r]) s)"
    by (simp add: u_def list_add_tail_def list_insert_def)
  have lu: "linked u = (linked s)(PlugList p := linked s (PlugList p) @ [r])"
    "\<And>x. queuelist (rqs u x) = (if x = r then Some (PlugList p) else queuelist (rqs s x))"
    "\<And>x. plugged q (rqs u x) = plugged q (rqs s x)"
    by (auto simp: u plugged_def)
  then show "elv_bag q g u = elv_bag q g s" "linked u = (linked s)(PlugList p := linked s (PlugList p) @ [r])"
    by (simp_all add: elv_bag_def greedy_pending_def)
  have gi: "greedy_installed E q g u = greedy_installed E q g s"
    by (rule greedy_installed_cong) (simp_all add: u)
  have "elv_sorted_ok E q g u"
    using P(1) gi lists_ok_add_tail [OF ls r(2), of "PlugList p", folded u_def]
    by (simp add: elv_sorted_ok_def greedy_pending_def lu(1)) (simp add: u)
  moreover have "greedy_no_icq E q g u"
    using P(2) gi by (simp add: greedy_no_icq_def) (simp add: u)
  moreover have "\<forall>x \<in> set (linked u (PlugList p)). plugged q (rqs u x)"
    using P(3) r(1) by (auto simp: lu)
  moreover have "\<forall>x \<ge> heap_next u. queuelist (rqs u x) = None"
    using P(4) r(3) by (simp add: lu(2)) (simp add: u)
  ultimately show "plugging E q g l p u"
    using pl by (simp add: plugging_def plain_queue_def lu(1)) (simp add: u)
qed

text \<open>The state seen from outside with \<open>n\<close> requests more.\<close>

definition grown :: "nat \<Rightarrow> kst \<Rightarrow> _" where
  "grown n s = (bios s, told s, rq_allocated s \<union> {heap_next s..<heap_next s + n})"

lemma grown_add:
  assumes "outside t = grown 1 s" and "heap_next t = Suc (heap_next s)"
  shows "grown n t = grown (Suc n) s"
proof -
  have "{heap_next s..<heap_next s + Suc n} = insert (heap_next s) {heap_next t..<heap_next t + n}"
    using assms(2) by auto
  then show ?thesis using assms(1) by (auto simp: grown_def outside_def)
qed

text \<open>
  A bio that could not be merged becomes a request: \<open>s0\<close> is the state when it is submitted, \<open>s\<close> the
  state after the attempt to merge it into a plugged request, \<open>w\<close> the state with the new request,
  before it is put on the plug.
\<close>

definition new_request :: "qid \<Rightarrow> rlid \<Rightarrow> bid \<Rightarrow> kst \<Rightarrow> kst \<Rightarrow> bool" where
  "new_request q l b s w \<longleftrightarrow> kept w = kept s \<and> (\<forall>x. q_kept (queues w x) = q_kept (queues s x)) \<and>
     rl_q (rls w l) = q \<and> locks w = locks s \<and> heap_next w = Suc (heap_next s) \<and>
     (\<forall>x. x \<noteq> heap_next s \<longrightarrow> rqs w x = rqs s x) \<and> plugged q (rqs w (heap_next s)) \<and>
     queuelist (rqs w (heap_next s)) = None \<and> cargo (rqs w (heap_next s)) = new_cargo q l s b \<and>
     rq_allocated w = insert (heap_next s) (rq_allocated s) \<and>
     (\<forall>x. count (rls w l) x = count (rls s l) x + (if x = rw_is_sync (bi_rw (bios s b)) then 1 else 0))"

lemma bio_request:
  assumes env: "plain_env E q l" and pl: "plugging E q g l p s" and room: "room (Suc n) l q s"
    and b: "bi_rw (bios s b) \<inter> {REQ_FLUSH, REQ_FUA} = {}"
    and b0: "bi_rw (bios s0 b) \<inter> {REQ_SYNC, REQ_FLUSH, REQ_FUA} = bi_rw (bios s b) \<inter> {REQ_SYNC, REQ_FLUSH, REQ_FUA}"
    and miss: "(if \<not> blk_queue_nomerges (queues s0 q) then blk_attempt_plug_merge E q b 0 s0
      else Some (False, 0, None, s0)) = Some (False, m, same, s)"
  obtains w where "new_request q l b s w" and "room n l q w" and "blk_queue_bio E q b s0 = do {
      s' \<leftarrow> (if m \<ge> BLK_MAX_REQUEST_COUNT then blk_flush_plug_list E p False w else Some w);
      blk_account_io_start E (heap_next s) True (list_add_tail (heap_next s) (PlugList p) s') }"
proof -
  let ?r = "heap_next s"
  define u where "u = locks_update (\<lambda>m. m(queue_lock (queues s q) := True)) s"
  note U = plugging_lock [OF pl, folded u_def]
  have bu: "bios u = bios s" "cur_plug u = Some p" "\<not> alloc_fails u (heap_next u)" "rq_allocated u = rq_allocated s"
    using U(4) pl by (simp_all add: kept_def plugging_def) (simp add: u_def)
  define fl where "fl = (bi_rw (bios s b) \<inter> {REQ_WRITE}) \<union> (if REQ_SYNC \<in> bi_rw (bios s b) then {REQ_SYNC} else {})"
  have pre: "rl_q (rls u l) = q" "locks u (queue_lock (queues u q))" "\<not> alloc_fails u (heap_next u)"
    "\<not> blk_queue_dying (queues u q)" "\<not> blk_queue_bypass (queues u q)" "\<not> blk_queue_io_stat (queues u q)"
    "room (Suc n) l q u" "bi_rw (bios u b) \<inter> {REQ_FLUSH, REQ_FUA} = {}"
    using U(5,6) bu pl b room by (simp_all add: plugging_def plain_queue_def room_def) (simp add: u_def)
  obtain v where v0: "raw_get_request E l fl (Some b) True u = Some (Inr (heap_next u), v)" "kept v = kept u"
    "\<forall>x. q_kept (queues v x) = q_kept (queues u x)" "rl_q (rls v l) = q" "room n l q v"
    "rq_allocated v = insert (heap_next u) (rq_allocated u)"
    "locks v = (locks u)(queue_lock (queues u q) := False)" "heap_next v = Suc (heap_next u)"
    "\<forall>x. x \<noteq> heap_next u \<longrightarrow> rqs v x = rqs u x"
    "cmd_flags (rqs v (heap_next u)) = insert REQ_ALLOCED (insert REQ_ELVPRIV fl)"
    "queuelist (rqs v (heap_next u)) = None" "fresh_rq q l (rqs v (heap_next u))"
    "\<forall>x. count (rls v l) x = count (rls u l) x + (if x = rw_is_sync fl then 1 else 0)"
    by (rule get_room [OF U(3) pre, of fl True])
  have fl: "fl = bi_rw (bios s b) \<inter> {REQ_WRITE, REQ_SYNC}" "rw_is_sync fl = rw_is_sync (bi_rw (bios s b))"
    by (auto simp: fl_def rw_is_sync_def)
  have v: "raw_get_request E l fl (Some b) True u = Some (Inr ?r, v)" "kept v = kept s"
    "\<And>x. q_kept (queues v x) = q_kept (queues s x)" "rl_q (rls v l) = q" "room n l q v"
    "locks v = locks s" "heap_next v = Suc ?r" "\<And>x. x \<noteq> ?r \<Longrightarrow> rqs v x = rqs s x"
    "cmd_flags (rqs v ?r) = insert REQ_ALLOCED (insert REQ_ELVPRIV fl)"
    "queuelist (rqs v ?r) = None" "fresh_rq q l (rqs v ?r)" "rq_allocated v = insert ?r (rq_allocated s)"
    "\<And>x. count (rls v l) x = count (rls s l) x + (if x = rw_is_sync (bi_rw (bios s b)) then 1 else 0)"
    using v0 U(4-9) bu(4) fl(2) by simp_all
  have bv: "bios v = bios s" "cur_plug v = Some p" using v(2) pl by (simp_all add: kept_def plugging_def)
  define w where "w = init_request_from_bio E ?r b v"
  define w' where "w' = (if test_qflag QUEUE_FLAG_SAME_COMP (queues w q)
    then upd_rq ?r (cpu_update (\<lambda>_. cur_cpu w)) w else w)"
  note I = init_request_fields [where E = E and r = ?r and b = b and s = v, folded w_def]
  have flv: "fl = bi_rw (bios v b) \<inter> {REQ_WRITE, REQ_SYNC}" using fl(1) bv(1) by simp
  have plw: "plugged q (rqs w ?r)" "cargo (rqs w ?r) = new_cargo q l s b"
    using init_request_plugged [OF env v(9) flv v(11)] b bv by (simp_all add: w_def new_cargo_def)
  have W: "kept w' = kept w" "queues w' = queues w" "rls w' = rls w" "locks w' = locks w"
    "heap_next w' = heap_next w" "\<And>x. x \<noteq> ?r \<Longrightarrow> rqs w' x = rqs w x"
    "plugged q (rqs w' ?r) = plugged q (rqs w ?r)" "queuelist (rqs w' ?r) = queuelist (rqs w ?r)"
    "rq_allocated w' = rq_allocated w" "cargo (rqs w' ?r) = cargo (rqs w ?r)" "cur_plug w' = cur_plug w"
    by (simp_all add: w'_def kept_def plugged_def)
  have new: "new_request q l b s w'"
    unfolding new_request_def using W I(5,7-13) v(2-4,6-8,10,12,13) plw by simp
  have cur: "cur_plug w' = Some p" using W(11) I(8) bv(2) by (simp add: kept_def)
  have g: "get_request E q fl (Some b) True u = Some (Inr ?r, v)"
    using env v(1) by (simp add: get_request_def get_request_retry.simps plain_env_def)
  have get: "queue_bio_get_rq E q b (REQ_SYNC \<in> bi_rw (bios s b)) ELEVATOR_INSERT_SORT m u = do {
      s' \<leftarrow> (if m \<ge> BLK_MAX_REQUEST_COUNT then blk_flush_plug_list E p False w' else Some w');
      blk_account_io_start E ?r True (list_add_tail ?r (PlugList p) s') }"
    unfolding queue_bio_get_rq_def bu(1) Let_def fl_def [symmetric]
    by (simp only: g Option.bind.simps prod.case sum.case w_def [symmetric] w'_def [symmetric] cur option.case)
  have rw: "REQ_SYNC \<in> bi_rw (bios s0 b) \<longleftrightarrow> REQ_SYNC \<in> bi_rw (bios s b)"
    "bi_rw (bios s0 b) \<inter> {REQ_FLUSH, REQ_FUA} = {}"
    using b b0 by auto
  have "blk_queue_bio E q b s0 = queue_bio_get_rq E q b (REQ_SYNC \<in> bi_rw (bios s b)) ELEVATOR_INSERT_SORT m u"
    using env rw miss U(1,2)
    by (cases "blk_queue_nomerges (queues s0 q)") (simp_all add: blk_queue_bio_def plain_env_def del: spin_lock_eq_Some)
  moreover have "room n l q w'" using v(5) W(2,3) I(9,10) by (simp add: room_def)
  ultimately show thesis using that [OF new] get by simp
qed

lemma new_request_plugging:
  assumes pl: "plugging E q g l p s" and new: "new_request q l b s w"
  shows "plugging E q g l p w" and "linked w = linked s" and "elv_bag q g w = elv_bag q g s"
    and "q_side (queues w x) = q_side (queues s x)" and "bios w = bios s" and "told w = told s"
proof -
  let ?r = "heap_next s"
  have N: "kept w = kept s" "\<And>x. q_kept (queues w x) = q_kept (queues s x)" "rl_q (rls w l) = q" "locks w = locks s"
    "heap_next w = Suc ?r" "\<And>x. x \<noteq> ?r \<Longrightarrow> rqs w x = rqs s x" "queuelist (rqs w ?r) = None"
    using new by (simp_all add: new_request_def)
  have P: "elv_sorted_ok E q g s" "greedy_no_icq E q g s" "\<forall>r \<ge> ?r. queuelist (rqs s r) = None"
    "\<forall>r \<in> set (linked s (PlugList p)). plugged q (rqs s r)"
    using pl by (simp_all add: plugging_def)
  have K: "linked w = linked s" "elvqs w = elvqs s" "etypes w = etypes s" "plug_cbs w = plug_cbs s" "gds w = gds s"
    "cur_plug w = cur_plug s" "alloc_fails w = alloc_fails s" "bios w = bios s" "told w = told s"
    using N(1) by (simp_all add: kept_def)
  have Q: "queue_flags (queues w q) = queue_flags (queues s q)" "nr_sorted (queues w q) = nr_sorted (queues s q)"
    "queue_lock (queues w q) = queue_lock (queues s q)" "elevator (queues w q) = elevator (queues s q)"
    "last_merge (queues w q) = last_merge (queues s q)"
    using N(2) [of q] by (simp_all add: q_kept_def drv_view_def)
  show "q_side (queues w x) = q_side (queues s x)" using N(2) [of x] by (simp add: q_kept_def q_side_def)
  show "linked w = linked s" "bios w = bios s" "told w = told s" by (rule K)+
  show "elv_bag q g w = elv_bag q g s" by (simp add: elv_bag_def greedy_pending_def K)
  have ls: "lists_ok s" using P(1) by (simp add: elv_sorted_ok_def)
  have ql: "queuelist (rqs w x) = queuelist (rqs s x)" for x using N(6) [of x] N(7) P(3) by (cases "x = ?r") auto
  then have lw: "lists_ok w = lists_ok s" by (intro lists_ok_cong) (simp_all add: K)
  have gi: "greedy_installed E q g w = greedy_installed E q g s" by (rule greedy_installed_cong) (simp_all add: K Q)
  have "elv_sorted_ok E q g w" using P(1) lw gi by (simp add: elv_sorted_ok_def greedy_pending_def K Q)
  moreover have "greedy_no_icq E q g w" using P(2) gi by (simp add: greedy_no_icq_def K Q)
  moreover have "?r \<notin> set (linked s (PlugList p))" using P(3) lists_okD(2) [OF ls] by fastforce
  then have "\<forall>x \<in> set (linked w (PlugList p)). plugged q (rqs w x)"
    using P(4) N(6) unfolding K(1) by metis
  ultimately show "plugging E q g l p w"
    using pl N(3-5) P(3) by (simp add: plugging_def plain_queue_def test_qflag_def K Q ql)
qed

text \<open>A request with this load is not counted in the statistics of a partition.\<close>

lemma new_cargo_no_stat:
  assumes "cargo (rqs s r) = new_cargo q l s' b"
  shows "blk_account_io_start E r True (list_add_tail r k s) = Some (list_add_tail r k s)"
proof -
  have "cmd_flags (rqs s r) \<inter> own_flags = {REQ_ALLOCED}" using assms by (simp add: cargo_def new_cargo_def)
  then have "REQ_IO_STAT \<notin> cmd_flags (rqs s r)" by auto
  then show ?thesis by (simp add: blk_account_io_start_def blk_do_io_stat_def list_add_tail_def list_insert_def)
qed

lemma one_bio:
  assumes env: "plain_env E q l" and pl: "plugging E q g l p s" and room: "room (Suc n) l q s"
    and b: "bi_rw (bios s b) \<inter> {REQ_FLUSH, REQ_FUA} = {}"
    and b0: "bi_rw (bios s0 b) \<inter> {REQ_SYNC, REQ_FLUSH, REQ_FUA} = bi_rw (bios s b) \<inter> {REQ_SYNC, REQ_FLUSH, REQ_FUA}"
    and miss: "(if \<not> blk_queue_nomerges (queues s0 q) then blk_attempt_plug_merge E q b 0 s0
      else Some (False, 0, None, s0)) = Some (False, m, same, s)" "m < BLK_MAX_REQUEST_COUNT"
  obtains t where "blk_queue_bio E q b s0 = Some t" and "plugging E q g l p t" and "room n l q t"
    and "linked t (PlugList p) = linked s (PlugList p) @ [heap_next s]" and "elv_bag q g t = elv_bag q g s"
    and "linked t (QHead q) = linked s (QHead q)" and "q_side (queues t q) = q_side (queues s q)"
    and "outside t = grown 1 s" and "heap_next t = Suc (heap_next s)"
    and "cargo (rqs t (heap_next s)) = new_cargo q l s b"
    and "\<And>x. x \<noteq> heap_next s \<Longrightarrow> rqs t x = rqs s x"
    and "\<And>x. count (rls t l) x = count (rls s l) x + (if x = rw_is_sync (bi_rw (bios s b)) then 1 else 0)"
proof -
  let ?r = "heap_next s"
  obtain w where w: "new_request q l b s w" "room n l q w" "blk_queue_bio E q b s0 = do {
      s' \<leftarrow> (if m \<ge> BLK_MAX_REQUEST_COUNT then blk_flush_plug_list E p False w else Some w);
      blk_account_io_start E ?r True (list_add_tail ?r (PlugList p) s') }"
    by (rule bio_request [OF env pl room b b0 miss(1)])
  have N: "heap_next w = Suc ?r" "\<And>x. x \<noteq> ?r \<Longrightarrow> rqs w x = rqs s x" "plugged q (rqs w ?r)"
    "queuelist (rqs w ?r) = None" "cargo (rqs w ?r) = new_cargo q l s b"
    "rq_allocated w = insert ?r (rq_allocated s)"
    "\<And>x. count (rls w l) x = count (rls s l) x + (if x = rw_is_sync (bi_rw (bios s b)) then 1 else 0)"
    using w(1) by (simp_all add: new_request_def)
  note W = new_request_plugging [OF pl w(1)]
  define t where "t = list_add_tail ?r (PlugList p) w"
  have "\<not> BLK_MAX_REQUEST_COUNT \<le> m" using miss(2) by (simp add: not_le)
  then have run: "blk_queue_bio E q b s0 = Some t"
    using w(3) new_cargo_no_stat [OF N(5)] by (simp add: t_def)
  have T: "queues t = queues w" "rls t = rls w" "outside t = outside w" "heap_next t = heap_next w"
    "cargo (rqs t x) = cargo (rqs w x)" "x \<noteq> ?r \<Longrightarrow> rqs t x = rqs w x" for x
    by (simp_all add: t_def list_add_tail_def list_insert_def)
  have "outside t = grown 1 s" using N(6) T(3) W(5,6) by (simp add: grown_def outside_def)
  moreover have "room n l q t" using w(2) T(1,2) by (simp add: room_def)
  moreover note plugging_link [OF W(1) N(3,4), folded t_def]
  ultimately show thesis
    using that [OF run] N(1,2,5,7) W(2-4) T(1,2,4,5,6) by simp
qed


section \<open>A bracket of bios\<close>

fun submit_all :: "kenv \<Rightarrow> qid \<Rightarrow> bid list \<Rightarrow> kst \<Rightarrow> kst option" where
  "submit_all E q [] s = Some s"
| "submit_all E q (b # bs) s = do { s \<leftarrow> blk_queue_bio E q b s; submit_all E q bs s }"

text \<open>In \<open>t\<close>, request \<open>r\<close> carries exactly the bio \<open>b\<close>, as it was in \<open>s\<close>.\<close>

definition carries :: "kst \<Rightarrow> kst \<Rightarrow> rid \<Rightarrow> bid \<Rightarrow> bool" where
  "carries s t r b \<longleftrightarrow>
     carried (rqs t r) = (Some b, Some b, bi_sector (bios s b), bi_size (bios s b))"

lemma submit_all_plugged:
  assumes "plain_env E q l" and "plugging E q g l p s" and "room (length bs) l q s"
    and "\<forall>b \<in> set bs. bi_rw (bios s b) \<inter> {REQ_FLUSH, REQ_FUA} = {}" and "blk_queue_nomerges (queues s q)"
  shows "\<exists>t. submit_all E q bs s = Some t \<and> plugging E q g l p t \<and> outside t = grown (length bs) s \<and>
    linked t (PlugList p) = linked s (PlugList p) @ [heap_next s..<heap_next s + length bs] \<and>
    linked t (QHead q) = linked s (QHead q) \<and> drv_view (queues t q) = drv_view (queues s q) \<and>
    elv_bag q g t = elv_bag q g s \<and> (\<forall>x < heap_next s. rqs t x = rqs s x) \<and>
    (\<forall>i < length bs. cargo (rqs t (heap_next s + i)) = new_cargo q l s (bs ! i))"
  using assms(2-)
proof (induction bs arbitrary: s)
  case (Cons b bs)
  have r: "room (Suc (length bs)) l q s" and b: "bi_rw (bios s b) \<inter> {REQ_FLUSH, REQ_FUA} = {}"
    using Cons.prems by simp_all
  have miss: "(if \<not> blk_queue_nomerges (queues s q) then blk_attempt_plug_merge E q b 0 s
      else Some (False, 0, None, s)) = Some (False, 0, None, s)" "(0 :: u32) < BLK_MAX_REQUEST_COUNT"
    using Cons.prems(4) by (simp_all add: BLK_MAX_REQUEST_COUNT_def)
  obtain u where u: "blk_queue_bio E q b s = Some u" "plugging E q g l p u" "room (length bs) l q u"
    "linked u (PlugList p) = linked s (PlugList p) @ [heap_next s]" "elv_bag q g u = elv_bag q g s"
    "linked u (QHead q) = linked s (QHead q)" "q_side (queues u q) = q_side (queues s q)"
    "outside u = grown 1 s" "heap_next u = Suc (heap_next s)"
    "cargo (rqs u (heap_next s)) = new_cargo q l s b"
    "\<And>x. x \<noteq> heap_next s \<Longrightarrow> rqs u x = rqs s x"
    by (rule one_bio [OF assms(1) Cons.prems(1) r b refl miss]) blast
  have bu: "bios u = bios s" using u(8) by (simp add: outside_def grown_def)
  note du = q_sideD(1) [OF u(7)]
  have "blk_queue_nomerges (queues u q)" using Cons.prems(4) drv_viewD(2) [OF du] by (simp add: test_qflag_def)
  from Cons.IH [OF u(2,3) _ this] Cons.prems(3) bu obtain t where
    t: "submit_all E q bs u = Some t" "plugging E q g l p t"
      "linked t (PlugList p) = linked u (PlugList p) @ [heap_next u..<heap_next u + length bs]"
      "outside t = grown (length bs) u"
      "linked t (QHead q) = linked u (QHead q)" "drv_view (queues t q) = drv_view (queues u q)"
      "elv_bag q g t = elv_bag q g u" "\<forall>x < heap_next u. rqs t x = rqs u x"
      "\<forall>i < length bs. cargo (rqs t (heap_next u + i)) = new_cargo q l u (bs ! i)"
    by auto
  have "cargo (rqs t (heap_next s + i)) = new_cargo q l s ((b # bs) ! i)" if "i < length (b # bs)" for i
    using that t(8,9) bu u(9,10) by (cases i) (auto simp: new_cargo_def)
  moreover have "[heap_next s..<heap_next s + length (b # bs)] =
      heap_next s # [heap_next u..<heap_next u + length bs]"
    by (simp add: u(9) upt_conv_Cons del: upt_Suc)
  ultimately show ?case using t u du grown_add [OF u(8,9)] by simp
qed (simp add: outside_def grown_def)

lemma plugged_bios_run:
  assumes env: "plain_env E q l" and perm: "\<And>f xs. mset (list_sort E f xs) = mset xs"
    and plug: "cur_plug s = None" "plugging E q g l p (blk_start_plug p s)" and room: "room (length bs) l q s"
    and bs: "bs \<noteq> []" "\<forall>b \<in> set bs. bi_rw (bios s b) \<inter> {REQ_FLUSH, REQ_FUA} = {}"
    and off: "blk_queue_nomerges (queues s q)"
  shows "\<exists>t u. submit_all E q bs (blk_start_plug p s) = Some t \<and>
    blk_finish_plug E p t = map_option (cur_plug_update (\<lambda>_. None)) (queue_unplugged E q False u) \<and>
    elv_bag q g u = elv_bag q g s + mset [heap_next s..<heap_next s + length bs] \<and>
    (\<forall>i < length bs. cargo (rqs u (heap_next s + i)) = new_cargo q l s (bs ! i)) \<and>
    outside u = grown (length bs) s \<and>
    linked u (QHead q) = linked s (QHead q) \<and> drv_view (queues u q) = drv_view (queues s q) \<and> rl_q (rls u l) = q \<and> linked u (PlugList p) = [] \<and>
    elv_sorted_ok E q g u \<and> locks u (queue_lock (queues u q))"
proof -
  let ?s = "blk_start_plug p s"
  have s: "linked ?s (PlugList p) = []" "heap_next ?s = heap_next s" "bios ?s = bios s"
    "elv_bag q g ?s = elv_bag q g s" "room n l q ?s = room n l q s"
    "linked ?s (QHead q) = linked s (QHead q)" "queues ?s = queues s"
    "told ?s = told s" "rq_allocated ?s = rq_allocated s" for n
    using plug(1) by (simp_all add: blk_start_plug_def elv_bag_def greedy_pending_def room_def)
  have "blk_queue_nomerges (queues ?s q)" using off s(7) by simp
  from submit_all_plugged [OF env plug(2) _ _ this, of bs] room bs(2) s obtain t where
    t: "submit_all E q bs ?s = Some t" "plugging E q g l p t"
      "linked t (PlugList p) = [heap_next s..<heap_next s + length bs]" "elv_bag q g t = elv_bag q g s"
      "\<forall>i < length bs. cargo (rqs t (heap_next s + i)) = new_cargo q l s (bs ! i)" "outside t = grown (length bs) s"
      "linked t (QHead q) = linked s (QHead q)" "drv_view (queues t q) = drv_view (queues s q)"
    by (auto simp: new_cargo_def grown_def)
  have P: "elv_sorted_ok E q g t" "plain_queue E q t" "linked t (PlugList p) \<noteq> []"
    "\<forall>r \<in> set (linked t (PlugList p)). plugged q (rqs t r)" "plug_cbs t p = []" "linked t (PlugMq p) = []"
    "linked t LocalList = []" "\<not> locks t (queue_lock (queues t q))"
    using t(2,3) bs(1) by (simp_all add: plugging_def)
  from flush_plug_run [OF P perm, of False] obtain u where
    u: "blk_flush_plug_list E p False t = queue_unplugged E q False u" "elv_sorted_ok E q g u"
      "elv_bag q g u = elv_bag q g t + mset (linked t (PlugList p))" "rest_of q u = rest_of q (plug_taken q p t)"
    by blast
  note R = plug_takenD [OF u(4)]
  have "cur_plug t = Some p" and rl: "rl_q (rls t l) = q" using t(2) by (simp_all add: plugging_def)
  then have "blk_finish_plug E p t = map_option (cur_plug_update (\<lambda>_. None)) (queue_unplugged E q False u)"
    using u(1) by (cases "queue_unplugged E q False u") (simp_all add: blk_finish_plug_def)
  with t(1) u(2,3) R(1-7) rl show ?thesis by (intro exI [of _ t] exI [of _ u]) (simp add: t)
qed


section \<open>An instance\<close>

text \<open>Two bios for the queue of \<open>greedy_busy\<close>, which has room for 128 requests.\<close>

definition bios_busy :: kst where
  "bios_busy = greedy_both
     \<lparr>queues := (\<lambda>_. queue_zero\<lparr>elevator := Some 7, nr_sorted := 2, queue_flags := 256,
        nr_requests := 128, nr_congestion_on := 113\<rparr>),
      bios := (\<lambda>b. bio_zero\<lparr>bi_sector := of_nat b, bi_size := 512\<rparr>)\<rparr>"


end
