(* ===== verification/Blk_Fetch.thy ===== *)
theory Blk_Fetch
  imports Elv_Steps Blk_Flush
begin

text \<open>
  The driver's side of a queue: peeking, starting and fetching of requests from a queue with the
  greedy scheduler.
\<close>

section \<open>A queue ready for its driver\<close>

definition fetchable :: "qid \<Rightarrow> request \<Rightarrow> bool" where
  "fetchable q rq \<longleftrightarrow> rq_q rq = Some q \<and> \<not> atom_complete rq \<and> next_rq rq = None"

definition ready_queue :: "request_queue \<Rightarrow> bool" where
  "ready_queue rq \<longleftrightarrow> (\<exists>fq. q_fq rq = Some fq \<and> flush_pending_idx fq = flush_running_idx fq) \<and>
     \<not> mq_ops rq \<and> \<not> blk_queue_bypass rq \<and> prep_rq_fn rq = None \<and> \<not> q_dev rq"

text \<open>The requests that the driver has seen.\<close>

definition started :: "kst \<Rightarrow> rid set" where
  "started s = {r. REQ_STARTED \<in> cmd_flags (rqs s r)}"

definition driver_ok :: "kenv \<Rightarrow> qid \<Rightarrow> gdid \<Rightarrow> kst \<Rightarrow> bool" where
  "driver_ok E q g s \<longleftrightarrow> elv_sorted_ok E q g s \<and> ready_queue (queues s q) \<and>
     (\<forall>r \<in># elv_bag q g s. fetchable q (rqs s r)) \<and>
     (\<forall>r \<in> set (linked s (QHead q)). \<not> ELV_ON_HASH (rqs s r))"

text \<open>What fetching leaves alone besides what the requests carry.\<close>

definition task_list :: "lid \<Rightarrow> bool" where
  "task_list k \<longleftrightarrow> (case k of PlugList p \<Rightarrow> True | PlugMq p \<Rightarrow> True | LocalList \<Rightarrow> True | _ \<Rightarrow> False)"

definition side :: "kst \<Rightarrow> _" where
  "side s = (outside s, locks s, rls s, \<lambda>q. q_side (queues s q), tasks s, \<lambda>e. eq_type (elvqs s e),
     \<lambda>k. if task_list k then linked s k else [])"

lemma task_list_simps [simp]:
  "task_list (PlugList p)" "task_list (PlugMq p)" "task_list LocalList" "\<not> task_list (QHead q)"
  "\<not> task_list (GHigher g)" "\<not> task_list (GLower g)"
  by (simp_all add: task_list_def)

lemma sideD:
  assumes "side a = side b"
  shows "outside a = outside b" "locks a = locks b" "rls a = rls b" "drv_view (queues a q) = drv_view (queues b q)"
    "elevator (queues a q) = elevator (queues b q)" "nr_requests (queues a q) = nr_requests (queues b q)"
    "nr_congestion_on (queues a q) = nr_congestion_on (queues b q)" "tasks a = tasks b"
    "eq_type (elvqs a e) = eq_type (elvqs b e)" "task_list k \<Longrightarrow> linked a k = linked b k"
proof -
  have f: "\<And>q. q_side (queues a q) = q_side (queues b q)" "\<And>e. eq_type (elvqs a e) = eq_type (elvqs b e)"
    "\<And>k. (if task_list k then linked a k else []) = (if task_list k then linked b k else [])"
    using assms by (simp_all add: side_def fun_eq_iff)
  show "outside a = outside b" "locks a = locks b" "rls a = rls b" "tasks a = tasks b"
    using assms by (simp_all add: side_def)
  show "drv_view (queues a q) = drv_view (queues b q)"
    "elevator (queues a q) = elevator (queues b q)" "nr_requests (queues a q) = nr_requests (queues b q)"
    "nr_congestion_on (queues a q) = nr_congestion_on (queues b q)"
    using f(1) [of q] by (simp_all add: q_side_def)
  show "eq_type (elvqs a e) = eq_type (elvqs b e)" by (rule f(2))
  show "task_list k \<Longrightarrow> linked a k = linked b k" using f(3) [of k] by simp
qed

lemma side_update [simp]:
  "side (rqs_update f1 s) = side s" "side (gds_update f5 s) = side s"
  "(\<And>b x. e \<noteq> EvBio b (endio x)) \<Longrightarrow> side (emit e s) = side s"
  "\<not> task_list l \<Longrightarrow> side (linked_update (\<lambda>m. m(l := f3 m)) s) = side s"
  "(\<And>x. eq_type (f4 (elvqs s) x) = eq_type (elvqs s x)) \<Longrightarrow> side (elvqs_update f4 s) = side s"
  "(\<And>x. q_side (f6 (queues s) x) = q_side (queues s x)) \<Longrightarrow> side (queues_update f6 s) = side s"
  by (auto simp add: side_def fun_eq_iff)

lemma side_rqhash_del [simp]: "side (elv_rqhash_del q r s) = side s"
  "last_merge (queues (elv_rqhash_del q r s) q') = last_merge (queues s q')"
  by (simp_all add: elv_rqhash_del_def raw_elv_rqhash_del_def hash_del_def split: option.split)

lemma dispatch_driver_ok:
  assumes ok: "driver_ok E q g s" and ne: "greedy_pending g s \<noteq> {#}"
  obtains t where "greedy_dispatch E q force s = Some (True, t)" and "driver_ok E q g t"
    and "elv_bag q g t = elv_bag q g s" and "linked t (QHead q) \<noteq> []"
    and "\<forall>x. cargo (rqs t x) = cargo (rqs s x)" and "started t = started s"
    and "side t = side s" and "touches (set_mset (elv_bag q g s)) s t" and "last_ok q g s \<longrightarrow> last_ok q g t"
    and "\<forall>x. stamps (rqs t x) = stamps (rqs s x)"
proof -
  have so: "elv_sorted_ok E q g s" using ok by (simp add: driver_ok_def)
  then have gi: "greedy_installed E q g s" and lo: "lists_ok s" by (simp_all add: elv_sorted_ok_def)
  note gd = greedy_installed_ops(2) [OF gi]
  have "greedy_inv q g s" using lo gd by (simp add: greedy_inv_def)
  from greedy_dispatch_move [OF this ne, of E force] obtain r t where
    t: "greedy_dispatch E q force s = Some (True, t)" "linked t (QHead q) = linked s (QHead q) @ [r]"
    by blast
  note st = dispatch_step [OF so t(1)]
  obtain p where p: "greedy_target g s = Some p"
    and tp: "t = (let s = elv_dispatch_add_tail E q p (list_del_init p s)
                  in upd_gd g (prev_pos_update (\<lambda>_. rq_end_sector E (rqs s p))) s)"
    using t(1) gd by (auto simp: greedy_dispatch_def Let_def split: option.splits)
  obtain l xs where l: "linked s l = p # xs" and lg: "l = GHigher g \<or> l = GLower g"
    using greedy_target_cases(2) [OF p] by blast
  have d: "list_del_init p s = upd_rq p (queuelist_update (\<lambda>_. None)) (upd_list l tl s)"
    by (rule list_del_init_first [OF lo l])
  have R: "fetchable q (rqs t x) = fetchable q (rqs s x)" "cargo (rqs t x) = cargo (rqs s x)"
    "ELV_ON_HASH (rqs t x) \<Longrightarrow> ELV_ON_HASH (rqs s x)" "\<not> ELV_ON_HASH (rqs t p)"
    "REQ_STARTED \<in> cmd_flags (rqs t x) \<longleftrightarrow> REQ_STARTED \<in> cmd_flags (rqs s x)"
    "stamps (rqs t x) = stamps (rqs s x)" for x
    unfolding tp Let_def d
    by (auto simp: elv_dispatch_add_tail_def Let_def list_add_tail_def list_insert_def fetchable_def
        ELV_ON_HASH_def elv_rqhash_del_def raw_elv_rqhash_del_def hash_del_def
        split: option.splits prod.splits if_splits)
  have "linked t (QHead q) = linked s (QHead q) @ [p]"
    unfolding tp Let_def d using lg by (auto simp: elv_dispatch_add_tail_def Let_def list_add_tail_def list_insert_def)
  moreover have "ready_queue (queues t q) = ready_queue (queues s q)"
    unfolding tp Let_def d by (simp add: elv_dispatch_add_tail_def Let_def ready_queue_def test_qflag_def
        list_add_tail_def list_insert_def)
  moreover have "side t = side s"
    unfolding tp Let_def d using lg by (auto simp: elv_dispatch_add_tail_def Let_def list_add_tail_def list_insert_def)
  ultimately have "driver_ok E q g t" "side t = side s" using ok st R by (auto simp: driver_ok_def)
  moreover have "p \<in># greedy_pending g s" using l lg by (auto simp: greedy_pending_def)
  then have "touches (set_mset (elv_bag q g s)) s t"
    unfolding tp Let_def d
    by (auto simp: touches_def elv_bag_def elv_dispatch_add_tail_def Let_def list_add_tail_def list_insert_def
        elv_rqhash_del_def raw_elv_rqhash_del_def hash_del_def split: option.splits prod.splits if_splits)
  moreover have "last_merge (queues t q) = (if last_merge (queues s q) = Some p then None else last_merge (queues s q))"
    unfolding tp Let_def d by (simp add: elv_dispatch_add_tail_def Let_def list_add_tail_def list_insert_def)
  moreover have "linked t (GHigher g) = (if l = GHigher g then xs else linked s (GHigher g))"
    "linked t (GLower g) = (if l = GLower g then xs else linked s (GLower g))"
    unfolding tp Let_def d using l
    by (auto simp: elv_dispatch_add_tail_def Let_def list_add_tail_def list_insert_def)
  then have "greedy_pending g s = add_mset p (greedy_pending g t)"
    using l lg by (auto simp: greedy_pending_def)
  ultimately show thesis
    using that t(1) st R(2,5,6) t(2) by (auto simp: started_def last_ok_def split: if_splits)
qed


section \<open>Finding the next request\<close>

lemma next_empty:
  assumes ok: "driver_ok E q g s" and e: "elv_bag q g s = {#}"
  shows "raw_elv_next_request E q s = Some (None, s)"
proof -
  have so: "elv_sorted_ok E q g s" and rd: "ready_queue (queues s q)" using ok by (simp_all add: driver_ok_def)
  then have gi: "greedy_installed E q g s" and lo: "lists_ok s" by (simp_all add: elv_sorted_ok_def)
  have "greedy_inv q g s" using lo greedy_installed_ops(2) [OF gi] by (simp add: greedy_inv_def)
  with e have "greedy_dispatch E q False s = Some (False, s)"
    by (intro greedy_dispatch_empty [of q g]) (simp_all add: elv_bag_def)
  then have "elv_next_round E q s = Some (Done None, s)"
    using e rd greedy_installed_ops(1) [OF gi]
    by (auto simp: elv_next_round_def elv_bag_def ready_queue_def elevator_greedy_def)
  then show ?thesis
    using rd by (simp add: raw_elv_next_request_def blk_get_flush_queue_noctx_def ready_queue_def elv_next_loop.simps)
qed

abbreviation serviced :: "rid \<Rightarrow> kst \<Rightarrow> kst" where
  "serviced r s \<equiv> upd_rq r (start_service_update (\<lambda>_. now_ts s)) s"

lemma next_some:
  assumes ok: "driver_ok E q g s" and ne: "elv_bag q g s \<noteq> {#}"
  obtains r t where "raw_elv_next_request E q s = Some (Some r, serviced r t)" and "driver_ok E q g t"
    and "elv_bag q g t = elv_bag q g s" and "r \<in> set (linked t (QHead q))"
    and "\<forall>x. cargo (rqs t x) = cargo (rqs s x)" and "started t = started s" and "side t = side s"
    and "touches (set_mset (elv_bag q g s)) s t" and "last_ok q g s \<longrightarrow> last_ok q g t"
    and "\<forall>x. stamps (rqs t x) = stamps (rqs s x)"
proof -
  have rd: "ready_queue (queues s q)" and gi: "greedy_installed E q g s"
    using ok by (simp_all add: driver_ok_def elv_sorted_ok_def)
  have first: "elv_next_loop E q t = Some (Some r, serviced r t)" if "linked t (QHead q) = r # xs" for t r xs
    using that by (simp add: elv_next_loop.simps elv_next_round_def)
  have nx: "raw_elv_next_request E q s = elv_next_loop E q s"
    using rd by (simp add: raw_elv_next_request_def blk_get_flush_queue_noctx_def ready_queue_def)
  show thesis
  proof (cases "linked s (QHead q)")
    case (Cons r xs)
    from that [OF _ ok refl, of r] first [OF Cons] Cons show thesis by (simp add: nx touches_def)
  next
    case Nil
    with ne have "greedy_pending g s \<noteq> {#}" by (simp add: elv_bag_def)
    from dispatch_driver_ok [OF ok this, of False] obtain t where
      t: "greedy_dispatch E q False s = Some (True, t)" "driver_ok E q g t" "elv_bag q g t = elv_bag q g s"
        "linked t (QHead q) \<noteq> []" "\<forall>x. cargo (rqs t x) = cargo (rqs s x)" "started t = started s"
        "side t = side s" "touches (set_mset (elv_bag q g s)) s t" "last_ok q g s \<longrightarrow> last_ok q g t"
        "\<forall>x. stamps (rqs t x) = stamps (rqs s x)" by blast
    obtain r xs where r: "linked t (QHead q) = r # xs" using t(4) by (cases "linked t (QHead q)") auto
    have "elv_next_round E q s = Some (Again, t)"
      using Nil rd t(1) greedy_installed_ops(1) [OF gi]
      by (auto simp: elv_next_round_def ready_queue_def elevator_greedy_def)
    then have "elv_next_loop E q s = elv_next_loop E q t" by (subst elv_next_loop.simps) simp
    with that [OF _ t(2,3) _ t(5-10), of r] first [OF r] r show thesis by (simp add: nx)
  qed
qed

section \<open>Fetching\<close>

text \<open>What peeking changes besides the marks of the request it finds.\<close>

lemma peek_found:
  assumes ok: "driver_ok E q g t" and nx: "raw_elv_next_request E q s = Some (Some r, serviced r t)"
  obtains u where "blk_peek_request E q s = Some (Some r, u)" and "linked u = linked t" and "elvqs u = elvqs t"
    and "\<And>x. elevator (queues u x) = elevator (queues t x)" and "nr_sorted (queues u q) = nr_sorted (queues t q)"
    and "ready_queue (queues u q) = ready_queue (queues t q)"
    and "\<And>x. queuelist (rqs u x) = queuelist (rqs t x)" and "\<And>x. fetchable q (rqs u x) = fetchable q (rqs t x)"
    and "\<And>x. cargo (rqs u x) = cargo (rqs t x)" and "\<And>x. ELV_ON_HASH (rqs u x) = ELV_ON_HASH (rqs t x)"
    and "started u = insert r (started t)" and "side u = side t" and "touches {r} t u"
    and "last_merge (queues u q) = last_merge (queues t q)"
    and "\<And>x. stamps (rqs u x) = stamps (rqs (serviced r t) x)"
proof -
  have rd: "ready_queue (queues t q)" and gi: "greedy_installed E q g t"
    using ok by (simp_all add: driver_ok_def elv_sorted_ok_def)
  let ?s = "serviced r t"
  have "greedy_installed E q g ?s = greedy_installed E q g t" by (rule greedy_installed_cong) simp_all
  then have ops: "elv_ops E q ?s = Some (elevator_greedy E)" using gi greedy_installed_ops(1) by blast
  have pm: "blk_pm_peek_request E (queues ?s q) (rqs ?s r)"
    using rd by (simp add: blk_pm_peek_request_def ready_queue_def)
  define v where "v = (if REQ_STARTED \<notin> cmd_flags (rqs ?s r) then set_flag r REQ_STARTED ?s else ?s)"
  have v: "peek_mark_started E q r ?s = Some v"
    using ops by (simp add: peek_mark_started_def v_def elv_activate_rq_def elevator_greedy_def)
  define w where "w = peek_boundary E q r v"
  define u where "u = (if REQ_DONTPREP \<in> cmd_flags (rqs w r) then w
    else if dma_drain_size (queues w q) \<noteq> 0 \<and> blk_rq_bytes (rqs w r) \<noteq> 0
    then upd_rq r (nr_phys_segments_update (\<lambda>n. n + 1)) w else w)"
  have W: "linked w = linked t" "elvqs w = elvqs t" "\<And>x. elevator (queues w x) = elevator (queues t x)"
    "nr_sorted (queues w q) = nr_sorted (queues t q)" "ready_queue (queues w q) = ready_queue (queues t q)"
    "prep_rq_fn (queues w q) = prep_rq_fn (queues t q)"
    "\<And>x. queuelist (rqs w x) = queuelist (rqs t x)" "\<And>x. fetchable q (rqs w x) = fetchable q (rqs t x)"
    "\<And>x. cargo (rqs w x) = cargo (rqs t x)" "\<And>x. ELV_ON_HASH (rqs w x) = ELV_ON_HASH (rqs t x)"
    "started w = insert r (started t)" "side w = side t" "touches {r} t w"
    "last_merge (queues w q) = last_merge (queues t q)" "\<And>x. stamps (rqs w x) = stamps (rqs (serviced r t) x)"
    by (auto simp add: started_def w_def v_def peek_boundary_def ready_queue_def test_qflag_def fetchable_def
        ELV_ON_HASH_def touches_def)
  have "peek_round E q s = Some (Done (Some r), u)"
    using nx pm v W(6) rd
    by (simp add: peek_round_def w_def [symmetric] Let_def u_def peek_prep_def ready_queue_def)
  then have run: "blk_peek_request E q s = Some (Some r, u)" by (simp add: blk_peek_request.simps)
  have "started u = started w" by (auto simp: started_def u_def)
  with W(11) have "started u = insert r (started t)" by simp
  then show thesis
    by (intro that [OF run])
      (use W in \<open>simp_all add: u_def fetchable_def ELV_ON_HASH_def touches_def\<close>)
qed


lemma start_found:
  assumes ok: "driver_ok E q g s" and r: "r \<in> set (linked s (QHead q))"
  obtains t where "blk_start_request r s = Some t" and "driver_ok E q g t"
    and "elv_bag q g s = add_mset r (elv_bag q g t)" and "\<forall>x. cargo (rqs t x) = cargo (rqs s x)"
    and "started t = started s" and "side t = side s" and "queuelist (rqs t r) = None"
    and "\<not> ELV_ON_HASH (rqs t r)" and "touches {r} s t" and "last_ok q g t = last_ok q g s"
    and "\<forall>x. stamps (rqs t x) = stamps (rqs s x)"
proof -
  have so: "elv_sorted_ok E q g s" using ok by (simp add: driver_ok_def)
  then have ql: "queuelist (rqs s r) = Some (QHead q)" using r lists_okD(2) by (auto simp: elv_sorted_ok_def)
  have "fetchable q (rqs s r)" and nh: "\<not> ELV_ON_HASH (rqs s r)"
    using ok r by (auto simp: driver_ok_def elv_bag_def)
  then have rq: "rq_q (rqs s r) = Some q" "\<not> atom_complete (rqs s r)" "next_rq (rqs s r) = None"
    by (simp_all add: fetchable_def)
  let ?d = "list_del_init r s"
  have D: "rqs ?d x = (if x = r then rqs s x\<lparr>queuelist := None\<rparr> else rqs s x)" "queues ?d = queues s" for x
    using ql by (auto simp: list_del_init_def)
  define u where "u = (if blk_account_rq (rqs ?d r)
    then upd_q q (in_flight_update (\<lambda>f. f(rq_is_sync (rqs ?d r) := f (rq_is_sync (rqs ?d r)) + 1))) ?d else ?d)"
  have deq: "blk_dequeue_request r s = Some u"
    using ql nh rq(1) by (simp add: blk_dequeue_request_def u_def Let_def D)
  have ru: "rqs u = rqs ?d" by (simp add: u_def)
  define t where "t = blk_add_timer r (upd_rq r (\<lambda>x. x\<lparr>resid_len := blk_rq_bytes x\<rparr>) u)"
  have run: "blk_start_request r s = Some t"
    using deq rq(2,3) by (simp add: blk_start_request_def t_def ru D Let_def)
  note T = take_step [OF so ql deq]
  have "lists_ok t = lists_ok u" by (rule lists_ok_cong) (simp_all add: t_def blk_add_timer_def)
  moreover have "greedy_installed E q g t = greedy_installed E q g u"
    by (rule greedy_installed_cong) (simp_all add: t_def blk_add_timer_def)
  moreover have lt: "linked t = linked u" "queues t = queues u" by (simp_all add: t_def blk_add_timer_def)
  ultimately have "elv_sorted_ok E q g t" and bag: "elv_bag q g s = add_mset r (elv_bag q g t)"
    using T by (simp_all add: elv_sorted_ok_def elv_bag_def greedy_pending_def)
  moreover have R: "fetchable q (rqs t x) = fetchable q (rqs s x)" "cargo (rqs t x) = cargo (rqs s x)"
    "cmd_flags (rqs t x) = cmd_flags (rqs s x)" for x
    by (simp_all add: t_def blk_add_timer_def ru D fetchable_def)
  moreover have "ready_queue (queues t q) = ready_queue (queues s q)"
    by (simp add: lt u_def D ready_queue_def test_qflag_def)
  moreover have "set (linked t (QHead q)) \<subseteq> set (linked s (QHead q))"
    using ql by (auto simp: lt u_def list_del_init_def)
  ultimately have "driver_ok E q g t" using ok by (auto simp: driver_ok_def ELV_ON_HASH_def)
  moreover have ld: "linked ?d k = (if k = QHead q then filter (\<lambda>x. x \<noteq> r) (linked s k) else linked s k)" for k
    using ql by (simp add: list_del_init_def)
  have "side t = side s" "queuelist (rqs t r) = None" "\<not> ELV_ON_HASH (rqs t r)"
    using nh ql by (simp_all add: t_def blk_add_timer_def u_def ru D ELV_ON_HASH_def)
      (simp_all add: list_del_init_def)
  moreover have "touches {r} s t" "\<forall>x. stamps (rqs t x) = stamps (rqs s x)"
    by (simp_all add: touches_def t_def blk_add_timer_def ru D)
  moreover have "last_ok q g t = last_ok q g s"
    by (simp add: last_ok_def greedy_pending_def lt u_def D ld)
  ultimately show thesis using that [OF run] bag R by (simp add: started_def)
qed

lemma fetch_some:
  assumes ok: "driver_ok E q g s" and ne: "elv_bag q g s \<noteq> {#}"
  obtains r t where "blk_fetch_request E q s = Some (Some r, t)" and "driver_ok E q g t"
    and "elv_bag q g s = add_mset r (elv_bag q g t)" and "\<forall>x. cargo (rqs t x) = cargo (rqs s x)"
    and "started t = insert r (started s)" and "side t = side s" and "queuelist (rqs t r) = None"
    and "\<not> ELV_ON_HASH (rqs t r)" and "touches (set_mset (elv_bag q g s)) s t" and "last_ok q g s \<longrightarrow> last_ok q g t"
    and "\<forall>x. stamps (rqs t x) = (start_wait (rqs s x), if x = r then now_ts s else start_service (rqs s x))"
proof -
  obtain r t where t: "raw_elv_next_request E q s = Some (Some r, serviced r t)" "driver_ok E q g t"
    "elv_bag q g t = elv_bag q g s" "r \<in> set (linked t (QHead q))"
    "\<forall>x. cargo (rqs t x) = cargo (rqs s x)" "started t = started s"
    "side t = side s" "touches (set_mset (elv_bag q g s)) s t" "last_ok q g s \<longrightarrow> last_ok q g t"
    "\<forall>x. stamps (rqs t x) = stamps (rqs s x)"
    by (rule next_some [OF ok ne])
  obtain u where u: "blk_peek_request E q s = Some (Some r, u)" "linked u = linked t" "elvqs u = elvqs t"
    "\<And>x. elevator (queues u x) = elevator (queues t x)" "nr_sorted (queues u q) = nr_sorted (queues t q)"
    "ready_queue (queues u q) = ready_queue (queues t q)"
    "\<And>x. queuelist (rqs u x) = queuelist (rqs t x)" "\<And>x. fetchable q (rqs u x) = fetchable q (rqs t x)"
    "\<And>x. cargo (rqs u x) = cargo (rqs t x)" "\<And>x. ELV_ON_HASH (rqs u x) = ELV_ON_HASH (rqs t x)"
    "started u = insert r (started t)" "side u = side t" "touches {r} t u"
    "last_merge (queues u q) = last_merge (queues t q)" "\<And>x. stamps (rqs u x) = stamps (rqs (serviced r t) x)"
    by (rule peek_found [OF t(2,1)]) blast
  have "lists_ok u = lists_ok t" by (rule lists_ok_cong) (simp_all add: u)
  moreover have "greedy_installed E q g u = greedy_installed E q g t"
    by (rule greedy_installed_cong) (simp_all add: u)
  moreover have bag: "elv_bag q g u = elv_bag q g t" by (simp add: elv_bag_def greedy_pending_def u)
  ultimately have "driver_ok E q g u"
    using t(2) by (simp add: driver_ok_def elv_sorted_ok_def u greedy_pending_def)
  moreover have "r \<in> set (linked u (QHead q))" using t(4) u(2) by simp
  ultimately obtain v where v: "blk_start_request r u = Some v" "driver_ok E q g v"
    "elv_bag q g u = add_mset r (elv_bag q g v)" "\<forall>x. cargo (rqs v x) = cargo (rqs u x)"
    "started v = started u" "side v = side u" "queuelist (rqs v r) = None" "\<not> ELV_ON_HASH (rqs v r)"
    "touches {r} u v" "last_ok q g v = last_ok q g u" "\<forall>x. stamps (rqs v x) = stamps (rqs u x)"
    by (rule start_found)
  have "blk_fetch_request E q s = Some (Some r, v)" using u(1) v(1) by (simp add: blk_fetch_request_def)
  moreover have "r \<in># elv_bag q g s" using v(3) bag t(3) by simp
  then have "touches (set_mset (elv_bag q g s)) s v"
    using t(8) u(13) v(9) by (auto simp: touches_def)
  moreover have "last_ok q g u = last_ok q g t" by (simp add: last_ok_def greedy_pending_def u)
  moreover have "now_ts t = now_ts s" using tasksD(6) [OF sideD(8) [OF t(7)]] .
  then have "\<forall>x. stamps (rqs v x) = (start_wait (rqs s x), if x = r then now_ts s else start_service (rqs s x))"
    using v(11) u(15) t(10) by (simp add: stamps_def)
  ultimately show thesis using that v(2-8,10) u(9,11,12) t(3,5-7,9) bag by simp
qed

lemma fetch_none:
  assumes "driver_ok E q g s" and "elv_bag q g s = {#}"
  shows "blk_fetch_request E q s = Some (None, s)"
  using next_empty [OF assms] by (simp add: blk_fetch_request_def blk_peek_request.simps peek_round_def)

section \<open>The driver's loop\<close>

text \<open>A driver fetches until it gets nothing; the result is what it got, in order.\<close>

partial_function (option) fetch_all :: "kenv \<Rightarrow> qid \<Rightarrow> rid list \<Rightarrow> kst \<Rightarrow> (rid list \<times> kst) option" where
  "fetch_all E q got s =
     Option.bind (blk_fetch_request E q s) (\<lambda>(ro, s).
       case ro of None \<Rightarrow> Some (got, s) | Some r \<Rightarrow> fetch_all E q (got @ [r]) s)"

lemma fetch_all_run:
  assumes "driver_ok E q g s"
  shows "\<exists>rs t. fetch_all E q got s = Some (got @ rs, t) \<and> mset rs = elv_bag q g s \<and> driver_ok E q g t \<and>
    elv_bag q g t = {#} \<and> (\<forall>x. carried (rqs t x) = carried (rqs s x)) \<and> started t = set rs \<union> started s"
  using assms
proof (induction "size (elv_bag q g s)" arbitrary: s got)
  case 0
  then have "fetch_all E q got s = Some (got, s)" using fetch_none [of E q g s] by (simp add: fetch_all.simps)
  with 0 show ?case by auto
next
  case (Suc n)
  then have "elv_bag q g s \<noteq> {#}" by auto
  then obtain r t where
    t: "blk_fetch_request E q s = Some (Some r, t)" "driver_ok E q g t"
      "elv_bag q g s = add_mset r (elv_bag q g t)" "\<forall>x. cargo (rqs t x) = cargo (rqs s x)"
      "started t = insert r (started s)"
    by (rule fetch_some [OF Suc.prems])
  from Suc.hyps(2) t(3) have "n = size (elv_bag q g t)" by simp
  from Suc.hyps(1) [OF this t(2), of "got @ [r]"] obtain rs u where
    "fetch_all E q (got @ [r]) t = Some ((got @ [r]) @ rs, u)" "mset rs = elv_bag q g t" "driver_ok E q g u"
    "elv_bag q g u = {#}" "\<forall>x. carried (rqs u x) = carried (rqs t x)"
    "started u = set rs \<union> started t" by blast
  moreover have "fetch_all E q got s = fetch_all E q (got @ [r]) t"
    by (subst fetch_all.simps) (simp add: t(1))
  moreover have "\<forall>x. carried (rqs t x) = carried (rqs s x)"
    using cargoD(1) [OF t(4) [rule_format]] by simp
  ultimately show ?case using t(3,5) by (intro exI [of _ "r # rs"] exI [of _ u]) simp
qed

text \<open>
  C7: a driver that fetches until it is told that there is nothing left gets every request of the
  queue exactly once, whether it was on the dispatch queue or still with the greedy scheduler, and
  then stops: the loop ends. Exactly these requests are newly marked as started, each with the bios, the
  sector and the length it was queued with, and the queue is consistent and empty afterwards.
\<close>

theorem fetch_all_delivers:
  assumes "driver_ok E q g s"
  shows "\<exists>rs t. fetch_all E q [] s = Some (rs, t) \<and> mset rs = elv_bag q g s \<and> elv_bag q g t = {#} \<and>
    elv_sorted_ok E q g t \<and> started t = set rs \<union> started s \<and>
    (\<forall>x. carried (rqs t x) = carried (rqs s x))"
  using fetch_all_run [OF assms, of "[]"] by (auto simp: driver_ok_def)

section \<open>An instance\<close>

text \<open>The queue of \<open>greedy_busy\<close> with the parts a driver needs, and its two requests.\<close>

definition fetch_busy :: kst where
  "fetch_busy = greedy_both
     \<lparr>queues := (\<lambda>_. queue_zero\<lparr>elevator := Some 7, nr_sorted := 2,
        q_fq := Some \<lparr>flush_queue_delayed = False, flush_pending_idx = False, flush_running_idx = False\<rparr>\<rparr>),
      rqs := (\<lambda>r. rqs greedy_both r\<lparr>rq_q := Some 0\<rparr>)\<rparr>"

theorem fetch_all_delivers_witness:
  "\<exists>rs t. fetch_all greedy_env 0 [] fetch_busy = Some (rs, t) \<and> mset rs = {#1, 2#} \<and> started t = {1, 2}"
proof -
  have "lists_ok fetch_busy"
    by (auto simp: lists_ok_def fetch_busy_def greedy_both_def greedy_two_def kst_zero_def rq_zero_def)
  then have "elv_sorted_ok greedy_env 0 8 fetch_busy"
    by (simp add: elv_sorted_ok_def greedy_installed_def elevator_greedy_env fetch_busy_def
        queue_zero_def greedy_both_def greedy_two_def eq_zero_def greedy_pending_def)
  moreover have "ready_queue (queues fetch_busy 0)"
    by (simp add: ready_queue_def fetch_busy_def queue_zero_def test_qflag_def)
  moreover have bag: "elv_bag 0 8 fetch_busy = {#1, 2#}"
    by (simp add: elv_bag_def greedy_pending_def fetch_busy_def greedy_both_def)
  ultimately have ok: "driver_ok greedy_env 0 8 fetch_busy"
    by (simp add: driver_ok_def) (simp add: fetch_busy_def fetchable_def greedy_both_def rq_zero_def)
  obtain rs t where t: "fetch_all greedy_env 0 [] fetch_busy = Some (rs, t)" "mset rs = {#1, 2#}"
    "started t = set rs \<union> started fetch_busy"
    using fetch_all_delivers [OF ok] bag by auto
  moreover have "set rs = {1, 2}" using t(2) by (metis set_mset_mset set_mset_add_mset_insert set_mset_single)
  moreover have "started fetch_busy = {}"
    by (auto simp: started_def fetch_busy_def greedy_both_def rq_zero_def)
  ultimately show ?thesis by auto
qed

end
