(* ===== verification/Elv_Life.thy ===== *)
theory Elv_Life
  imports Elv_Registry Elv_Greedy
begin

text \<open>
  The registry of schedulers and the references to their modules: names are unique, a registered
  scheduler is found under its name until it is unregistered, and what \<open>elevator_get\<close>,
  \<open>elevator_init\<close> and \<open>elevator_switch\<close> do to the reference count of a module on each of their
  paths, with the greedy scheduler.
\<close>

section \<open>The list of schedulers\<close>

definition elv_names :: "kst \<Rightarrow> string list" where
  "elv_names s = map (\<lambda>t. elevator_name (etypes s t)) (elv_list s)"

lemma elevator_find_None: "elevator_find n s = None \<longleftrightarrow> n \<notin> set (elv_names s)"
  by (auto simp: elevator_find_def elv_names_def find_None_iff)

lemma elevator_find_Some:
  assumes "elevator_find n s = Some t"
  shows "t \<in> set (elv_list s)" and "elevator_name (etypes s t) = n"
  using assms by (auto simp: elevator_find_def find_Some_iff)

lemma elevator_find_unique:
  assumes "distinct (elv_names s)" and "t \<in> set (elv_list s)"
  shows "elevator_find (elevator_name (etypes s t)) s = Some t"
proof -
  obtain u where u: "elevator_find (elevator_name (etypes s t)) s = Some u"
    using assms(2) elevator_find_None by (fastforce simp: elv_names_def)
  then have "u \<in> set (elv_list s)" "elevator_name (etypes s u) = elevator_name (etypes s t)"
    using elevator_find_Some by blast+
  with assms have "u = t" by (auto simp: elv_names_def distinct_map inj_on_def)
  with u show ?thesis by simp
qed

lemma elevator_find_append:
  "elevator_find n (elv_list_update (\<lambda>l. l @ [t]) s) =
     (case elevator_find n s of
        Some u \<Rightarrow> Some u
      | None \<Rightarrow> if elevator_name (etypes s t) = n then Some t else None)"
proof -
  have "find P (xs @ ys) = (case find P xs of Some u \<Rightarrow> Some u | None \<Rightarrow> find P ys)"
    for P and xs ys :: "etid list"
    by (induction xs) simp_all
  then show ?thesis by (auto simp: elevator_find_def split: option.split)
qed

text \<open>A call of \<open>elv_register\<close> that succeeds has only appended to the list.\<close>

lemma elv_register_success:
  assumes "elv_register mn al t s = Some (None, u)"
  shows "elv_list u = elv_list s @ [t]"
    and "elevator_name (etypes u x) = elevator_name (etypes s x)"
    and "elevator_name (etypes s t) \<notin> set (elv_names s)"
    and "\<not> locks s ElvListLock" and "locks u = locks s"
proof -
  have *: "elv_list u = elv_list s @ [t] \<and> (\<forall>x. elevator_name (etypes u x) = elevator_name (etypes s x)) \<and>
    elevator_name (etypes s t) \<notin> set (elv_names s) \<and> \<not> locks s ElvListLock \<and> locks u = locks s"
    using assms
    by (auto simp: elv_register_def Let_def kmalloc_def elevator_find_None elv_names_def
        Option.bind_eq_Some_conv fun_upd_idem_iff split: if_splits option.splits prod.splits)
  then show "elv_list u = elv_list s @ [t]"
    and "elevator_name (etypes u x) = elevator_name (etypes s x)"
    and "elevator_name (etypes s t) \<notin> set (elv_names s)"
    and "\<not> locks s ElvListLock" and "locks u = locks s"
    by blast+
qed

lemma elv_register_names:
  assumes "elv_register mn al t s = Some (None, u)"
  shows "elv_names u = elv_names s @ [elevator_name (etypes s t)]"
  using elv_register_success [OF assms] by (simp add: elv_names_def)

lemma elv_unregister_effect:
  assumes "elv_unregister t s = Some u"
  shows "elv_list u = filter (\<lambda>x. x \<noteq> t) (elv_list s)"
    and "elevator_name (etypes u x) = elevator_name (etypes s x)"
proof -
  have *: "elv_list u = filter (\<lambda>x. x \<noteq> t) (elv_list s) \<and>
      (\<forall>x. elevator_name (etypes u x) = elevator_name (etypes s x))"
    using assms by (auto simp: elv_unregister_def Let_def Option.bind_eq_Some_conv split: if_splits)
  then show "elv_list u = filter (\<lambda>x. x \<noteq> t) (elv_list s)"
    and "elevator_name (etypes u x) = elevator_name (etypes s x)"
    by blast+
qed

lemma elv_unregister_returns: "\<not> locks s ElvListLock \<Longrightarrow> \<exists>u. elv_unregister t s = Some u"
  by (simp add: elv_unregister_def Let_def spin_lock_def spin_unlock_def)

text \<open>
  Registering a scheduler keeps the names on the list of schedulers pairwise different. The new
  scheduler is found under its name from then on, every other name is resolved as before, and
  unregistering the scheduler again returns and brings back the list as it was.
\<close>

lemma elv_register_unregister:
  assumes "distinct (elv_names s)" and "elv_register mn al t s = Some (None, u)"
  shows "distinct (elv_names u) \<and> elevator_find (elevator_name (etypes s t)) u = Some t \<and>
    (\<forall>n. n \<noteq> elevator_name (etypes s t) \<longrightarrow> elevator_find n u = elevator_find n s) \<and>
    (\<exists>v. elv_unregister t u = Some v \<and> elv_list v = elv_list s)"
proof (intro conjI allI impI)
  note reg = elv_register_success [OF assms(2)]
  have nin: "t \<notin> set (elv_list s)" using reg(3) by (auto simp: elv_names_def)
  show d: "distinct (elv_names u)"
    using assms(1) reg(3) elv_register_names [OF assms(2)] by simp
  show "elevator_find (elevator_name (etypes s t)) u = Some t"
    using elevator_find_unique [OF d, of t] reg(1,2) by simp
  show "elevator_find n u = elevator_find n s" if "n \<noteq> elevator_name (etypes s t)" for n
  proof -
    have "elevator_find n u = elevator_find n (elv_list_update (\<lambda>l. l @ [t]) s)"
      using reg(1,2) by (simp add: elevator_find_def)
    with that show ?thesis by (simp add: elevator_find_append split: option.split)
  qed
  obtain v where v: "elv_unregister t u = Some v"
    using elv_unregister_returns reg(4,5) by metis
  with nin show "\<exists>v. elv_unregister t u = Some v \<and> elv_list v = elv_list s"
    using elv_unregister_effect(1) [OF v] reg(1) by (auto simp: filter_id_conv)
qed

section \<open>References\<close>

text \<open>\<open>elevator_get\<close> without loading a module: the scheduler found, with a reference, or nothing.\<close>

lemma elevator_find_locks [simp]:
  "elevator_find n (locks_update f s) = elevator_find n s"
  by (simp add: elevator_find_def)

lemma locks_free [simp]: "\<not> locks s l \<Longrightarrow> locks_update (\<lambda>m. m(l := False)) s = s"
  by (cases s) (simp add: fun_upd_idem)

lemma locks_pair [simp]:
  "\<not> locks s l \<Longrightarrow> locks_update ((\<lambda>m. m(l := False)) \<circ> (\<lambda>m. m(l := True))) s = s"
  by (cases s) (simp add: comp_def fun_upd_idem)

lemma elevator_get_found:
  assumes "\<not> locks s ElvListLock" and "elevator_find n s = Some t"
    and "\<And>x. try_module_get E t x"
  shows "elevator_get E n try_loading s = Some (Some t, module_refs_update (\<lambda>m. m(t := m t + 1)) s)"
  using assms
  by (cases s) (simp add: elevator_get_def Let_def spin_lock_def spin_unlock_def elevator_find_def
      comp_def fun_upd_idem)

text \<open>The outcomes of \<open>greedy_init_queue\<close>, in the order of the two allocations.\<close>

definition greedy_init_ok :: "kst \<Rightarrow> bool" where
  "greedy_init_ok s \<longleftrightarrow> \<not> alloc_fails s (heap_next s) \<and> \<not> alloc_fails s (Suc (heap_next s))"

definition greedy_init_refs :: "kst \<Rightarrow> int" where
  "greedy_init_refs s =
     (if \<not> alloc_fails s (heap_next s) \<and> alloc_fails s (Suc (heap_next s)) then -1 else 0)"

definition greedy_init_outcome :: "qid \<Rightarrow> etid \<Rightarrow> kst \<Rightarrow> errno option \<Rightarrow> kst \<Rightarrow> bool" where
  "greedy_init_outcome q t s err u \<longleftrightarrow>
     err = (if greedy_init_ok s then None else Some ENOMEM) \<and>
     module_refs u = (module_refs s)(t := module_refs s t + greedy_init_refs s) \<and>
     locks u = (if alloc_fails s (heap_next s) then locks s
                else (locks s)(EqSysfsMutex (heap_next s) := False)) \<and>
     rqs u = rqs s \<and> etypes u = etypes s \<and> elv_list u = elv_list s \<and> (\<forall>x. x \<noteq> heap_next s \<longrightarrow> elvqs u x = elvqs s x) \<and>
     (if greedy_init_ok s
      then queues u = (queues s)(q := (queues s q)\<lparr>elevator := Some (heap_next s)\<rparr>) \<and>
        linked u = (linked s)(GHigher (Suc (heap_next s)) := [], GLower (Suc (heap_next s)) := []) \<and>
        eq_type (elvqs u (heap_next s)) = t \<and> eq_kref (elvqs u (heap_next s)) = 1 \<and>
        elevator_data (elvqs u (heap_next s)) = Some (Suc (heap_next s)) \<and>
        \<not> registered (elvqs u (heap_next s))
      else queues u = queues s \<and> linked u = linked s)"

lemma greedy_init_queue_outcome:
  assumes "\<not> locks s (queue_lock (queues s q))"
  obtains err u where "greedy_init_queue q t s = Some (err, u)"
    and "greedy_init_outcome q t s err u"
proof -
  consider "alloc_fails s (heap_next s)"
    | "\<not> alloc_fails s (heap_next s)" "alloc_fails s (Suc (heap_next s))"
    | "greedy_init_ok s"
    by (auto simp: greedy_init_ok_def)
  then have "\<exists>err u. greedy_init_queue q t s = Some (err, u) \<and> greedy_init_outcome q t s err u"
  proof cases
    case 1
    then show ?thesis
      by (simp add: greedy_init_queue_def elevator_alloc_def kmalloc_def greedy_init_outcome_def
          greedy_init_ok_def greedy_init_refs_def)
  next
    case 2
    then show ?thesis
      by (simp add: greedy_init_queue_def elevator_alloc_def kmalloc_def greedy_init_outcome_def
          greedy_init_ok_def greedy_init_refs_def kobject_put_elv_def Let_def elevator_release_def
          elevator_put_def)
  next
    case 3
    with assms show ?thesis
      by (simp add: greedy_init_queue_def elevator_alloc_def kmalloc_def greedy_init_outcome_def
          greedy_init_ok_def greedy_init_refs_def Let_def spin_lock_def spin_unlock_def fun_upd_idem)
  qed
  then show ?thesis using that by blast
qed

section \<open>What a drain leaves alone\<close>

definition queue_core :: "request_queue \<Rightarrow> request_queue" where
  "queue_core x = x\<lparr>last_merge := None, end_sector := 0, boundary_rq := None, nr_sorted := 0\<rparr>"

definition elvq_core :: "elevator_queue \<Rightarrow> elevator_queue" where
  "elvq_core x = x\<lparr>eq_hash := (\<lambda>_. [])\<rparr>"

definition drain_frame :: "kst \<Rightarrow> kst \<Rightarrow> bool" where
  "drain_frame s t \<longleftrightarrow> locks t = locks s \<and> module_refs t = module_refs s \<and>
     heap_next t = heap_next s \<and> alloc_fails t = alloc_fails s \<and> etypes t = etypes s \<and>
     elv_list t = elv_list s \<and> (\<forall>q. queue_core (queues t q) = queue_core (queues s q)) \<and>
     (\<forall>e. elvq_core (elvqs t e) = elvq_core (elvqs s e))"

lemma drain_frame_refl [simp]: "drain_frame s s"
  by (simp add: drain_frame_def)

lemma drain_frame_trans: "drain_frame s t \<Longrightarrow> drain_frame t u \<Longrightarrow> drain_frame s u"
  by (simp add: drain_frame_def)

lemma queue_core_eqD:
  assumes "queue_core x = queue_core y"
  shows "elevator x = elevator y" and "queue_lock x = queue_lock y" and "queue_flags x = queue_flags y"
    and "request_fn x = request_fn y" and "nr_rqs_elvpriv x = nr_rqs_elvpriv y"
    and "request_fn_active x = request_fn_active y" and "bypass_depth x = bypass_depth y"
    and "mq_ops x = mq_ops y" and "nr_rqs x = nr_rqs y"
  using assms [THEN arg_cong, of elevator] assms [THEN arg_cong, of queue_lock]
    assms [THEN arg_cong, of queue_flags] assms [THEN arg_cong, of request_fn]
    assms [THEN arg_cong, of nr_rqs_elvpriv] assms [THEN arg_cong, of request_fn_active]
    assms [THEN arg_cong, of bypass_depth] assms [THEN arg_cong, of mq_ops]
    assms [THEN arg_cong, of nr_rqs]
  by (simp_all add: queue_core_def)

lemma elvq_core_eqD:
  assumes "elvq_core x = elvq_core y"
  shows "eq_type x = eq_type y" and "elevator_data x = elevator_data y"
    and "registered x = registered y" and "eq_kref x = eq_kref y"
  using assms [THEN arg_cong, of eq_type] assms [THEN arg_cong, of elevator_data]
    assms [THEN arg_cong, of registered] assms [THEN arg_cong, of eq_kref]
  by (simp_all add: elvq_core_def)

lemma elv_rqhash_del_core [simp]:
  "locks (elv_rqhash_del q r s) = locks s" "module_refs (elv_rqhash_del q r s) = module_refs s"
  "heap_next (elv_rqhash_del q r s) = heap_next s" "alloc_fails (elv_rqhash_del q r s) = alloc_fails s"
  "etypes (elv_rqhash_del q r s) = etypes s" "elv_list (elv_rqhash_del q r s) = elv_list s"
  "elvq_core (elvqs (elv_rqhash_del q r s) e) = elvq_core (elvqs s e)"
  by (auto simp: elv_rqhash_del_def raw_elv_rqhash_del_def hash_del_def elvq_core_def
      split: option.split prod.split)

lemma greedy_dispatch_drain_frame:
  assumes "greedy_dispatch E q force s = Some (b, t)"
  shows "drain_frame s t"
proof -
  have init: "drain_frame s (list_del_init r s)" for s :: kst and r
    by (simp add: drain_frame_def list_del_init_def split: option.split)
  have tail: "drain_frame s (elv_dispatch_add_tail E q r s)" for s :: kst and r
    by (simp add: elv_dispatch_add_tail_def Let_def drain_frame_def queue_core_def
        list_add_tail_def list_insert_def)
  have gd: "drain_frame s (upd_gd g f u) \<longleftrightarrow> drain_frame s u" for s u g f
    by (simp add: drain_frame_def)
  show ?thesis
    using assms drain_frame_trans [OF init tail]
    by (auto simp: greedy_dispatch_def Let_def Option.bind_eq_Some_conv gd split: option.splits)
qed

text \<open>A relation that every dispatch call keeps is kept by the drain.\<close>

lemma drain_loop_keeps:
  assumes "drain_loop d s = Some t" and "P s"
    and "\<And>u b v. P u \<Longrightarrow> d u = Some (b, v) \<Longrightarrow> P v"
  shows "P t"
  using assms
proof (induction rule: drain_loop.raw_induct [rotated, consumes 1, case_names step])
  case (step loop d s t)
  from step(2) obtain b u where u: "d s = Some (b, u)" "(if b then loop d u else Some u) = Some t"
    by (auto simp: Option.bind_eq_Some_conv)
  have "P u" using step(4) [OF step(3) u(1)] .
  show ?case
  proof (cases b)
    case True
    with u(2) have "loop d u = Some t" by simp
    then show ?thesis by (rule step(1)) (use \<open>P u\<close> step(4) in auto)
  next
    case False
    with u(2) \<open>P u\<close> show ?thesis by simp
  qed
qed

lemma elv_drain_frame:
  assumes "greedy_installed E q g s" and "drain_loop (elv_dispatch E q) s = Some t"
  shows "drain_frame s t"
proof -
  have "greedy_installed E q g t \<and> drain_frame s t"
    using assms(2)
  proof (rule drain_loop_keeps)
    show "greedy_installed E q g s \<and> drain_frame s s" using assms(1) by simp
    fix u b v
    assume u: "greedy_installed E q g u \<and> drain_frame s u" and d: "elv_dispatch E q u = Some (b, v)"
    then have "greedy_dispatch E q True u = Some (b, v)" using elv_dispatch_greedy by metis
    with u show "greedy_installed E q g v \<and> drain_frame s v"
      using greedy_dispatch_frame(1) greedy_dispatch_drain_frame drain_frame_trans by metis
  qed
  then show ?thesis by blast
qed

lemma elv_drain_all_frame:
  assumes "elv_sorted_ok E q g s"
  shows "\<exists>t rs. elv_drain_elevator E q s = Some t \<and> elv_sorted_ok E q g t \<and> drain_frame s t \<and>
    greedy_pending g t = {#} \<and> linked t (QHead q) = linked s (QHead q) @ rs \<and>
    mset rs = greedy_pending g s"
proof -
  have gi: "greedy_installed E q g s" using assms by (simp add: elv_sorted_ok_def)
  from elv_drain_all [OF assms] obtain t rs where
    t: "elv_drain_elevator E q s = Some t" "elv_sorted_ok E q g t" "greedy_pending g t = {#}"
      "linked t (QHead q) = linked s (QHead q) @ rs" "mset rs = greedy_pending g s"
    by blast
  from t(1) obtain u where u: "drain_loop (elv_dispatch E q) s = Some u"
    "t = (if nr_sorted (queues u q) \<noteq> 0 then elv_drain_printed_update (\<lambda>n. n + 1) u else u)"
    by (auto simp: elv_drain_elevator_eq Option.bind_eq_Some_conv)
  have "drain_frame u t" by (simp add: u(2) drain_frame_def)
  with elv_drain_frame [OF gi u(1)] have "drain_frame s t" by (rule drain_frame_trans)
  with t show ?thesis by blast
qed

section \<open>Bypass mode\<close>

text \<open>
  A queue whose driver has stopped it and holds none of its requests: draining it ends after one
  round. \<open>blkcg_drain_queue\<close> does nothing where block cgroups are not configured.
\<close>

definition quiet_queue :: "kenv \<Rightarrow> qid \<Rightarrow> kst \<Rightarrow> bool" where
  "quiet_queue E q s \<longleftrightarrow> blk_queue_stopped (queues s q) \<and> nr_rqs_elvpriv (queues s q) = 0 \<and>
     request_fn_active (queues s q) = 0 \<and> \<not> locks s (queue_lock (queues s q)) \<and>
     (\<forall>x. blkcg_drain_queue E q x = x)"

lemma drain_quiet:
  assumes ok: "elv_sorted_ok E q g s" and stop: "blk_queue_stopped (queues s q)"
    and idle: "nr_rqs_elvpriv (queues s q) = 0" "request_fn_active (queues s q) = 0"
    and cg: "\<And>x. blkcg_drain_queue E q x = x"
  shows "\<exists>t rs. raw_blk_drain_queue E q False s = Some t \<and> elv_sorted_ok E q g t \<and> drain_frame s t \<and>
    greedy_pending g t = {#} \<and> linked t (QHead q) = linked s (QHead q) @ rs \<and>
    mset rs = greedy_pending g s"
proof -
  from elv_drain_all_frame [OF ok] obtain t rs where
    t: "elv_drain_elevator E q s = Some t" "elv_sorted_ok E q g t" "drain_frame s t"
      "greedy_pending g t = {#}" "linked t (QHead q) = linked s (QHead q) @ rs"
      "mset rs = greedy_pending g s"
    by blast
  have core: "queue_core (queues t q) = queue_core (queues s q)"
    using t(3) by (simp add: drain_frame_def)
  note same = queue_core_eqD [OF core]
  have "elevator (queues s q) \<noteq> None" using ok by (auto simp: elv_sorted_ok_def greedy_installed_def)
  moreover have "blk_queue_stopped (queues t q)" using stop same(3) by (simp add: test_qflag_def)
  ultimately have "drain_kick E q False s = Some t"
    using t(1) cg by (simp add: drain_kick_def raw_blk_run_queue_def)
  moreover have "\<not> drain_pending q False t" using idle same by (simp add: drain_pending_def Let_def)
  ultimately have loop: "drain_queue_loop E q False s = Some t"
    by (subst drain_queue_loop.simps) simp
  define u where "u = (if request_fn (queues t q) \<noteq> None then wake_all_rls E q t else t)"
  have wake: "\<exists>tr. fold (\<lambda>l s. emit (EvRl l (wake_up_all True)) (emit (EvRl l (wake_up_all False)) s)) ls v
      = ktrace_update tr v" for ls v
  proof (induction ls arbitrary: v)
    case Nil
    show ?case by (intro exI [of _ "\<lambda>x. x"]) simp
  next
    case (Cons l ls)
    obtain tr where "fold (\<lambda>l s. emit (EvRl l (wake_up_all True)) (emit (EvRl l (wake_up_all False)) s)) ls
       (emit (EvRl l (wake_up_all True)) (emit (EvRl l (wake_up_all False)) v)) =
       ktrace_update tr (emit (EvRl l (wake_up_all True)) (emit (EvRl l (wake_up_all False)) v))"
      by (rule exE [OF Cons.IH])
    then show ?case
      by (intro exI [of _ "\<lambda>x. tr ((x @ [EvRl l (wake_up_all False)]) @ [EvRl l (wake_up_all True)])"])
        (simp only: fold_simps, simp add: comp_def)
  qed
  have "\<exists>tr. u = ktrace_update tr t"
  proof (cases "request_fn (queues t q) = None")
    case True
    then show ?thesis by (intro exI [of _ "\<lambda>x. x"]) (simp add: u_def)
  next
    case False
    then show ?thesis using wake [of "blk_queue_rls E q t" t] by (simp add: u_def wake_all_rls_def)
  qed
  then obtain tr where u: "u = ktrace_update tr t" by blast
  have "elv_sorted_ok E q g u" "drain_frame s u" "greedy_pending g u = {#}"
    "linked u (QHead q) = linked s (QHead q) @ rs"
    using t by (simp_all add: u elv_sorted_ok_def lists_ok_def greedy_installed_def
        greedy_pending_def drain_frame_def)
  moreover have "raw_blk_drain_queue E q False s = Some u"
    using loop by (simp add: raw_blk_drain_queue_def u_def)
  ultimately show ?thesis using t(6) by blast
qed

lemma bypass_start_quiet:
  assumes ok: "elv_sorted_ok E q g s" and quiet: "quiet_queue E q s"
    and init: "blk_queue_init_done (queues s q)"
  shows "\<exists>t rs. blk_queue_bypass_start E q s = Some t \<and> elv_sorted_ok E q g t \<and>
    drain_frame (queue_flag_set QUEUE_FLAG_BYPASS q (upd_q q (bypass_depth_update (\<lambda>n. n + 1)) s)) t \<and>
    greedy_pending g t = {#} \<and> linked t (QHead q) = linked s (QHead q) @ rs \<and>
    mset rs = greedy_pending g s"
proof -
  define k where "k = queue_lock (queues s q)"
  define v where "v = queue_flag_set QUEUE_FLAG_BYPASS q (upd_q q (bypass_depth_update (\<lambda>n. n + 1)) s)"
  define w where "w = locks_update (\<lambda>m. m(k := True)) v"
  have w: "queues w q = (queues s q)\<lparr>bypass_depth := bypass_depth (queues s q) + 1,
      queue_flags := set_bit (qbit QUEUE_FLAG_BYPASS) (queue_flags (queues s q))\<rparr>"
    "linked w = linked s" "elvqs w = elvqs s" "rqs w = rqs s"
    by (simp_all add: w_def v_def queue_flag_set_def)
  have "elv_sorted_ok E q g w"
    using ok by (simp add: elv_sorted_ok_def lists_ok_def greedy_installed_def greedy_pending_def w)
  then have dr: "\<exists>t rs. raw_blk_drain_queue E q False w = Some t \<and> elv_sorted_ok E q g t \<and> drain_frame w t \<and>
    greedy_pending g t = {#} \<and> linked t (QHead q) = linked w (QHead q) @ rs \<and>
    mset rs = greedy_pending g w"
    by (rule drain_quiet) (use quiet in \<open>auto simp: quiet_queue_def w test_qflag_def bit_set_bit_iff\<close>)
  then obtain t rs where t: "raw_blk_drain_queue E q False w = Some t" "elv_sorted_ok E q g t"
    "drain_frame w t" "greedy_pending g t = {#}" "linked t (QHead q) = linked s (QHead q) @ rs"
    "mset rs = greedy_pending g s"
    by (auto simp: w greedy_pending_def)
  have free: "\<not> locks v k" using quiet by (simp add: quiet_queue_def v_def queue_flag_set_def k_def)
  have lk: "queue_lock (queues v q) = k" "queue_lock (queues w q) = k"
    by (simp_all add: v_def w_def queue_flag_set_def k_def)
  have core: "queue_core (queues t q) = queue_core (queues w q)" using t(3) by (simp add: drain_frame_def)
  have lt: "queue_lock (queues t q) = k" "locks t k"
    using queue_core_eqD(2) [OF core] lk(2) t(3) by (simp_all add: drain_frame_def w_def)
  define u where "u = emit (EvQ q synchronize_rcu) (locks_update (\<lambda>m. m(k := False)) t)"
  have run: "blk_queue_bypass_start E q s = Some u"
  proof -
    have e: "locks_update (\<lambda>m. m(k := False)) (locks_update (\<lambda>m. m(k := True)) x) = x" if "\<not> locks x k" for x
      using that by (cases x) (simp add: fun_upd_idem)
    have i: "blk_queue_init_done (queues v q)"
      using init by (simp add: v_def queue_flag_set_def test_qflag_def bit_set_bit_iff)
    have 1: "lock_q q s = Some (locks_update (\<lambda>m. m(k := True)) s)"
      using quiet by (simp add: spin_lock_def quiet_queue_def k_def)
    have 2: "queue_flag_set QUEUE_FLAG_BYPASS q (upd_q q (bypass_depth_update (\<lambda>n. n + 1))
        (locks_update (\<lambda>m. m(k := True)) s)) = w"
      by (simp add: w_def v_def queue_flag_set_def)
    have 3: "unlock_q q w = Some v"
      using free by (simp add: spin_unlock_def lk w_def lk(1) e)
    have 4: "lock_q q v = Some w" using free by (simp add: spin_lock_def lk w_def)
    have 5: "unlock_q q t = Some (locks_update (\<lambda>m. m(k := False)) t)"
      using lt by (simp add: spin_unlock_def)
    show ?thesis
      unfolding blk_queue_bypass_start_def by (simp add: 1 2 3 4 5 i t(1) u_def Let_def del: spin_lock_eq_Some spin_unlock_eq_Some)
  qed
  have "locks u = locks v"
    using t(3) free by (auto simp: u_def drain_frame_def w_def fun_upd_idem_iff)
  then have "drain_frame v u"
    using t(3) by (simp add: drain_frame_def u_def w_def)
  moreover have "elv_sorted_ok E q g u" "greedy_pending g u = {#}"
    "linked u (QHead q) = linked s (QHead q) @ rs"
    using t by (simp_all add: u_def elv_sorted_ok_def lists_ok_def greedy_installed_def greedy_pending_def)
  ultimately show ?thesis using run t(6) unfolding v_def by blast
qed

section \<open>The steps of a switch\<close>

text \<open>What registering a scheduler instance with sysfs changes: the trace and the mark.\<close>

definition sw_frame :: "kst \<Rightarrow> kst \<Rightarrow> bool" where
  "sw_frame x y \<longleftrightarrow> linked y = linked x \<and> queues y = queues x \<and> module_refs y = module_refs x \<and>
     heap_next y = heap_next x \<and> alloc_fails y = alloc_fails x \<and> etypes y = etypes x \<and> elv_list y = elv_list x \<and>
     locks y = locks x \<and> rqs y = rqs x \<and>
     (\<forall>e. (elvqs y e)\<lparr>registered := False\<rparr> = (elvqs x e)\<lparr>registered := False\<rparr>)"

lemma sw_frame_refl [simp]: "sw_frame x x"
  by (simp add: sw_frame_def)

lemma sw_frame_elvq:
  assumes "sw_frame x y"
  shows "eq_type (elvqs y e) = eq_type (elvqs x e)" and "eq_kref (elvqs y e) = eq_kref (elvqs x e)"
    and "elevator_data (elvqs y e) = elevator_data (elvqs x e)"
proof -
  have e: "(elvqs y e)\<lparr>registered := False\<rparr> = (elvqs x e)\<lparr>registered := False\<rparr>"
    using assms by (simp add: sw_frame_def)
  show "eq_type (elvqs y e) = eq_type (elvqs x e)" and "eq_kref (elvqs y e) = eq_kref (elvqs x e)"
    and "elevator_data (elvqs y e) = elevator_data (elvqs x e)"
    using e [THEN arg_cong, of eq_type] e [THEN arg_cong, of eq_kref]
      e [THEN arg_cong, of elevator_data] by simp_all
qed

lemma elv_register_queue_greedy:
  assumes "elevator (queues x q) = Some e" and "et_ops E (eq_type (elvqs x e)) = elevator_greedy E"
    and "elevator_attrs (etypes x (eq_type (elvqs x e))) = None"
  shows "\<exists>y. elv_register_queue E q x = Some (kobject_add_elv E e q x, y) \<and> sw_frame x y"
  using assms
  by (cases "kobject_add_elv E e q x") (simp_all add: elv_register_queue_def Let_def elevator_greedy_def sw_frame_def)

lemma elv_unregister_queue_frame:
  assumes "elevator (queues x q) = Some e"
  shows "\<exists>y. elv_unregister_queue (Some q) x = Some y \<and> sw_frame x y"
  using assms by (simp add: elv_unregister_queue_def Let_def sw_frame_def)

lemma elevator_exit_greedy:
  assumes "et_ops E (eq_type (elvqs x e)) = elevator_greedy E" and "elevator_data (elvqs x e) = Some g"
    and "linked x (GHigher g) = []" "linked x (GLower g) = []" and "eq_kref (elvqs x e) = 1"
    and "\<not> locks x (EqSysfsMutex e)"
  shows "\<exists>y. elevator_exit E e x = Some y \<and> linked y = linked x \<and> queues y = queues x \<and>
    module_refs y = (module_refs x)(eq_type (elvqs x e) := module_refs x (eq_type (elvqs x e)) - 1) \<and>
    locks y = locks x \<and> etypes y = etypes x \<and> elv_list y = elv_list x \<and> (\<forall>e'. e' \<noteq> e \<longrightarrow> elvqs y e' = elvqs x e')"
  using assms
  by (simp add: elevator_exit_def elevator_greedy_def greedy_exit_queue_def spin_lock_def
      spin_unlock_def kobject_put_elv_def elevator_release_def elevator_put_def Let_def fun_upd_idem_iff)

text \<open>What \<open>elv_iosched_show\<close> reads besides the scheduler of the queue.\<close>

definition reg_view :: "qid \<Rightarrow> kst \<Rightarrow> etid list \<times> (etid \<Rightarrow> elevator_type) \<times> bool \<times> bool" where
  "reg_view q s = (elv_list s, etypes s, locks s ElvListLock, blk_queue_stackable (queues s q))"

lemma bypass_end_frame:
  assumes "\<not> locks x (queue_lock (queues x q))"
  shows "\<exists>y. blk_queue_bypass_end q x = Some y \<and> linked y = linked x \<and> elvqs y = elvqs x \<and>
    module_refs y = module_refs x \<and> locks y = locks x \<and>
    elevator (queues y q) = elevator (queues x q) \<and>
    bypass_depth (queues y q) = bypass_depth (queues x q) - 1 \<and> reg_view q y = reg_view q x"
  using assms
  by (auto simp: blk_queue_bypass_end_def spin_lock_def spin_unlock_def Let_def queue_flag_clear_def
      fun_upd_idem_iff reg_view_def test_qflag_def bit_unset_bit_iff)

lemma switch_back_greedy:
  assumes "et_ops E (eq_type (elvqs x old)) = elevator_greedy E"
    and "elevator_attrs (etypes x (eq_type (elvqs x old))) = None"
    and "\<not> locks x (queue_lock (queues x q))"
  shows "\<exists>y. elevator_switch_back E q old err x = Some (Some err, y) \<and> linked y = linked x \<and>
    module_refs y = module_refs x \<and> locks y = locks x \<and> elevator (queues y q) = Some old \<and>
    bypass_depth (queues y q) = bypass_depth (queues x q) - 1 \<and> reg_view q y = reg_view q x \<and>
    eq_type (elvqs y old) = eq_type (elvqs x old)"
proof -
  define v where "v = upd_q q (elevator_update (\<lambda>_. Some old)) x"
  have v: "elevator (queues v q) = Some old" "elvqs v = elvqs x" "etypes v = etypes x"
    "linked v = linked x" "module_refs v = module_refs x" "locks v = locks x"
    "queue_lock (queues v q) = queue_lock (queues x q)"
    "bypass_depth (queues v q) = bypass_depth (queues x q)" "reg_view q v = reg_view q x"
    by (simp_all add: v_def reg_view_def test_qflag_def)
  from elv_register_queue_greedy [OF v(1), of E] assms(1,2) obtain w where
    w: "elv_register_queue E q v = Some (kobject_add_elv E old q v, w)" "sw_frame v w"
    by (auto simp: v)
  from bypass_end_frame [of w q] assms(3) w(2) v obtain y where
    y: "blk_queue_bypass_end q w = Some y" "linked y = linked x" "module_refs y = module_refs x"
      "locks y = locks x" "elevator (queues y q) = Some old"
      "bypass_depth (queues y q) = bypass_depth (queues x q) - 1" "reg_view q y = reg_view q w" "elvqs y = elvqs w"
    by (auto simp: sw_frame_def)
  moreover have "reg_view q w = reg_view q x" using v(9) w(2) by (simp add: reg_view_def sw_frame_def)
  moreover have "eq_type (elvqs w old) = eq_type (elvqs x old)" using sw_frame_elvq(1) [OF w(2)] v(2) by simp
  moreover have "elevator_switch_back E q old err x = Some (Some err, y)"
    using w(1) y(1) by (simp add: elevator_switch_back_def Let_def v_def [symmetric])
  ultimately show ?thesis by auto
qed

text \<open>The state in which the new scheduler is initialised.\<close>

definition switch_ready :: "kenv \<Rightarrow> qid \<Rightarrow> etid \<Rightarrow> eqid \<Rightarrow> gdid \<Rightarrow> kst \<Rightarrow> bool" where
  "switch_ready E q t old g x \<longleftrightarrow> elevator (queues x q) = Some old \<and>
     elevator_data (elvqs x old) = Some g \<and> et_ops E (eq_type (elvqs x old)) = elevator_greedy E \<and>
     et_ops E t = elevator_greedy E \<and> greedy_pending g x = {#} \<and> eq_kref (elvqs x old) = 1 \<and>
     elevator_attrs (etypes x (eq_type (elvqs x old))) = None \<and> elevator_attrs (etypes x t) = None \<and>
     \<not> locks x (queue_lock (queues x q)) \<and> \<not> locks x (EqSysfsMutex old) \<and> heap_next x \<noteq> old"

lemma switch_prepare:
  assumes ok: "elv_sorted_ok E q g s" and old: "elevator (queues s q) = Some old"
    and quiet: "quiet_queue E q s" and init: "blk_queue_init_done (queues s q)"
    and eq: "eq_kref (elvqs s old) = 1" "\<not> locks s (EqSysfsMutex old)" "heap_next s \<noteq> old"
    and new: "et_ops E t = elevator_greedy E"
    and attrs: "elevator_attrs (etypes s t) = None"
      "elevator_attrs (etypes s (eq_type (elvqs s old))) = None"
  shows "\<exists>w x rs. blk_queue_bypass_start E q s = Some w \<and>
    (if registered (elvqs s old) then elv_unregister_queue (Some q) w else Some w) = Some x \<and>
    switch_ready E q t old g x \<and> eq_type (elvqs x old) = eq_type (elvqs s old) \<and>
    linked x (QHead q) = linked s (QHead q) @ rs \<and> mset rs = greedy_pending g s \<and>
    module_refs x = module_refs s \<and> locks x = locks s \<and> heap_next x = heap_next s \<and>
    alloc_fails x = alloc_fails s \<and> bypass_depth (queues x q) = bypass_depth (queues s q) + 1 \<and>
    reg_view q x = reg_view q s"
proof -
  define v where "v = queue_flag_set QUEUE_FLAG_BYPASS q (upd_q q (bypass_depth_update (\<lambda>n. n + 1)) s)"
  from bypass_start_quiet [OF ok quiet init] obtain w rs where
    w: "blk_queue_bypass_start E q s = Some w" "elv_sorted_ok E q g w" "drain_frame v w"
      "greedy_pending g w = {#}" "linked w (QHead q) = linked s (QHead q) @ rs"
      "mset rs = greedy_pending g s"
    unfolding v_def by blast
  have v: "elevator (queues v q) = Some old" "queue_lock (queues v q) = queue_lock (queues s q)"
    "bypass_depth (queues v q) = bypass_depth (queues s q) + 1" "elvqs v = elvqs s"
    "locks v = locks s" "module_refs v = module_refs s" "heap_next v = heap_next s"
    "alloc_fails v = alloc_fails s" "etypes v = etypes s"
    "reg_view q v = reg_view q s"
    using old by (simp_all add: v_def queue_flag_set_def reg_view_def test_qflag_def bit_set_bit_iff)
  have qc: "queue_core (queues w q) = queue_core (queues v q)"
    and ec: "elvq_core (elvqs w old) = elvq_core (elvqs v old)"
    using w(3) by (simp_all add: drain_frame_def)
  note qd = queue_core_eqD [OF qc] and ed = elvq_core_eqD [OF ec]
  have gd: "elevator_data (elvqs w old) = Some g \<and> et_ops E (eq_type (elvqs w old)) = elevator_greedy E"
    using w(2) qd(1) v(1) by (auto simp: elv_sorted_ok_def greedy_installed_def)
  have "\<exists>x. (if registered (elvqs s old) then elv_unregister_queue (Some q) w else Some w) = Some x \<and> sw_frame w x"
    using elv_unregister_queue_frame [of w q old] qd(1) v(1) by auto
  then obtain x where
    x: "(if registered (elvqs s old) then elv_unregister_queue (Some q) w else Some w) = Some x" "sw_frame w x"
    by blast
  note xe = sw_frame_elvq [OF x(2), of old]
  have "switch_ready E q t old g x"
    using x(2) xe gd w(3,4) qd ed v eq new attrs quiet
    by (simp add: switch_ready_def sw_frame_def drain_frame_def greedy_pending_def quiet_queue_def)
  moreover have "linked x (QHead q) = linked s (QHead q) @ rs" "module_refs x = module_refs s"
    "locks x = locks s" "heap_next x = heap_next s" "alloc_fails x = alloc_fails s"
    "bypass_depth (queues x q) = bypass_depth (queues s q) + 1"
    "eq_type (elvqs x old) = eq_type (elvqs s old)"
    using x(2) xe w(3,5) qd ed v by (simp_all add: sw_frame_def drain_frame_def)
  moreover have "reg_view q x = reg_view q s"
    using x(2) w(3) qd v(10) by (simp add: reg_view_def sw_frame_def drain_frame_def test_qflag_def)
  ultimately show ?thesis using w(1,6) x(1) by blast
qed

text \<open>The outcome of a switch, and of its second half alone.\<close>

definition switch_outcome ::
  "kenv \<Rightarrow> qid \<Rightarrow> etid \<Rightarrow> eqid \<Rightarrow> gdid \<Rightarrow> kst \<Rightarrow> errno option \<Rightarrow> kst \<Rightarrow> bool" where
  "switch_outcome E q t old g s err u \<longleftrightarrow> reg_view q u = reg_view q s \<and>
     (case err of
        None \<Rightarrow> elevator (queues u q) = Some (heap_next s) \<and> eq_type (elvqs u (heap_next s)) = t \<and>
          (\<exists>g'. greedy_installed E q g' u \<and> greedy_pending g' u = {#}) \<and>
          module_refs u = (module_refs s)
            (eq_type (elvqs s old) := module_refs s (eq_type (elvqs s old)) - 1)
      | Some _ \<Rightarrow> elevator (queues u q) = Some old \<and> eq_type (elvqs u old) = eq_type (elvqs s old) \<and>
          greedy_pending g u = {#} \<and>
          module_refs u = (module_refs s)
            (t := module_refs s t - (if alloc_fails s (heap_next s) then 0 else 1)))"

definition elevator_switch_rest :: "kenv \<Rightarrow> qid \<Rightarrow> etid \<Rightarrow> eqid \<Rightarrow> bool \<Rightarrow> kst \<Rightarrow> (errno option \<times> kst) option"
where
  "elevator_switch_rest E q new_e old was_registered s = do {
     (err, s) \<leftarrow> elevator_init_fn (et_ops E new_e) q new_e s;
     (case err of
        Some er \<Rightarrow> elevator_switch_back E q old er s
      | None \<Rightarrow> do {
          (err, s) \<leftarrow> (if was_registered then elv_register_queue E q s else Some (None, s));
          (case err of
             Some er \<Rightarrow> do {
               e \<leftarrow> elevator (queues s q);
               s \<leftarrow> elevator_exit E e s;
               elevator_switch_back E q old er s
             }
           | None \<Rightarrow> do {
               s \<leftarrow> elevator_exit E old s;
               s \<leftarrow> blk_queue_bypass_end q s;
               Some (None, s)
             })
        })
   }"

lemma switch_rest_fail:
  assumes r: "switch_ready E q t old g x" and f: "\<not> greedy_init_ok x"
  shows "\<exists>err u. elevator_switch_rest E q t old b x = Some (Some err, u) \<and> linked u = linked x \<and>
    switch_outcome E q t old g x (Some err) u \<and> bypass_depth (queues u q) = bypass_depth (queues x q) - 1"
proof -
  have ops: "elevator_init_fn (et_ops E t) = greedy_init_queue"
    using r by (simp add: switch_ready_def elevator_greedy_def)
  from r have free: "\<not> locks x (queue_lock (queues x q))" by (simp add: switch_ready_def)
  from greedy_init_queue_outcome [OF free, of t] obtain err v where
    v: "greedy_init_queue q t x = Some (err, v)" "greedy_init_outcome q t x err v"
    by blast
  have err: "err = Some ENOMEM" using v(2) f by (simp add: greedy_init_outcome_def)
  have e: "elvqs v old = elvqs x old" "etypes v = etypes x" "linked v = linked x" "queues v = queues x"
    "\<not> locks v (queue_lock (queues x q))"
    using v(2) r f by (auto simp: greedy_init_outcome_def switch_ready_def)
  have "\<exists>y. elevator_switch_back E q old ENOMEM v = Some (Some ENOMEM, y) \<and> linked y = linked v \<and>
    module_refs y = module_refs v \<and> locks y = locks v \<and> elevator (queues y q) = Some old \<and>
    bypass_depth (queues y q) = bypass_depth (queues v q) - 1 \<and> reg_view q y = reg_view q v \<and>
    eq_type (elvqs y old) = eq_type (elvqs v old)"
    by (rule switch_back_greedy) (use e r in \<open>simp_all add: switch_ready_def\<close>)
  then obtain u where u: "elevator_switch_back E q old ENOMEM v = Some (Some ENOMEM, u)"
    "linked u = linked v" "module_refs u = module_refs v" "elevator (queues u q) = Some old"
    "bypass_depth (queues u q) = bypass_depth (queues v q) - 1" "reg_view q u = reg_view q v"
    "eq_type (elvqs u old) = eq_type (elvqs v old)"
    by blast
  have rv: "reg_view q v = reg_view q x" using v(2) f by (simp add: greedy_init_outcome_def reg_view_def)
  have "elevator_switch_rest E q t old b x = Some (Some ENOMEM, u)"
    using v(1) u(1) by (simp add: elevator_switch_rest_def ops err)
  moreover have "switch_outcome E q t old g x (Some ENOMEM) u"
    using u e(1,3) rv v(2) f r
    by (auto simp: switch_outcome_def greedy_init_outcome_def greedy_init_refs_def greedy_init_ok_def
        switch_ready_def greedy_pending_def)
  ultimately show ?thesis using u(2,5) e(3,4) by auto
qed

lemma switch_rest_ok:
  assumes r: "switch_ready E q t old g x" and f: "greedy_init_ok x"
  shows "\<exists>err u. elevator_switch_rest E q t old b x = Some (err, u) \<and>
    linked u (QHead q) = linked x (QHead q) \<and>
    switch_outcome E q t old g x err u \<and> bypass_depth (queues u q) = bypass_depth (queues x q) - 1"
proof -
  define n where "n = heap_next x"
  have ops: "elevator_init_fn (et_ops E t) = greedy_init_queue"
    using r by (simp add: switch_ready_def elevator_greedy_def)
  from r have free: "\<not> locks x (queue_lock (queues x q))" and ne: "old \<noteq> n"
    by (simp_all add: switch_ready_def n_def)
  from greedy_init_queue_outcome [OF free, of t] obtain err v where
    v: "greedy_init_queue q t x = Some (err, v)" "greedy_init_outcome q t x err v"
    by blast
  note o = v(2) [unfolded greedy_init_outcome_def]
  have err: "err = None" and nf: "\<not> alloc_fails x (heap_next x)"
    using o f by (simp_all add: greedy_init_ok_def)
  have rf: "greedy_init_refs x = 0" using f by (simp add: greedy_init_ok_def greedy_init_refs_def)
  have vq: "elevator (queues v q) = Some n" "queue_lock (queues v q) = queue_lock (queues x q)"
    "bypass_depth (queues v q) = bypass_depth (queues x q)"
    using o f by (simp_all add: n_def)
  have ve: "eq_type (elvqs v n) = t" "elevator_data (elvqs v n) = Some (Suc n)" "eq_kref (elvqs v n) = 1"
    "elvqs v old = elvqs x old" "etypes v = etypes x"
    using o f ne by (simp_all add: n_def)
  have vl: "linked v (GHigher (Suc n)) = []" "linked v (GLower (Suc n)) = []"
    "linked v (GHigher g) = []" "linked v (GLower g) = []" "linked v (QHead q) = linked x (QHead q)"
    "module_refs v = module_refs x" "\<not> locks v (queue_lock (queues x q))" 
    "\<not> locks v (EqSysfsMutex n)" "\<not> locks v (EqSysfsMutex old)"
    using o f r nf by (auto simp: n_def switch_ready_def greedy_pending_def rf)
  have rv: "reg_view q v = reg_view q x" using o f by (simp add: reg_view_def test_qflag_def)
  have "\<exists>e y. (if b then elv_register_queue E q v else Some (None, v)) = Some (e, y) \<and> sw_frame v y"
    using elv_register_queue_greedy [OF vq(1), of E] r ve by (auto simp: switch_ready_def)
  then obtain e y where y: "(if b then elv_register_queue E q v else Some (None, v)) = Some (e, y)"
    "sw_frame v y"
    by blast
  note ys = y(2) [unfolded sw_frame_def] and yn = sw_frame_elvq [OF y(2), of n]
    and yo = sw_frame_elvq [OF y(2), of old]
  show ?thesis
  proof (cases e)
    case (Some er)
    have "\<exists>z. elevator_exit E n y = Some z \<and> linked z = linked y \<and> queues z = queues y \<and>
      module_refs z = (module_refs y)(eq_type (elvqs y n) := module_refs y (eq_type (elvqs y n)) - 1) \<and>
      locks z = locks y \<and> etypes z = etypes y \<and> elv_list z = elv_list y \<and> (\<forall>e'. e' \<noteq> n \<longrightarrow> elvqs z e' = elvqs y e')"
      by (rule elevator_exit_greedy [where g = "Suc n"]) (use r ve vl yn ys in \<open>simp_all add: switch_ready_def\<close>)
    then obtain z where z: "elevator_exit E n y = Some z" "linked z = linked y" "queues z = queues y"
      "module_refs z = (module_refs x)(t := module_refs x t - 1)" "locks z = locks y"
      "etypes z = etypes y" "elvqs z old = elvqs y old" "elv_list z = elv_list y"
      using yn(1) ve(1) ys vl(6) ne by auto
    have "\<exists>u. elevator_switch_back E q old er z = Some (Some er, u) \<and> linked u = linked z \<and>
      module_refs u = module_refs z \<and> locks u = locks z \<and> elevator (queues u q) = Some old \<and>
      bypass_depth (queues u q) = bypass_depth (queues z q) - 1 \<and> reg_view q u = reg_view q z \<and>
      eq_type (elvqs u old) = eq_type (elvqs z old)"
      by (rule switch_back_greedy) (use r z yo ys ve vq vl in \<open>simp_all add: switch_ready_def\<close>)
    then obtain u where u: "elevator_switch_back E q old er z = Some (Some er, u)" "linked u = linked z"
      "module_refs u = module_refs z" "elevator (queues u q) = Some old"
      "bypass_depth (queues u q) = bypass_depth (queues z q) - 1" "reg_view q u = reg_view q z"
      "eq_type (elvqs u old) = eq_type (elvqs z old)"
      by blast
    have "reg_view q z = reg_view q x" using z(3,5,6,8) ys rv by (simp add: reg_view_def)
    moreover have "elevator_switch_rest E q t old b x = Some (Some er, u)"
      using v(1) y(1) z(1) u(1) ys vq(1) by (simp add: elevator_switch_rest_def ops err Some)
    moreover have "switch_outcome E q t old g x (Some er) u"
      using u z ys yo vl ve nf \<open>reg_view q z = reg_view q x\<close> by (simp add: switch_outcome_def greedy_pending_def)
    ultimately show ?thesis using u(2,5) z(2,3) ys vl(5) vq(3) by auto
  next
    case None
    have "\<exists>z. elevator_exit E old y = Some z \<and> linked z = linked y \<and> queues z = queues y \<and>
      module_refs z = (module_refs y)(eq_type (elvqs y old) := module_refs y (eq_type (elvqs y old)) - 1) \<and>
      locks z = locks y \<and> etypes z = etypes y \<and> elv_list z = elv_list y \<and> (\<forall>e'. e' \<noteq> old \<longrightarrow> elvqs z e' = elvqs y e')"
      by (rule elevator_exit_greedy [where g = g]) (use r ve vl yo ys in \<open>simp_all add: switch_ready_def\<close>)
    then obtain z where z: "elevator_exit E old y = Some z" "linked z = linked y" "queues z = queues y"
      "module_refs z = (module_refs x)(eq_type (elvqs x old) := module_refs x (eq_type (elvqs x old)) - 1)"
      "locks z = locks y" "elvqs z n = elvqs y n" "etypes z = etypes y" "elv_list z = elv_list y"
      using yo(1) ve(4) ys vl(6) ne by auto
    from bypass_end_frame [of z q] z ys vl vq obtain u where
      u: "blk_queue_bypass_end q z = Some u" "linked u = linked z" "elvqs u = elvqs z"
        "module_refs u = module_refs z" "elevator (queues u q) = Some n"
        "bypass_depth (queues u q) = bypass_depth (queues x q) - 1" "reg_view q u = reg_view q z"
      by auto
    have "reg_view q z = reg_view q x" using z(3,5,7,8) ys rv by (simp add: reg_view_def)
    have "elevator_switch_rest E q t old b x = Some (None, u)"
      using v(1) y(1) z(1) u(1) by (simp add: elevator_switch_rest_def ops err None)
    moreover have "greedy_installed E q (Suc n) u" "greedy_pending (Suc n) u = {#}"
      using u(2,3,5) z(2,6) yn ve(1,2) r vl(1,2) ys
      by (simp_all add: greedy_installed_def greedy_pending_def switch_ready_def)
    then have "switch_outcome E q t old g x None u"
      using u(3-5,7) z(4,6) yn(1) ve(1) \<open>reg_view q z = reg_view q x\<close> by (auto simp: switch_outcome_def n_def)
    ultimately show ?thesis using u(2,6) z(2) ys vl(5) by auto
  qed
qed

lemma elevator_switch_eq:
  assumes "elevator (queues s q) = Some old" and "blk_queue_bypass_start E q s = Some w"
    and "(if registered (elvqs s old) then elv_unregister_queue (Some q) w else Some w) = Some x"
    and "\<not> locks x (queue_lock (queues x q))" and "\<And>y. ioc_clear_queue E q y = y"
  shows "elevator_switch E q t s = elevator_switch_rest E q t old (registered (elvqs s old)) x"
  using assms
  by (simp add: elevator_switch_def elevator_switch_rest_def Let_def spin_lock_def spin_unlock_def)

lemma elevator_switch_run:
  assumes ok: "elv_sorted_ok E q g s" and old: "elevator (queues s q) = Some old"
    and quiet: "quiet_queue E q s" and init: "blk_queue_init_done (queues s q)"
    and eq: "eq_kref (elvqs s old) = 1" "\<not> locks s (EqSysfsMutex old)" "heap_next s \<noteq> old"
    and new: "et_ops E t = elevator_greedy E" and icq: "\<And>y. ioc_clear_queue E q y = y"
    and attrs: "elevator_attrs (etypes s t) = None"
      "elevator_attrs (etypes s (eq_type (elvqs s old))) = None"
  shows "\<exists>err u rs. elevator_switch E q t s = Some (err, u) \<and>
    linked u (QHead q) = linked s (QHead q) @ rs \<and> mset rs = greedy_pending g s \<and>
    bypass_depth (queues u q) = bypass_depth (queues s q) \<and> switch_outcome E q t old g s err u"
proof -
  from switch_prepare [OF ok old quiet init eq new attrs] obtain w x rs where
    x: "blk_queue_bypass_start E q s = Some w"
      "(if registered (elvqs s old) then elv_unregister_queue (Some q) w else Some w) = Some x"
      "switch_ready E q t old g x" "eq_type (elvqs x old) = eq_type (elvqs s old)"
      "linked x (QHead q) = linked s (QHead q) @ rs" "mset rs = greedy_pending g s"
      "module_refs x = module_refs s" "heap_next x = heap_next s" "alloc_fails x = alloc_fails s"
      "bypass_depth (queues x q) = bypass_depth (queues s q) + 1" "reg_view q x = reg_view q s"
    by blast
  have sw: "elevator_switch E q t s = elevator_switch_rest E q t old (registered (elvqs s old)) x"
    by (rule elevator_switch_eq [OF old x(1,2) _ icq]) (use x(3) in \<open>simp add: switch_ready_def\<close>)
  have out: "switch_outcome E q t old g s err u = switch_outcome E q t old g x err u" for err u
    unfolding switch_outcome_def x(4,7,8,9,11) by (rule refl)
  show ?thesis
  proof (cases "greedy_init_ok x")
    case True
    from switch_rest_ok [OF x(3) this, of "registered (elvqs s old)"] show ?thesis
      using x(5,6,10) by (auto simp: sw out)
  next
    case False
    from switch_rest_fail [OF x(3) this, of "registered (elvqs s old)"] show ?thesis
      using x(5,6,10) by (auto simp: sw out)
  qed
qed


section \<open>Bypass mode is entered and left in pairs\<close>

definition bypass_ok :: "qid \<Rightarrow> kst \<Rightarrow> bool" where
  "bypass_ok q s \<longleftrightarrow> 0 \<le> bypass_depth (queues s q) \<and>
     (blk_queue_bypass (queues s q) \<longleftrightarrow> bypass_depth (queues s q) \<noteq> 0)"


section \<open>Initialising a queue's scheduler\<close>

text \<open>
  C36: \<open>elevator_init\<close> with the name of a registered greedy scheduler takes one reference to the
  module if it succeeds, and the queue then has the new, empty scheduler. If the first allocation
  of the scheduler fails, the reference is dropped again. If only the second one fails, it is
  dropped twice, by \<open>elevator_release\<close> and by \<open>elevator_init\<close> itself, so the module has one
  reference less than before the call.
\<close>

theorem elevator_init_references:
  assumes none: "elevator (queues s q) = None" and find: "elevator_find n s = Some t"
    and ops: "et_ops E t = elevator_greedy E" and mod: "\<And>x. try_module_get E t x"
    and free: "\<not> locks s ElvListLock" "\<not> locks s (queue_lock (queues s q))"
  shows "\<exists>err u. elevator_init E q (Some n) s = Some (err, u) \<and>
    (err = None \<longleftrightarrow> greedy_init_ok s) \<and>
    (if greedy_init_ok s
     then greedy_installed E q (Suc (heap_next s)) u \<and> greedy_pending (Suc (heap_next s)) u = {#} \<and>
       module_refs u t = module_refs s t + 1
     else elevator (queues u q) = None \<and>
       module_refs u t = module_refs s t - (if alloc_fails s (heap_next s) then 0 else 1))"
proof -
  define v where "v = upd_q q (\<lambda>x. x\<lparr>last_merge := None, end_sector := 0, boundary_rq := None\<rparr>)
    (upd_list (QHead q) (\<lambda>_. []) s)"
  have fv: "\<not> locks v ElvListLock" "elevator_find n v = Some t"
    using free(1) find by (simp_all add: v_def elevator_find_def)
  define w where "w = module_refs_update (\<lambda>m. m(t := m t + 1)) v"
  have choose: "elevator_choose E (Some n) v = Some (Inr (Some t), w)"
    by (simp add: elevator_choose_def elevator_get_found [OF fv mod] w_def)
  have w: "heap_next w = heap_next s" "alloc_fails w = alloc_fails s"
    "module_refs w = (module_refs s)(t := module_refs s t + 1)"
    "\<not> locks w (queue_lock (queues w q))" "elevator (queues w q) = None"
    "greedy_init_ok w = greedy_init_ok s" "greedy_init_refs w = greedy_init_refs s"
    using free(2) none by (simp_all add: w_def v_def greedy_init_ok_def greedy_init_refs_def)
  from greedy_init_queue_outcome [OF w(4), of t] obtain err u where
    u: "greedy_init_queue q t w = Some (err, u)" "greedy_init_outcome q t w err u"
    by blast
  define y where "y = (if err \<noteq> None then elevator_put t u else u)"
  have "elevator_init E q (Some n) s = Some (err, y)"
    unfolding elevator_init_def Let_def v_def [symmetric]
    using none u(1) choose by (simp add: ops elevator_greedy_def y_def)
  moreover have "err = None \<longleftrightarrow> greedy_init_ok s"
    using u(2) w(6) by (simp add: greedy_init_outcome_def)
  moreover have "greedy_installed E q (Suc (heap_next s)) y \<and> greedy_pending (Suc (heap_next s)) y = {#} \<and>
      module_refs y t = module_refs s t + 1" if "greedy_init_ok s"
    using that u(2) w ops
    by (simp add: greedy_init_outcome_def y_def greedy_installed_def greedy_pending_def
        greedy_init_refs_def greedy_init_ok_def)
  moreover have "elevator (queues y q) = None \<and>
      module_refs y t = module_refs s t - (if alloc_fails s (heap_next s) then 0 else 1)"
    if "\<not> greedy_init_ok s"
    using that u(2) w
    by (auto simp: greedy_init_outcome_def y_def greedy_init_refs_def greedy_init_ok_def elevator_put_def)
  ultimately show ?thesis by auto
qed

section \<open>Concrete runs\<close>

text \<open>
  A stopped, initialised queue whose greedy scheduler 7 holds the requests 1 and 2; type 5 has
  the name of the greedy scheduler and is registered.
\<close>

definition switch_state :: kst where
  "switch_state = greedy_busy
     \<lparr>queues := (\<lambda>_. queue_zero\<lparr>elevator := Some 7, nr_sorted := 2,
        queue_flags := set_bit (qbit QUEUE_FLAG_STOPPED) (set_bit (qbit QUEUE_FLAG_INIT_DONE) 0)\<rparr>),
      elvqs := (\<lambda>_. eq_zero\<lparr>elevator_data := Some 8, eq_kref := 1\<rparr>),
      etypes := (\<lambda>_. et_zero)(5 := et_zero\<lparr>elevator_name := ''greedy''\<rparr>), elv_list := [5],
      module_refs := (\<lambda>_. 1)\<rparr>"

lemma greedy_env_calls:
  "et_ops greedy_env t = elevator_greedy greedy_env" "ioc_clear_queue greedy_env q y = y"
  "blkcg_drain_queue greedy_env q y = y" "try_module_get greedy_env t y"
  by (simp add: elevator_greedy_env, simp_all add: greedy_env_def env_zero_def)

lemma switch_state_ok:
  "elv_sorted_ok greedy_env 0 8 switch_state" "quiet_queue greedy_env 0 switch_state"
  "blk_queue_init_done (queues switch_state 0)" "elevator (queues switch_state 0) = Some 7"
  "greedy_pending 8 switch_state = {#1, 2#}" "bypass_ok 0 switch_state"
proof -
  have "lists_ok switch_state = lists_ok greedy_busy"
    by (rule lists_ok_cong) (simp_all add: switch_state_def)
  then show "elv_sorted_ok greedy_env 0 8 switch_state"
    using greedy_busy_ok by (simp add: elv_sorted_ok_def greedy_installed_def elevator_greedy_env
        switch_state_def greedy_pending_def eq_zero_def)
  show "greedy_pending 8 switch_state = {#1, 2#}"
    using greedy_busy_ok(2) by (simp add: switch_state_def greedy_pending_def)
qed (simp_all add: quiet_queue_def switch_state_def test_qflag_def bit_set_bit_iff queue_zero_def
      greedy_busy_def greedy_both_def greedy_two_def kst_zero_def greedy_env_calls bypass_ok_def)



text \<open>The second of two allocations fails, and the module loses a reference.\<close>

lemma elevator_init_references_witness:
  "\<exists>err u. elevator_init greedy_env 0 (Some ''greedy'')
     (switch_state\<lparr>queues := (\<lambda>_. queue_zero), alloc_fails := (\<lambda>a. a = 101)\<rparr>) = Some (err, u) \<and>
     err \<noteq> None \<and> module_refs u 5 = 0"
proof -
  define s where "s = switch_state\<lparr>queues := (\<lambda>_. queue_zero), alloc_fails := (\<lambda>a. a = 101)\<rparr>"
  have f: "elevator (queues s 0) = None" "elevator_find ''greedy'' s = Some 5"
    "\<not> locks s ElvListLock" "\<not> locks s (queue_lock (queues s 0))"
    and g: "\<not> greedy_init_ok s" "\<not> alloc_fails s (heap_next s)" "module_refs s 5 = 1"
    by (simp_all add: s_def switch_state_def queue_zero_def elevator_find_def
        et_zero_def greedy_busy_def greedy_both_def greedy_two_def kst_zero_def greedy_init_ok_def)
  from elevator_init_references [OF f(1,2) greedy_env_calls(1,4) f(3,4)] g show ?thesis unfolding s_def by auto
qed

end
