(* ===== verification/Elv_Sysfs.thy ===== *)
theory Elv_Sysfs
  imports Elv_Life
begin

text \<open>
  The files of a scheduler in sysfs: the access to the attributes of an elevator (\<open>elv_attr_show\<close>,
  \<open>elv_attr_store\<close>), the module of the greedy scheduler, and the file \<open>queue/scheduler\<close>: what is
  written to it is what is read back.
\<close>

section \<open>The attributes of an elevator\<close>

text \<open>
  An attribute has functions for reading and writing, or not. \<open>typed\<close> says that \<open>e->type\<close> is not
  \<open>NULL\<close>, as in every elevator that \<open>elevator_alloc\<close> has made.
\<close>

record elv_fs_entry =
  attr_name :: string
  attr_show :: "(eqid \<Rightarrow> kst \<Rightarrow> ((errno + string) \<times> kst) option) option"
  attr_store :: "(eqid \<Rightarrow> string \<Rightarrow> nat \<Rightarrow> kst \<Rightarrow> ((errno + nat) \<times> kst) option) option"

definition elv_attr_show ::
  "bool \<Rightarrow> elv_fs_entry \<Rightarrow> eqid \<Rightarrow> kst \<Rightarrow> ((errno + string) \<times> kst) option" where
  "elv_attr_show typed entry e s =
     (case attr_show entry of
        None \<Rightarrow> Some (Inl EIO, s)
      | Some f \<Rightarrow> do {
          s \<leftarrow> spin_lock (EqSysfsMutex e) s;
          (res, s) \<leftarrow> (if typed then f e s else Some (Inl ENOENT, s));
          s \<leftarrow> spin_unlock (EqSysfsMutex e) s;
          Some (res, s)
        })"

definition elv_attr_store ::
  "bool \<Rightarrow> elv_fs_entry \<Rightarrow> eqid \<Rightarrow> string \<Rightarrow> nat \<Rightarrow> kst \<Rightarrow> ((errno + nat) \<times> kst) option" where
  "elv_attr_store typed entry e page len s =
     (case attr_store entry of
        None \<Rightarrow> Some (Inl EIO, s)
      | Some f \<Rightarrow> do {
          s \<leftarrow> spin_lock (EqSysfsMutex e) s;
          (res, s) \<leftarrow> (if typed then f e page len s else Some (Inl ENOENT, s));
          s \<leftarrow> spin_unlock (EqSysfsMutex e) s;
          Some (res, s)
        })"

section \<open>The module of the greedy scheduler\<close>

text \<open>The type \<open>elevator_greedy\<close> as the module is loaded, and the entry points of the module.\<close>

definition greedy_type :: elevator_type where
  "greedy_type = \<lparr>elevator_name = ''greedy'', icq_size = 0, icq_align = 0, icq_cache = False,
     elevator_attrs = None\<rparr>"

definition greedy_init :: "u64 \<Rightarrow> u64 \<Rightarrow> etid \<Rightarrow> kst \<Rightarrow> (errno option \<times> kst) option" where
  "greedy_init icq_min icq_min_align t s = elv_register icq_min icq_min_align t s"

definition greedy_exit :: "etid \<Rightarrow> kst \<Rightarrow> kst option" where
  "greedy_exit t s = elv_unregister t s"

text \<open>
  The well-formedness of the registry: the names are different, every name fits the buffer of
  \<open>__elevator_change\<close>, is not empty and has no blank or bracket in front; and a type has a cache for
  its \<open>icq\<close> exactly if it asks for one, of at least the size and alignment of \<open>struct io_cq\<close>.
\<close>

definition nice_name :: "nat \<Rightarrow> string \<Rightarrow> bool" where
  "nice_name m n \<longleftrightarrow> n \<noteq> [] \<and> length n < m \<and> CHR '' '' \<notin> set n \<and> CHR 0x0A \<notin> set n \<and>
     hd n \<noteq> CHR ''[''"

definition type_ok :: "nat \<Rightarrow> u64 \<Rightarrow> u64 \<Rightarrow> elevator_type \<Rightarrow> bool" where
  "type_ok m mn al x \<longleftrightarrow> nice_name m (elevator_name x) \<and> (icq_cache x \<longleftrightarrow> icq_size x \<noteq> 0) \<and>
     (icq_size x \<noteq> 0 \<longrightarrow> mn \<le> icq_size x \<and> al \<le> icq_align x)"

definition registry_ok :: "nat \<Rightarrow> u64 \<Rightarrow> u64 \<Rightarrow> kst \<Rightarrow> bool" where
  "registry_ok m mn al s \<longleftrightarrow> distinct (elv_names s) \<and> (\<forall>t \<in> set (elv_list s). type_ok m mn al (etypes s t))"

lemma elv_register_types:
  assumes "elv_register mn al t s = Some (None, u)"
  shows "x \<noteq> t \<Longrightarrow> etypes u x = etypes s x"
    and "etypes u t = (etypes s t)\<lparr>icq_cache := icq_size (etypes s t) \<noteq> 0 \<or> icq_cache (etypes s t)\<rparr>"
    and "icq_size (etypes s t) \<noteq> 0 \<Longrightarrow> mn \<le> icq_size (etypes s t) \<and> al \<le> icq_align (etypes s t)"
  using assms
  by (auto simp: elv_register_def Let_def kmalloc_def Option.bind_eq_Some_conv not_less
      split: if_splits option.splits prod.splits)

lemma elv_unregister_types:
  assumes "elv_unregister t s = Some u" and "x \<noteq> t"
  shows "etypes u x = etypes s x"
  using assms by (auto simp: elv_unregister_def Let_def Option.bind_eq_Some_conv split: if_splits)


lemma elv_unregister_own:
  assumes "elv_unregister t s = Some u"
  shows "etypes u = (etypes s)(t := (etypes s t)\<lparr>icq_cache := False\<rparr>)"
  using assms by (auto simp: elv_unregister_def Let_def Option.bind_eq_Some_conv fun_eq_iff split: if_splits)

lemma elv_register_returns:
  assumes "\<not> locks s ElvListLock"
  shows "\<exists>err u. elv_register mn al t s = Some (err, u) \<and>
    (err = None \<longleftrightarrow> (icq_size (etypes s t) \<noteq> 0 \<longrightarrow> mn \<le> icq_size (etypes s t) \<and> al \<le> icq_align (etypes s t) \<and>
      \<not> alloc_fails s (heap_next s)) \<and> elevator_name (etypes s t) \<notin> set (elv_names s)) \<and>
    (err \<noteq> None \<longrightarrow> elv_list u = elv_list s \<and> (\<forall>x. x \<noteq> t \<longrightarrow> etypes u x = etypes s x))"
proof -
  have names: "elv_names (locks_update f s) = elv_names s"
    "elv_names (locks_update f (etypes_update (\<lambda>m. m(t := (m t)\<lparr>icq_cache := b\<rparr>)) (heap_next_update g s)))
      = elv_names s" for f g b
    by (simp_all add: elv_names_def)
  consider "icq_size (etypes s t) = 0"
    | "icq_size (etypes s t) \<noteq> 0" "icq_size (etypes s t) < mn \<or> icq_align (etypes s t) < al"
    | "icq_size (etypes s t) \<noteq> 0" "mn \<le> icq_size (etypes s t)" "al \<le> icq_align (etypes s t)"
    by (meson not_less)
  then show ?thesis
    using assms
    by cases (auto simp: elv_register_def Let_def kmalloc_def spin_lock_def spin_unlock_def
        elevator_find_None names not_less)
qed

text \<open>
  C20: the registry of schedulers is well-formed in every state. Registering a type that is not on
  the list returns and keeps the registry well-formed, whether it succeeds or not: it succeeds
  exactly if the type asks for a cache that is big enough, and gets it, or for none, and if no
  other type has its name. A type that is registered is found under its name, every other name is
  resolved as before; unregistering it returns, and the list and the records of the types are then
  as they were. If the call fails, the list is as before.
\<close>

theorem registry_typed:
  assumes ok: "registry_ok m mn al s" and new: "t \<notin> set (elv_list s)"
    and name: "nice_name m (elevator_name (etypes s t))" and cache: "\<not> icq_cache (etypes s t)"
    and free: "\<not> locks s ElvListLock"
  shows "\<exists>err u. elv_register mn al t s = Some (err, u) \<and> registry_ok m mn al u \<and>
    (err = None \<longleftrightarrow> (icq_size (etypes s t) \<noteq> 0 \<longrightarrow> mn \<le> icq_size (etypes s t) \<and> al \<le> icq_align (etypes s t) \<and>
      \<not> alloc_fails s (heap_next s)) \<and> elevator_name (etypes s t) \<notin> set (elv_names s)) \<and>
    (case err of
       Some _ \<Rightarrow> elv_list u = elv_list s
     | None \<Rightarrow> elevator_find (elevator_name (etypes s t)) u = Some t \<and>
         (\<forall>n. n \<noteq> elevator_name (etypes s t) \<longrightarrow> elevator_find n u = elevator_find n s) \<and>
         (\<exists>v. elv_unregister t u = Some v \<and> registry_ok m mn al v \<and>
           elv_list v = elv_list s \<and> etypes v = etypes s))"
proof -
  have d: "distinct (elv_names s)" using ok by (simp add: registry_ok_def)
  from elv_register_returns [OF free] obtain err u where
    u: "elv_register mn al t s = Some (err, u)" and iff: "err = None \<longleftrightarrow> (icq_size (etypes s t) \<noteq> 0 \<longrightarrow>
      mn \<le> icq_size (etypes s t) \<and> al \<le> icq_align (etypes s t) \<and> \<not> alloc_fails s (heap_next s)) \<and>
      elevator_name (etypes s t) \<notin> set (elv_names s)"
    and bad: "err \<noteq> None \<longrightarrow> elv_list u = elv_list s \<and> (\<forall>x. x \<noteq> t \<longrightarrow> etypes u x = etypes s x)"
    by blast
  show ?thesis
  proof (cases err)
    case (Some e)
    have l: "elv_list u = elv_list s" and et: "\<And>x. x \<in> set (elv_list s) \<Longrightarrow> etypes u x = etypes s x"
      using bad Some new by auto
    have "registry_ok m mn al u"
      using ok l et by (simp add: registry_ok_def elv_names_def cong: map_cong)
    with u iff Some l show ?thesis by auto
  next
    case None
    note r = elv_register_unregister [OF d u [unfolded None]]
      and ty = elv_register_types [OF u [unfolded None]]
    have l: "elv_list u = elv_list s @ [t]" and nm: "\<And>x. elevator_name (etypes u x) = elevator_name (etypes s x)"
      using elv_register_success [OF u [unfolded None]] by auto
    have "type_ok m mn al (etypes u t)"
      using name cache ty by (simp add: type_ok_def nm)
    moreover have "type_ok m mn al (etypes u x)" if "x \<in> set (elv_list s)" for x
      using ok that new ty(1) by (metis registry_ok_def)
    ultimately have reg: "registry_ok m mn al u" using r by (auto simp: registry_ok_def l)
    from r obtain v where v: "elv_unregister t u = Some v" "elv_list v = elv_list s" by blast
    have "etypes v = etypes s"
    proof
      fix x
      show "etypes v x = etypes s x"
        using ty cache by (cases "x = t") (simp_all add: elv_unregister_own [OF v(1)])
    qed
    moreover from this have "registry_ok m mn al v" using ok v(2) by (simp add: registry_ok_def elv_names_def)
    ultimately show ?thesis using u iff r reg v None by auto
  qed
qed


section \<open>The file of the scheduler of a queue\<close>

text \<open>
  A reader of \<open>queue/scheduler\<close>: the line is cut at blanks and at the end of line, the current
  scheduler is the word in brackets.
\<close>

fun cut_words :: "string \<Rightarrow> string \<Rightarrow> string list" where
  "cut_words w [] = (if w = [] then [] else [w])"
| "cut_words w (c # cs) =
     (if c = CHR '' '' \<or> c = CHR 0x0A then (if w = [] then [] else [w]) @ cut_words [] cs
      else cut_words (w @ [c]) cs)"

definition marked_word :: "string \<Rightarrow> bool" where
  "marked_word w \<longleftrightarrow> w \<noteq> [] \<and> hd w = CHR ''[''"

definition unbracket :: "string \<Rightarrow> string" where
  "unbracket w = (if marked_word w then butlast (tl w) else w)"

definition read_scheduler :: "string \<Rightarrow> string list \<times> string list" where
  "read_scheduler out =
     (map unbracket (cut_words [] out), map unbracket (filter marked_word (cut_words [] out)))"

lemma cut_words_word:
  assumes "CHR '' '' \<notin> set n" and "CHR 0x0A \<notin> set n" and "w @ n \<noteq> []"
  shows "cut_words w (n @ CHR '' '' # cs) = (w @ n) # cut_words [] cs"
  using assms by (induction n arbitrary: w) auto

lemma cut_words_line:
  assumes "\<And>n. n \<in> set ns \<Longrightarrow> n \<noteq> [] \<and> CHR '' '' \<notin> set n \<and> CHR 0x0A \<notin> set n"
  shows "cut_words [] (concat (map (\<lambda>n. n @ '' '') ns) @ [CHR 0x0A]) = ns"
  using assms by (induction ns) (simp_all add: cut_words_word)

lemma read_scheduler_line:
  assumes "\<And>n. n \<in> set ns \<Longrightarrow> nice_name m n" and "distinct ns" and "c \<in> set ns"
  shows "read_scheduler (concat (map (\<lambda>n. if c = n then ''['' @ c @ ''] '' else n @ '' '') ns) @ [CHR 0x0A])
    = (ns, [c])"
proof -
  define f where "f n = (if c = n then ''['' @ c @ '']'' else n)" for n
  have eq: "(\<lambda>n. if c = n then ''['' @ c @ ''] '' else n @ '' '') = (\<lambda>n. f n @ '' '')"
    by (rule ext) (simp add: f_def)
  have n: "w \<noteq> [] \<and> CHR '' '' \<notin> set w \<and> CHR 0x0A \<notin> set w" if "w \<in> set (map f ns)" for w
    using that assms(1) by (auto simp: f_def nice_name_def split: if_splits)
  have cut: "cut_words [] (concat (map (\<lambda>n. f n @ '' '') ns) @ [CHR 0x0A]) = map f ns"
    using cut_words_line [of "map f ns"] n by (simp add: comp_def)
  have mark: "marked_word (f x) \<longleftrightarrow> x = c" and un: "unbracket (f x) = x" if "x \<in> set ns" for x
    using assms(1) [OF that] by (simp_all add: f_def marked_word_def unbracket_def nice_name_def)
  have "filter (\<lambda>x. x = c) ns = [c]"
    using assms(2,3) by (induction ns) (auto simp: filter_empty_conv)
  moreover have "filter (marked_word \<circ> f) ns = filter (\<lambda>x. x = c) ns"
    by (rule filter_cong) (simp_all add: mark)
  moreover have "map (unbracket \<circ> f) ns = ns" by (rule map_idI) (simp add: un)
  ultimately show ?thesis
    using un [OF assms(3)] by (simp add: read_scheduler_def eq cut filter_map)
qed

lemma elv_iosched_show_read:
  assumes reg: "registry_ok m mn al s" and e: "elevator (queues s q) = Some e"
    and t: "eq_type (elvqs s e) \<in> set (elv_list s)" and st: "blk_queue_stackable (queues s q)"
    and free: "\<not> locks s ElvListLock"
  shows "\<exists>out. elv_iosched_show q s = Some (out, s) \<and>
    read_scheduler out = (elv_names s, [elevator_name (etypes s (eq_type (elvqs s e)))])"
proof -
  define c where "c = elevator_name (etypes s (eq_type (elvqs s e)))"
  define out where "out = concat (map (\<lambda>n. if c = n then ''['' @ c @ ''] '' else n @ '' '') (elv_names s)) @ [CHR 0x0A]"
  have "elv_iosched_show q s = Some (out, s)"
    using e st free
    by (simp add: elv_iosched_show_def Let_def spin_lock_def spin_unlock_def out_def elv_names_def c_def
        comp_def cong: if_cong)
  moreover have "read_scheduler out = (elv_names s, [c])"
    unfolding out_def using reg t
    by (intro read_scheduler_line [of _ m]) (auto simp: registry_ok_def type_ok_def elv_names_def c_def)
  ultimately show ?thesis unfolding c_def by blast
qed


text \<open>A queue whose greedy scheduler can be exchanged, in the words of \<open>elevator_switch_run\<close>.\<close>

definition can_switch :: "kenv \<Rightarrow> qid \<Rightarrow> eqid \<Rightarrow> gdid \<Rightarrow> kst \<Rightarrow> bool" where
  "can_switch E q old g s \<longleftrightarrow> elv_sorted_ok E q g s \<and> elevator (queues s q) = Some old \<and>
     quiet_queue E q s \<and> blk_queue_init_done (queues s q) \<and> eq_kref (elvqs s old) = 1 \<and>
     \<not> locks s (EqSysfsMutex old) \<and> heap_next s \<noteq> old \<and>
     elevator_attrs (etypes s (eq_type (elvqs s old))) = None"

lemma can_switch_refs [simp]: "can_switch E q old g (module_refs_update f s) = can_switch E q old g s"
  by (simp add: can_switch_def elv_sorted_ok_def lists_ok_def greedy_installed_def greedy_pending_def
      quiet_queue_def)

lemma change_outcome:
  assumes can: "can_switch E q old g s" and find: "elevator_find n s = Some t"
    and strip: "strstrip E (take (ELV_NAME_MAX E - 1) input) = (n, n)"
    and ops: "et_ops E t = elevator_greedy E" "elevator_attrs (etypes s t) = None"
    and env: "\<And>y. ioc_clear_queue E q y = y" "\<And>y. try_module_get E t y"
    and free: "\<not> locks s ElvListLock"
  shows "\<exists>err u e. raw_elevator_change E q input s = Some (err, u) \<and> reg_view q u = reg_view q s \<and>
    elevator (queues u q) = Some e \<and> eq_type (elvqs u e) \<in> {t, eq_type (elvqs s old)} \<and>
    elevator_name (etypes s (eq_type (elvqs u e))) =
      (if err = None then n else elevator_name (etypes s (eq_type (elvqs s old))))"
proof -
  define v where "v = module_refs_update (\<lambda>m. m(t := m t + 1)) s"
  have e: "elevator (queues s q) = Some old" using can by (simp add: can_switch_def)
  have cv: "can_switch E q old g v" using can by (simp add: v_def)
  have nm: "elevator_name (etypes s t) = n" using elevator_find_Some(2) [OF find] .
  have get: "elevator_get E n True s = Some (Some t, v)"
    unfolding v_def by (rule elevator_get_found [OF free find env(2)])
  show ?thesis
  proof (cases "n = elevator_name (etypes s (eq_type (elvqs s old)))")
    case True
    then have "raw_elevator_change E q input s = Some (None, elevator_put t v)"
      using e by (simp add: raw_elevator_change_def strip [simplified] get [unfolded True]) (simp add: v_def)
    with True e show ?thesis by (simp add: elevator_put_def v_def reg_view_def)
  next
    case False
    have at: "elevator_attrs (etypes v t) = None" "elevator_attrs (etypes v (eq_type (elvqs v old))) = None"
      using ops(2) cv by (simp_all add: v_def can_switch_def)
    have c: "elv_sorted_ok E q g v" "elevator (queues v q) = Some old" "quiet_queue E q v"
      "blk_queue_init_done (queues v q)" "eq_kref (elvqs v old) = 1" "\<not> locks v (EqSysfsMutex old)"
      "heap_next v \<noteq> old"
      using cv by (simp_all add: can_switch_def)
    from elevator_switch_run [OF c ops(1) env(1) at] obtain err u where
      u: "elevator_switch E q t v = Some (err, u)" "switch_outcome E q t old g v err u"
      by blast
    have "raw_elevator_change E q input s = Some (err, u)"
      using c(2) e False u(1) by (simp add: raw_elevator_change_def strip [simplified] get) (simp add: v_def)
    moreover have "reg_view q u = reg_view q s" using u(2) by (simp add: switch_outcome_def v_def reg_view_def)
    moreover have "\<exists>e. elevator (queues u q) = Some e \<and> eq_type (elvqs u e) \<in> {t, eq_type (elvqs s old)} \<and>
        elevator_name (etypes s (eq_type (elvqs u e))) =
        (if err = None then n else elevator_name (etypes s (eq_type (elvqs s old))))"
      using u(2) nm by (cases err) (auto simp: switch_outcome_def v_def)
    ultimately show ?thesis by blast
  qed
qed



section \<open>Examples\<close>

lemma registry_typed_witness:
  "\<exists>u v. greedy_init 0 0 5 (kst_zero\<lparr>etypes := (\<lambda>_. greedy_type)\<rparr>) = Some (None, u) \<and>
     elevator_find ''greedy'' u = Some 5 \<and> greedy_exit 5 u = Some v \<and> elv_list v = []"
proof -
  have "registry_ok 16 0 0 (kst_zero\<lparr>etypes := (\<lambda>_. greedy_type)\<rparr>)"
    by (simp add: registry_ok_def elv_names_def kst_zero_def)
  from registry_typed [OF this, of 5] show ?thesis
    by (auto simp: kst_zero_def greedy_type_def nice_name_def elv_names_def greedy_init_def greedy_exit_def)
qed

text \<open>Scheduler 7 has the type 0, \<open>noop\<close>; type 5, \<open>greedy\<close>, is registered behind it.\<close>

definition sysfs_state :: kst where
  "sysfs_state = switch_state
     \<lparr>queues := (\<lambda>_. (queues switch_state 0)\<lparr>queue_flags :=
        set_bit (qbit QUEUE_FLAG_STACKABLE) (queue_flags (queues switch_state 0))\<rparr>),
      etypes := (\<lambda>_. greedy_type)(0 := greedy_type\<lparr>elevator_name := ''noop''\<rparr>), elv_list := [0, 5]\<rparr>"

lemma sysfs_state_ok: "can_switch greedy_env 0 7 8 sysfs_state" "registry_ok 16 0 0 sysfs_state"
  "blk_queue_stackable (queues sysfs_state 0)" "\<not> locks sysfs_state ElvListLock"
proof -
  have "lists_ok sysfs_state = lists_ok switch_state"
    by (rule lists_ok_cong) (simp_all add: sysfs_state_def)
  then have "elv_sorted_ok greedy_env 0 8 sysfs_state"
    using switch_state_ok(1) by (simp add: elv_sorted_ok_def greedy_installed_def greedy_pending_def sysfs_state_def)
  moreover have "quiet_queue greedy_env 0 sysfs_state" "blk_queue_init_done (queues sysfs_state 0)"
    using switch_state_ok(2,3) by (simp_all add: quiet_queue_def sysfs_state_def test_qflag_def bit_set_bit_iff)
  ultimately show "can_switch greedy_env 0 7 8 sysfs_state"
    using switch_state_ok(4) by (simp add: can_switch_def) (simp add: sysfs_state_def switch_state_def
      greedy_busy_def greedy_both_def greedy_two_def kst_zero_def greedy_type_def)
qed (simp_all add: registry_ok_def elv_names_def sysfs_state_def switch_state_def type_ok_def nice_name_def
      greedy_type_def test_qflag_def bit_set_bit_iff greedy_busy_def greedy_both_def greedy_two_def kst_zero_def)


end
