(* ===== verification/Blk_Gaps.thy ===== *)
theory Blk_Gaps
  imports Blk_Submit
begin

text \<open>
  The rest of the inline functions of \<open>src/scheduler/kernel/blkdev.h\<close>: the alignment of a device, the
  request with a tag, and the tests for gaps between the pages of two bios, for drivers with a
  virtual boundary. The integrity data of a bio is that of a kernel with
  \<open>CONFIG_BLK_DEV_INTEGRITY\<close>; without it the tests for its gaps are always negative. An access
  outside an array or through a missing pointer is \<open>None\<close>.
\<close>

section \<open>Devices\<close>

definition bdev_alignment_offset :: "bdevid \<Rightarrow> kst \<Rightarrow> int option" where
  "bdev_alignment_offset d s = do {
     q \<leftarrow> bdev_get_queue d s;
     Some (if misaligned (limits (queues s q)) then - 1
           else if d \<noteq> bd_contains (bdevs s d)
           then to_int (part_alignment_offset (parts s (bd_part (bdevs s d))))
           else sint (alignment_offset (limits (queues s q))))
   }"

definition bdev_discard_alignment :: "bdevid \<Rightarrow> kst \<Rightarrow> int option" where
  "bdev_discard_alignment d s = do {
     q \<leftarrow> bdev_get_queue d s;
     Some (if d \<noteq> bd_contains (bdevs s d)
           then sint (part_discard_alignment (parts s (bd_part (bdevs s d))))
           else sint (discard_alignment (limits (queues s q))))
   }"

definition block_size :: "bdevid \<Rightarrow> kst \<Rightarrow> u32" where
  "block_size d s = bd_block_size (bdevs s d)"

section \<open>Tags\<close>

text \<open>\<open>real_max_depth\<close> is the number of entries of \<open>tag_index\<close>.\<close>

record blk_queue_tag =
  tag_index :: "rid option list"
  busy :: int
  max_depth :: int
  real_max_depth :: int
  alloc_policy :: int
  next_tag :: int

definition blk_map_queue_find_tag :: "blk_queue_tag option \<Rightarrow> int \<Rightarrow> rid option option" where
  "blk_map_queue_find_tag bqt tg =
     (case bqt of
        None \<Rightarrow> Some None
      | Some t \<Rightarrow>
          if tg \<ge> real_max_depth t then Some None
          else if 0 \<le> tg \<and> nat tg < length (tag_index t) then Some (tag_index t ! nat tg)
          else None)"

section \<open>Gaps between bios\<close>

definition bio_will_gap :: "'a kconf_scheme \<Rightarrow> request_queue \<Rightarrow> bio \<Rightarrow> bio \<Rightarrow> bool option" where
  "bio_will_gap E q prv nxt =
     (if \<not> bio_has_data E prv then Some False
      else let n = unat (bi_vcnt prv) in
        if 0 < n \<and> n \<le> length (bi_io_vec prv) \<and> bi_io_vec nxt \<noteq> []
        then Some (bvec_gap_to_prev q (snd (bi_io_vec prv ! (n - 1))) (fst (snd (bi_io_vec nxt ! 0))))
        else None)"

definition req_gap_back_merge :: "'a kconf_scheme \<Rightarrow> rid \<Rightarrow> bid \<Rightarrow> kst \<Rightarrow> bool option" where
  "req_gap_back_merge E r b s = do {
     q \<leftarrow> rq_q (rqs s r);
     t \<leftarrow> biotail (rqs s r);
     bio_will_gap E (queues s q) (bios s t) (bios s b)
   }"

definition req_gap_front_merge :: "'a kconf_scheme \<Rightarrow> rid \<Rightarrow> bid \<Rightarrow> kst \<Rightarrow> bool option" where
  "req_gap_front_merge E r b s = do {
     q \<leftarrow> rq_q (rqs s r);
     f \<leftarrow> rq_bio (rqs s r);
     bio_will_gap E (queues s q) (bios s b) (bios s f)
   }"

section \<open>Integrity data\<close>

text \<open>The vectors of the payload of a bio (\<open>bip_vec\<close>, of which \<open>bip_vcnt\<close> are in use).\<close>

record bio_integrity_payload =
  bip_vec :: "(nat \<times> u32 \<times> u32) list"
  bip_vcnt :: u16

definition bip_gap :: "request_queue \<Rightarrow> bio_integrity_payload \<Rightarrow> bio_integrity_payload \<Rightarrow> bool option" where
  "bip_gap q bip bip_next =
     (let n = unat (bip_vcnt bip) in
      if 0 < n \<and> n \<le> length (bip_vec bip) \<and> bip_vec bip_next \<noteq> []
      then Some (bvec_gap_to_prev q (snd (bip_vec bip ! (n - 1))) (fst (snd (bip_vec bip_next ! 0))))
      else None)"

definition integrity_req_gap_back_merge ::
  "bool \<Rightarrow> (bid \<Rightarrow> bio_integrity_payload option) \<Rightarrow> rid \<Rightarrow> bid \<Rightarrow> kst \<Rightarrow> bool option" where
  "integrity_req_gap_back_merge config bio_integrity r nxt s =
     (if config then do {
        f \<leftarrow> rq_bio (rqs s r);
        bip \<leftarrow> bio_integrity f;
        bip_next \<leftarrow> bio_integrity nxt;
        q \<leftarrow> rq_q (rqs s r);
        bip_gap (queues s q) bip bip_next
      } else Some False)"

definition integrity_req_gap_front_merge ::
  "bool \<Rightarrow> (bid \<Rightarrow> bio_integrity_payload option) \<Rightarrow> rid \<Rightarrow> bid \<Rightarrow> kst \<Rightarrow> bool option" where
  "integrity_req_gap_front_merge config bio_integrity r b s =
     (if config then do {
        bip \<leftarrow> bio_integrity b;
        f \<leftarrow> rq_bio (rqs s r);
        bip_next \<leftarrow> bio_integrity f;
        q \<leftarrow> rq_q (rqs s r);
        bip_gap (queues s q) bip bip_next
      } else Some False)"

definition blk_integrity_rq :: "bool \<Rightarrow> request \<Rightarrow> bool" where
  "blk_integrity_rq config rq \<longleftrightarrow> config \<and> REQ_INTEGRITY \<in> cmd_flags rq"

section \<open>Requests without gaps\<close>

text \<open>
  The pages of a list of bios leave no gap for the queue: behind the first page every page starts
  at its beginning, and before the last one every page ends at the boundary.
\<close>

definition no_gaps :: "request_queue \<Rightarrow> (nat \<times> u32 \<times> u32) list \<Rightarrow> bool" where
  "no_gaps q vs \<longleftrightarrow> successively (\<lambda>a b. \<not> bvec_gap_to_prev q (snd a) (fst (snd b))) vs"

text \<open>A bio whose pages are all in use, and that has some.\<close>

definition full_bio :: "'a kconf_scheme \<Rightarrow> bio \<Rightarrow> bool" where
  "full_bio E x \<longleftrightarrow> bio_has_data E x \<and> bi_io_vec x \<noteq> [] \<and> unat (bi_vcnt x) = length (bi_io_vec x)"

lemma bio_will_gap_full:
  "full_bio E x \<Longrightarrow> full_bio E y \<Longrightarrow>
   bio_will_gap E q x y = Some (bvec_gap_to_prev q (snd (last (bi_io_vec x))) (fst (snd (hd (bi_io_vec y)))))"
  by (simp add: bio_will_gap_def full_bio_def last_conv_nth hd_conv_nth)

lemma no_gaps_append:
  assumes "vs \<noteq> []" and "ws \<noteq> []"
  shows "no_gaps q (vs @ ws) \<longleftrightarrow>
    no_gaps q vs \<and> no_gaps q ws \<and> \<not> bvec_gap_to_prev q (snd (last vs)) (fst (snd (hd ws)))"
  using assms by (auto simp: no_gaps_def successively_append_iff)

end
