(* ===== verification/Blk_Bytes.thy ===== *)
theory Blk_Bytes
  imports Blk_Complete Blk_Zero "HOL-Library.Sublist"
begin

text \<open>
  Completing a part of a request: \<open>blk_update_request\<close> takes the completed bytes off the front of
  the chain of bios, and the length of the request stays the sum of what is left.
\<close>

section \<open>The bios of a request\<close>

fun bio_chain :: "kst \<Rightarrow> bid option \<Rightarrow> bid list \<Rightarrow> bool" where
  "bio_chain s b [] \<longleftrightarrow> b = None"
| "bio_chain s b (x # xs) \<longleftrightarrow> b = Some x \<and> bio_chain s (bi_next (bios s x)) xs"

definition bios_bytes :: "kst \<Rightarrow> bid list \<Rightarrow> nat" where
  "bios_bytes s xs = sum_list (map (\<lambda>b. unat (bi_size (bios s b))) xs)"

lemma bios_bytes_simps [simp]:
  "bios_bytes s [] = 0" "bios_bytes s (x # xs) = unat (bi_size (bios s x)) + bios_bytes s xs"
  by (simp_all add: bios_bytes_def)

lemma bio_chain_cong:
  "(\<And>x. x \<in> set xs \<Longrightarrow> bi_next (bios t x) = bi_next (bios s x)) \<Longrightarrow> bio_chain t b xs = bio_chain s b xs"
  by (induction xs arbitrary: b) auto

lemma bios_bytes_cong:
  "(\<And>x. x \<in> set xs \<Longrightarrow> bi_size (bios t x) = bi_size (bios s x)) \<Longrightarrow> bios_bytes t xs = bios_bytes s xs"
  by (induction xs) auto

text \<open>
  What is assumed of the functions of other files: \<open>bio_advance\<close> takes the bytes off a bio,
  \<open>bio_cur_bytes\<close> is at most the size of the bio, the statistics do not touch requests and bios,
  and \<open>blk_recalc_rq_segments\<close> changes no chain and no length.
\<close>

definition complete_env :: "kenv \<Rightarrow> bool" where
  "complete_env E \<longleftrightarrow>
     (\<forall>n x. n \<le> bi_size x \<longrightarrow> bi_size (bio_advance E n x) = bi_size x - n \<and>
        bi_next (bio_advance E n x) = bi_next x) \<and>
     (\<forall>x. bio_cur_bytes E x \<le> bi_size x) \<and>
     (\<forall>k p n s. rqs (part_stat_add E k p n s) = rqs s \<and> bios (part_stat_add E k p n s) = bios s) \<and>
     (\<forall>r s. bios (blk_recalc_rq_segments E r s) = bios s \<and>
        rq_bio (rqs (blk_recalc_rq_segments E r s) r) = rq_bio (rqs s r) \<and>
        data_len (rqs (blk_recalc_rq_segments E r s) r) = data_len (rqs s r) \<and>
        rq_sector (rqs (blk_recalc_rq_segments E r s) r) = rq_sector (rqs s r))"

lemma req_bio_endio_frame:
  assumes "complete_env E" and "n \<le> bi_size (bios s b)"
  shows "rqs (req_bio_endio E r b n err s) = rqs s"
    and "x \<noteq> b \<Longrightarrow> bios (req_bio_endio E r b n err s) x = bios s x"
    and "bi_size (bios (req_bio_endio E r b n err s) b) = bi_size (bios s b) - n"
    and "bi_next (bios (req_bio_endio E r b n err s) b) = bi_next (bios s b)"
  using assms by (auto simp: req_bio_endio_def Let_def bio_endio_def complete_env_def)

section \<open>The loop\<close>

text \<open>What the loop leaves: the chain \<open>ys\<close> of what is not completed.\<close>

definition bios_left :: "rid \<Rightarrow> bid list \<Rightarrow> nat \<Rightarrow> kst \<Rightarrow> bid list \<Rightarrow> kst \<Rightarrow> bool" where
  "bios_left r xs n s ys t \<longleftrightarrow> suffix ys xs \<and> bio_chain t (rq_bio (rqs t r)) ys \<and>
     bios_bytes t ys = bios_bytes s xs - n \<and> (\<forall>y \<in> set ys. bi_size (bios t y) \<noteq> 0) \<and>
     rqs t = (rqs s)(r := (rqs s r)\<lparr>rq_bio := rq_bio (rqs t r)\<rparr>)"

lemma update_bios_left:
  assumes env: "complete_env E"
  shows "bio_chain s (rq_bio (rqs s r)) xs \<Longrightarrow> distinct xs \<Longrightarrow> \<forall>x \<in> set xs. bi_size (bios s x) \<noteq> 0 \<Longrightarrow>
    unat tot + bios_bytes s xs < 2 ^ 32 \<Longrightarrow>
    \<exists>tot' t ys. update_bios E r err n tot s = Some (tot', t) \<and>
      unat tot' = unat tot + min (unat n) (bios_bytes s xs) \<and> bios_left r xs (unat n) s ys t"
proof (induction xs arbitrary: s n tot)
  case Nil
  then have "update_bios E r err n tot s = Some (tot, s)"
    by (subst update_bios.simps) simp
  with Nil show ?case by (auto simp: bios_left_def intro: exI [of _ "[]"])
next
  case (Cons x xs)
  define sz where "sz = bi_size (bios s x)"
  have b: "rq_bio (rqs s r) = Some x" and ch: "bio_chain s (bi_next (bios s x)) xs"
    and sz0: "sz \<noteq> 0" and dist: "x \<notin> set xs" "distinct xs"
    using Cons.prems by (simp_all add: sz_def)
  show ?case
  proof (cases "sz \<le> n")
    case True
    define u where "u = req_bio_endio E r x sz err (upd_rq r (rq_bio_update (\<lambda>_. bi_next (bios s x))) s)"
    have env': "sz \<le> bi_size (bios (upd_rq r (rq_bio_update (\<lambda>_. bi_next (bios s x))) s) x)"
      by (simp add: sz_def)
    note fr = req_bio_endio_frame [OF env env', where r = r and err = err, folded u_def]
    have u: "rqs u = (rqs s)(r := (rqs s r)\<lparr>rq_bio := bi_next (bios s x)\<rparr>)"
      "\<And>y. y \<noteq> x \<Longrightarrow> bios u y = bios s y"
      using fr(1,2) by simp_all
    have same: "bio_chain u b xs = bio_chain s b xs" "bios_bytes u xs = bios_bytes s xs" for b
      using u(2) dist(1) by (intro bio_chain_cong bios_bytes_cong; metis)+
    have nz: "\<forall>y \<in> set xs. bi_size (bios u y) \<noteq> 0"
      using u(2) dist(1) Cons.prems(3) by (metis list.set_intros(2))
    have tot: "unat (tot + sz) = unat tot + unat sz" "unat (n - sz) = unat n - unat sz"
      using Cons.prems(4) True by (auto simp: sz_def unat_word_ariths unat_sub word_le_nat_alt)
    have step: "update_bios E r err n tot s =
        (if n - sz = 0 then Some (tot + sz, u) else update_bios E r err (n - sz) (tot + sz) u)"
      using b True by (subst update_bios.simps) (simp add: Let_def sz_def [symmetric] u_def min_def)
    show ?thesis
    proof (cases "n = sz")
      case eq: True
      have "bios_left r (x # xs) (unat n) s xs u"
        using same ch u(1) nz by (auto simp: bios_left_def eq sz_def suffix_def)
      moreover have "update_bios E r err n tot s = Some (tot + sz, u)" using step by (simp add: eq)
      ultimately show ?thesis using tot(1) by (auto simp: eq sz_def)
    next
      case False
      have "bio_chain u (rq_bio (rqs u r)) xs" "\<forall>y \<in> set xs. bi_size (bios u y) \<noteq> 0"
        "unat (tot + sz) + bios_bytes u xs < 2 ^ 32"
        using same ch u(1) nz Cons.prems(4) tot(1) by (simp_all add: sz_def)
      from Cons.IH [OF this(1) dist(2) this(2,3), of "n - sz"] obtain tot' t ys where
        t: "update_bios E r err (n - sz) (tot + sz) u = Some (tot', t)"
          "unat tot' = unat (tot + sz) + min (unat (n - sz)) (bios_bytes u xs)"
          "bios_left r xs (unat (n - sz)) u ys t"
        by blast
      have "n - sz \<noteq> 0" using False by simp
      then have "update_bios E r err n tot s = Some (tot', t)" using step t(1) by simp
      moreover have "unat tot' = unat tot + min (unat n) (bios_bytes s (x # xs))"
        using t(2) tot same(2) True by (simp add: sz_def word_le_nat_alt)
      moreover have "bios_left r (x # xs) (unat n) s ys t"
        using t(3) tot(2) same(2) u(1) True by (auto simp: bios_left_def sz_def suffix_Cons word_le_nat_alt)
      ultimately show ?thesis by blast
    qed
  next
    case False
    then have lt: "n < sz" by simp
    define u where "u = req_bio_endio E r x n err s"
    have env': "n \<le> bi_size (bios s x)" using lt by (simp add: sz_def)
    note fr = req_bio_endio_frame [OF env env', where r = r and err = err, folded u_def]
    have same: "bio_chain u b xs = bio_chain s b xs" "bios_bytes u xs = bios_bytes s xs" for b
      using fr(2) dist(1) by (intro bio_chain_cong bios_bytes_cong; metis)+
    have nz: "\<forall>y \<in> set xs. bi_size (bios u y) \<noteq> 0"
      using fr(2) dist(1) Cons.prems(3) by (metis list.set_intros(2))
    have "update_bios E r err n tot s = Some (tot + n, u)"
      using b lt by (subst update_bios.simps) (auto simp: Let_def sz_def [symmetric] u_def min_def)
    moreover have n: "unat (sz - n) = unat sz - unat n" "unat n < unat sz"
      using lt by (simp_all add: unat_sub word_less_nat_alt word_le_nat_alt)
    have "bios_left r (x # xs) (unat n) s (x # xs) u"
      using fr same b ch n nz lt by (auto simp: bios_left_def sz_def [symmetric])
    moreover have "unat (tot + n) = unat tot + min (unat n) (bios_bytes s (x # xs))"
      using Cons.prems(4) n(2) by (simp add: unat_word_ariths sz_def)
    ultimately show ?thesis by blast
  qed
qed

section \<open>Completing bytes of a request\<close>

lemma account_completion_frame:
  assumes "complete_env E" and "blk_do_io_stat (rqs s r) \<Longrightarrow> rq_part (rqs s r) \<noteq> None"
  shows "\<exists>t. blk_account_io_completion E r n s = Some t \<and> rqs t = rqs s \<and> bios t = bios s"
  using assms by (auto simp: blk_account_io_completion_def complete_env_def)

lemma unat_scast_shift:
  fixes w :: u32
  assumes "unat w < 2 ^ 31"
  shows "(scast (signed_drop_bit 9 w) :: u64) = of_nat (unat w div 512)"
proof -
  have "sint w = int (unat w)" using assms by (rule sint_small32)
  then have "sint (signed_drop_bit 9 w) = int (unat w div 512)"
    by (simp add: sint_signed_drop_bit_eq drop_bit_eq_div of_nat_div)
  then show ?thesis by (simp add: scast_eq)
qed

text \<open>The last part, in a state in which a chain of bios that are not empty is left.\<close>

lemma update_request_left_frame:
  assumes env: "complete_env E" and b: "rq_bio (rqs u r) = Some b"
    and len: "unat (data_len (rqs u r) - tot) = bios_bytes u (b # bs)"
  shows "bios (update_request_left E r b tot u) = bios u"
    and "rq_bio (rqs (update_request_left E r b tot u) r) = rq_bio (rqs u r)"
    and "data_len (rqs (update_request_left E r b tot u) r) = data_len (rqs u r) - tot"
    and "cmd_type (rqs u r) = REQ_TYPE_FS \<Longrightarrow> rq_sector (rqs (update_request_left E r b tot u) r) =
           rq_sector (rqs u r) + scast (signed_drop_bit 9 tot)"
proof -
  have "bio_cur_bytes E (bios u b) \<le> bi_size (bios u b)" using env by (simp add: complete_env_def)
  then have "bio_cur_bytes E (bios u b) \<le> data_len (rqs u r) - tot"
    using len by (simp add: word_le_nat_alt)
  then have "\<not> data_len (rqs u r) - tot < bio_cur_bytes E (bios u b)" by simp
  then show "bios (update_request_left E r b tot u) = bios u"
    and "rq_bio (rqs (update_request_left E r b tot u) r) = rq_bio (rqs u r)"
    and "data_len (rqs (update_request_left E r b tot u) r) = data_len (rqs u r) - tot"
    and "cmd_type (rqs u r) = REQ_TYPE_FS \<Longrightarrow> rq_sector (rqs (update_request_left E r b tot u) r) =
           rq_sector (rqs u r) + scast (signed_drop_bit 9 tot)"
    using env b
    by (simp_all add: update_request_left_def Let_def complete_env_def blk_rq_bytes_def blk_rq_cur_bytes_def)
qed

text \<open>A request whose length is the sum of the bytes of its bios, none of which is empty.\<close>

definition rq_bytes_ok :: "rid \<Rightarrow> bid list \<Rightarrow> kst \<Rightarrow> bool" where
  "rq_bytes_ok r xs s \<longleftrightarrow> bio_chain s (rq_bio (rqs s r)) xs \<and>
     (\<forall>x \<in> set xs. bi_size (bios s x) \<noteq> 0) \<and> unat (data_len (rqs s r)) = bios_bytes s xs"

text \<open>
  C15: \<open>blk_update_request\<close> returns, for any number of completed bytes, and answers whether something
  of the request is left. The bios left are an end of the chain, the length of the request is
  again the sum of their bytes, and it is smaller by the bytes completed (or 0, if more bytes are
  completed than there are). While something is left, the first sector of a file system request
  moves up by the whole sectors completed.
\<close>

theorem blk_update_request_bytes:
  assumes env: "complete_env E" and ok: "rq_bytes_ok r xs s" and xs: "xs \<noteq> []" "distinct xs"
    and part: "blk_do_io_stat (rqs s r) \<Longrightarrow> rq_part (rqs s r) \<noteq> None"
  shows "\<exists>more t ys. blk_update_request E r err n s = Some (more, t) \<and> rq_bytes_ok r ys t \<and>
    suffix ys xs \<and> unat (data_len (rqs t r)) = unat (data_len (rqs s r)) - unat n \<and>
    (more \<longleftrightarrow> unat n < unat (data_len (rqs s r))) \<and>
    (more \<and> cmd_type (rqs s r) = REQ_TYPE_FS \<and> unat n < 2 ^ 31 \<longrightarrow>
       rq_sector (rqs t r) = rq_sector (rqs s r) + of_nat (unat n div 512))"
proof -
  define v where "v = (if cmd_type (rqs s r) = REQ_TYPE_FS then upd_rq r (errors_update (\<lambda>_. 0)) s else s)"
  have v: "bios v = bios s" "rq_bio (rqs v r) = rq_bio (rqs s r)" "data_len (rqs v r) = data_len (rqs s r)"
    "rq_sector (rqs v r) = rq_sector (rqs s r)" "cmd_type (rqs v r) = cmd_type (rqs s r)"
    "blk_do_io_stat (rqs v r) = blk_do_io_stat (rqs s r)" "rq_part (rqs v r) = rq_part (rqs s r)"
    by (simp_all add: v_def blk_do_io_stat_def)
  from account_completion_frame [OF env, of v r n] part obtain w where
    w: "blk_account_io_completion E r n v = Some w" "rqs w = rqs v" "bios w = bios v"
    by (auto simp: v)
  have cw: "bio_chain w b zs = bio_chain s b zs" "bios_bytes w zs = bios_bytes s zs" for b zs
    using v(1) w(3) by (auto intro!: bio_chain_cong bios_bytes_cong)
  have len: "unat (data_len (rqs s r)) = bios_bytes s xs" using ok by (simp add: rq_bytes_ok_def)
  have lt: "bios_bytes s xs < 2 ^ 32"
    unfolding len [symmetric] using unsigned_less [of "data_len (rqs s r)"] by simp
  have "bio_chain w (rq_bio (rqs w r)) xs" "\<forall>x \<in> set xs. bi_size (bios w x) \<noteq> 0"
    "unat (0 :: u32) + bios_bytes w xs < 2 ^ 32"
    using ok v w cw lt by (simp_all add: rq_bytes_ok_def)
  from update_bios_left [OF env this(1) xs(2) this(2,3), of err n] obtain tot u ys where
    u: "update_bios E r err n 0 w = Some (tot, u)" "unat tot = min (unat n) (bios_bytes s xs)"
      "suffix ys xs" "bio_chain u (rq_bio (rqs u r)) ys" "bios_bytes u ys = bios_bytes s xs - unat n"
      "\<forall>y \<in> set ys. bi_size (bios u y) \<noteq> 0" "rqs u = (rqs w)(r := (rqs w r)\<lparr>rq_bio := rq_bio (rqs u r)\<rparr>)"
    by (auto simp: bios_left_def cw)
  have ur: "data_len (rqs u r) = data_len (rqs s r)" "rq_sector (rqs u r) = rq_sector (rqs s r)"
    "cmd_type (rqs u r) = cmd_type (rqs s r)"
    by (subst u(7), simp add: w(2) v)+
  have some: "rq_bio (rqs s r) \<noteq> None" using ok xs(1) by (cases xs) (auto simp: rq_bytes_ok_def)
  have run: "blk_update_request E r err n s = (case rq_bio (rqs u r) of
      None \<Rightarrow> Some (False, upd_rq r (data_len_update (\<lambda>_. 0)) u)
    | Some b \<Rightarrow> Some (True, update_request_left E r b tot u))"
    unfolding blk_update_request_def v_def [symmetric] Let_def using some w(1) u(1) by auto
  show ?thesis
  proof (cases ys)
    case Nil
    then have z: "rq_bio (rqs u r) = None" "bios_bytes s xs \<le> unat n" using u(4,5) by simp_all
    define t where "t = upd_rq r (data_len_update (\<lambda>_. 0)) u"
    have "blk_update_request E r err n s = Some (False, t)" using run z(1) by (simp add: t_def)
    moreover have "rq_bytes_ok r [] t" "data_len (rqs t r) = 0"
      using z(1) by (simp_all add: rq_bytes_ok_def t_def)
    ultimately show ?thesis using z(2) len
      by (intro exI [of _ False] exI [of _ t] exI [of _ "[]"]) simp
  next
    case (Cons b bs)
    then have b: "rq_bio (rqs u r) = Some b" using u(4) by simp
    have "0 < bios_bytes u ys" using u(6) Cons by (simp add: unat_gt_0)
    then have lt: "unat n < bios_bytes s xs" using u(5) by simp
    then have tot: "unat tot = unat n" using u(2) by simp
    have left: "unat (data_len (rqs u r) - tot) = bios_bytes u ys"
      using ur(1) len tot lt u(5) by (simp add: unat_sub word_le_nat_alt)
    define t where "t = update_request_left E r b tot u"
    note fr = update_request_left_frame [OF env b left [unfolded Cons], folded t_def]
    have "rq_bytes_ok r ys t"
      using fr(1-3) u(4,6) left
      by (simp add: rq_bytes_ok_def bio_chain_cong [of ys t u] bios_bytes_cong [of ys t u])
    moreover have "blk_update_request E r err n s = Some (True, t)" using run b by (simp add: t_def)
    moreover have "unat n < 2 ^ 31 \<Longrightarrow> cmd_type (rqs s r) = REQ_TYPE_FS \<Longrightarrow>
        rq_sector (rqs t r) = rq_sector (rqs s r) + of_nat (unat n div 512)"
      using fr(4) ur(2,3) unat_scast_shift [of tot] tot by simp
    ultimately show ?thesis using u(3,5) lt len left fr(3) by auto
  qed
qed

section \<open>A concrete run\<close>

text \<open>A file system request of two bios, 8 and 4 sectors, of which 5 sectors are completed.\<close>

definition two_bios :: kst where
  "two_bios = kst_zero
     \<lparr>bios := (\<lambda>_. bio_zero)(1 := bio_zero\<lparr>bi_size := 4096, bi_next := Some 2\<rparr>,
                               2 := bio_zero\<lparr>bi_size := 2048\<rparr>),
      rqs := (\<lambda>_. rq_zero\<lparr>cmd_type := REQ_TYPE_FS, rq_bio := Some 1, biotail := Some 2,
                data_len := 6144, rq_sector := 40\<rparr>)\<rparr>"

lemma complete_env_zero: "complete_env env_zero"
  by (simp add: complete_env_def env_zero_def)

lemma blk_update_request_bytes_witness:
  "\<exists>t ys. blk_update_request env_zero 0 None 2560 two_bios = Some (True, t) \<and> rq_bytes_ok 0 ys t \<and>
     unat (data_len (rqs t 0)) = 3584 \<and> rq_sector (rqs t 0) = 45"
proof -
  have ok: "rq_bytes_ok 0 [1, 2] two_bios" and nio: "\<not> blk_do_io_stat (rqs two_bios 0)"
    by (simp_all add: rq_bytes_ok_def two_bios_def bio_zero_def rq_zero_def blk_do_io_stat_def)
  have f: "data_len (rqs two_bios 0) = 6144" "cmd_type (rqs two_bios 0) = REQ_TYPE_FS"
    "rq_sector (rqs two_bios 0) = 40"
    by (simp_all add: two_bios_def)
  from blk_update_request_bytes [OF complete_env_zero ok, of None 2560] nio f show ?thesis by auto
qed

end
