(* ===== verification/Blk_Merge.thy ===== *)
theory Blk_Merge
  imports Blk_Gaps Blk_Bytes Blk_Views
begin

text \<open>
  Merging a bio into a request: \<open>bio_attempt_back_merge\<close>, \<open>bio_attempt_front_merge\<close> and the walk over
  the plugged requests. The bios of a request stay one contiguous run of sectors, without gaps
  between their pages, and the length of the request stays the sum of their sizes.
\<close>

section \<open>The run of a request\<close>

text \<open>What matters of a bio and of a request here, and what a merge of other requests leaves alone.\<close>

definition bio_core :: "'a kconf_scheme \<Rightarrow> bio \<Rightarrow> _" where
  "bio_core E x = (bi_next x, bi_sector x, bi_size x, bi_io_vec x, bi_vcnt x, bio_has_data E x)"

definition rq_core :: "request \<Rightarrow> _" where
  "rq_core x = (carried x, rq_q x)"

definition load :: "'a kconf_scheme \<Rightarrow> kst \<Rightarrow> _" where
  "load E s = (\<lambda>x. rq_core (rqs s x), \<lambda>b. bio_core E (bios s b), \<lambda>q. limits (queues s q))"

text \<open>What no merge of bios changes: the lists, the hash, the locks, and the queues.\<close>

definition rq_place :: "request \<Rightarrow> _" where
  "rq_place x = (rq_q x, queuelist x, rq_part x, blk_do_io_stat x, hash_node x, ELV_ON_HASH x)"

definition q_place :: "request_queue \<Rightarrow> _" where
  "q_place q = (drv_view q, elevator q, limits q, nr_sorted q)"

definition setting :: "kst \<Rightarrow> _" where
  "setting s = (linked s, locks s, cur_plug s, elvqs s, etypes s,
     \<lambda>x. rq_place (rqs s x), \<lambda>q. q_place (queues s q))"

text \<open>
  The flags may change so that a request can no longer be merged, and a queue may forget its
  \<open>last_merge\<close>.
\<close>

definition quiet :: "'a kconf_scheme \<Rightarrow> kst \<Rightarrow> kst \<Rightarrow> bool" where
  "quiet E s t \<longleftrightarrow> setting t = setting s \<and>
     (\<forall>x. rq_mergeable E (rqs t x) \<longrightarrow> rq_mergeable E (rqs s x)) \<and>
     (\<forall>q. last_merge (queues t q) = None \<or> last_merge (queues t q) = last_merge (queues s q))"

lemma quiet_refl [simp]: "quiet E s s"
  by (simp add: quiet_def)

lemma quiet_trans: "quiet E s t \<Longrightarrow> quiet E t u \<Longrightarrow> quiet E s u"
  unfolding quiet_def by metis

text \<open>The sector behind a bio, and bios that follow each other on the disk.\<close>

definition bio_end :: "bio \<Rightarrow> sector_t" where
  "bio_end x = bi_sector x + ucast (drop_bit 9 (bi_size x))"

definition adjacent :: "kst \<Rightarrow> bid \<Rightarrow> bid \<Rightarrow> bool" where
  "adjacent s a b \<longleftrightarrow> bi_sector (bios s b) = bio_end (bios s a)"

text \<open>A bio that can be part of a request: whole sectors, at least one, and pages without gaps.\<close>

definition whole_bio :: "'a kconf_scheme \<Rightarrow> request_queue \<Rightarrow> bio \<Rightarrow> bool" where
  "whole_bio E q x \<longleftrightarrow> bi_size x \<noteq> 0 \<and> 512 dvd unat (bi_size x) \<and> full_bio E x \<and> no_gaps q (bi_io_vec x)"

definition pages :: "kst \<Rightarrow> bid list \<Rightarrow> (nat \<times> u32 \<times> u32) list" where
  "pages s xs = concat (map (\<lambda>b. bi_io_vec (bios s b)) xs)"

definition rq_run :: "'a kconf_scheme \<Rightarrow> qid \<Rightarrow> rid \<Rightarrow> bid list \<Rightarrow> kst \<Rightarrow> bool" where
  "rq_run E q r xs s \<longleftrightarrow> rq_bytes_ok r xs s \<and> xs \<noteq> [] \<and> distinct xs \<and> rq_q (rqs s r) = Some q \<and>
     biotail (rqs s r) = Some (last xs) \<and> rq_sector (rqs s r) = bi_sector (bios s (hd xs)) \<and>
     successively (adjacent s) xs \<and> (\<forall>x \<in> set xs. whole_bio E (queues s q) (bios s x)) \<and>
     no_gaps (queues s q) (pages s xs)"

lemma rq_coreD:
  assumes "rq_core a = rq_core b"
  shows "rq_bio a = rq_bio b" "biotail a = biotail b" "rq_sector a = rq_sector b" "data_len a = data_len b"
    "rq_q a = rq_q b"
  using assms by (simp_all add: rq_core_def carried_def)

lemma bio_coreD:
  assumes "bio_core E a = bio_core E b"
  shows "bi_next a = bi_next b" "bi_sector a = bi_sector b" "bi_size a = bi_size b" "bi_io_vec a = bi_io_vec b"
    "bi_vcnt a = bi_vcnt b" "bio_has_data E a = bio_has_data E b"
  using assms by (simp_all add: bio_core_def)

lemma loadD:
  assumes "load E t = load E s"
  shows "rq_core (rqs t x) = rq_core (rqs s x)" "bio_core E (bios t b) = bio_core E (bios s b)"
    "limits (queues t q) = limits (queues s q)"
  using assms by (auto simp: load_def fun_eq_iff)

lemma quietD:
  assumes "quiet E s t"
  shows "linked t = linked s" "locks t = locks s" "cur_plug t = cur_plug s" "elvqs t = elvqs s"
    "etypes t = etypes s" "rq_q (rqs t x) = rq_q (rqs s x)" "queuelist (rqs t x) = queuelist (rqs s x)"
    "rq_part (rqs t x) = rq_part (rqs s x)" "blk_do_io_stat (rqs t x) = blk_do_io_stat (rqs s x)"
    "hash_node (rqs t x) = hash_node (rqs s x)" "ELV_ON_HASH (rqs t x) = ELV_ON_HASH (rqs s x)"
    "elevator (queues t q) = elevator (queues s q)" "limits (queues t q) = limits (queues s q)"
    "nr_sorted (queues t q) = nr_sorted (queues s q)" "drv_view (queues t q) = drv_view (queues s q)"
    "rq_mergeable E (rqs t x) \<Longrightarrow> rq_mergeable E (rqs s x)"
    "last_merge (queues t q) = Some m \<Longrightarrow> last_merge (queues s q) = Some m"
proof -
  have "rq_place (rqs t x) = rq_place (rqs s x)" "q_place (queues t q) = q_place (queues s q)"
    using assms by (auto simp: quiet_def setting_def fun_eq_iff)
  then show "rq_q (rqs t x) = rq_q (rqs s x)" "queuelist (rqs t x) = queuelist (rqs s x)"
    "rq_part (rqs t x) = rq_part (rqs s x)" "blk_do_io_stat (rqs t x) = blk_do_io_stat (rqs s x)"
    "hash_node (rqs t x) = hash_node (rqs s x)" "ELV_ON_HASH (rqs t x) = ELV_ON_HASH (rqs s x)"
    "elevator (queues t q) = elevator (queues s q)" "limits (queues t q) = limits (queues s q)"
    "nr_sorted (queues t q) = nr_sorted (queues s q)" "drv_view (queues t q) = drv_view (queues s q)"
    by (simp_all add: rq_place_def q_place_def)
  show "linked t = linked s" "locks t = locks s" "cur_plug t = cur_plug s" "elvqs t = elvqs s"
    "etypes t = etypes s" "rq_mergeable E (rqs t x) \<Longrightarrow> rq_mergeable E (rqs s x)"
    "last_merge (queues t q) = Some m \<Longrightarrow> last_merge (queues s q) = Some m"
    using assms by (simp_all add: quiet_def setting_def, metis option.distinct(1))
qed

lemma bvec_gap_cong: "limits a = limits b \<Longrightarrow> bvec_gap_to_prev a = bvec_gap_to_prev b"
  by (intro ext) (simp add: bvec_gap_to_prev_def queue_virt_boundary_def)

lemma no_gaps_cong: "limits a = limits b \<Longrightarrow> no_gaps a = no_gaps b"
  by (intro ext) (simp add: no_gaps_def bvec_gap_cong [of a b])

text \<open>The run of a request depends on the request, its bios and the limits of the queue only.\<close>

lemma rq_run_cong:
  assumes r: "rq_core (rqs t r) = rq_core (rqs s r)"
    and b: "\<And>x. x \<in> set xs \<Longrightarrow> bio_core E (bios t x) = bio_core E (bios s x)"
    and q: "limits (queues t q) = limits (queues s q)"
  shows "rq_run E q r xs t = rq_run E q r xs s"
proof -
  note R = rq_coreD [OF r] and B = bio_coreD [OF b]
  have ch: "bio_chain t c xs = bio_chain s c xs" for c
    by (rule bio_chain_cong) (rule B)
  have sb: "bios_bytes t xs = bios_bytes s xs"
    by (rule bios_bytes_cong) (rule B)
  have ad: "successively (adjacent t) xs = successively (adjacent s) xs"
    by (rule successively_cong) (simp_all add: adjacent_def bio_end_def B)
  have pg: "pages t xs = pages s xs" unfolding pages_def using B(4) by (metis (no_types, lifting) map_cong)
  have ng: "no_gaps (queues t q) = no_gaps (queues s q)" by (rule no_gaps_cong) (rule q)
  have wh: "whole_bio E (queues t q) (bios t x) = whole_bio E (queues s q) (bios s x)" if "x \<in> set xs" for x
    using B [OF that] by (simp add: whole_bio_def full_bio_def ng)
  have hd: "xs \<noteq> [] \<Longrightarrow> bi_sector (bios t (hd xs)) = bi_sector (bios s (hd xs))" by (simp add: B(2))
  have sz: "(\<forall>x\<in>set xs. bi_size (bios t x) \<noteq> 0) = (\<forall>x\<in>set xs. bi_size (bios s x) \<noteq> 0)" using B(3) by simp
  show ?thesis
    using hd wh by (auto simp: rq_run_def rq_bytes_ok_def R ch sb ad pg ng sz)
qed

lemma rq_run_load: "load E t = load E s \<Longrightarrow> rq_run E q r xs t = rq_run E q r xs s"
  using loadD [of E t s] by (intro rq_run_cong) auto

section \<open>The end of a run\<close>

lemma sectors_of_size: "(ucast (drop_bit 9 (w :: u32)) :: u64) = of_nat (unat w div 512)"
proof -
  have "unat (drop_bit 9 w) = unat w div 512" by (simp add: drop_bit_eq_div unat_div)
  then have "(of_nat (unat w div 512) :: u64) = of_nat (unat (drop_bit 9 w))" by simp
  also have "\<dots> = ucast (drop_bit 9 w)" by (rule of_nat_unat)
  finally show ?thesis by simp
qed

text \<open>The sector behind the last bio of a run is the key of its request in the merge hash.\<close>

lemma run_end_sector:
  assumes "successively (adjacent s) (x # xs)" and "\<forall>b \<in> set (x # xs). 512 dvd unat (bi_size (bios s b))"
  shows "bio_end (bios s (last (x # xs))) = bi_sector (bios s x) + of_nat (bios_bytes s (x # xs) div 512)"
  using assms
proof (induction xs arbitrary: x)
  case Nil
  then show ?case by (simp add: bio_end_def sectors_of_size)
next
  case (Cons y ys)
  then have e: "bio_end (bios s (last (x # y # ys))) = bi_sector (bios s y) + of_nat (bios_bytes s (y # ys) div 512)"
    by simp
  have m: "bi_sector (bios s y) = bi_sector (bios s x) + of_nat (unat (bi_size (bios s x)) div 512)"
    using Cons.prems(1) by (simp add: adjacent_def bio_end_def sectors_of_size)
  have "(unat (bi_size (bios s x)) + bios_bytes s (y # ys)) div 512 =
      unat (bi_size (bios s x)) div 512 + bios_bytes s (y # ys) div 512"
    using Cons.prems(2) by (intro div_plus_div_distrib_dvd_left) simp
  then show ?case unfolding e m by (simp add: add.assoc)
qed

lemma rq_run_key:
  assumes "rq_run E q r xs s"
  shows "rq_hash_key (rqs s r) = bio_end (bios s (last xs))"
proof -
  from assms obtain x ys where xs: "xs = x # ys" by (cases xs) (auto simp: rq_run_def)
  with assms show ?thesis
    using run_end_sector [of s x ys]
    by (simp add: rq_run_def rq_bytes_ok_def whole_bio_def rq_hash_key_def blk_rq_pos_def
        blk_rq_sectors_def blk_rq_bytes_def sectors_of_size)
qed


section \<open>Adding a bio at an end\<close>

lemma bio_chain_append:
  assumes "bio_chain s c xs" and "xs \<noteq> []" and "distinct xs"
    and "\<And>x. x \<in> set xs \<Longrightarrow> x \<noteq> last xs \<Longrightarrow> bi_next (bios u x) = bi_next (bios s x)"
    and "bi_next (bios u (last xs)) = Some b" and "bi_next (bios u b) = None"
  shows "bio_chain u c (xs @ [b])"
  using assms
proof (induction xs arbitrary: c)
  case (Cons x xs)
  then show ?case by (cases xs) (auto split: if_splits, metis last_in_set)
qed simp

text \<open>A bio that may be added to a request of the queue \<open>q\<close>, of which it is not yet a part.\<close>

definition new_bio :: "'a kconf_scheme \<Rightarrow> qid \<Rightarrow> bid \<Rightarrow> kst \<Rightarrow> bool" where
  "new_bio E q b s \<longleftrightarrow> whole_bio E (queues s q) (bios s b) \<and> bi_next (bios s b) = None"

text \<open>\<open>bio_has_data\<close> does not look at the link of a bio.\<close>

definition next_free :: "'a kconf_scheme \<Rightarrow> bool" where
  "next_free E \<longleftrightarrow> (\<forall>x n. bio_has_data E (x\<lparr>bi_next := n\<rparr>) = bio_has_data E x)"

lemma pages_append [simp]: "pages s (xs @ ys) = pages s xs @ pages s ys"
  by (simp add: pages_def)

lemma pages_Cons [simp]: "pages s (x # xs) = bi_io_vec (bios s x) @ pages s xs" "pages s [] = []"
  by (simp_all add: pages_def)

text \<open>A new link changes nothing else.\<close>

lemma relinked:
  assumes "next_free E" and "bios u = (bios s)(c := (bios s c)\<lparr>bi_next := n\<rparr>)"
    and "limits (queues u q) = limits (queues s q)"
  shows "bi_sector (bios u x) = bi_sector (bios s x)" "bi_size (bios u x) = bi_size (bios s x)"
    "whole_bio E (queues u q) (bios u x) = whole_bio E (queues s q) (bios s x)"
    "adjacent u = adjacent s" "pages u xs = pages s xs" "bios_bytes u xs = bios_bytes s xs"
    "no_gaps (queues u q) = no_gaps (queues s q)" "bi_io_vec (bios u x) = bi_io_vec (bios s x)"
proof -
  have core: "bi_sector (bios u x) = bi_sector (bios s x)" "bi_size (bios u x) = bi_size (bios s x)"
    "bi_io_vec (bios u x) = bi_io_vec (bios s x)" "bi_vcnt (bios u x) = bi_vcnt (bios s x)"
    "bio_has_data E (bios u x) = bio_has_data E (bios s x)" for x
    using assms(1) by (simp_all add: assms(2) next_free_def)
  show ng: "no_gaps (queues u q) = no_gaps (queues s q)" by (rule no_gaps_cong) (rule assms(3))
  show "whole_bio E (queues u q) (bios u x) = whole_bio E (queues s q) (bios s x)"
    by (simp add: whole_bio_def full_bio_def core ng)
  show "adjacent u = adjacent s" by (intro ext) (simp add: adjacent_def bio_end_def core)
  show "pages u xs = pages s xs" by (simp add: pages_def core)
  show "bios_bytes u xs = bios_bytes s xs" by (rule bios_bytes_cong) (rule core)
  show "bi_sector (bios u x) = bi_sector (bios s x)" "bi_size (bios u x) = bi_size (bios s x)"
    "bi_io_vec (bios u x) = bi_io_vec (bios s x)"
    by (rule core)+
qed

lemma run_pages:
  assumes "rq_run E q r xs s"
  shows "pages s xs \<noteq> []" "hd (pages s xs) = hd (bi_io_vec (bios s (hd xs)))"
    "last (pages s xs) = last (bi_io_vec (bios s (last xs)))"
proof -
  have "xs \<noteq> []" "\<forall>x \<in> set xs. bi_io_vec (bios s x) \<noteq> []"
    using assms by (simp_all add: rq_run_def whole_bio_def full_bio_def)
  then have "pages s xs \<noteq> [] \<and> hd (pages s xs) = hd (bi_io_vec (bios s (hd xs))) \<and>
    last (pages s xs) = last (bi_io_vec (bios s (last xs)))"
    by (induction xs) (auto simp: pages_def)
  then show "pages s xs \<noteq> []" "hd (pages s xs) = hd (bi_io_vec (bios s (hd xs)))"
    "last (pages s xs) = last (bi_io_vec (bios s (last xs)))" by blast+
qed

text \<open>What one of the two merges does to the links, the length and the ends of a request.\<close>

lemma run_append:
  assumes run: "rq_run E q r xs s" and b: "new_bio E q b s" "b \<notin> set xs"
    and at: "bi_sector (bios s b) = rq_hash_key (rqs s r)" and nf: "next_free E"
    and fits: "unat (data_len (rqs s r)) + unat (bi_size (bios s b)) < 2 ^ 32"
    and gap: "\<not> bvec_gap_to_prev (queues s q) (snd (last (bi_io_vec (bios s (last xs))))) (fst (snd (hd (bi_io_vec (bios s b)))))"
    and u: "bios u = (bios s)(last xs := (bios s (last xs))\<lparr>bi_next := Some b\<rparr>)"
      "rq_bio (rqs u r) = rq_bio (rqs s r)" "biotail (rqs u r) = Some b" "rq_sector (rqs u r) = rq_sector (rqs s r)"
      "data_len (rqs u r) = data_len (rqs s r) + bi_size (bios s b)" "rq_q (rqs u r) = Some q"
      "limits (queues u q) = limits (queues s q)"
  shows "rq_run E q r (xs @ [b]) u"
proof -
  have xs: "xs \<noteq> []" "distinct xs" "bio_chain s (rq_bio (rqs s r)) xs" "\<forall>x \<in> set xs. whole_bio E (queues s q) (bios s x)"
    and len: "unat (data_len (rqs s r)) = bios_bytes s xs"
    using run by (simp_all add: rq_run_def rq_bytes_ok_def)
  have bu: "bios u b = bios s b" using u(1) b(2) xs(1) by (metis fun_upd_other last_in_set)
  note L = relinked [OF nf u(1,7)]
  have nx: "bi_next (bios u b) = None" using b(1) bu by (simp add: new_bio_def)
  have tl: "bi_next (bios u (last xs)) = Some b" by (simp add: u(1))
  have "bio_chain u (rq_bio (rqs u r)) (xs @ [b])"
    unfolding u(2) by (rule bio_chain_append [OF xs(3,1,2) _ tl nx]) (simp add: u(1))
  moreover have "unat (data_len (rqs u r)) = bios_bytes u (xs @ [b])"
    using fits len by (simp add: u(5) unat_word_ariths bios_bytes_def L)
  moreover have "successively (adjacent u) (xs @ [b])"
    using run at rq_run_key [OF run] xs(1) by (simp add: L successively_append_iff rq_run_def adjacent_def)
  moreover have "no_gaps (queues s q) (pages s (xs @ [b]))"
    using run gap b(1) run_pages [OF run]
    by (simp add: no_gaps_append rq_run_def new_bio_def whole_bio_def full_bio_def)
  ultimately show ?thesis
    using run b xs u(3,4,6)
    by (auto simp: rq_run_def rq_bytes_ok_def new_bio_def L whole_bio_def [of E "queues s q" "bios s b"])
qed

lemma run_prepend:
  assumes run: "rq_run E q r xs s" and b: "new_bio E q b s" "b \<notin> set xs"
    and at: "bio_end (bios s b) = blk_rq_pos (rqs s r)" and nf: "next_free E"
    and fits: "unat (data_len (rqs s r)) + unat (bi_size (bios s b)) < 2 ^ 32"
    and gap: "\<not> bvec_gap_to_prev (queues s q) (snd (last (bi_io_vec (bios s b)))) (fst (snd (hd (bi_io_vec (bios s (hd xs))))))"
    and u: "bios u = (bios s)(b := (bios s b)\<lparr>bi_next := rq_bio (rqs s r)\<rparr>)"
      "rq_bio (rqs u r) = Some b" "biotail (rqs u r) = biotail (rqs s r)" "rq_sector (rqs u r) = bi_sector (bios s b)"
      "data_len (rqs u r) = data_len (rqs s r) + bi_size (bios s b)" "rq_q (rqs u r) = Some q"
      "limits (queues u q) = limits (queues s q)"
  shows "rq_run E q r (b # xs) u"
proof -
  have xs: "xs \<noteq> []" "distinct xs" "bio_chain s (rq_bio (rqs s r)) xs" "\<forall>x \<in> set xs. whole_bio E (queues s q) (bios s x)"
    and len: "unat (data_len (rqs s r)) = bios_bytes s xs"
    using run by (simp_all add: rq_run_def rq_bytes_ok_def)
  note L = relinked [OF nf u(1,7)]
  have "bio_chain u c xs = bio_chain s c xs" for c
    by (rule bio_chain_cong) (use b(2) in \<open>auto simp: u(1)\<close>)
  then have "bio_chain u (rq_bio (rqs u r)) (b # xs)" using xs(3) by (simp add: u(1,2))
  moreover have "unat (data_len (rqs u r)) = bios_bytes u (b # xs)"
    using fits len by (simp add: u(5) unat_word_ariths bios_bytes_def L)
  moreover have "successively (adjacent u) (b # xs)"
    using run at xs(1)
    by (cases xs) (simp_all add: L rq_run_def adjacent_def blk_rq_pos_def)
  moreover have "no_gaps (queues s q) (pages s (b # xs))"
    using run gap b(1) run_pages [OF run]
    by (simp add: no_gaps_append rq_run_def new_bio_def whole_bio_def full_bio_def)
  ultimately show ?thesis
    using run b xs u(3,4,6)
    by (auto simp: rq_run_def rq_bytes_ok_def new_bio_def L whole_bio_def [of E "queues s q" "bios s b"])
qed


section \<open>The two merges\<close>

text \<open>
  The functions of \<open>blk-merge.c\<close>: what \<open>blk_try_merge\<close> answers fits the sectors, and \<open>ll_back_merge_fn\<close>
  and \<open>ll_front_merge_fn\<close> agree only to a merge that is not too long and leaves no gap; they and the
  statistics change no request beyond flags and the number of segments.
\<close>

definition may_merge :: "kenv \<Rightarrow> (rid \<Rightarrow> bid \<Rightarrow> kst \<Rightarrow> bool option) \<Rightarrow> (qid \<Rightarrow> rid \<Rightarrow> bid \<Rightarrow> kst \<Rightarrow> bool \<times> kst) \<Rightarrow> bool" where
  "may_merge E gap ll \<longleftrightarrow> (\<forall>q r b s ok t. ll q r b s = (ok, t) \<longrightarrow> load E t = load E s \<and> quiet E s t \<and>
     (ok \<longrightarrow> unat (data_len (rqs s r)) + unat (bi_size (bios s b)) < 2 ^ 32 \<and> gap r b s = Some False))"

definition merge_env :: "kenv \<Rightarrow> bool" where
  "merge_env E \<longleftrightarrow> next_free E \<and> (\<forall>x. bio_sectors E x = drop_bit 9 (bi_size x)) \<and>
     (\<forall>r b s. blk_try_merge E r b s = ELEVATOR_BACK_MERGE \<longrightarrow> rq_hash_key (rqs s r) = bi_sector (bios s b)) \<and>
     (\<forall>r b s. blk_try_merge E r b s = ELEVATOR_FRONT_MERGE \<longrightarrow>
        blk_rq_pos (rqs s r) - ucast (bio_sectors E (bios s b)) = bi_sector (bios s b)) \<and>
     may_merge E (req_gap_back_merge E) (ll_back_merge_fn E) \<and>
     may_merge E (req_gap_front_merge E) (ll_front_merge_fn E) \<and>
     (\<forall>r s. load E (blk_rq_set_mixed_merge E r s) = load E s \<and> quiet E s (blk_rq_set_mixed_merge E r s)) \<and>
     (\<forall>k p n s. load E (part_stat_add E k p n s) = load E s \<and> quiet E s (part_stat_add E k p n s))"

lemma merge_mixed_keeps:
  assumes "merge_env E"
  shows "load E (merge_mixed E r ff s) = load E s" "quiet E s (merge_mixed E r ff s)"
  using assms by (simp_all add: merge_mixed_def merge_env_def)

text \<open>The statistics of a merge need a partition only if they are on.\<close>

definition stat_ok :: "request \<Rightarrow> bool" where
  "stat_ok x \<longleftrightarrow> (blk_do_io_stat x \<longrightarrow> rq_part x \<noteq> None)"

lemma account_merge:
  assumes "merge_env E" and "stat_ok (rqs s r)"
  shows "\<exists>t. blk_account_io_start E r False s = Some t \<and> load E t = load E s \<and> quiet E s t"
  using assms by (auto simp: blk_account_io_start_def Let_def stat_ok_def merge_env_def)

text \<open>What a merge of \<open>b\<close> into \<open>r\<close>, linked at the bio \<open>c\<close>, leaves alone.\<close>

definition elsewhere :: "'a kconf_scheme \<Rightarrow> rid \<Rightarrow> bid \<Rightarrow> kst \<Rightarrow> kst \<Rightarrow> bool" where
  "elsewhere E r c s t \<longleftrightarrow> quiet E s t \<and> (\<forall>x. x \<noteq> r \<longrightarrow> rq_core (rqs t x) = rq_core (rqs s x)) \<and>
     (\<forall>x. x \<noteq> c \<longrightarrow> bio_core E (bios t x) = bio_core E (bios s x))"

lemma elsewhere_run:
  assumes "elsewhere E r c s t" and "x \<noteq> r" and "c \<notin> set xs"
  shows "rq_run E q x xs t = rq_run E q x xs s"
  using assms quietD(13) [of E s t q] by (intro rq_run_cong) (auto simp: elsewhere_def)


lemma rq_place_update [simp]:
  "rq_place (biotail_update f1 x) = rq_place x" "rq_place (rq_bio_update f2 x) = rq_place x"
  "rq_place (data_len_update f3 x) = rq_place x" "rq_place (rq_sector_update f4 x) = rq_place x"
  "rq_place (ioprio_update f5 x) = rq_place x"
  by (simp_all add: rq_place_def blk_do_io_stat_def ELV_ON_HASH_def)

lemma rq_mergeable_update [simp]:
  "rq_mergeable E (biotail_update f1 x) = rq_mergeable E x" "rq_mergeable E (rq_bio_update f2 x) = rq_mergeable E x"
  "rq_mergeable E (data_len_update f3 x) = rq_mergeable E x" "rq_mergeable E (rq_sector_update f4 x) = rq_mergeable E x"
  "rq_mergeable E (ioprio_update f5 x) = rq_mergeable E x"
  by (simp_all add: rq_mergeable_def)

text \<open>The states after the links and the length have been set.\<close>

definition back_linked :: "kenv \<Rightarrow> rid \<Rightarrow> bid \<Rightarrow> bid \<Rightarrow> kst \<Rightarrow> kst" where
  "back_linked E r c b s =
     upd_rq r (\<lambda>x. ioprio_update (\<lambda>p. ioprio_best E p (bi_prio (bios s b)))
       (data_len_update (\<lambda>n. n + bi_size (bios s b)) (biotail_update (\<lambda>_. Some b) x)))
       (upd_bio c (bi_next_update (\<lambda>_. Some b)) s)"

definition front_linked :: "kenv \<Rightarrow> rid \<Rightarrow> bid \<Rightarrow> kst \<Rightarrow> kst" where
  "front_linked E r b s =
     upd_rq r (\<lambda>x. ioprio_update (\<lambda>p. ioprio_best E p (bi_prio (bios s b)))
       (data_len_update (\<lambda>n. n + bi_size (bios s b))
         (rq_sector_update (\<lambda>_. bi_sector (bios s b)) (rq_bio_update (\<lambda>_. Some b) x))))
       (upd_bio b (bi_next_update (\<lambda>_. rq_bio (rqs s r))) s)"

lemma linked_elsewhere:
  "elsewhere E r c s (back_linked E r c b s)" "elsewhere E r b s (front_linked E r b s)"
  by (simp_all add: elsewhere_def back_linked_def front_linked_def quiet_def setting_def fun_eq_iff)

lemma new_bio_load: "load E t = load E s \<Longrightarrow> new_bio E q b t = new_bio E q b s"
  using bio_coreD [OF loadD(2) [of E t s b]] no_gaps_cong [OF loadD(3) [of E t s q]]
  by (simp add: new_bio_def whole_bio_def full_bio_def)

lemma rq_hash_key_load: "load E t = load E s \<Longrightarrow> rq_hash_key (rqs t r) = rq_hash_key (rqs s r)"
  using rq_coreD [OF loadD(1) [of E t s r]]
  by (simp add: rq_hash_key_def blk_rq_pos_def blk_rq_sectors_def blk_rq_bytes_def)

lemma back_linked_run:
  assumes "rq_run E q r xs s" and "new_bio E q b s" "b \<notin> set xs" and "next_free E"
    and "bi_sector (bios s b) = rq_hash_key (rqs s r)"
    and "unat (data_len (rqs s r)) + unat (bi_size (bios s b)) < 2 ^ 32"
    and "\<not> bvec_gap_to_prev (queues s q) (snd (last (bi_io_vec (bios s (last xs))))) (fst (snd (hd (bi_io_vec (bios s b)))))"
  shows "rq_run E q r (xs @ [b]) (back_linked E r (last xs) b s)"
proof -
  have "last xs \<noteq> b" using assms(1,3) by (auto simp: rq_run_def)
  moreover have "rq_q (rqs s r) = Some q" using assms(1) by (simp add: rq_run_def)
  ultimately show ?thesis
    by (intro run_append [OF assms(1-3,5,4,6,7)]) (simp_all add: back_linked_def)
qed

lemma front_linked_run:
  assumes "rq_run E q r xs s" and "new_bio E q b s" "b \<notin> set xs" and "next_free E"
    and "bio_end (bios s b) = blk_rq_pos (rqs s r)"
    and "unat (data_len (rqs s r)) + unat (bi_size (bios s b)) < 2 ^ 32"
    and "\<not> bvec_gap_to_prev (queues s q) (snd (last (bi_io_vec (bios s b)))) (fst (snd (hd (bi_io_vec (bios s (hd xs))))))"
  shows "rq_run E q r (b # xs) (front_linked E r b s)"
proof -
  have "rq_q (rqs s r) = Some q" using assms(1) by (simp add: rq_run_def)
  then show ?thesis
    by (intro run_prepend [OF assms(1-3,5,4,6,7)]) (simp_all add: front_linked_def)
qed

lemma rq_run_ends:
  assumes "rq_run E q r xs s"
  shows "rq_q (rqs s r) = Some q" "biotail (rqs s r) = Some (last xs)" "rq_bio (rqs s r) = Some (hd xs)"
    "full_bio E (bios s (last xs))" "full_bio E (bios s (hd xs))"
  using assms by (cases xs; auto simp: rq_run_def rq_bytes_ok_def whole_bio_def)+

text \<open>The last step of a merge, the statistics.\<close>

lemma account_after:
  assumes env: "merge_env E" and s2: "load E s2 = load E s" "quiet E s s2" and st: "stat_ok (rqs s r)"
    and u: "elsewhere E r c s2 u" "rq_run E q r ys u"
  shows "\<exists>t. blk_account_io_start E r False u = Some t \<and> rq_run E q r ys t \<and> elsewhere E r c s t"
proof -
  have "quiet E s2 u" using u(1) by (simp add: elsewhere_def)
  then have "stat_ok (rqs u r)"
    using st quietD(8,9) [OF s2(2), of r] quietD(8,9) [of E s2 u r] by (simp add: stat_ok_def)
  from account_merge [OF env this] obtain t where
    t: "blk_account_io_start E r False u = Some t" "load E t = load E u" "quiet E u t" by blast
  moreover have "elsewhere E r c s t"
    using u(1) t(3) s2(2) loadD(1,2) [OF t(2)] loadD(1,2) [OF s2(1)] quiet_trans
    unfolding elsewhere_def by metis
  ultimately show ?thesis using u(2) rq_run_load [OF t(2)] by auto
qed

text \<open>
  \<open>bio_attempt_back_merge\<close> returns. If it agrees, the bio is the last one of the request, whose
  bios are still one run; if not, nothing has happened.
\<close>

lemma back_attempt:
  assumes env: "merge_env E" and run: "rq_run E q r xs s" and b: "new_bio E q b s" "b \<notin> set xs"
    and at: "bi_sector (bios s b) = rq_hash_key (rqs s r)" and st: "stat_ok (rqs s r)"
  shows "\<exists>ok t. bio_attempt_back_merge E q r b s = Some (ok, t) \<and>
    (if ok then rq_run E q r (xs @ [b]) t \<and> elsewhere E r (last xs) s t else load E t = load E s \<and> quiet E s t)"
proof -
  obtain ok s1 where ll: "ll_back_merge_fn E q r b s = (ok, s1)" by (cases "ll_back_merge_fn E q r b s")
  have L1: "load E s1 = load E s" "quiet E s s1"
    and ok: "ok \<Longrightarrow> unat (data_len (rqs s r)) + unat (bi_size (bios s b)) < 2 ^ 32 \<and> req_gap_back_merge E r b s = Some False"
    using env ll by (auto simp: merge_env_def may_merge_def)
  show ?thesis
  proof (cases ok)
    case False
    with ll L1 show ?thesis by (intro exI [of _ False] exI [of _ s1]) (simp add: bio_attempt_back_merge_def Let_def)
  next
    case True
    have ne: "last xs \<noteq> b" using run b(2) by (auto simp: rq_run_def)
    note nf = env [unfolded merge_env_def, THEN conjunct1]
    define s2 where "s2 = merge_mixed E r (bi_rw (bios s b) \<inter> REQ_FAILFAST_MASK E) s1"
    have s2: "load E s2 = load E s" "quiet E s s2"
      using merge_mixed_keeps [OF env] L1 by (auto simp: s2_def intro: quiet_trans)
    note C = rq_coreD [OF loadD(1) [OF s2(1)]] and B = bio_coreD [OF loadD(2) [OF s2(1)]]
    define u where "u = back_linked E r (last xs) b s2"
    have run2: "rq_run E q r xs s2" using run rq_run_load [OF s2(1)] by simp
    have nb: "new_bio E q b s2" using b(1) new_bio_load [OF s2(1)] by simp
    have "full_bio E (bios s b)" using b(1) by (simp add: new_bio_def whole_bio_def)
    with ok [OF True] rq_run_ends [OF run] bvec_gap_cong [OF loadD(3) [OF s2(1)], of q]
    have "rq_run E q r (xs @ [b]) u"
      unfolding u_def
      by (intro back_linked_run [OF run2 nb b(2) nf])
        (simp_all add: at B C rq_hash_key_load [OF s2(1)] req_gap_back_merge_def bio_will_gap_full)
    then obtain t where "blk_account_io_start E r False u = Some t" "rq_run E q r (xs @ [b]) t" "elsewhere E r (last xs) s t"
      using account_after [OF env s2 st linked_elsewhere(1) [of E r "last xs" s2 b, folded u_def]] by blast
    moreover have "bio_attempt_back_merge E q r b s = blk_account_io_start E r False u \<bind> (\<lambda>s. Some (True, s))"
      using ll True C(2) rq_run_ends(2) [OF run] ne
      by (simp add: bio_attempt_back_merge_def Let_def s2_def [symmetric] u_def back_linked_def comp_def)
    ultimately show ?thesis using True by auto
  qed
qed

text \<open>
  \<open>bio_attempt_front_merge\<close> returns. If it agrees, the bio is the first one of the request, whose
  bios are still one run; if not, nothing has happened.
\<close>

lemma front_attempt:
  assumes env: "merge_env E" and run: "rq_run E q r xs s" and b: "new_bio E q b s" "b \<notin> set xs"
    and at: "bio_end (bios s b) = blk_rq_pos (rqs s r)" and st: "stat_ok (rqs s r)"
  shows "\<exists>ok t. bio_attempt_front_merge E q r b s = Some (ok, t) \<and>
    (if ok then rq_run E q r (b # xs) t \<and> elsewhere E r b s t else load E t = load E s \<and> quiet E s t)"
proof -
  obtain ok s1 where ll: "ll_front_merge_fn E q r b s = (ok, s1)" by (cases "ll_front_merge_fn E q r b s")
  have L1: "load E s1 = load E s" "quiet E s s1"
    and ok: "ok \<Longrightarrow> unat (data_len (rqs s r)) + unat (bi_size (bios s b)) < 2 ^ 32 \<and> req_gap_front_merge E r b s = Some False"
    using env ll by (auto simp: merge_env_def may_merge_def)
  show ?thesis
  proof (cases ok)
    case False
    with ll L1 show ?thesis by (intro exI [of _ False] exI [of _ s1]) (simp add: bio_attempt_front_merge_def Let_def)
  next
    case True
    note nf = env [unfolded merge_env_def, THEN conjunct1]
    define s2 where "s2 = merge_mixed E r (bi_rw (bios s b) \<inter> REQ_FAILFAST_MASK E) s1"
    have s2: "load E s2 = load E s" "quiet E s s2"
      using merge_mixed_keeps [OF env] L1 by (auto simp: s2_def intro: quiet_trans)
    note C = rq_coreD [OF loadD(1) [OF s2(1)]] and B = bio_coreD [OF loadD(2) [OF s2(1)]]
    define u where "u = front_linked E r b s2"
    have run2: "rq_run E q r xs s2" using run rq_run_load [OF s2(1)] by simp
    have nb: "new_bio E q b s2" using b(1) new_bio_load [OF s2(1)] by simp
    have "full_bio E (bios s b)" using b(1) by (simp add: new_bio_def whole_bio_def)
    with ok [OF True] rq_run_ends [OF run] bvec_gap_cong [OF loadD(3) [OF s2(1)], of q]
    have "rq_run E q r (b # xs) u"
      unfolding u_def
      by (intro front_linked_run [OF run2 nb b(2) nf])
        (use at in \<open>simp_all add: B C bio_end_def blk_rq_pos_def req_gap_front_merge_def bio_will_gap_full\<close>)
    then obtain t where "blk_account_io_start E r False u = Some t" "rq_run E q r (b # xs) t" "elsewhere E r b s t"
      using account_after [OF env s2 st linked_elsewhere(2) [of E r b s2, folded u_def]] by blast
    moreover have "bio_attempt_front_merge E q r b s = blk_account_io_start E r False u \<bind> (\<lambda>s. Some (True, s))"
      using ll True C(2) rq_run_ends(2) [OF run]
      by (simp add: bio_attempt_front_merge_def Let_def s2_def [symmetric] u_def front_linked_def comp_def)
    ultimately show ?thesis using True by auto
  qed
qed



section \<open>The plug\<close>

text \<open>What a merge of \<open>b\<close> with the run \<open>xs\<close> of \<open>r\<close> has done.\<close>

definition run_grown :: "'a kconf_scheme \<Rightarrow> qid \<Rightarrow> rid \<Rightarrow> bid list \<Rightarrow> bid \<Rightarrow> kst \<Rightarrow> kst \<Rightarrow> bool" where
  "run_grown E q r xs b s t \<longleftrightarrow> (rq_run E q r (xs @ [b]) t \<and> elsewhere E r (last xs) s t) \<or>
     (rq_run E q r (b # xs) t \<and> elsewhere E r b s t)"

lemma run_grown_quiet: "run_grown E q r xs b s t \<Longrightarrow> quiet E s t"
  by (auto simp: run_grown_def elsewhere_def)

lemma run_grown_other:
  assumes "run_grown E q r xs b s t" and "xs \<noteq> []" and "x \<noteq> r" and "b \<notin> set ys" and "set xs \<inter> set ys = {}"
  shows "rq_run E q' x ys t = rq_run E q' x ys s"
proof -
  have "last xs \<notin> set ys" using assms(2,5) last_in_set [of xs] by blast
  then show ?thesis using assms elsewhere_run by (metis run_grown_def)
qed

lemma run_grown_from:
  assumes "load E s1 = load E s" and "quiet E s s1" and "run_grown E q r xs b s1 t"
  shows "run_grown E q r xs b s t"
proof -
  have "elsewhere E r c s t" if "elsewhere E r c s1 t" for c
    using that assms(1,2) loadD(1,2) [OF assms(1)] quiet_trans unfolding elsewhere_def by metis
  with assms(3) show ?thesis by (auto simp: run_grown_def)
qed

text \<open>A merge that \<open>blk_try_merge\<close> proposes.\<close>

definition try_merge :: "kenv \<Rightarrow> qid \<Rightarrow> rid \<Rightarrow> bid \<Rightarrow> kst \<Rightarrow> (bool \<times> kst) option" where
  "try_merge E q r b s = (case blk_try_merge E r b s of
      ELEVATOR_BACK_MERGE \<Rightarrow> bio_attempt_back_merge E q r b s
    | ELEVATOR_FRONT_MERGE \<Rightarrow> bio_attempt_front_merge E q r b s
    | ELEVATOR_NO_MERGE \<Rightarrow> Some (False, s))"

lemma try_front_end:
  assumes "merge_env E" and "blk_try_merge E r b s = ELEVATOR_FRONT_MERGE"
  shows "bio_end (bios s b) = blk_rq_pos (rqs s r)"
  using assms by (auto simp: merge_env_def bio_end_def algebra_simps)

lemma try_merge_grown:
  assumes env: "merge_env E" and run: "rq_run E q r xs s" and b: "new_bio E q b s" "b \<notin> set xs"
    and st: "stat_ok (rqs s r)"
  shows "\<exists>ok t. try_merge E q r b s = Some (ok, t) \<and>
    (if ok then run_grown E q r xs b s t else load E t = load E s \<and> quiet E s t)"
proof (cases "blk_try_merge E r b s")
  case ELEVATOR_BACK_MERGE
  then have "bi_sector (bios s b) = rq_hash_key (rqs s r)" using env by (simp add: merge_env_def)
  from back_attempt [OF env run b this st] obtain ok t where
    t: "bio_attempt_back_merge E q r b s = Some (ok, t)"
      "if ok then rq_run E q r (xs @ [b]) t \<and> elsewhere E r (last xs) s t else load E t = load E s \<and> quiet E s t"
    by blast
  with ELEVATOR_BACK_MERGE show ?thesis
    by (intro exI [of _ ok] exI [of _ t]; cases ok) (simp_all add: try_merge_def run_grown_def)
next
  case ELEVATOR_FRONT_MERGE
  from front_attempt [OF env run b try_front_end [OF env this] st] obtain ok t where
    t: "bio_attempt_front_merge E q r b s = Some (ok, t)"
      "if ok then rq_run E q r (b # xs) t \<and> elsewhere E r b s t else load E t = load E s \<and> quiet E s t"
    by blast
  with ELEVATOR_FRONT_MERGE show ?thesis
    by (intro exI [of _ ok] exI [of _ t]; cases ok) (simp_all add: try_merge_def run_grown_def)
next
  case ELEVATOR_NO_MERGE
  then show ?thesis by (intro exI [of _ False] exI [of _ s]) (simp add: try_merge_def)
qed


text \<open>The requests of a list, their queues and runs, of which the bio is not yet a part.\<close>

definition runs_ok ::
  "'a kconf_scheme \<Rightarrow> (rid \<Rightarrow> qid) \<Rightarrow> (rid \<Rightarrow> bid list) \<Rightarrow> bid \<Rightarrow> rid set \<Rightarrow> kst \<Rightarrow> bool" where
  "runs_ok E qs runs b R s \<longleftrightarrow>
     (\<forall>r \<in> R. rq_run E (qs r) r (runs r) s \<and> b \<notin> set (runs r) \<and> stat_ok (rqs s r))"

lemma runs_ok_load:
  assumes "load E t = load E s" and "quiet E s t"
  shows "runs_ok E qs runs b R t = runs_ok E qs runs b R s"
  using rq_run_load [OF assms(1)] quietD(8,9) [OF assms(2)] by (simp add: runs_ok_def stat_ok_def)

lemma plug_merge_walk_runs:
  assumes env: "merge_env E"
  shows "runs_ok E qs runs b (set rs) s \<Longrightarrow> new_bio E q b s \<Longrightarrow>
    \<exists>ok m sm t. plug_merge_walk E q b rs n same s = Some (ok, m, sm, t) \<and>
      (if ok then \<exists>r \<in> set rs. qs r = q \<and> run_grown E q r (runs r) b s t
       else load E t = load E s \<and> quiet E s t \<and> m = n + of_nat (length (filter (\<lambda>r. qs r = q) rs)))"
proof (induction rs arbitrary: n same s)
  case Nil
  then show ?case by (intro exI [of _ False]) simp
next
  case (Cons r rs)
  have R: "rq_run E (qs r) r (runs r) s" "b \<notin> set (runs r)" "stat_ok (rqs s r)"
    and rs: "runs_ok E qs runs b (set rs) s"
    using Cons.prems(1) by (simp_all add: runs_ok_def)
  have q: "rq_q (rqs s r) = Some q \<longleftrightarrow> qs r = q" using rq_run_ends(1) [OF R(1)] by simp
  define n' where "n' = (if qs r = q then n + 1 else n)"
  define same' where "same' = (if qs r = q then Some r else same)"
  have cnt: "n' + of_nat (length (filter (\<lambda>r. qs r = q) rs)) = n + of_nat (length (filter (\<lambda>r. qs r = q) (r # rs)))"
    by (simp add: n'_def)
  show ?case
  proof (cases "qs r \<noteq> q \<or> \<not> blk_rq_merge_ok E r b s")
    case True
    then have "plug_merge_walk E q b (r # rs) n same s = plug_merge_walk E q b rs n' same' s"
      using q by (auto simp: n'_def same'_def)
    moreover from Cons.IH [OF rs Cons.prems(2), of n' same'] obtain ok m sm t where
      "plug_merge_walk E q b rs n' same' s = Some (ok, m, sm, t)"
      "if ok then \<exists>r \<in> set rs. qs r = q \<and> run_grown E q r (runs r) b s t
       else load E t = load E s \<and> quiet E s t \<and> m = n' + of_nat (length (filter (\<lambda>r. qs r = q) rs))"
      by blast
    ultimately show ?thesis
      using cnt by (intro exI [of _ ok] exI [of _ m] exI [of _ sm] exI [of _ t]; cases ok) simp_all
  next
    case False
    then have "rq_run E q r (runs r) s" using R(1) by simp
    from try_merge_grown [OF env this Cons.prems(2) R(2,3)] obtain ok t where
      t: "try_merge E q r b s = Some (ok, t)"
        "if ok then run_grown E q r (runs r) b s t else load E t = load E s \<and> quiet E s t" by blast
    have w: "plug_merge_walk E q b (r # rs) n same s =
        (if ok then Some (True, n', same', t) else plug_merge_walk E q b rs n' same' t)"
      using False q t(1) by (simp add: try_merge_def n'_def same'_def)
    show ?thesis
    proof (cases ok)
      case True
      with w t(2) False show ?thesis by (intro exI [of _ True]) auto
    next
      case no: False
      with t(2) have l: "load E t = load E s" "quiet E s t" by simp_all
      have "runs_ok E qs runs b (set rs) t" "new_bio E q b t"
        using rs Cons.prems(2) runs_ok_load [OF l] new_bio_load [OF l(1)] by simp_all
      from Cons.IH [OF this, of n' same'] obtain ok' m sm u where
        u: "plug_merge_walk E q b rs n' same' t = Some (ok', m, sm, u)"
          "if ok' then \<exists>r \<in> set rs. qs r = q \<and> run_grown E q r (runs r) b t u
           else load E u = load E t \<and> quiet E t u \<and> m = n' + of_nat (length (filter (\<lambda>r. qs r = q) rs))"
        by blast
      show ?thesis
      proof (cases ok')
        case True
        with u w no run_grown_from [OF l] show ?thesis by (intro exI [of _ True]) auto
      next
        case False
        with u w no l cnt show ?thesis
          by (intro exI [of _ False] exI [of _ m] exI [of _ sm] exI [of _ u]) (auto intro: quiet_trans)
      qed
    qed
  qed
qed

text \<open>
  C4: \<open>blk_attempt_plug_merge\<close> returns, and either takes the bio in at one end of exactly one of the
  requests of its queue on the plug, or changes no request and reports their number. In both cases every
  request on the plug is one contiguous run of sectors afterwards, as long as its bios together and
  without gaps between their pages, and the plug still holds the same requests.
\<close>

theorem plug_merge_keeps_runs:
  assumes env: "merge_env E" and plug: "cur_plug s = Some p" "\<not> mq_ops (queues s q)"
    and runs: "runs_ok E qs runs b (set (linked s (PlugList p))) s" and b: "new_bio E q b s"
    and disj: "\<And>x y. x \<noteq> y \<Longrightarrow> set (runs x) \<inter> set (runs y) = {}"
  shows "\<exists>merged m same t. blk_attempt_plug_merge E q b n s = Some (merged, m, same, t) \<and>
    linked t = linked s \<and> locks t = locks s \<and>
    (if merged
     then \<exists>r \<in> set (linked s (PlugList p)). qs r = q \<and>
       (rq_run E q r (runs r @ [b]) t \<or> rq_run E q r (b # runs r) t) \<and>
       (\<forall>x \<in> set (linked s (PlugList p)) - {r}. rq_run E (qs x) x (runs x) t)
     else (\<forall>x \<in> set (linked s (PlugList p)). rq_run E (qs x) x (runs x) t) \<and>
       m = of_nat (length (filter (\<lambda>r. qs r = q) (linked s (PlugList p)))))"
proof -
  let ?P = "linked s (PlugList p)"
  have "runs_ok E qs runs b (set (rev ?P)) s" using runs by simp
  from plug_merge_walk_runs [OF env this b, of 0 None]
  have "\<exists>ok m sm t. plug_merge_walk E q b (rev ?P) 0 None s = Some (ok, m, sm, t) \<and>
      (if ok then \<exists>r \<in> set ?P. qs r = q \<and> run_grown E q r (runs r) b s t
       else load E t = load E s \<and> quiet E s t \<and> m = of_nat (length (filter (\<lambda>r. qs r = q) ?P)))"
    by (simp only: set_rev add_0 rev_filter [symmetric] length_rev)
  then obtain ok m sm t where
    t: "plug_merge_walk E q b (rev ?P) 0 None s = Some (ok, m, sm, t)"
      "if ok then \<exists>r \<in> set ?P. qs r = q \<and> run_grown E q r (runs r) b s t
       else load E t = load E s \<and> quiet E s t \<and> m = of_nat (length (filter (\<lambda>r. qs r = q) ?P))"
    by blast
  have run: "blk_attempt_plug_merge E q b n s = Some (ok, m, sm, t)"
    using plug t(1) by (simp add: blk_attempt_plug_merge_def)
  have R: "rq_run E (qs x) x (runs x) s" "b \<notin> set (runs x)" if "x \<in> set ?P" for x
    using runs that by (simp_all add: runs_ok_def)
  show ?thesis
  proof (cases ok)
    case True
    with t(2) obtain r where r: "r \<in> set ?P" "qs r = q" "run_grown E q r (runs r) b s t" by auto
    have "runs r \<noteq> []" using R(1) [OF r(1)] by (simp add: rq_run_def)
    then have "rq_run E (qs x) x (runs x) t" if "x \<in> set ?P - {r}" for x
      using that R [of x] run_grown_other [OF r(3), of x "runs x" "qs x"] disj [of r x] by auto
    moreover have "rq_run E q r (runs r @ [b]) t \<or> rq_run E q r (b # runs r) t"
      using r(3) by (auto simp: run_grown_def)
    ultimately show ?thesis
      using run True r(1,2) quietD(1,2) [OF run_grown_quiet [OF r(3)]] by (intro exI [of _ True]) auto
  next
    case False
    with t(2) have "load E t = load E s" "quiet E s t" "m = of_nat (length (filter (\<lambda>r. qs r = q) ?P))" by auto
    moreover from this(1) have "rq_run E (qs x) x (runs x) t" if "x \<in> set ?P" for x
      using R(1) [OF that] rq_run_load by blast
    ultimately show ?thesis
      using run False quietD(1,2) [of E s t] by (intro exI [of _ False]) auto
  qed
qed


section \<open>A concrete plug\<close>

text \<open>The request 1 with bio 10 on the sectors 8 to 15, and bio 11 for the eight sectors behind them.\<close>

definition merge_env1 :: kenv where
  "merge_env1 = env_zero
     \<lparr>blk_rq_merge_ok := (\<lambda>r b s. True),
      blk_try_merge := (\<lambda>r b s. if rq_hash_key (rqs s r) = bi_sector (bios s b) then ELEVATOR_BACK_MERGE
        else if blk_rq_pos (rqs s r) - ucast (drop_bit 9 (bi_size (bios s b))) = bi_sector (bios s b)
        then ELEVATOR_FRONT_MERGE else ELEVATOR_NO_MERGE),
      ll_back_merge_fn := (\<lambda>q r b s. (unat (data_len (rqs s r)) + unat (bi_size (bios s b)) < 2 ^ 32 \<and>
        req_gap_back_merge env_zero r b s = Some False, s)),
      ll_front_merge_fn := (\<lambda>q r b s. (unat (data_len (rqs s r)) + unat (bi_size (bios s b)) < 2 ^ 32 \<and>
        req_gap_front_merge env_zero r b s = Some False, s))\<rparr>"

definition merge_plug :: kst where
  "merge_plug = kst_zero
     \<lparr>cur_plug := Some 0, linked := (\<lambda>_. [])(PlugList 0 := [1]),
      rqs := (\<lambda>_. rq_zero)(1 := rq_zero\<lparr>rq_q := Some 0, rq_sector := 8, data_len := 4096, cmd_type := REQ_TYPE_FS,
        rq_bio := Some 10, biotail := Some 10\<rparr>),
      bios := (\<lambda>_. bio_zero)(10 := bio_zero\<lparr>bi_sector := 8, bi_size := 4096, bi_vcnt := 1, bi_io_vec := [(5, 0, 4096)]\<rparr>,
        11 := bio_zero\<lparr>bi_sector := 16, bi_size := 4096, bi_vcnt := 1, bi_io_vec := [(9, 0, 4096)]\<rparr>)\<rparr>"

lemma env_gap: "bio_has_data E = bio_has_data F \<Longrightarrow>
    req_gap_back_merge E = req_gap_back_merge F \<and> req_gap_front_merge E = req_gap_front_merge F"
  by (simp add: fun_eq_iff req_gap_back_merge_def req_gap_front_merge_def bio_will_gap_def)

lemma parts_elsewhere [simp]: "load E (parts_update f s) = load E s" "quiet E s (parts_update f s)"
  by (simp_all add: load_def quiet_def setting_def)

lemma merge_env1_fields:
  "bio_has_data merge_env1 x \<longleftrightarrow> bi_size x \<noteq> 0" "bio_sectors merge_env1 x = drop_bit 9 (bi_size x)"
  "blk_rq_set_mixed_merge merge_env1 r s = s"
  "part_stat_add merge_env1 k p n s = upd_part p (part_stats_update (\<lambda>f. f(k := f k + n))) s"
  by (simp_all add: merge_env1_def env_zero_def)

lemma merge_env1_ok: "merge_env merge_env1"
proof -
  have "req_gap_back_merge merge_env1 = req_gap_back_merge env_zero"
    "req_gap_front_merge merge_env1 = req_gap_front_merge env_zero"
    using env_gap [of merge_env1 env_zero] by (simp_all add: merge_env1_def)
  then have "may_merge merge_env1 (req_gap_back_merge merge_env1) (ll_back_merge_fn merge_env1)"
    "may_merge merge_env1 (req_gap_front_merge merge_env1) (ll_front_merge_fn merge_env1)"
    by (simp_all add: may_merge_def) (simp_all add: merge_env1_def)
  moreover have "blk_try_merge merge_env1 r b s = ELEVATOR_BACK_MERGE \<Longrightarrow> rq_hash_key (rqs s r) = bi_sector (bios s b)"
    "blk_try_merge merge_env1 r b s = ELEVATOR_FRONT_MERGE \<Longrightarrow>
      blk_rq_pos (rqs s r) - ucast (drop_bit 9 (bi_size (bios s b))) = bi_sector (bios s b)" for r b s
    by (simp_all add: merge_env1_def split: if_splits)
  ultimately show ?thesis
    by (simp add: merge_env_def next_free_def merge_env1_fields)
qed

lemma merge_plug_ok:
  "runs_ok merge_env1 (\<lambda>_. 0) (\<lambda>r. if r = 1 then [10] else []) 11 (set (linked merge_plug (PlugList 0))) merge_plug"
  "new_bio merge_env1 0 11 merge_plug"
  by (simp_all add: runs_ok_def rq_run_def rq_bytes_ok_def new_bio_def whole_bio_def full_bio_def no_gaps_def
      pages_def stat_ok_def blk_do_io_stat_def merge_plug_def merge_env1_def env_zero_def rq_zero_def bio_zero_def)

theorem plug_merge_keeps_runs_witness:
  "\<exists>m same t. blk_attempt_plug_merge merge_env1 0 11 0 merge_plug = Some (True, m, same, t) \<and>
     rq_run merge_env1 0 1 [10, 11] t \<and> linked t = linked merge_plug"
proof -
  have c: "cur_plug merge_plug = Some 0" "\<not> mq_ops (queues merge_plug 0)" "linked merge_plug (PlugList 0) = [1]"
    by (simp_all add: merge_plug_def kst_zero_def queue_zero_def)
  have y: "\<exists>m same t. blk_attempt_plug_merge merge_env1 0 11 0 merge_plug = Some (True, m, same, t) \<and>
      biotail (rqs t 1) = Some 11"
    by (simp add: merge_plug_def merge_env1_def env_zero_def blk_attempt_plug_merge_def rq_hash_key_def
        blk_rq_pos_def blk_rq_sectors_def blk_rq_bytes_def rq_zero_def bio_zero_def kst_zero_def queue_zero_def
        bio_attempt_back_merge_def Let_def merge_mixed_def blk_account_io_start_def blk_do_io_stat_def
        req_gap_back_merge_def bio_will_gap_def bvec_gap_to_prev_def queue_virt_boundary_def limits_zero_def
        REQ_TYPE_FS_def drop_bit_eq_div)
  have d: "set (if x = 1 then [10 :: bid] else []) \<inter> set (if y = 1 then [10] else []) = {}" if "x \<noteq> y" for x y :: rid
    using that by auto
  from plug_merge_keeps_runs [OF merge_env1_ok c(1,2) merge_plug_ok d, of 0] y obtain m same t where
    t: "blk_attempt_plug_merge merge_env1 0 11 0 merge_plug = Some (True, m, same, t)" "biotail (rqs t 1) = Some 11"
      "linked t = linked merge_plug" "rq_run merge_env1 0 1 [10, 11] t \<or> rq_run merge_env1 0 1 [11, 10] t"
    unfolding c(3) by fastforce
  moreover have "\<not> rq_run merge_env1 0 1 [11, 10] t"
    using t(2) rq_run_ends(2) [of merge_env1 0 1 "[11, 10]" t] by auto
  ultimately show ?thesis by blast
qed

end
