(* ===== verification/Elv_Merge.thy ===== *)
theory Elv_Merge
  imports Blk_Merge Elv_Greedy
begin

text \<open>
  Merging a bio into a request that waits in the greedy scheduler: the search of \<open>elv_merge\<close>, the
  merge itself and the bookkeeping of \<open>elv_merged_request\<close>, as \<open>blk_queue_bio\<close> calls them. The merge
  hash stays in order, and the requests stay contiguous runs of bios.
\<close>

section \<open>The search\<close>

text \<open>A search may take requests out of the hash that can no longer be merged, and does nothing else.\<close>

definition hash_less :: "'a kconf_scheme \<Rightarrow> kst \<Rightarrow> kst \<Rightarrow> bool" where
  "hash_less E s t \<longleftrightarrow> load E t = load E s \<and> linked t = linked s \<and> locks t = locks s \<and> queues t = queues s \<and>
     (\<forall>e. eq_type (elvqs t e) = eq_type (elvqs s e) \<and> elevator_data (elvqs t e) = elevator_data (elvqs s e)) \<and>
     (\<forall>x. queuelist (rqs t x) = queuelist (rqs s x) \<and> rq_part (rqs t x) = rq_part (rqs s x) \<and>
        blk_do_io_stat (rqs t x) = blk_do_io_stat (rqs s x) \<and>
        (hash_node (rqs t x) = None \<or> hash_node (rqs t x) = hash_node (rqs s x)))"

lemma hash_less_refl [simp]: "hash_less E s s"
  by (simp add: hash_less_def)

lemma hash_less_trans: "hash_less E s t \<Longrightarrow> hash_less E t u \<Longrightarrow> hash_less E s u"
  unfolding hash_less_def by metis

lemma hash_less_del: "hash_less E s (raw_elv_rqhash_del r s)"
  by (auto simp: hash_less_def load_def rq_core_def carried_def raw_elv_rqhash_del_def hash_del_def
      blk_do_io_stat_def fun_eq_iff split: option.split)

lemma scan_less:
  "elv_rqhash_scan E k rs s = Some (res, t) \<Longrightarrow> REQ_HASHED \<notin> REQ_NOMERGE_FLAGS E \<Longrightarrow>
   hash_less E s t \<and> (hash_keyed E s \<longrightarrow> hash_keyed E t) \<and> (\<forall>r. res = Some r \<longrightarrow> r \<in> set rs)"
proof (induction rs arbitrary: s)
  case (Cons r rs)
  from Cons.prems(1) have on: "ELV_ON_HASH (rqs s r)" by (simp add: Option.bind_eq_Some_conv)
  show ?case
  proof (cases "rq_mergeable E (rqs s r)")
    case True
    with Cons on show ?thesis by (auto split: if_splits)
  next
    case False
    with Cons.prems(1) on have "elv_rqhash_scan E k rs (raw_elv_rqhash_del r s) = Some (res, t)" by simp
    from Cons.IH [OF this Cons.prems(2)] show ?thesis
      using hash_keyed_del [OF Cons.prems(2)] hash_less_trans [OF hash_less_del] by auto
  qed
qed auto

text \<open>The requests a merge may choose: those in the hash of the elevator, and \<open>last_merge\<close>.\<close>

definition mergees :: "qid \<Rightarrow> eqid \<Rightarrow> kst \<Rightarrow> rid set" where
  "mergees q e s = {r. \<exists>b. hash_node (rqs s r) = Some (e, b)} \<union> {r. last_merge (queues s q) = Some r}"

text \<open>What the search answers fits the sectors of the request and the bio.\<close>

definition fitting :: "qid \<Rightarrow> eqid \<Rightarrow> bid \<Rightarrow> kst \<Rightarrow> elv_merge_ret \<Rightarrow> rid option \<Rightarrow> bool" where
  "fitting q e b s ret ro \<longleftrightarrow> (case ret of
       ELEVATOR_NO_MERGE \<Rightarrow> True
     | ELEVATOR_BACK_MERGE \<Rightarrow> (\<exists>r \<in> mergees q e s. ro = Some r \<and> rq_hash_key (rqs s r) = bi_sector (bios s b))
     | ELEVATOR_FRONT_MERGE \<Rightarrow> (\<exists>r \<in> mergees q e s. ro = Some r \<and> bio_end (bios s b) = blk_rq_pos (rqs s r)))"

lemma elv_merge_fits:
  assumes env: "merge_env E" "REQ_HASHED \<notin> REQ_NOMERGE_FLAGS E" and gi: "greedy_installed E q g s"
    and e: "elevator (queues s q) = Some e" and h: "hash_ok s" "hash_keyed E s"
    and own: "\<And>r. r \<in> mergees q e s \<Longrightarrow> rq_q (rqs s r) = Some q"
  shows "\<exists>ret ro t. elv_merge E q b s = Some (ret, ro, t) \<and> hash_less E s t \<and> hash_ok t \<and> hash_keyed E t \<and>
    fitting q e b s ret ro"
proof (cases "blk_queue_nomerges (queues s q)")
  case True
  then show ?thesis
    using h by (intro exI [of _ ELEVATOR_NO_MERGE] exI [of _ None] exI [of _ s]) (simp add: elv_merge_def fitting_def)
next
  case go: False
  note ops = greedy_installed_ops(1) [OF gi]
  have ok: "elv_rq_merge_ok E r b s = Some (blk_rq_merge_ok E r b s)"
    if "rq_q (rqs s r) = Some q" "greedy_installed E q g s" for r s
    using that greedy_installed_ops(1) [OF that(2)]
    by (simp add: elv_rq_merge_ok_def elv_iosched_allow_merge_def elevator_greedy_def)
  define hit where "hit = (case last_merge (queues s q) of None \<Rightarrow> ELEVATOR_NO_MERGE
    | Some m \<Rightarrow> if blk_rq_merge_ok E m b s then blk_try_merge E m b s else ELEVATOR_NO_MERGE)"
  have hit: "(case last_merge (queues s q) of None \<Rightarrow> Some ELEVATOR_NO_MERGE
      | Some m \<Rightarrow> elv_rq_merge_ok E m b s \<bind> (\<lambda>ok. Some (if ok then blk_try_merge E m b s else ELEVATOR_NO_MERGE))) =
    Some hit"
    using ok [OF own gi] by (auto simp: hit_def mergees_def split: option.split)
  show ?thesis
  proof (cases "hit = ELEVATOR_NO_MERGE")
    case False
    then obtain m where m: "last_merge (queues s q) = Some m" "hit = blk_try_merge E m b s"
      by (auto simp: hit_def split: option.splits if_splits)
    then have "m \<in> mergees q e s" by (simp add: mergees_def)
    moreover have "rq_hash_key (rqs s m) = bi_sector (bios s b)" if "hit = ELEVATOR_BACK_MERGE"
      using that env(1) m(2) by (simp add: merge_env_def)
    moreover have "bio_end (bios s b) = blk_rq_pos (rqs s m)" if "hit = ELEVATOR_FRONT_MERGE"
      using that m(2) try_front_end [OF env(1)] by metis
    ultimately have "fitting q e b s hit (Some m)" by (cases hit) (simp_all add: fitting_def)
    then show ?thesis
      using go False hit m(1) h
      by (intro exI [of _ hit] exI [of _ "Some m"] exI [of _ s]) (simp add: elv_merge_def)
  next
    case no: True
    show ?thesis
    proof (cases "blk_queue_noxmerges (queues s q)")
      case True
      then show ?thesis
        using go no hit h
        by (intro exI [of _ ELEVATOR_NO_MERGE] exI [of _ None] exI [of _ s]) (simp add: elv_merge_def fitting_def)
    next
      case nx: False
      let ?k = "bi_sector (bios s b)"
      from elv_rqhash_find_spec [OF h e, of ?k] obtain res t where
        t: "elv_rqhash_find E q ?k s = Some (res, t)" "hash_ok t"
          "\<forall>r. res = Some r \<longrightarrow> rq_hash_key (rqs t r) = ?k" by (auto split: option.splits)
      then have sc: "elv_rqhash_scan E ?k (eq_hash (elvqs s e) (hash_min E ?k)) s = Some (res, t)"
        using e by (simp add: elv_rqhash_find_def)
      note less = scan_less [OF sc env(2)]
      then have lt: "hash_less E s t" and kt: "hash_keyed E t" using h(2) by simp_all
      have gt: "greedy_installed E q g t"
        using gi lt greedy_installed_cong [of t q s E g] by (simp add: hash_less_def)
      note opt = greedy_installed_ops(1) [OF gt]
      have mem: "r \<in> mergees q e s" "rq_hash_key (rqs s r) = ?k" "rq_q (rqs t r) = Some q" if "res = Some r" for r
      proof -
        show m: "r \<in> mergees q e s" using less that hash_okD(2) [OF h(1)] by (auto simp: mergees_def)
        show "rq_hash_key (rqs s r) = ?k"
          using t(3) that lt rq_hash_key_load [of E t s r] by (simp add: hash_less_def)
        show "rq_q (rqs t r) = Some q"
          using own [OF m] rq_coreD(5) [OF loadD(1) [of E t s r]] lt by (simp add: hash_less_def)
      qed
      define yes where "yes = (case res of None \<Rightarrow> False | Some r \<Rightarrow> blk_rq_merge_ok E r b t)"
      have "(case res of None \<Rightarrow> Some False | Some r \<Rightarrow> elv_rq_merge_ok E r b t) = Some yes"
        using ok [OF mem(3) gt] by (auto simp: yes_def split: option.split)
      then have run: "elv_merge E q b s = Some (if yes then ELEVATOR_BACK_MERGE else ELEVATOR_NO_MERGE, if yes then res else None, t)"
        using go no nx hit t(1) opt by (simp add: elv_merge_def elevator_greedy_def)
      have "fitting q e b s (if yes then ELEVATOR_BACK_MERGE else ELEVATOR_NO_MERGE) (if yes then res else None)"
        using mem(1,2) by (auto simp: fitting_def yes_def split: option.splits)
      then show ?thesis using run lt t(2) kt by blast
    qed
  qed
qed


section \<open>The bookkeeping\<close>

lemma hash_ok_quiet:
  assumes "quiet E s t"
  shows "hash_ok t = hash_ok s"
  using quietD(4,10,11) [OF assms] by (simp add: hash_ok_def)

text \<open>The keys of all requests but one are right.\<close>

definition keyed_but :: "'a kconf_scheme \<Rightarrow> rid \<Rightarrow> kst \<Rightarrow> bool" where
  "keyed_but E r s \<longleftrightarrow> (\<forall>x e b. x \<noteq> r \<longrightarrow> hash_node (rqs s x) = Some (e, b) \<longrightarrow> rq_mergeable E (rqs s x) \<longrightarrow>
     b = hash_min E (rq_hash_key (rqs s x)))"

lemma keyed_elsewhere:
  assumes "elsewhere E r c s t" and "hash_keyed E s"
  shows "keyed_but E r t"
  unfolding keyed_but_def
proof (intro allI impI)
  fix x e b assume x: "x \<noteq> r" "hash_node (rqs t x) = Some (e, b)" "rq_mergeable E (rqs t x)"
  have q: "quiet E s t" and c: "rq_core (rqs t x) = rq_core (rqs s x)"
    using assms(1) x(1) by (simp_all add: elsewhere_def)
  have "hash_node (rqs s x) = Some (e, b)" "rq_mergeable E (rqs s x)" using x(2,3) quietD(10,16) [OF q] by simp_all
  then have "b = hash_min E (rq_hash_key (rqs s x))" using assms(2) by (simp add: hash_keyed_def)
  then show "b = hash_min E (rq_hash_key (rqs t x))"
    using rq_coreD [OF c] by (simp add: rq_hash_key_def blk_rq_pos_def blk_rq_sectors_def blk_rq_bytes_def)
qed

lemma reposition:
  assumes e: "elevator (queues s q) = Some e" and ok: "hash_ok s" and but: "keyed_but E r s"
    and nm: "REQ_HASHED \<notin> REQ_NOMERGE_FLAGS E"
  shows "\<exists>t. elv_rqhash_reposition E q r s = Some t \<and> hash_ok t \<and> hash_keyed E t \<and> load E t = load E s \<and>
    linked t = linked s \<and> locks t = locks s \<and> queues t = queues s \<and>
    (\<forall>e. eq_type (elvqs t e) = eq_type (elvqs s e) \<and> elevator_data (elvqs t e) = elevator_data (elvqs s e)) \<and>
    (\<forall>x. queuelist (rqs t x) = queuelist (rqs s x))"
proof -
  define d where "d = raw_elv_rqhash_del r s"
  have off: "\<not> ELV_ON_HASH (rqs d r)"
    by (auto simp: d_def raw_elv_rqhash_del_def hash_del_def ELV_ON_HASH_def split: option.split prod.split)
  have okd: "hash_ok d" unfolding d_def by (rule hash_ok_del [OF ok])
  then have no: "hash_node (rqs d r) = None" using off hash_okD(3) by blast
  have "hash_keyed E d"
    using but no unfolding hash_keyed_def keyed_but_def d_def
    by (metis elv_rqhash_del_other(1) option.distinct(1))
  define t where "t = set_flag r REQ_HASHED (hash_add E e r (rq_hash_key (rqs d r)) d)"
  have t: "elv_rqhash_add E q r d = Some t"
    using e off by (simp add: elv_rqhash_add_def t_def) (simp add: d_def)
  have "hash_ok t" "hash_keyed E t"
    using hash_ok_add [OF okd t] hash_keyed_add [OF \<open>hash_keyed E d\<close> t nm] by simp_all
  moreover have ld: "hash_less E s d" unfolding d_def by (rule hash_less_del)
  have "load E t = load E d" "linked t = linked d" "locks t = locks d" "queues t = queues d"
    "\<And>e. eq_type (elvqs t e) = eq_type (elvqs d e) \<and> elevator_data (elvqs t e) = elevator_data (elvqs d e)"
    "\<And>x. queuelist (rqs t x) = queuelist (rqs d x)"
    by (auto simp: t_def hash_add_def load_def rq_core_def carried_def)
  ultimately show ?thesis
    using t ld by (auto simp: elv_rqhash_reposition_def d_def [symmetric] hash_less_def)
qed

text \<open>After a front merge the request still ends where it ended.\<close>

lemma front_key:
  assumes "rq_run E q r xs s" and "rq_run E q r (b # xs) t" and "elsewhere E r b s t" and "b \<notin> set xs"
  shows "rq_hash_key (rqs t r) = rq_hash_key (rqs s r)"
proof -
  have "xs \<noteq> []" using assms(1) by (simp add: rq_run_def)
  then have "last xs \<noteq> b" using assms(4) by (metis last_in_set)
  then have "bio_core E (bios t (last xs)) = bio_core E (bios s (last xs))" using assms(3) by (simp add: elsewhere_def)
  then have "bio_end (bios t (last xs)) = bio_end (bios s (last xs))" using bio_coreD by (metis bio_end_def)
  then show ?thesis using rq_run_key [OF assms(1)] rq_run_key [OF assms(2)] \<open>xs \<noteq> []\<close> by simp
qed

lemma keyed_front:
  assumes "keyed_but E r t" and "hash_keyed E s" and "quiet E s t"
    and "rq_hash_key (rqs t r) = rq_hash_key (rqs s r)"
  shows "hash_keyed E t"
  unfolding hash_keyed_def
proof (intro allI impI)
  fix x e b assume x: "hash_node (rqs t x) = Some (e, b)" "rq_mergeable E (rqs t x)"
  show "b = hash_min E (rq_hash_key (rqs t x))"
  proof (cases "x = r")
    case True
    with x assms(2,4) quietD(10,16) [OF assms(3)] show ?thesis by (auto simp: hash_keyed_def)
  qed (use x assms(1) in \<open>auto simp: keyed_but_def\<close>)
qed


section \<open>The merge under the queue lock\<close>

text \<open>The scheduler's state is in order: its lists, its count, and the hash.\<close>

definition sched_ok :: "kenv \<Rightarrow> qid \<Rightarrow> gdid \<Rightarrow> kst \<Rightarrow> bool" where
  "sched_ok E q g s \<longleftrightarrow> elv_sorted_ok E q g s \<and> hash_ok s \<and> hash_keyed E s"

lemma sorted_ok_carry:
  assumes "linked t = linked s" and "\<And>x. queuelist (rqs t x) = queuelist (rqs s x)"
    and "elevator (queues t q) = elevator (queues s q)" and "nr_sorted (queues t q) = nr_sorted (queues s q)"
    and "\<And>e. eq_type (elvqs t e) = eq_type (elvqs s e) \<and> elevator_data (elvqs t e) = elevator_data (elvqs s e)"
  shows "elv_sorted_ok E q g t = elv_sorted_ok E q g s"
  using assms lists_ok_cong [of t s] greedy_installed_cong [of t q s E g]
  by (simp add: elv_sorted_ok_def greedy_pending_def)

lemma sorted_ok_quiet: "quiet E s t \<Longrightarrow> elv_sorted_ok F q g t = elv_sorted_ok F q g s"
  using quietD [of E s t] by (intro sorted_ok_carry) simp_all

lemma sched_ok_less:
  assumes "hash_less E s t" and "hash_ok t" and "hash_keyed E t" and "sched_ok E q g s"
  shows "sched_ok E q g t"
proof -
  have "elv_sorted_ok E q g t = elv_sorted_ok E q g s"
    using assms(1) by (intro sorted_ok_carry) (simp_all add: hash_less_def)
  then show ?thesis using assms(2-4) by (simp add: sched_ok_def)
qed

lemma sched_ok_quiet:
  assumes "load E t = load E s" and "quiet E s t" and "sched_ok E q g s"
  shows "sched_ok E q g t"
proof -
  have "hash_keyed E t"
    using assms(3) quietD(10,16) [OF assms(2)] rq_hash_key_load [OF assms(1)]
    by (auto simp: sched_ok_def hash_keyed_def)
  then show ?thesis
    using assms(3) sorted_ok_quiet [OF assms(2)] hash_ok_quiet [OF assms(2)] by (simp add: sched_ok_def)
qed

lemma last_merge_elsewhere:
  "load E (upd_q q (last_merge_update f) s) = load E s"
  "sched_ok E q g (upd_q q (last_merge_update f) s) = sched_ok E q g s"
proof -
  let ?t = "upd_q q (last_merge_update f) s"
  show "load E ?t = load E s" by (simp add: load_def fun_eq_iff)
  have "elv_sorted_ok E q g ?t = elv_sorted_ok E q g s" by (rule sorted_ok_carry) simp_all
  then show "sched_ok E q g ?t = sched_ok E q g s" by (simp add: sched_ok_def hash_ok_def hash_keyed_def)
qed

text \<open>What is left to do after a merge: no hook of the greedy scheduler is called.\<close>

lemma merged_back:
  assumes gi: "greedy_installed E q g s" and e: "elevator (queues s q) = Some e" and nm: "REQ_HASHED \<notin> REQ_NOMERGE_FLAGS E"
    and ok: "elv_sorted_ok E q g s" "hash_ok s" "keyed_but E r s"
  shows "elv_bio_merged E q r b s = Some s \<and> (\<exists>t. elv_merged_request E q r ELEVATOR_BACK_MERGE s = Some t \<and>
    load E t = load E s \<and> sched_ok E q g t \<and> linked t = linked s \<and> locks t = locks s \<and>
    last_merge (queues t q) = Some r)"
proof -
  note ops = greedy_installed_ops(1) [OF gi]
  from reposition [OF e ok(2,3) nm] obtain t where
    t: "elv_rqhash_reposition E q r s = Some t" "hash_ok t" "hash_keyed E t" "load E t = load E s"
      "linked t = linked s" "locks t = locks s" "queues t = queues s"
      "\<And>e. eq_type (elvqs t e) = eq_type (elvqs s e) \<and> elevator_data (elvqs t e) = elevator_data (elvqs s e)"
      "\<And>x. queuelist (rqs t x) = queuelist (rqs s x)" by blast
  have "elv_sorted_ok E q g t = elv_sorted_ok E q g s" by (rule sorted_ok_carry) (simp_all add: t)
  then have "sched_ok E q g t" using t(2,3) ok(1) by (simp add: sched_ok_def)
  then show ?thesis
    using ops t by (simp add: elv_bio_merged_def elv_merged_request_def elevator_greedy_def last_merge_elsewhere)
qed

lemma merged_front:
  assumes gi: "greedy_installed E q g s" and ok: "sched_ok E q g s"
  shows "elv_bio_merged E q r b s = Some s \<and> (\<exists>t. elv_merged_request E q r ELEVATOR_FRONT_MERGE s = Some t \<and>
    load E t = load E s \<and> sched_ok E q g t \<and> linked t = linked s \<and> locks t = locks s \<and>
    last_merge (queues t q) = Some r)"
  using greedy_installed_ops(1) [OF gi] ok
  by (simp add: elv_bio_merged_def elv_merged_request_def elevator_greedy_def last_merge_elsewhere)

text \<open>No two requests of the queue are adjacent, so \<open>blk-merge.c\<close> finds no further merge.\<close>

definition lone_env :: "kenv \<Rightarrow> qid \<Rightarrow> bool" where
  "lone_env E q \<longleftrightarrow> (\<forall>r s. attempt_back_merge E q r s = Some (False, s) \<and> attempt_front_merge E q r s = Some (False, s)) \<and>
     REQ_HASHED \<notin> REQ_NOMERGE_FLAGS E"

text \<open>The merge proper, on the request that the search has found.\<close>

lemma merge_found:
  assumes env: "merge_env E" "lone_env E q" and ok: "sched_ok E q g s" and e: "elevator (queues s q) = Some e"
    and run: "rq_run E q r xs s" "b \<notin> set xs" "stat_ok (rqs s r)" and b: "new_bio E q b s"
    and m: "ret = ELEVATOR_BACK_MERGE \<and> rq_hash_key (rqs s r) = bi_sector (bios s b) \<or>
      ret = ELEVATOR_FRONT_MERGE \<and> bio_end (bios s b) = blk_rq_pos (rqs s r)"
    and found: "elv_merge E q b s0 = Some (ret, Some r, s)"
  shows "\<exists>merged t. queue_bio_merge E q b s0 = Some (merged, t) \<and> sched_ok E q g t \<and> linked t = linked s \<and>
    locks t = locks s \<and> (if merged then (\<exists>u. run_grown E q r xs b s u \<and> load E t = load E u) \<and> last_merge (queues t q) = Some r
      else load E t = load E s)"
  using m
proof (elim disjE conjE)
  assume bm: "ret = ELEVATOR_BACK_MERGE" and k: "rq_hash_key (rqs s r) = bi_sector (bios s b)"
  from back_attempt [OF env(1) run(1) b run(2) k [symmetric] run(3)] obtain y u where
    u: "bio_attempt_back_merge E q r b s = Some (y, u)"
      "if y then rq_run E q r (xs @ [b]) u \<and> elsewhere E r (last xs) s u else load E u = load E s \<and> quiet E s u"
    by blast
  show ?thesis
  proof (cases y)
    case False
    then show ?thesis
      using found bm u sched_ok_quiet [OF _ _ ok, of u] quietD(1,2) [of E s u]
      by (intro exI [of _ False] exI [of _ u]) (simp add: queue_bio_merge_def)
  next
    case True
    with u(2) have el: "elsewhere E r (last xs) s u" and ru: "rq_run E q r (xs @ [b]) u" by simp_all
    then have q: "quiet E s u" by (simp add: elsewhere_def)
    have "elv_sorted_ok E q g u" "hash_ok u" "keyed_but E r u"
      using ok sorted_ok_quiet [OF q] hash_ok_quiet [OF q] keyed_elsewhere [OF el] by (simp_all add: sched_ok_def)
    moreover from this(1) have "greedy_installed E q g u" by (simp add: elv_sorted_ok_def)
    moreover have "elevator (queues u q) = Some e" using e quietD(12) [OF q] by simp
    ultimately obtain t where t: "elv_bio_merged E q r b u = Some u"
      "elv_merged_request E q r ELEVATOR_BACK_MERGE u = Some t" "load E t = load E u" "sched_ok E q g t"
      "linked t = linked u" "locks t = locks u" "last_merge (queues t q) = Some r"
      using merged_back [of E q g u e r b] env(2) by (auto simp: lone_env_def)
    then show ?thesis
      using found bm u(1) True env(2) ru el quietD(1,2) [OF q]
      by (intro exI [of _ True] exI [of _ t]) (auto simp: queue_bio_merge_def lone_env_def run_grown_def)
  qed
next
  assume fm: "ret = ELEVATOR_FRONT_MERGE" and k: "bio_end (bios s b) = blk_rq_pos (rqs s r)"
  from front_attempt [OF env(1) run(1) b run(2) k run(3)] obtain y u where
    u: "bio_attempt_front_merge E q r b s = Some (y, u)"
      "if y then rq_run E q r (b # xs) u \<and> elsewhere E r b s u else load E u = load E s \<and> quiet E s u"
    by blast
  show ?thesis
  proof (cases y)
    case False
    then show ?thesis
      using found fm u sched_ok_quiet [OF _ _ ok, of u] quietD(1,2) [of E s u]
      by (intro exI [of _ False] exI [of _ u]) (simp add: queue_bio_merge_def)
  next
    case True
    with u(2) have el: "elsewhere E r b s u" and ru: "rq_run E q r (b # xs) u" by simp_all
    then have q: "quiet E s u" by (simp add: elsewhere_def)
    have "sched_ok E q g u"
      using ok sorted_ok_quiet [OF q] hash_ok_quiet [OF q]
        keyed_front [OF keyed_elsewhere [OF el] _ q front_key [OF run(1) ru el run(2)]]
      by (simp add: sched_ok_def)
    moreover from this have "greedy_installed E q g u" by (simp add: sched_ok_def elv_sorted_ok_def)
    ultimately obtain t where t: "elv_bio_merged E q r b u = Some u"
      "elv_merged_request E q r ELEVATOR_FRONT_MERGE u = Some t" "load E t = load E u" "sched_ok E q g t"
      "linked t = linked u" "locks t = locks u" "last_merge (queues t q) = Some r"
      using merged_front [of E q g u r b] by auto
    then show ?thesis
      using found fm u(1) True env(2) ru el quietD(1,2) [OF q]
      by (intro exI [of _ True] exI [of _ t]) (auto simp: queue_bio_merge_def lone_env_def run_grown_def)
  qed
qed


lemma runs_ok_less:
  assumes "hash_less E s t"
  shows "runs_ok E qs runs b R t = runs_ok E qs runs b R s"
  using rq_run_load [of E t s] assms by (simp add: runs_ok_def stat_ok_def hash_less_def)


section \<open>A concrete queue\<close>

text \<open>The scheduler holds request 1 with bio 10, and its sector end 16 is in the hash.\<close>

definition merge_env2 :: kenv where
  "merge_env2 = merge_env1\<lparr>et_ops := (\<lambda>_. elevator_greedy merge_env1)\<rparr>"

definition merge_queue :: kst where
  "merge_queue = merge_plug
     \<lparr>queues := (\<lambda>_. queue_zero\<lparr>elevator := Some 7, nr_sorted := 1\<rparr>),
      elvqs := (\<lambda>_. eq_zero)(7 := eq_zero\<lparr>elevator_data := Some 8, eq_hash := (\<lambda>_. [])(16 := [1])\<rparr>),
      linked := (\<lambda>_. [])(GHigher 8 := [1]),
      rqs := (rqs merge_plug)(1 := (rqs merge_plug 1)\<lparr>queuelist := Some (GHigher 8), cmd_flags := {REQ_HASHED, REQ_SORTED},
        hash_node := Some (7, 16)\<rparr>)\<rparr>"

lemma merge_env2_ok: "merge_env merge_env2" "lone_env merge_env2 q" "et_ops merge_env2 t = elevator_greedy merge_env2"
proof -
  have load2: "load merge_env2 = load merge_env1"
    by (intro ext) (simp add: load_def bio_core_def merge_env2_def)
  have quiet2: "quiet merge_env2 = quiet merge_env1"
    by (intro ext) (simp add: quiet_def rq_mergeable_def merge_env2_def)
  have same: "bio_has_data merge_env2 = bio_has_data merge_env1" "bio_sectors merge_env2 = bio_sectors merge_env1"
    "blk_try_merge merge_env2 = blk_try_merge merge_env1" "ll_back_merge_fn merge_env2 = ll_back_merge_fn merge_env1"
    "ll_front_merge_fn merge_env2 = ll_front_merge_fn merge_env1" "part_stat_add merge_env2 = part_stat_add merge_env1"
    "blk_rq_set_mixed_merge merge_env2 = blk_rq_set_mixed_merge merge_env1"
    by (simp_all add: merge_env2_def)
  from env_gap [OF same(1)] have mm: "may_merge merge_env2 (req_gap_back_merge merge_env2) = may_merge merge_env1 (req_gap_back_merge merge_env1)"
    "may_merge merge_env2 (req_gap_front_merge merge_env2) = may_merge merge_env1 (req_gap_front_merge merge_env1)"
    by (intro ext; simp add: may_merge_def load2 quiet2)+
  show "merge_env merge_env2"
    using merge_env1_ok unfolding merge_env_def load2 quiet2 next_free_def mm same .
  show "lone_env merge_env2 q" by (simp add: lone_env_def merge_env2_def merge_env1_def env_zero_def)
  show "et_ops merge_env2 t = elevator_greedy merge_env2" by (simp add: merge_env2_def elevator_greedy_et_ops)
qed

lemma merge_queue_fields:
  "linked merge_queue = (\<lambda>_. [])(GHigher 8 := [1])" "bios merge_queue = bios merge_plug"
  "queues merge_queue x = queue_zero\<lparr>elevator := Some 7, nr_sorted := 1\<rparr>"
  "queuelist (rqs merge_queue r) = (if r = 1 then Some (GHigher 8) else None)"
  "hash_node (rqs merge_queue r) = (if r = 1 then Some (7, 16) else None)"
  "ELV_ON_HASH (rqs merge_queue r) \<longleftrightarrow> r = 1" "rq_core (rqs merge_queue r) = rq_core (rqs merge_plug r)"
  "rq_part (rqs merge_queue r) = rq_part (rqs merge_plug r)" "\<not> blk_do_io_stat (rqs merge_queue r)"
  "elvqs merge_queue = (\<lambda>_. eq_zero)(7 := eq_zero\<lparr>elevator_data := Some 8, eq_hash := (\<lambda>_. [])(16 := [1])\<rparr>)"
  by (simp_all add: merge_queue_def merge_plug_def rq_zero_def kst_zero_def ELV_ON_HASH_def rq_core_def carried_def
      blk_do_io_stat_def)

lemma merge_queue_ok:
  "sched_ok merge_env2 0 8 merge_queue" "elevator (queues merge_queue 0) = Some 7"
  "mergees 0 7 merge_queue = {1}"
  "runs_ok merge_env2 (\<lambda>_. 0) (\<lambda>r. if r = 1 then [10] else []) 11 {1} merge_queue"
  "new_bio merge_env2 0 11 merge_queue"
proof -
  note F = merge_queue_fields
  have lo: "lists_ok merge_queue" by (auto simp: lists_ok_def F)
  have hk: "hash_ok merge_queue" by (auto simp: hash_ok_def F eq_zero_def)
  have k: "rq_hash_key (rqs merge_queue 1) = 16"
    by (simp add: rq_hash_key_def blk_rq_pos_def blk_rq_sectors_def blk_rq_bytes_def merge_queue_def merge_plug_def
        drop_bit_eq_div)
  have "hash_keyed merge_env2 merge_queue"
    using k by (auto simp: hash_keyed_def F merge_env2_def merge_env1_def env_zero_def)
  moreover have "greedy_installed merge_env2 0 8 merge_queue"
    by (simp add: greedy_installed_def F merge_env2_ok(3))
  ultimately show "sched_ok merge_env2 0 8 merge_queue"
    using lo hk by (simp add: sched_ok_def elv_sorted_ok_def greedy_pending_def F)
  show "elevator (queues merge_queue 0) = Some 7" by (simp add: F)
  show "mergees 0 7 merge_queue = {1}" by (auto simp: mergees_def F queue_zero_def)
  show "runs_ok merge_env2 (\<lambda>_. 0) (\<lambda>r. if r = 1 then [10] else []) 11 {1} merge_queue"
    "new_bio merge_env2 0 11 merge_queue"
    by (simp_all add: runs_ok_def rq_run_def rq_bytes_ok_def new_bio_def whole_bio_def full_bio_def no_gaps_def
        pages_def stat_ok_def blk_do_io_stat_def merge_env2_def merge_env1_def merge_queue_def merge_plug_def env_zero_def rq_zero_def bio_zero_def)
qed


end
