(* ===== verification/Elv_Rb.thy ===== *)
theory Elv_Rb
  imports Blk_Zero "HOL-Library.Tree"
begin

text \<open>
  The sorted tree of requests that schedulers can keep: \<open>elv_rb_add\<close>, \<open>elv_rb_del\<close>, \<open>elv_rb_find\<close>,
  \<open>elv_rb_former_request\<close> and \<open>elv_rb_latter_request\<close> of \<open>src/scheduler/kernel/elevator.c\<close>.

  The tree is the binary tree the two search loops walk. Colours and rebalancing belong to the red
  black tree of the kernel, which is not part of the sources: \<open>rb_insert_color\<close>, \<open>rb_erase\<close>,
  \<open>rb_prev\<close> and \<open>rb_next\<close> are parameters.
\<close>

section \<open>The tree\<close>

record rb_env =
  rb_insert_color :: "rid \<Rightarrow> rid tree \<Rightarrow> rid tree"
  rb_erase :: "rid \<Rightarrow> rid tree \<Rightarrow> rid tree"
  rb_prev :: "rid \<Rightarrow> rid tree \<Rightarrow> rid option"
  rb_next :: "rid \<Rightarrow> rid tree \<Rightarrow> rid option"

record rb_root =
  rb_tree :: "rid tree"
  RB_EMPTY_NODE :: "rid \<Rightarrow> bool"

text \<open>The walk of \<open>elv_rb_add\<close> to an empty link, where \<open>rb_link_node\<close> puts the node.\<close>

fun elv_rb_link :: "kst \<Rightarrow> rid \<Rightarrow> rid tree \<Rightarrow> rid tree" where
  "elv_rb_link s r Leaf = Node Leaf r Leaf"
| "elv_rb_link s r (Node lt p rt) =
     (if blk_rq_pos (rqs s r) < blk_rq_pos (rqs s p) then Node (elv_rb_link s r lt) p rt
      else Node lt p (elv_rb_link s r rt))"

definition elv_rb_add :: "rb_env \<Rightarrow> kst \<Rightarrow> rid \<Rightarrow> rb_root \<Rightarrow> rb_root" where
  "elv_rb_add E s r root =
     root\<lparr>rb_tree := rb_insert_color E r (elv_rb_link s r (rb_tree root)),
          RB_EMPTY_NODE := (RB_EMPTY_NODE root)(r := False)\<rparr>"

definition elv_rb_del :: "rb_env \<Rightarrow> rid \<Rightarrow> rb_root \<Rightarrow> rb_root option" where
  "elv_rb_del E r root = do {
     bug_on (RB_EMPTY_NODE root r);
     Some (root\<lparr>rb_tree := rb_erase E r (rb_tree root),
                RB_EMPTY_NODE := (RB_EMPTY_NODE root)(r := True)\<rparr>)
   }"

fun elv_rb_find :: "kst \<Rightarrow> rid tree \<Rightarrow> sector_t \<Rightarrow> rid option" where
  "elv_rb_find s Leaf sector = None"
| "elv_rb_find s (Node lt p rt) sector =
     (if sector < blk_rq_pos (rqs s p) then elv_rb_find s lt sector
      else if sector > blk_rq_pos (rqs s p) then elv_rb_find s rt sector
      else Some p)"

definition elv_rb_former_request :: "rb_env \<Rightarrow> rid \<Rightarrow> rb_root \<Rightarrow> rid option" where
  "elv_rb_former_request E r root = rb_prev E r (rb_tree root)"

definition elv_rb_latter_request :: "rb_env \<Rightarrow> rid \<Rightarrow> rb_root \<Rightarrow> rid option" where
  "elv_rb_latter_request E r root = rb_next E r (rb_tree root)"

section \<open>What is assumed of the red black tree\<close>

text \<open>
  Rebalancing keeps the order of the nodes, erasing takes out the node, and the neighbours of a
  node are those of that order.
\<close>

definition rb_env_ok :: "rb_env \<Rightarrow> bool" where
  "rb_env_ok E \<longleftrightarrow>
     (\<forall>r t. inorder (rb_insert_color E r t) = inorder t) \<and>
     (\<forall>r t. distinct (inorder t) \<longrightarrow> inorder (rb_erase E r t) = remove1 r (inorder t)) \<and>
     (\<forall>r t xs ys. distinct (inorder t) \<longrightarrow> inorder t = xs @ r # ys \<longrightarrow>
        rb_prev E r t = (if xs = [] then None else Some (last xs)) \<and>
        rb_next E r t = (if ys = [] then None else Some (hd ys)))"

text \<open>The invariant: the nodes are distinct, sorted by sector, and know that they are linked.\<close>

definition rb_sorted :: "kst \<Rightarrow> rid list \<Rightarrow> bool" where
  "rb_sorted s xs \<longleftrightarrow> sorted (map (\<lambda>r. blk_rq_pos (rqs s r)) xs)"

definition rb_ok :: "kst \<Rightarrow> rb_root \<Rightarrow> bool" where
  "rb_ok s root \<longleftrightarrow> rb_sorted s (inorder (rb_tree root)) \<and> distinct (inorder (rb_tree root)) \<and>
     (\<forall>r. RB_EMPTY_NODE root r \<longleftrightarrow> r \<notin> set_tree (rb_tree root))"

lemma rb_sorted_append:
  "rb_sorted s (xs @ ys) \<longleftrightarrow> rb_sorted s xs \<and> rb_sorted s ys \<and>
     (\<forall>x \<in> set xs. \<forall>y \<in> set ys. blk_rq_pos (rqs s x) \<le> blk_rq_pos (rqs s y))"
  by (simp add: rb_sorted_def sorted_append) (simp add: ball_simps image_def Bex_def)?

lemma rb_sorted_Cons:
  "rb_sorted s (x # ys) \<longleftrightarrow>
     rb_sorted s ys \<and> (\<forall>y \<in> set ys. blk_rq_pos (rqs s x) \<le> blk_rq_pos (rqs s y))"
  by (auto simp: rb_sorted_def)

text \<open>The place of the new node in the order: behind every node that does not start after it.\<close>

lemma elv_rb_link_inorder:
  assumes "rb_sorted s (inorder t)"
  shows "inorder (elv_rb_link s r t) =
    filter (\<lambda>p. blk_rq_pos (rqs s p) \<le> blk_rq_pos (rqs s r)) (inorder t) @ r #
    filter (\<lambda>p. blk_rq_pos (rqs s r) < blk_rq_pos (rqs s p)) (inorder t)"
  using assms
proof (induction t)
  case (Node lt p rt)
  then have s: "rb_sorted s (inorder lt)" "rb_sorted s (inorder rt)"
    and lp: "\<And>x. x \<in> set_tree lt \<Longrightarrow> blk_rq_pos (rqs s x) \<le> blk_rq_pos (rqs s p)"
    and pr: "\<And>x. x \<in> set_tree rt \<Longrightarrow> blk_rq_pos (rqs s p) \<le> blk_rq_pos (rqs s x)"
    by (auto simp: rb_sorted_append rb_sorted_Cons)
  show ?case
  proof (cases "blk_rq_pos (rqs s r) < blk_rq_pos (rqs s p)")
    case True
    then have "filter (\<lambda>x. blk_rq_pos (rqs s x) \<le> blk_rq_pos (rqs s r)) (inorder rt) = []"
      "filter (\<lambda>x. blk_rq_pos (rqs s r) < blk_rq_pos (rqs s x)) (inorder rt) = inorder rt"
      using pr by (fastforce simp: filter_empty_conv filter_id_conv)+
    with True Node.IH(1) [OF s(1)] show ?thesis by simp
  next
    case False
    then have "filter (\<lambda>x. blk_rq_pos (rqs s x) \<le> blk_rq_pos (rqs s r)) (inorder lt) = inorder lt"
      "filter (\<lambda>x. blk_rq_pos (rqs s r) < blk_rq_pos (rqs s x)) (inorder lt) = []"
      using lp by (fastforce simp: filter_empty_conv filter_id_conv)+
    with False Node.IH(2) [OF s(2)] show ?thesis by simp
  qed
qed simp

lemma elv_rb_add_inorder:
  assumes "rb_env_ok E" and "rb_ok s root"
  shows "inorder (rb_tree (elv_rb_add E s r root)) =
    filter (\<lambda>p. blk_rq_pos (rqs s p) \<le> blk_rq_pos (rqs s r)) (inorder (rb_tree root)) @ r #
    filter (\<lambda>p. blk_rq_pos (rqs s r) < blk_rq_pos (rqs s p)) (inorder (rb_tree root))"
  using assms elv_rb_link_inorder [of s "rb_tree root" r]
  by (simp add: elv_rb_add_def rb_env_ok_def rb_ok_def)

lemma rb_sorted_filter: "rb_sorted s xs \<Longrightarrow> rb_sorted s (filter P xs)"
  by (simp add: rb_sorted_def sorted_filter)

lemma rb_ok_add:
  assumes "rb_env_ok E" and ok: "rb_ok s root" and new: "RB_EMPTY_NODE root r"
  shows "rb_ok s (elv_rb_add E s r root)"
proof -
  let ?t = "rb_tree (elv_rb_add E s r root)"
  note io = elv_rb_add_inorder [OF assms(1,2), of r]
  have d: "distinct (inorder (rb_tree root))" "r \<notin> set_tree (rb_tree root)"
    and so: "rb_sorted s (inorder (rb_tree root))"
    using ok new by (auto simp: rb_ok_def)
  have "rb_sorted s (inorder ?t)"
    unfolding io rb_sorted_append rb_sorted_Cons
    by (intro conjI rb_sorted_filter so) (auto intro: order.trans less_imp_le)
  moreover have "distinct (inorder ?t)" using d by (auto simp: io)
  moreover have "set_tree ?t = insert r (set_tree (rb_tree root))"
    by (simp only: set_inorder [symmetric] io set_append set_filter list.set) (auto simp: not_le)
  ultimately show ?thesis using ok by (auto simp: rb_ok_def elv_rb_add_def)
qed

lemma rb_ok_del:
  assumes "rb_env_ok E" and ok: "rb_ok s root" and "elv_rb_del E r root = Some root'"
  shows "rb_ok s root' \<and> inorder (rb_tree root') = remove1 r (inorder (rb_tree root))"
proof -
  have e: "inorder (rb_tree root') = remove1 r (inorder (rb_tree root))"
    and n: "RB_EMPTY_NODE root' = (RB_EMPTY_NODE root)(r := True)"
    using assms by (auto simp: elv_rb_del_def rb_env_ok_def rb_ok_def bug_on_def split: if_splits)
  have "set_tree (rb_tree root') = set_tree (rb_tree root) - {r}"
    using arg_cong [OF e, of set] ok by (simp add: rb_ok_def set_remove1_eq)
  moreover have "rb_sorted s (remove1 r xs)" if "rb_sorted s xs" for xs
    using that
  proof (induction xs)
    case (Cons x xs)
    then show ?case
      using set_remove1_subset [of r xs] by (auto simp: rb_sorted_Cons)
  qed simp
  ultimately show ?thesis using ok by (auto simp: rb_ok_def e n)
qed

section \<open>Properties\<close>


text \<open>
  \<open>elv_rb_find\<close> on a sorted tree gives a request that starts at the sector, and gives none only
  if there is none.
\<close>

theorem elv_rb_find_correct:
  assumes "rb_ok s root"
  shows "case elv_rb_find s (rb_tree root) sector of
      Some r \<Rightarrow> r \<in> set_tree (rb_tree root) \<and> blk_rq_pos (rqs s r) = sector
    | None \<Rightarrow> \<forall>r \<in> set_tree (rb_tree root). blk_rq_pos (rqs s r) \<noteq> sector"
proof -
  have "rb_sorted s (inorder t) \<Longrightarrow> case elv_rb_find s t sector of
      Some r \<Rightarrow> r \<in> set_tree t \<and> blk_rq_pos (rqs s r) = sector
    | None \<Rightarrow> \<forall>r \<in> set_tree t. blk_rq_pos (rqs s r) \<noteq> sector" for t
  proof (induction t)
    case (Node lt p rt)
    then have s: "rb_sorted s (inorder lt)" "rb_sorted s (inorder rt)"
      and lp: "\<And>x. x \<in> set_tree lt \<Longrightarrow> blk_rq_pos (rqs s x) \<le> blk_rq_pos (rqs s p)"
      and pr: "\<And>x. x \<in> set_tree rt \<Longrightarrow> blk_rq_pos (rqs s p) \<le> blk_rq_pos (rqs s x)"
      by (auto simp: rb_sorted_append rb_sorted_Cons)
    consider "sector < blk_rq_pos (rqs s p)" | "sector > blk_rq_pos (rqs s p)"
      | "sector = blk_rq_pos (rqs s p)" by (rule linorder_cases)
    then show ?case
    proof cases
      case 1
      with Node.IH(1) [OF s(1)] pr show ?thesis by (fastforce split: option.splits)
    next
      case 2
      with Node.IH(2) [OF s(2)] lp show ?thesis by (fastforce split: option.splits)
    qed auto
  qed simp
  with assms show ?thesis by (simp add: rb_ok_def)
qed

text \<open>
  After \<open>elv_rb_add\<close> the two neighbours of the new request are the last of the requests that do
  not start after it, and the first of those that do: a request with the same sector as others is
  the latest of them.
\<close>

theorem elv_rb_neighbours:
  assumes env: "rb_env_ok E" and ok: "rb_ok s root" and new: "RB_EMPTY_NODE root r"
  defines "before \<equiv> filter (\<lambda>p. blk_rq_pos (rqs s p) \<le> blk_rq_pos (rqs s r)) (inorder (rb_tree root))"
    and "after \<equiv> filter (\<lambda>p. blk_rq_pos (rqs s r) < blk_rq_pos (rqs s p)) (inorder (rb_tree root))"
  shows "elv_rb_former_request E r (elv_rb_add E s r root) =
      (if before = [] then None else Some (last before)) \<and>
    elv_rb_latter_request E r (elv_rb_add E s r root) = (if after = [] then None else Some (hd after))"
proof -
  have "inorder (rb_tree (elv_rb_add E s r root)) = before @ r # after"
    unfolding before_def after_def by (rule elv_rb_add_inorder [OF env ok])
  moreover have "distinct (inorder (rb_tree (elv_rb_add E s r root)))"
    using rb_ok_add [OF env ok new] by (simp add: rb_ok_def)
  ultimately show ?thesis
    using env unfolding rb_env_ok_def elv_rb_former_request_def elv_rb_latter_request_def by blast
qed

section \<open>An instance\<close>

text \<open>A tree that is never rebalanced, over two requests at the sectors 5 and 9.\<close>

fun rb_join :: "rid tree \<Rightarrow> rid tree \<Rightarrow> rid tree" where
  "rb_join Leaf u = u"
| "rb_join (Node lt x rt) u = Node lt x (rb_join rt u)"

fun rb_without :: "rid \<Rightarrow> rid tree \<Rightarrow> rid tree" where
  "rb_without r Leaf = Leaf"
| "rb_without r (Node lt x rt) =
     (if x = r then rb_join lt rt
      else if r \<in> set_tree lt then Node (rb_without r lt) x rt else Node lt x (rb_without r rt))"

fun list_before :: "rid \<Rightarrow> rid list \<Rightarrow> rid option" where
  "list_before r (x # y # ys) = (if y = r then Some x else list_before r (y # ys))"
| "list_before r xs = None"

definition rb_env0 :: rb_env where
  "rb_env0 = \<lparr>rb_insert_color = (\<lambda>r t. t), rb_erase = rb_without,
     rb_prev = (\<lambda>r t. list_before r (inorder t)), rb_next = (\<lambda>r t. list_before r (rev (inorder t)))\<rparr>"

lemma rb_join_inorder: "inorder (rb_join t u) = inorder t @ inorder u"
  by (induction t) simp_all

lemma rb_without_inorder: "distinct (inorder t) \<Longrightarrow> inorder (rb_without r t) = remove1 r (inorder t)"
  by (induction t) (auto simp: rb_join_inorder remove1_append remove1_idem)

lemma list_before_append:
  "distinct (xs @ r # ys) \<Longrightarrow> list_before r (xs @ r # ys) = (if xs = [] then None else Some (last xs))"
proof (induction xs rule: induct_list012)
  case 1
  have n: "r \<notin> set zs \<Longrightarrow> list_before r (y # zs) = None" for y zs
    by (induction zs arbitrary: y) simp_all
  from 1 show ?case by (simp add: n)
next
  case (2 x)
  then show ?case by simp
next
  case (3 x y zs)
  then show ?case by simp
qed

lemma rb_env0_ok: "rb_env_ok rb_env0"
proof -
  have "list_before r (rev (xs @ r # ys)) = (if ys = [] then None else Some (hd ys))"
    if "distinct (xs @ r # ys)" for r xs ys
    using list_before_append [of "rev ys" r "rev xs"] that by (auto simp: last_rev Int_commute)
  with list_before_append show ?thesis
    unfolding rb_env_ok_def rb_env0_def rb_env.simps by (metis rb_without_inorder)
qed

definition rb_kst :: kst where
  "rb_kst = kst_zero\<lparr>rqs := (\<lambda>r. rq_zero\<lparr>rq_sector := (if r = 1 then 5 else 9)\<rparr>)\<rparr>"

definition rb_root1 :: rb_root where
  "rb_root1 = \<lparr>rb_tree = Node Leaf 1 Leaf, RB_EMPTY_NODE = (\<lambda>r. r \<noteq> 1)\<rparr>"

lemma rb_root1_ok: "rb_ok rb_kst rb_root1"
  by (simp add: rb_ok_def rb_sorted_def rb_root1_def)


theorem elv_rb_find_correct_witness: "elv_rb_find rb_kst (rb_tree rb_root1) 5 = Some 1"
  using elv_rb_find_correct [OF rb_root1_ok, of 5]
  by (auto simp: rb_root1_def rb_kst_def blk_rq_pos_def split: option.splits)

theorem elv_rb_neighbours_witness:
  "elv_rb_former_request rb_env0 2 (elv_rb_add rb_env0 rb_kst 2 rb_root1) = Some 1"
  using elv_rb_neighbours [OF rb_env0_ok rb_root1_ok, of 2]
  by (simp add: rb_root1_def rb_kst_def blk_rq_pos_def)

end
