(* ===== verification/Blk_Bounds.thy ===== *)
theory Blk_Bounds
  imports Blk_Submit Blk_Zero
begin

text \<open>
  What the checks of \<open>generic_make_request\<close> guarantee: no bio that is accepted reaches beyond the
  end of the device it is sent to, and the comparison that says so cannot overflow.
\<close>

section \<open>The end of the device\<close>

text \<open>The size of a device in sectors; \<open>bd_inode->i_size\<close> is a signed number of bytes.\<close>

definition dev_sectors :: "bdevid \<Rightarrow> kst \<Rightarrow> nat" where
  "dev_sectors d s = unat (bd_size (bdevs s d)) div 512"

definition within_device :: "bid \<Rightarrow> nat \<Rightarrow> kst \<Rightarrow> bool" where
  "within_device b nr s \<longleftrightarrow> nr = 0 \<or> (\<exists>d. bi_bdev (bios s b) = Some d \<and>
     (dev_sectors d s = 0 \<or> unat (bi_sector (bios s b)) + nr \<le> dev_sectors d s))"

lemma unat_signed_shift:
  fixes w :: u64
  assumes "unat w < 2 ^ 63"
  shows "unat (signed_drop_bit 9 w) = unat w div 512"
proof -
  have "uint w < 2 ^ 63"
    using assms by (metis of_nat_less_iff of_nat_numeral of_nat_power uint_nat)
  then have s: "sint w = uint w"
    by (simp add: sint_uint signed_take_bit_int_eq_self order_trans [OF _ uint_ge_0])
  have "sint (signed_drop_bit 9 w) = uint w div 512"
    by (simp add: sint_signed_drop_bit_eq s drop_bit_eq_div)
  then have "signed_drop_bit 9 w = word_of_int (uint w div 512)"
    by (metis of_int_sint scast_id)
  moreover have "uint w div 512 < 2 ^ 64" "0 \<le> uint w div 512"
    using \<open>uint w < 2 ^ 63\<close> uint_ge_0 [of w] by (simp_all add: pos_imp_zdiv_nonneg_iff)
  ultimately have "uint (signed_drop_bit 9 w) = uint w div 512"
    by (simp add: uint_word_of_int take_bit_int_eq_self)
  then show ?thesis by (metis nat_div_distrib uint_ge_0 unat_eq_nat_uint nat_numeral zero_le_numeral)
qed

lemma unat_ucast_u32 [simp]: "unat (ucast (n :: u32) :: u64) = unat n"
proof -
  have "unat n < 2 ^ 32" using unsigned_less [of n] by simp
  then have "unat n < 2 ^ 64" by simp
  then show ?thesis by (simp add: unsigned_ucast_eq take_bit_nat_eq_self)
qed

text \<open>
  \<open>bio_check_eod\<close> answers that a bio passes the end of its device exactly if the device has a
  size and the first sector plus the length, added without wrapping, exceeds it. So the answer is
  right for every sector number of 64 bits.
\<close>

theorem bio_check_eod_exact:
  assumes "bi_bdev (bios s b) = Some d" and "unat (bd_size (bdevs s d)) < 2 ^ 63"
  shows "bio_check_eod b nr s = Some (nr \<noteq> 0 \<and> dev_sectors d s \<noteq> 0 \<and>
    dev_sectors d s < unat (bi_sector (bios s b)) + unat nr)"
proof (cases "nr = 0")
  case True
  then show ?thesis by (simp add: bio_check_eod_def)
next
  case False
  define m where "m = signed_drop_bit 9 (bd_size (bdevs s d))"
  have m: "unat m = dev_sectors d s"
    unfolding m_def dev_sectors_def by (rule unat_signed_shift [OF assms(2)])
  have "(m - ucast nr < bi_sector (bios s b)) = (unat m - unat nr < unat (bi_sector (bios s b)))"
    if "unat nr \<le> unat m"
    using that by (simp add: word_less_nat_alt unat_sub word_le_nat_alt)
  moreover have "m < ucast nr \<longleftrightarrow> unat m < unat nr" by (simp add: word_less_nat_alt)
  moreover have "m \<noteq> 0 \<longleftrightarrow> unat m \<noteq> 0" by (simp add: unat_eq_0)
  ultimately have "(m \<noteq> 0 \<and> (m < ucast nr \<or> m - ucast nr < bi_sector (bios s b))) \<longleftrightarrow>
      unat m \<noteq> 0 \<and> unat m < unat (bi_sector (bios s b)) + unat nr"
    by (cases "unat nr \<le> unat m") auto
  with False assms(1) show ?thesis by (simp add: bio_check_eod_def Let_def m_def [symmetric] m)
qed

lemma bio_check_eod_within:
  assumes "bio_check_eod b nr s = Some False" and "\<And>d. unat (bd_size (bdevs s d)) < 2 ^ 63"
  shows "within_device b (unat nr) s"
proof (cases "bi_bdev (bios s b)")
  case None
  with assms(1) have "nr = 0" by (simp add: bio_check_eod_def split: if_splits)
  then show ?thesis by (simp add: within_device_def)
next
  case (Some d)
  with bio_check_eod_exact [OF Some assms(2), of nr] assms(1) show ?thesis
    by (auto simp: within_device_def unat_eq_0)
qed

text \<open>
  What is assumed of the two calls behind the checks: they leave bios and devices alone.
\<close>

definition checks_keep_bios :: "kenv \<Rightarrow> bool" where
  "checks_keep_bios E \<longleftrightarrow>
     (\<forall>s. bios (create_io_context E s) = bios s \<and> bdevs (create_io_context E s) = bdevs s) \<and>
     (\<forall>q b s. bios (snd (blkcg_bio_issue_check E q b s)) = bios s \<and>
        bdevs (snd (blkcg_bio_issue_check E q b s)) = bdevs s)"

lemma within_device_cong:
  assumes "bi_sector (bios t b) = bi_sector (bios s b)" "bi_bdev (bios t b) = bi_bdev (bios s b)"
    and "bdevs t = bdevs s"
  shows "within_device b n t = within_device b n s"
  using assms by (simp add: within_device_def dev_sectors_def)

lemma blk_partition_remap_bdevs:
  "blk_partition_remap E b s = Some t \<Longrightarrow> bdevs t = bdevs s"
  by (auto simp: blk_partition_remap_def Option.bind_eq_Some_conv)

lemma checks_tail_keeps:
  assumes "checks_keep_bios E" and "blkcg_bio_issue_check E q b (create_io_context E s) = (ok, t)"
  shows "bios t = bios s" and "bdevs t = bdevs s"
  using assms by (metis checks_keep_bios_def snd_conv)+

lemma check_bio_flags_ok:
  assumes "check_bio_flags E q b nr s = Some (CheckOk, t)"
  obtains w ok where "w = s \<or> w = upd_bio b (bi_rw_update (\<lambda>F. F - {REQ_FLUSH, REQ_FUA})) s"
    and "blkcg_bio_issue_check E q b (create_io_context E w) = (ok, t)"
proof -
  define w where "w = (if bi_rw (bios s b) \<inter> {REQ_FLUSH, REQ_FUA} \<noteq> {} \<and> flush_flags (queues s q) = {}
    then upd_bio b (bi_rw_update (\<lambda>F. F - {REQ_FLUSH, REQ_FUA})) s else s)"
  obtain ok where "blkcg_bio_issue_check E q b (create_io_context E w) = (ok, t)"
    using assms unfolding check_bio_flags_def Let_def w_def [symmetric]
    by (auto simp: Option.bind_eq_Some_conv split: if_splits prod.splits)
  moreover have "w = s \<or> w = upd_bio b (bi_rw_update (\<lambda>F. F - {REQ_FLUSH, REQ_FUA})) s"
    by (simp add: w_def)
  ultimately show ?thesis using that by blast
qed

text \<open>
  C23: a bio that \<open>generic_make_request_checks\<close> accepts lies within the device it is sent to. The
  length is the one before the checks, and the device and the sector are those after them, so for
  a bio on a partition this is a statement about the whole disk.
\<close>

theorem accepted_bio_within_device:
  assumes acc: "generic_make_request_checks E b s = Some (True, t)" and keep: "checks_keep_bios E"
    and sz: "\<And>d. unat (bd_size (bdevs s d)) < 2 ^ 63"
  shows "within_device b (unat (bio_sectors E (bios s b))) t"
proof -
  define nr where "nr = bio_sectors E (bios s b)"
  from acc obtain res u where r: "make_request_checks E b s = Some (res, u)"
    by (auto simp: generic_make_request_checks_def Option.bind_eq_Some_conv)
  with acc have "make_request_checks E b s = Some (CheckOk, t)"
    by (cases res) (auto simp: generic_make_request_checks_def)
  then obtain v q where v: "blk_partition_remap E b s = Some v" "bio_check_eod b nr v = Some False"
    and fl: "check_bio_flags E q b nr v = Some (CheckOk, t)"
    unfolding nr_def
    by (auto simp: make_request_checks_def Let_def Option.bind_eq_Some_conv split: option.splits if_splits)
  obtain w ok where w: "w = v \<or> w = upd_bio b (bi_rw_update (\<lambda>F. F - {REQ_FLUSH, REQ_FUA})) v"
    and t: "blkcg_bio_issue_check E q b (create_io_context E w) = (ok, t)"
    using check_bio_flags_ok [OF fl] by blast
  have "unat (bd_size (bdevs v d)) < 2 ^ 63" for d
    using sz blk_partition_remap_bdevs [OF v(1)] by simp
  from bio_check_eod_within [OF v(2) this] have "within_device b (unat nr) v" .
  moreover note checks_tail_keeps [OF keep t]
  ultimately have "within_device b (unat nr) t"
    using within_device_cong [of t b v "unat nr"] w by auto
  then show ?thesis by (simp add: nr_def)
qed

section \<open>Concrete runs\<close>

text \<open>
  A partition that starts at sector 100 of a disk with 200 sectors, and a bio of 8 sectors at
  sector 20 of the partition.
\<close>

definition part_state :: kst where
  "part_state = kst_zero
     \<lparr>bios := (\<lambda>_. bio_zero\<lparr>bi_bdev := Some 1, bi_sector := 20, bi_size := 4096\<rparr>),
      bdevs := (\<lambda>_. \<lparr>bd_disk = 0, bd_contains = 2, bd_part = 3, bd_size = 102400, bd_block_size = 512\<rparr>),
      parts := (\<lambda>_. part_zero\<lparr>start_sect := 100\<rparr>),
      disks := (\<lambda>_. \<lparr>disk_queue = Some 0, part0 = 0\<rparr>), cur_ioc := Some 1\<rparr>"

lemma part_state_simps:
  "bi_bdev (bios part_state b) = Some 1" "bd_size (bdevs part_state d) = 102400"
  "bi_sector (bios part_state b) = 20" "bi_size (bios part_state b) = 4096"
  by (simp_all add: part_state_def)

lemma bio_check_eod_exact_witness:
  "bio_check_eod 0 181 part_state = Some True \<and> bio_check_eod 0 180 part_state = Some False"
proof -
  have "bio_check_eod 0 n part_state = Some (n \<noteq> 0 \<and> dev_sectors 1 part_state \<noteq> 0 \<and>
      dev_sectors 1 part_state < unat (bi_sector (bios part_state 0)) + unat n)" for n
    by (rule bio_check_eod_exact) (simp_all add: part_state_simps)
  then show ?thesis by (simp add: dev_sectors_def part_state_simps)
qed

lemma env_zero_keeps: "checks_keep_bios env_zero"
  by (auto simp: checks_keep_bios_def env_zero_def create_io_context_def)

lemma part_state_accepted: "\<exists>t. generic_make_request_checks env_zero 0 part_state = Some (True, t)"
proof -
  have "map_option fst (generic_make_request_checks env_zero 0 part_state) = Some True"
    by code_simp
  then show ?thesis by auto
qed

lemma accepted_bio_within_device_witness:
  "\<exists>t. generic_make_request_checks env_zero 0 part_state = Some (True, t) \<and> within_device 0 8 t"
proof -
  from part_state_accepted obtain t where
    t: "generic_make_request_checks env_zero 0 part_state = Some (True, t)" by blast
  have "within_device 0 (unat (bio_sectors env_zero (bios part_state 0))) t"
    by (rule accepted_bio_within_device [OF t env_zero_keeps]) (simp add: part_state_simps)
  moreover have "unat (bio_sectors env_zero (bios part_state 0)) = 8"
    by (simp add: env_zero_def part_state_simps)
  ultimately show ?thesis using t by auto
qed

end
