(* ===== verification/Blk_Done.thy ===== *)
theory Blk_Done
  imports Blk_Bytes Blk_Get
begin

text \<open>
  The end of a request: \<open>blk_end_request_all\<close> ends its bios, records it in the request tracker and
  gives it back to its request list.
\<close>

section \<open>The environment\<close>

text \<open>The functions of \<open>genhd.h\<close> change nothing but the partitions.\<close>

definition parts_only :: "(kst \<Rightarrow> kst) \<Rightarrow> bool" where
  "parts_only h \<longleftrightarrow> (\<forall>s. \<exists>P. h s = parts_update (\<lambda>_. P) s)"

lemma parts_onlyI: "(\<And>s. h s = parts_update (f s) s) \<Longrightarrow> parts_only h"
proof -
  assume *: "\<And>s. h s = parts_update (f s) s"
  have "h s = parts_update (\<lambda>_. f s (parts s)) s" for s by (simp add: *)
  then show ?thesis unfolding parts_only_def by blast
qed

lemma parts_only_comp:
  assumes "parts_only h" and "parts_only k"
  shows "parts_only (\<lambda>s. h (k s))"
  unfolding parts_only_def
proof
  fix s
  obtain P where P: "k s = parts_update (\<lambda>_. P) s" using assms(2) by (auto simp: parts_only_def)
  obtain Q where "h (k s) = parts_update (\<lambda>_. Q) (k s)" using assms(1) by (auto simp: parts_only_def)
  then have "h (k s) = parts_update (\<lambda>_. Q) s" by (simp add: P)
  then show "\<exists>P. h (k s) = parts_update (\<lambda>_. P) s" by blast
qed

lemma parts_only_if:
  "parts_only h \<Longrightarrow> parts_only k \<Longrightarrow> parts_only (\<lambda>s. if c s then h s else k s)"
  by (simp add: parts_only_def)

definition stat_env :: "kenv \<Rightarrow> bool" where
  "stat_env E \<longleftrightarrow> (\<forall>k p n. parts_only (part_stat_add E k p n)) \<and>
     (\<forall>k p n. parts_only (raw_part_stat_add E k p n)) \<and>
     (\<forall>p d. parts_only (part_dec_in_flight E p d)) \<and> (\<forall>p. parts_only (hd_struct_put E p))"

definition end_env :: "kenv \<Rightarrow> bool" where
  "end_env E \<longleftrightarrow> complete_env E \<and> stat_env E \<and> (\<forall>n x. bi_error (bio_advance E n x) = bi_error x)"

lemma part_round_stats_parts:
  assumes "stat_env E"
  shows "\<exists>P. part_round_stats E p s = parts_update (\<lambda>_. P) s"
proof -
  have single: "\<exists>P. part_round_stats_single E p n s = parts_update (\<lambda>_. P) s" for p n s
  proof (cases "n = stamp (parts s p) \<or> part_in_flight E p s = 0")
    case True
    then show ?thesis
      by (auto simp: part_round_stats_single_def Let_def
          intro: exI [of _ "parts s"] exI [of _ "(parts s)(p := stamp_update (\<lambda>_. n) (parts s p))"])
  next
    case False
    obtain t u k m where tu: "part_round_stats_single E p n s = upd_part p (stamp_update (\<lambda>_. n)) u"
      "t = raw_part_stat_add E Time_in_queue p k s" "u = raw_part_stat_add E Io_ticks p m t"
      using False by (auto simp: part_round_stats_single_def Let_def)
    obtain P where P: "t = parts_update (\<lambda>_. P) s"
      using assms unfolding stat_env_def parts_only_def tu(2) by blast
    obtain Q where Q: "u = parts_update (\<lambda>_. Q) t"
      using assms unfolding stat_env_def parts_only_def tu(3) by blast
    show ?thesis unfolding tu(1) Q P
      by (intro exI [of _ "Q(p := stamp_update (\<lambda>_. n) (Q p))"]) simp
  qed
  show ?thesis
  proof (cases "partno (parts s p) = 0")
    case True
    then show ?thesis using single by (simp add: part_round_stats_def)
  next
    case False
    define t where "t = part_round_stats_single E (part0 (disks s (part_disk (parts s p)))) (jiffies s) s"
    obtain P where P: "t = parts_update (\<lambda>_. P) s" using single unfolding t_def by blast
    obtain Q where Q: "part_round_stats_single E p (jiffies s) t = parts_update (\<lambda>_. Q) t"
      using single by blast
    have "part_round_stats E p s = parts_update (\<lambda>_. Q) t"
      using False Q by (simp add: part_round_stats_def Let_def t_def)
    then show ?thesis unfolding P by (intro exI [of _ Q]) simp
  qed
qed

lemma account_done_parts:
  assumes env: "stat_env E" and "blk_do_io_stat (rqs s r) \<Longrightarrow> rq_part (rqs s r) \<noteq> None"
  shows "\<exists>P. blk_account_io_done E r s = Some (parts_update (\<lambda>_. P) s)"
proof (cases "blk_do_io_stat (rqs s r) \<and> REQ_FLUSH_SEQ \<notin> cmd_flags (rqs s r)")
  case False
  then have "blk_account_io_done E r s = Some s" unfolding blk_account_io_done_def by (rule if_not_P)
  then show ?thesis by (intro exI [of _ "parts s"]) simp
next
  case True
  then obtain p where p: "rq_part (rqs s r) = Some p" using assms(2) by blast
  define d where "d = rq_data_dir (rqs s r)"
  have e: "parts_only (part_stat_add E (Ios d) p 1)" "parts_only (part_dec_in_flight E p d)"
    "parts_only (part_stat_add E (Ticks d) p (jiffies s - start_time (rqs s r)))"
    "parts_only (hd_struct_put E p)" "parts_only (part_round_stats E p)"
    using env part_round_stats_parts [OF env] unfolding stat_env_def parts_only_def by blast+
  have "parts_only (\<lambda>s'. hd_struct_put E p (part_dec_in_flight E p d (part_round_stats E p
      (part_stat_add E (Ticks d) p (jiffies s - start_time (rqs s r)) (part_stat_add E (Ios d) p 1 s')))))"
    by (intro parts_only_comp [OF e(4)] parts_only_comp [OF e(2)] parts_only_comp [OF e(5)]
        parts_only_comp [OF e(3)] e(1))
  then show ?thesis using True p by (auto simp: blk_account_io_done_def Let_def d_def parts_only_def)
qed

section \<open>Ending the bios\<close>

text \<open>The error a bio ends with: that of the request, or the one it has.\<close>

definition ended_with :: "errno option \<Rightarrow> kst \<Rightarrow> bid \<Rightarrow> bid \<times> errno option" where
  "ended_with err s b = (b, if err = None then bi_error (bios s b) else err)"

lemma ended_with_cong: "bios t = bios s \<Longrightarrow> ended_with err t = ended_with err s"
  by (intro ext) (simp add: ended_with_def)

definition end_event :: "bid \<times> errno option \<Rightarrow> kevent" where
  "end_event x = EvBio (fst x) (endio (snd x))"

lemma bios_update_cong: "f (bios s) = g (bios s) \<Longrightarrow> bios_update f s = bios_update g s"
  by (cases s) simp

lemma req_bio_endio_whole:
  assumes "end_env E" and "REQ_FLUSH_SEQ \<notin> cmd_flags (rqs s r)"
  obtains B where "req_bio_endio E r b (bi_size (bios s b)) err s =
      bios_update (\<lambda>_. B) (emit (end_event (ended_with err s b)) s)"
    and "\<And>x. x \<noteq> b \<Longrightarrow> B x = bios s x"
proof -
  define c where "c = bio_advance E (bi_size (bios s b))
    ((if REQ_QUIET \<in> cmd_flags (rqs s r) then bi_quiet_update (\<lambda>_. True) else id)
      ((if err \<noteq> None then bi_error_update (\<lambda>_. err) else id) (bios s b)))"
  have c: "bi_size c = 0" "bi_error c = snd (ended_with err s b)"
    using assms(1) by (simp_all add: c_def end_env_def complete_env_def ended_with_def)
  define u where "u = (if err \<noteq> None then upd_bio b (bi_error_update (\<lambda>_. err)) s else s)"
  define v where "v = (if REQ_QUIET \<in> cmd_flags (rqs u r) then upd_bio b (bi_quiet_update (\<lambda>_. True)) u else u)"
  have u: "bios_update (\<lambda>_. X) u = bios_update (\<lambda>_. X) s" "rqs u = rqs s" for X
    by (simp_all add: u_def)
  have v: "bios_update (\<lambda>_. X) v = bios_update (\<lambda>_. X) s" for X
    using u(1) [of X] by (simp add: v_def)
  have "(bios v)(b := bio_advance E (bi_size (bios s b)) (bios v b)) = (bios s)(b := c)"
    by (simp add: v_def u(2) c_def) (simp add: u_def)
  then have "upd_bio b (bio_advance E (bi_size (bios s b))) v = bios_update (\<lambda>_. (bios s)(b := c)) v"
    by (intro bios_update_cong) simp
  also have "\<dots> = upd_bio b (\<lambda>_. c) s" unfolding v by (rule bios_update_cong) simp
  finally have "upd_bio b (bio_advance E (bi_size (bios s b))) v = upd_bio b (\<lambda>_. c) s" .
  then have "req_bio_endio E r b (bi_size (bios s b)) err s = (let s = upd_bio b (\<lambda>_. c) s
      in if bi_size (bios s b) = 0 \<and> REQ_FLUSH_SEQ \<notin> cmd_flags (rqs s r) then bio_endio b s else s)"
    unfolding req_bio_endio_def u_def [symmetric] v_def [symmetric] Let_def by simp
  then have "req_bio_endio E r b (bi_size (bios s b)) err s =
      bios_update (\<lambda>_. (bios s)(b := c)) (emit (end_event (ended_with err s b)) s)"
    using c assms(2) by (simp add: bio_endio_def end_event_def ended_with_def)
  then show thesis using that by simp
qed

definition after_bios :: "rid \<Rightarrow> errno option \<Rightarrow> bid list \<Rightarrow> (bid \<Rightarrow> bio) \<Rightarrow> kst \<Rightarrow> kst" where
  "after_bios r err xs B s = upd_rq r (rq_bio_update (\<lambda>_. None))
     (bios_update (\<lambda>_. B) (ktrace_update (\<lambda>t. t @ map (\<lambda>b. end_event (ended_with err s b)) xs) s))"

lemma update_bios_all:
  assumes env: "end_env E"
  shows "bio_chain s (rq_bio (rqs s r)) xs \<Longrightarrow> distinct xs \<Longrightarrow> \<forall>x \<in> set xs. bi_size (bios s x) \<noteq> 0 \<Longrightarrow>
    unat n = bios_bytes s xs \<Longrightarrow> xs \<noteq> [] \<Longrightarrow> REQ_FLUSH_SEQ \<notin> cmd_flags (rqs s r) \<Longrightarrow>
    \<exists>tot' B. update_bios E r err n tot s = Some (tot', after_bios r err xs B s) \<and>
      (\<forall>b. b \<notin> set xs \<longrightarrow> B b = bios s b)"
proof (induction xs arbitrary: s n tot)
  case Nil
  then show ?case by simp
next
  case (Cons x xs)
  define sz where "sz = bi_size (bios s x)"
  define s1 where "s1 = upd_rq r (rq_bio_update (\<lambda>_. bi_next (bios s x))) s"
  have b: "rq_bio (rqs s r) = Some x" and ch: "bio_chain s (bi_next (bios s x)) xs" and dist: "x \<notin> set xs"
    using Cons.prems by simp_all
  have n: "unat n = unat sz + bios_bytes s xs" using Cons.prems(4) by (simp add: sz_def)
  then have le: "sz \<le> n" by (simp add: word_le_nat_alt)
  have s1: "bios s1 = bios s" "rq_bio (rqs s1 r) = bi_next (bios s x)" "cmd_flags (rqs s1 r) = cmd_flags (rqs s r)"
    "ended_with err s1 b = ended_with err s b" for b
    by (simp_all add: s1_def ended_with_def)
  obtain B where B: "req_bio_endio E r x sz err s1 = bios_update (\<lambda>_. B) (emit (end_event (ended_with err s x)) s1)"
      "\<And>y. y \<noteq> x \<Longrightarrow> B y = bios s y"
    by (rule req_bio_endio_whole [OF env, of s1 r x err]) (use Cons.prems(6) s1 sz_def in auto)
  define u where "u = bios_update (\<lambda>_. B) (emit (end_event (ended_with err s x)) s1)"
  have step: "update_bios E r err n tot s =
      (if n - sz = 0 then Some (tot + sz, u) else update_bios E r err (n - sz) (tot + sz) u)"
    using b le B(1) by (subst update_bios.simps) (simp add: Let_def sz_def s1_def u_def min_def)
  have same: "bio_chain u c xs = bio_chain s c xs" "bios_bytes u xs = bios_bytes s xs" for c
    by (intro bio_chain_cong bios_bytes_cong; use B(2) dist in \<open>simp add: u_def, metis\<close>)+
  have ew: "ended_with err u y = ended_with err s y" if "y \<in> set xs" for y
  proof -
    have "y \<noteq> x" using that dist by auto
    then show ?thesis using B(2) [of y] by (simp add: ended_with_def u_def)
  qed
  have left: "unat (n - sz) = bios_bytes s xs" using n le by (simp add: unat_sub)
  show ?case
  proof (cases xs)
    case Nil
    then have "n - sz = 0" using left by (simp add: unat_eq_zero)
    moreover have "u = after_bios r err (x # xs) B s"
      using Nil ch by (simp add: u_def s1_def after_bios_def fun_upd_def o_def cong: if_cong)
    ultimately show ?thesis using step B(2) Nil by auto
  next
    case (Cons y ys)
    have "0 < bios_bytes s xs" using Cons.prems(3) Cons by (simp add: unat_gt_0)
    then have "n - sz \<noteq> 0" using left by auto
    then have run: "update_bios E r err n tot s = update_bios E r err (n - sz) (tot + sz) u" using step by simp
    have ch': "bio_chain u (rq_bio (rqs u r)) xs" using ch same(1) s1(2) by (simp add: u_def)
    have nz: "\<forall>z \<in> set xs. bi_size (bios u z) \<noteq> 0"
      using Cons.prems(3) B(2) dist by (simp add: u_def) metis
    have fl: "REQ_FLUSH_SEQ \<notin> cmd_flags (rqs u r)" using Cons.prems(6) s1(3) by (simp add: u_def)
    have pre: "distinct xs" "unat (n - sz) = bios_bytes u xs" "xs \<noteq> []"
      using Cons.prems(2) left same(2) Cons by simp_all
    from Cons.IH [OF ch' pre(1) nz pre(2,3) fl, of "tot + sz"] obtain tot' C where
      IH: "update_bios E r err (n - sz) (tot + sz) u = Some (tot', after_bios r err xs C u)"
      and C: "\<forall>b. b \<notin> set xs \<longrightarrow> C b = bios u b" by blast
    have "map (\<lambda>b. end_event (ended_with err u b)) xs = map (\<lambda>b. end_event (ended_with err s b)) xs"
      using ew by simp
    then have "after_bios r err xs C u = after_bios r err (x # xs) C s"
      unfolding after_bios_def by (simp add: u_def s1_def fun_upd_def o_def cong: if_cong)
    moreover have "\<forall>b. b \<notin> set (x # xs) \<longrightarrow> C b = bios s b" using C B(2) by (simp add: u_def)
    ultimately show ?thesis using IH run by (intro exI [of _ tot'] exI [of _ C]) simp
  qed
qed

section \<open>Ending the request\<close>

text \<open>What the last completion of a request leaves alone.\<close>

definition unmoved :: "kst \<Rightarrow> _" where
  "unmoved s = (queues s, rls s, elvqs s, linked s, locks s, rq_allocated s, tracked s, now_ts s,
     cur_pid s, serv_recording s, tasks s)"

lemma bios_ended_events [simp]:
  "bios_ended (ktrace_update (\<lambda>t. t @ map (\<lambda>b. end_event (ended_with err s' b)) xs) s) =
     bios_ended s @ map (ended_with err s') xs"
  by (simp add: bios_ended_def map_filter_def end_event_def o_def)

lemma bios_ended_update [simp]:
  "bios_ended (rqs_update f1 s) = bios_ended s" "bios_ended (bios_update f2 s) = bios_ended s"
  "bios_ended (parts_update f3 s) = bios_ended s"
  by (simp_all add: bios_ended_def)

lemma blk_update_request_all:
  assumes env: "end_env E" and ok: "rq_bytes_ok r xs s" and xs: "xs \<noteq> []" "distinct xs"
    and part: "blk_do_io_stat (rqs s r) \<Longrightarrow> rq_part (rqs s r) \<noteq> None"
    and fl: "REQ_FLUSH_SEQ \<notin> cmd_flags (rqs s r)"
  obtains u e where "blk_update_request E r err (data_len (rqs s r)) s = Some (False, u)"
    and "rqs u = (rqs s)(r := (rqs s r)\<lparr>rq_bio := None, data_len := 0, errors := e\<rparr>)"
    and "\<forall>b. b \<notin> set xs \<longrightarrow> bios u b = bios s b"
    and "unmoved u = unmoved s" and "bios_ended u = bios_ended s @ map (ended_with err s) xs"
proof -
  define v where "v = (if cmd_type (rqs s r) = REQ_TYPE_FS then upd_rq r (errors_update (\<lambda>_. 0)) s else s)"
  have vo: "\<And>x. x \<noteq> r \<Longrightarrow> rqs v x = rqs s x" by (simp add: v_def)
  have v: "rqs v r = (rqs s r)\<lparr>errors := errors (rqs v r)\<rparr>" "bios v = bios s" "unmoved v = unmoved s"
    "bios_ended v = bios_ended s"
    by (simp_all add: v_def unmoved_def tracked_def bios_ended_def)
  have vr: "rq_bio (rqs v r) = rq_bio (rqs s r)" "cmd_flags (rqs v r) = cmd_flags (rqs s r)"
    by (subst v(1), simp)+
  have "blk_do_io_stat (rqs v r) = blk_do_io_stat (rqs s r)" "rq_part (rqs v r) = rq_part (rqs s r)"
    by (subst v(1), simp add: blk_do_io_stat_def)+
  then have io: "blk_do_io_stat (rqs v r) \<Longrightarrow> rq_part (rqs v r) \<noteq> None" using part by simp
  obtain P where w: "blk_account_io_completion E r (data_len (rqs s r)) v = Some (parts_update (\<lambda>_. P) v)"
  proof (cases "blk_do_io_stat (rqs v r)")
    case True
    then obtain p where "rq_part (rqs v r) = Some p" using io by blast
    moreover obtain P where "part_stat_add E (Sectors (rq_data_dir (rqs v r))) p
        (ucast (drop_bit 9 (data_len (rqs s r)))) v = parts_update (\<lambda>_. P) v"
      using env unfolding end_env_def stat_env_def parts_only_def by blast
    ultimately show thesis using True that by (simp add: blk_account_io_completion_def)
  next
    case False
    then show thesis using that [of "parts v"] by (simp add: blk_account_io_completion_def)
  qed
  define x where "x = parts_update (\<lambda>_. P) v"
  have x: "rqs x = rqs v" "bios x = bios s" using v(2) by (simp_all add: x_def)
  note ex = ended_with_cong [OF x(2), of err]
  have "bio_chain x (rq_bio (rqs x r)) xs" "\<forall>b \<in> set xs. bi_size (bios x b) \<noteq> 0"
    "unat (data_len (rqs s r)) = bios_bytes x xs" "REQ_FLUSH_SEQ \<notin> cmd_flags (rqs x r)"
    using ok fl x vr by (simp_all add: rq_bytes_ok_def bio_chain_cong [of xs x s] bios_bytes_cong [of xs x s])
  from update_bios_all [OF env this(1) xs(2) this(2,3) xs(1) this(4), of err 0] obtain tot B where
    run: "update_bios E r err (data_len (rqs s r)) 0 x = Some (tot, after_bios r err xs B x)"
    and B: "\<forall>b. b \<notin> set xs \<longrightarrow> B b = bios x b"
    by blast
  define y where "y = after_bios r err xs B x"
  have yo: "\<And>z. z \<noteq> r \<Longrightarrow> rqs y z = rqs s z" "\<And>b. b \<notin> set xs \<Longrightarrow> bios y b = bios s b"
    using vo B by (simp_all add: y_def after_bios_def x)
  have y: "rqs y r = (rqs v r)\<lparr>rq_bio := None\<rparr>" "unmoved y = unmoved x"
    "bios_ended y = bios_ended x @ map (ended_with err x) xs"
    by (simp_all add: y_def after_bios_def x(1) unmoved_def tracked_def)
  obtain b0 where some: "rq_bio (rqs s r) = Some b0" using ok xs(1) by (cases xs) (auto simp: rq_bytes_ok_def)
  have "blk_update_request E r err (data_len (rqs s r)) s = Some (False, upd_rq r (data_len_update (\<lambda>_. 0)) y)"
    unfolding blk_update_request_def v_def [symmetric] Let_def
    using some w run by (simp add: x_def [symmetric] y_def [symmetric] y(1))
  moreover have "rqs (upd_rq r (data_len_update (\<lambda>_. 0)) y) =
      (rqs s)(r := (rqs s r)\<lparr>rq_bio := None, data_len := 0, errors := errors (rqs v r)\<rparr>)"
    by (rule ext) (simp add: y(1) yo(1), subst v(1), simp)
  moreover have "\<forall>b. b \<notin> set xs \<longrightarrow> bios (upd_rq r (data_len_update (\<lambda>_. 0)) y) b = bios s b"
    using yo(2) by simp
  moreover have "unmoved (upd_rq r (data_len_update (\<lambda>_. 0)) y) = unmoved s"
    using y(2) v(3) by (simp add: unmoved_def tracked_def x_def)
  moreover have "bios_ended (upd_rq r (data_len_update (\<lambda>_. 0)) y) = bios_ended s @ map (ended_with err s) xs"
    using y(3) v(4) ex by (simp add: x_def)
  ultimately show thesis by (rule that)
qed

text \<open>A request that its driver may complete as a whole.\<close>

definition completable :: "kenv \<Rightarrow> qid \<Rightarrow> gdid \<Rightarrow> rlid \<Rightarrow> rid \<Rightarrow> bid list \<Rightarrow> kst \<Rightarrow> bool" where
  "completable E q g l r xs s \<longleftrightarrow> greedy_installed E q g s \<and> \<not> mq_ops (queues s q) \<and> rl_q (rls s l) = q \<and>
     rq_bytes_ok r xs s \<and> distinct xs \<and> xs \<noteq> [] \<and>
     rq_q (rqs s r) = Some q \<and> rq_rl (rqs s r) = Some l \<and> queuelist (rqs s r) = None \<and>
     end_io (rqs s r) = None \<and> next_rq (rqs s r) = None \<and> REQ_ALLOCED \<in> cmd_flags (rqs s r) \<and>
     cmd_flags (rqs s r) \<inter> {REQ_HASHED, REQ_QUEUED, REQ_DONTPREP, REQ_FLUSH_SEQ} = {} \<and>
     (blk_do_io_stat (rqs s r) \<longrightarrow> rq_part (rqs s r) \<noteq> None)"

definition released :: "rlid \<Rightarrow> qid \<Rightarrow> rid \<Rightarrow> kst \<Rightarrow> _" where
  "released l q r s = (let b = rw_is_sync (cmd_flags (rqs s r)) in
     ((count (rls s l))(b := count (rls s l) b - 1),
      (nr_rqs (queues s q))(b := nr_rqs (queues s q) b - 1),
      nr_rqs_elvpriv (queues s q) - (if REQ_ELVPRIV \<in> cmd_flags (rqs s r) then 1 else 0),
      rq_allocated s - {r}))"

lemma req_track_rest [simp]:
  "rqs (req_track E r s) = rqs s" "queues (req_track E r s) = queues s" "rls (req_track E r s) = rls s"
  "elvqs (req_track E r s) = elvqs s" "locks (req_track E r s) = locks s"
  "rq_allocated (req_track E r s) = rq_allocated s" "bios_ended (req_track E r s) = bios_ended s"
  by (simp_all add: req_track_def Let_def bios_ended_def)

lemma world_req_track [simp]: "world (req_track E r s) = world s"
  by (simp add: req_track_def Let_def world_def tasks_def)

lemma req_track_cong:
  assumes "tracked t = tracked s" "now_ts t = now_ts s" "cur_pid t = cur_pid s"
    "serv_recording t = serv_recording s" "start_service (rqs t r) = start_service (rqs s r)"
    "start_wait (rqs t r) = start_wait (rqs s r)"
  shows "tracked (req_track E r t) = tracked (req_track E r s)"
  using assms by (simp add: tracked_def req_track_def Let_def)

lemma blk_delete_timer_frame [simp]: "rqs (blk_delete_timer r s) = rqs s"
  by (simp add: blk_delete_timer_def)

text \<open>Finishing a request whose bios have been ended.\<close>

lemma blk_finish_request_released:
  assumes env: "end_env E" and gi: "greedy_installed E q g s" and mq: "\<not> mq_ops (queues s q)"
    and q: "rl_q (rls s l) = q"
    and r: "rq_q (rqs s r) = Some q" "rq_rl (rqs s r) = Some l" "queuelist (rqs s r) = None"
      "end_io (rqs s r) = None" "next_rq (rqs s r) = None"
    and fl: "REQ_ALLOCED \<in> cmd_flags (rqs s r)"
      "cmd_flags (rqs s r) \<inter> {REQ_HASHED, REQ_QUEUED, REQ_DONTPREP} = {}"
    and part: "blk_do_io_stat (rqs s r) \<Longrightarrow> rq_part (rqs s r) \<noteq> None"
  obtains t where "blk_finish_request E r err s = Some t" and "locks t = locks s"
    and "queue_lock (queues t q) = queue_lock (queues s q)" and "bios_ended t = bios_ended s"
    and "tracked t = tracked (req_track E r s)" and "rl_counters l t = released l q r s"
    and "world t = world s"
proof -
  define a where "a = blk_delete_timer r (if laptop_mode E \<and> cmd_type (rqs s r) = REQ_TYPE_FS
    then emit (EvQ q laptop_io_completion) (req_track E r s) else req_track E r s)"
  have a: "rqs a = rqs s" "queues a = queues s" "rls a = rls s" "elvqs a = elvqs s" "locks a = locks s"
    "rq_allocated a = rq_allocated s" "told a = told (req_track E r s)" "world a = world s"
    by (simp_all add: a_def blk_delete_timer_def)
  obtain P where P: "blk_account_io_done E r a = Some (parts_update (\<lambda>_. P) a)"
    using account_done_parts [of E a r] env part a(1) unfolding end_env_def by auto
  define b where "b = parts_update (\<lambda>_. P) a"
  have b: "rqs b = rqs s" "queues b = queues s" "rls b = rls s" "elvqs b = elvqs s" "locks b = locks s"
    "rq_allocated b = rq_allocated s" "told b = told (req_track E r s)" "world b = world s"
    by (simp_all add: b_def a)
  have "greedy_installed E q g b = greedy_installed E q g s"
    by (rule greedy_installed_cong) (simp_all add: b)
  then have gb: "greedy_installed E q g b" using gi by simp
  have "\<not> mq_ops (queues b q)" "rq_q (rqs b r) = Some q" "rq_rl (rqs b r) = Some l"
    "queuelist (rqs b r) = None" "REQ_ALLOCED \<in> cmd_flags (rqs b r)" "REQ_HASHED \<notin> cmd_flags (rqs b r)"
    "rl_q (rls b l) = q"
    using mq r fl q b by auto
  from raw_blk_put_request_counters [OF gb this] obtain t where
    t: "raw_blk_put_request E (Some q) r b = Some t" "locks t = locks b" "told t = told b"
      "queue_lock (queues t q) = queue_lock (queues b q)" "rl_counters l t = released l q r b"
      "world t = world b"
    by (auto simp: released_def Let_def)
  have "blk_finish_request E r err s = raw_blk_put_request E (Some q) r b"
    using r fl(2) P
    by (cases "laptop_mode E"; cases "cmd_type (rqs s r) = REQ_TYPE_FS")
      (simp_all add: blk_finish_request_def blk_queued_rq_def a_def b_def Let_def)
  moreover have "bios_ended t = bios_ended s" "tracked t = tracked (req_track E r s)"
    using t(3) b(7) by (simp_all add: told_def)
  ultimately show thesis using that t b by (simp add: released_def)
qed


text \<open>The two halves: all bytes of the request are completed, and the request is finished.\<close>

lemma update_whole:
  assumes "end_env E" and "completable E q g l r xs s"
  obtains v e where "blk_update_bidi_request E r err (data_len (rqs s r)) 0 s = Some (False, v)"
    and "rqs v = (rqs s)(r := (rqs s r)\<lparr>rq_bio := None, data_len := 0, errors := e\<rparr>)"
    and "\<forall>b. b \<notin> set xs \<longrightarrow> bios v b = bios s b"
    and "unmoved v = unmoved s" and "bios_ended v = bios_ended s @ map (ended_with err s) xs"
proof -
  have ok: "rq_bytes_ok r xs s" "xs \<noteq> []" "distinct xs" "REQ_FLUSH_SEQ \<notin> cmd_flags (rqs s r)"
    and part: "blk_do_io_stat (rqs s r) \<Longrightarrow> rq_part (rqs s r) \<noteq> None"
    and r: "rq_q (rqs s r) = Some q" "next_rq (rqs s r) = None"
    using assms(2) by (simp_all add: completable_def)
  obtain u e where u: "blk_update_request E r err (data_len (rqs s r)) s = Some (False, u)"
    "rqs u = (rqs s)(r := (rqs s r)\<lparr>rq_bio := None, data_len := 0, errors := e\<rparr>)"
    "\<forall>b. b \<notin> set xs \<longrightarrow> bios u b = bios s b"
    "unmoved u = unmoved s" "bios_ended u = bios_ended s @ map (ended_with err s) xs"
    by (rule blk_update_request_all [OF assms(1) ok(1-3) part ok(4), of err])
  define v where "v = (if blk_queue_add_random (queues u q) then emit (EvRq r add_disk_randomness) u else u)"
  have "blk_update_bidi_request E r err (data_len (rqs s r)) 0 s = Some (False, v)"
    using u(1,2) r by (simp add: blk_update_bidi_request_def v_def)
  moreover have "rqs v = rqs u" "bios v = bios u" "unmoved v = unmoved u" "bios_ended v = bios_ended u"
    by (simp_all add: v_def unmoved_def tracked_def bios_ended_def map_filter_def)
  ultimately show thesis using that u by simp
qed

lemma finish_whole:
  assumes env: "end_env E" and ok: "completable E q g l r xs s"
    and w: "rqs w = (rqs s)(r := (rqs s r)\<lparr>rq_bio := None, data_len := 0, errors := e\<rparr>)"
      "unmoved (locks_update (\<lambda>_. locks s) w) = unmoved s"
  obtains t where "blk_finish_request E r err w = Some t" and "world t = world w"
    and "bios_ended t = bios_ended w" and "tracked t = tracked (req_track E r s)"
    and "rl_counters l t = released l q r s"
proof -
  have W: "queues w = queues s" "rls w = rls s" "elvqs w = elvqs s" "rq_allocated w = rq_allocated s"
    and tr: "tracked w = tracked s" "now_ts w = now_ts s" "cur_pid w = cur_pid s"
      "serv_recording w = serv_recording s"
    using w(2) by (simp_all add: unmoved_def tracked_def)
  have "greedy_installed E q g w = greedy_installed E q g s"
    by (rule greedy_installed_cong) (simp_all add: W)
  then have gi: "greedy_installed E q g w" using ok by (simp add: completable_def)
  have rw: "\<not> mq_ops (queues w q)" "rl_q (rls w l) = q" "rq_q (rqs w r) = Some q" "rq_rl (rqs w r) = Some l"
    "queuelist (rqs w r) = None" "end_io (rqs w r) = None" "next_rq (rqs w r) = None"
    "REQ_ALLOCED \<in> cmd_flags (rqs w r)" "cmd_flags (rqs w r) \<inter> {REQ_HASHED, REQ_QUEUED, REQ_DONTPREP} = {}"
    using ok by (auto simp: completable_def W w(1))
  have pw: "blk_do_io_stat (rqs w r) \<Longrightarrow> rq_part (rqs w r) \<noteq> None"
    using ok by (simp add: w(1) blk_do_io_stat_def completable_def)
  obtain t where t: "blk_finish_request E r err w = Some t" "bios_ended t = bios_ended w" "world t = world w"
    "tracked t = tracked (req_track E r w)" "rl_counters l t = released l q r w"
    by (rule blk_finish_request_released [OF env gi rw pw])
  moreover have "tracked (req_track E r w) = tracked (req_track E r s)"
    using tr w(1) by (intro req_track_cong) simp_all
  moreover have "released l q r w = released l q r s" by (simp add: released_def W w(1))
  ultimately show thesis using that by simp
qed

text \<open>
  With the queue lock held, as a driver's request function calls it; besides, what of the state is
  left alone.
\<close>

lemma raw_blk_end_request_all_run:
  assumes "end_env E" and ok: "completable E q g l r xs s"
  obtains t e where "raw_blk_end_request_all E r err s = Some t"
    and "bios_ended t = bios_ended s @ map (ended_with err s) xs"
    and "tracked t = tracked (req_track E r s)" and "rl_counters l t = released l q r s"
    and "world t = world (rqs_update (\<lambda>_. (rqs s)(r := (rqs s r)\<lparr>rq_bio := None, data_len := 0, errors := e\<rparr>))
           (bios_update (\<lambda>_. bios t) s))"
    and "\<forall>b. b \<notin> set xs \<longrightarrow> bios t b = bios s b"
proof -
  obtain v e where v: "blk_update_bidi_request E r err (data_len (rqs s r)) 0 s = Some (False, v)"
    "rqs v = (rqs s)(r := (rqs s r)\<lparr>rq_bio := None, data_len := 0, errors := e\<rparr>)"
    "\<forall>b. b \<notin> set xs \<longrightarrow> bios v b = bios s b"
    "unmoved v = unmoved s" "bios_ended v = bios_ended s @ map (ended_with err s) xs"
    by (rule update_whole [OF assms])
  have "unmoved (locks_update (\<lambda>_. locks s) v) = unmoved s"
    using v(4) by (simp add: unmoved_def tracked_def)
  from finish_whole [OF assms v(2) this, of err] obtain t where
    t: "blk_finish_request E r err v = Some t" "world t = world v" "bios_ended t = bios_ended v"
      "tracked t = tracked (req_track E r s)" "rl_counters l t = released l q r s" by blast
  have r: "next_rq (rqs s r) = None" using ok by (simp add: completable_def)
  have "raw_blk_end_request_all E r err s = Some t"
    using r v(1) t(1) by (simp add: raw_blk_end_request_all_def raw_blk_end_bidi_request_def blk_rq_bytes_def Let_def)
  moreover have bt: "bios t = bios v" using t(2) by (simp add: world_def)
  moreover have "world t = world (rqs_update (\<lambda>_. (rqs s)(r := (rqs s r)\<lparr>rq_bio := None, data_len := 0, errors := e\<rparr>))
           (bios_update (\<lambda>_. bios t) s))"
    using v(2,4) by (simp add: t(2) bt) (simp add: world_def unmoved_def)
  ultimately show thesis using that t(3-5) v(3,5) by simp
qed

text \<open>
  C14: completing a whole request. The driver calls \<open>blk_end_request_all\<close> on a request whose length is
  the sum of the bytes of its bios. The call returns, with the queue lock free again. Every bio of
  the request has been ended, exactly once, in the order of the chain, with the error of the call
  or, without one, with its own; no other bio has been ended. The request tracker has recorded the
  request once. The request is given back: the counters of its list and of the queue are down by
  one, and it is no longer allocated.
\<close>

theorem blk_end_request_all_completes:
  assumes "end_env E" and "completable E q g l r xs s" and "\<not> locks s (queue_lock (queues s q))"
  shows "\<exists>t. blk_end_request_all E r err s = Some t \<and> locks t = locks s \<and>
    bios_ended t = bios_ended s @ map (\<lambda>b. (b, if err = None then bi_error (bios s b) else err)) xs \<and>
    tracked t = tracked (req_track E r s) \<and> rl_counters l t = released l q r s"
proof -
  obtain v e where v: "blk_update_bidi_request E r err (data_len (rqs s r)) 0 s = Some (False, v)"
    "rqs v = (rqs s)(r := (rqs s r)\<lparr>rq_bio := None, data_len := 0, errors := e\<rparr>)"
    "unmoved v = unmoved s" "bios_ended v = bios_ended s @ map (ended_with err s) xs"
    by (rule update_whole [OF assms(1,2)])
  define w where "w = locks_update (\<lambda>m. m(queue_lock (queues s q) := True)) v"
  have qv: "queues v = queues s" "locks v = locks s" using v(3) by (simp_all add: unmoved_def)
  then have lock: "lock_q q v = Some w" using assms(3) by (simp add: w_def)
  have "rqs w = (rqs s)(r := (rqs s r)\<lparr>rq_bio := None, data_len := 0, errors := e\<rparr>)"
    "unmoved (locks_update (\<lambda>_. locks s) w) = unmoved s"
    using v(2,3) by (simp_all add: w_def unmoved_def tracked_def)
  from finish_whole [OF assms(1,2) this, of err] obtain x where
    x: "blk_finish_request E r err w = Some x" "world x = world w" "bios_ended x = bios_ended w"
      "tracked x = tracked (req_track E r s)" "rl_counters l x = released l q r s" by blast
  have lx: "locks x = locks w" "queue_lock (queues x q) = queue_lock (queues w q)"
    using worldD(5,7) [OF x(2)] by (auto dest: drv_viewD(1))
  define t where "t = locks_update (\<lambda>m. m(queue_lock (queues s q) := False)) x"
  have "unlock_q q x = Some t" using lx qv by (simp add: t_def w_def)
  moreover have "rq_q (rqs s r) = Some q" "next_rq (rqs s r) = None"
    using assms(2) by (simp_all add: completable_def)
  ultimately have "blk_end_request_all E r err s = Some t"
    using v(1) lock x(1)
    by (simp add: blk_end_request_all_def blk_end_bidi_request_def blk_rq_bytes_def Let_def
        del: spin_lock_eq_Some spin_unlock_eq_Some)
  moreover have "locks t = locks s" using lx(1) qv assms(3) by (simp add: t_def w_def fun_upd_idem_iff)
  moreover have "bios_ended t = bios_ended s @ map (ended_with err s) xs"
    using x(3) v(4) by (simp add: t_def w_def bios_ended_def)
  moreover have "tracked t = tracked (req_track E r s)" using x(4) by (simp add: t_def tracked_def)
  moreover have "rl_counters l t = released l q r s" using x(5) by (simp add: t_def rl_counters_def)
  ultimately show ?thesis by (simp add: ended_with_def [abs_def])
qed

section \<open>A concrete run\<close>

lemma end_env_greedy: "end_env greedy_env"
  unfolding end_env_def stat_env_def greedy_env_def
  by (auto simp: complete_env_def env_zero_def intro!: parts_onlyI)

text \<open>A request of two bios, the first of which has an error of its own, counted in a partition.\<close>

definition done_state :: kst where
  "done_state = greedy_busy
     \<lparr>bios := (\<lambda>_. bio_zero)(1 := bio_zero\<lparr>bi_size := 4096, bi_next := Some 2, bi_error := Some ENOMEM\<rparr>,
                               2 := bio_zero\<lparr>bi_size := 2048\<rparr>),
      rqs := (rqs greedy_busy)(9 := rq_zero\<lparr>cmd_type := REQ_TYPE_FS, rq_bio := Some 1, biotail := Some 2,
                data_len := 6144, rq_q := Some 0, rq_rl := Some (RootRl 0), rq_disk := Some 0,
                rq_part := Some 0, cmd_flags := {REQ_ALLOCED, REQ_STARTED, REQ_IO_STAT}\<rparr>)\<rparr>"

lemma done_state_ok: "completable greedy_env 0 8 (RootRl 0) 9 [1, 2] done_state"
proof -
  have "greedy_installed greedy_env 0 8 done_state = greedy_installed greedy_env 0 8 greedy_busy"
    by (rule greedy_installed_cong) (simp_all add: done_state_def)
  then have "greedy_installed greedy_env 0 8 done_state"
    using greedy_busy_ok(1) by (simp add: elv_sorted_ok_def)
  moreover have "rq_bytes_ok 9 [1, 2] done_state"
    by (simp add: rq_bytes_ok_def done_state_def bio_zero_def)
  ultimately show ?thesis
    by (simp add: completable_def)
      (simp add: done_state_def greedy_busy_def greedy_both_def greedy_two_def kst_zero_def queue_zero_def
        rl_zero_def rq_zero_def)
qed

lemma blk_end_request_all_completes_witness:
  "\<exists>t. blk_end_request_all greedy_env 9 None done_state = Some t \<and>
     bios_ended t = [(1, Some ENOMEM), (2, None)] \<and> num_requests_seen t = 1"
proof -
  have f: "\<not> locks done_state (queue_lock (queues done_state 0))" "bios_ended done_state = []"
    "tracked (req_track greedy_env 9 done_state) = tracked t \<Longrightarrow> num_requests_seen t = 1"
    "bi_error (bios done_state 1) = Some ENOMEM" "bi_error (bios done_state 2) = None" for t
    by (simp_all add: done_state_def greedy_busy_def greedy_both_def greedy_two_def kst_zero_def
        bios_ended_def tracked_def req_track_def Let_def bio_zero_def)
  from blk_end_request_all_completes [OF end_env_greedy done_state_ok f(1), of None] obtain t where
    t: "blk_end_request_all greedy_env 9 None done_state = Some t"
      "bios_ended t = bios_ended done_state @
         map (\<lambda>b. (b, if None = (None :: errno option) then bi_error (bios done_state b) else None)) [1, 2]"
      "tracked t = tracked (req_track greedy_env 9 done_state)" by blast
  from t(1,2) f(2,4,5) f(3) [OF t(3) [symmetric]] show ?thesis by (intro exI [of _ t]) simp
qed

end
