(* ===== verification/Blk_Serve.thy ===== *)
theory Blk_Serve
  imports Blk_Plugged Blk_Fetch Blk_Done
begin

text \<open>
  From the submission of bios to their end. The driver is one whose request function takes requests
  with \<open>blk_fetch_request\<close> and completes each with \<open>__blk_end_request_all\<close>, until there is none.
\<close>

section \<open>The driver\<close>

partial_function (option) serve_all :: "kenv \<Rightarrow> qid \<Rightarrow> kst \<Rightarrow> kst option" where
  "serve_all E q s =
     Option.bind (blk_fetch_request E q s) (\<lambda>(ro, s).
       case ro of None \<Rightarrow> Some s
       | Some r \<Rightarrow> Option.bind (raw_blk_end_request_all E r None s) (serve_all E q))"

text \<open>
  A request as it was allocated for bios of the queue \<open>q\<close> from the list \<open>l\<close>, the bios that it carries,
  and a queue whose requests carry bios, \<open>f\<close> of them, and no two requests the same.
\<close>

definition carrier :: "qid \<Rightarrow> rlid \<Rightarrow> request \<Rightarrow> bool" where
  "carrier q l rq \<longleftrightarrow>
     snd (cargo rq) = (Some q, Some l, None :: rid option, None :: code option, False, {REQ_ALLOCED},
       rw_is_sync (cmd_flags rq))"

definition carries_bios :: "qid \<Rightarrow> rlid \<Rightarrow> rid \<Rightarrow> bid list \<Rightarrow> kst \<Rightarrow> bool" where
  "carries_bios q l r xs s \<longleftrightarrow> carrier q l (rqs s r) \<and> rq_bytes_ok r xs s \<and> distinct xs \<and> xs \<noteq> []"

definition disjoint_runs :: "(rid \<Rightarrow> bid list) \<Rightarrow> rid set \<Rightarrow> bool" where
  "disjoint_runs f R \<longleftrightarrow> (\<forall>x \<in> R. \<forall>y \<in> R. x \<noteq> y \<longrightarrow> set (f x) \<inter> set (f y) = {})"

definition servable :: "kenv \<Rightarrow> qid \<Rightarrow> gdid \<Rightarrow> rlid \<Rightarrow> (rid \<Rightarrow> bid list) \<Rightarrow> kst \<Rightarrow> bool" where
  "servable E q g l f s \<longleftrightarrow> driver_ok E q g s \<and> rl_q (rls s l) = q \<and>
     disjoint_runs f (set_mset (elv_bag q g s)) \<and> (\<forall>r \<in># elv_bag q g s. carries_bios q l r (f r) s)"

lemma carries_bios_cong:
  assumes "cargo (rqs t r) = cargo (rqs s r)" and "\<And>b. b \<in> set xs \<Longrightarrow> bios t b = bios s b"
  shows "carries_bios q l r xs t = carries_bios q l r xs s"
proof -
  have "bio_chain t c xs = bio_chain s c xs" for c using assms(2) by (intro bio_chain_cong) simp
  moreover have "bios_bytes t xs = bios_bytes s xs" using assms(2) by (intro bios_bytes_cong) simp
  moreover have "rq_bio (rqs t r) = rq_bio (rqs s r)" "data_len (rqs t r) = data_len (rqs s r)"
    using cargoD(1) [OF assms(1)] by (simp_all add: carried_def)
  ultimately show ?thesis
    using assms cargoD(8) [OF assms(1)] by (simp add: carries_bios_def carrier_def rq_bytes_ok_def)
qed

lemma new_cargo_carries:
  assumes "cargo (rqs s r) = new_cargo q l s b" and "bi_next (bios s b) = None" and "bi_size (bios s b) \<noteq> 0"
  shows "carries_bios q l r [b] s"
  using assms
  by (auto simp: carries_bios_def carrier_def rq_bytes_ok_def cargo_def new_cargo_def carried_def)

lemma cargo_completable:
  assumes "driver_ok E q g s" and "rl_q (rls s l) = q" and "carries_bios q l r xs s"
    and "queuelist (rqs s r) = None" and "\<not> ELV_ON_HASH (rqs s r)"
  shows "completable E q g l r xs s"
proof -
  have "cmd_flags (rqs s r) \<inter> own_flags = {REQ_ALLOCED}"
    using assms(3) by (simp add: cargo_def carries_bios_def carrier_def)
  then have "REQ_ALLOCED \<in> cmd_flags (rqs s r)" "REQ_IO_STAT \<notin> cmd_flags (rqs s r)"
    "cmd_flags (rqs s r) \<inter> {REQ_QUEUED, REQ_DONTPREP, REQ_FLUSH_SEQ} = {}"
    by auto
  then show ?thesis
    using assms
    by (auto simp: completable_def driver_ok_def elv_sorted_ok_def ready_queue_def carries_bios_def carrier_def
        cargo_def ELV_ON_HASH_def blk_do_io_stat_def)
qed

text \<open>
  What the service of requests leaves alone: the requests outside \<open>R\<close>, the bios outside \<open>B\<close>, and what
  belongs to the tasks.
\<close>

definition aside :: "rid set \<Rightarrow> bid set \<Rightarrow> kst \<Rightarrow> kst \<Rightarrow> bool" where
  "aside R B s t \<longleftrightarrow> touches R s t \<and> (\<forall>b. b \<notin> B \<longrightarrow> bios t b = bios s b) \<and> tasks t = tasks s \<and>
     (\<forall>x. q_side (queues t x) = q_side (queues s x)) \<and> (\<forall>e. eq_type (elvqs t e) = eq_type (elvqs s e)) \<and>
     (\<forall>k. task_list k \<longrightarrow> linked t k = linked s k) \<and> (\<forall>l. rl_q (rls t l) = rl_q (rls s l))"

lemma aside_refl [simp]: "aside R B s s"
  by (simp add: aside_def touches_def)

lemma asideD:
  assumes "aside R B s t"
  shows "x \<notin> R \<Longrightarrow> rqs t x = rqs s x" "b \<notin> B \<Longrightarrow> bios t b = bios s b" "tasks t = tasks s"
    "q_side (queues t z) = q_side (queues s z)" "eq_type (elvqs t e) = eq_type (elvqs s e)"
    "task_list k \<Longrightarrow> linked t k = linked s k" "rl_q (rls t l) = rl_q (rls s l)"
  using assms unfolding aside_def touches_def by blast+

lemma asideI:
  assumes "\<And>x. x \<notin> R \<Longrightarrow> rqs t x = rqs s x" and "\<And>b. b \<notin> B \<Longrightarrow> bios t b = bios s b" and "tasks t = tasks s"
    and "\<And>z. q_side (queues t z) = q_side (queues s z)" and "\<And>e. eq_type (elvqs t e) = eq_type (elvqs s e)"
    and "\<And>k. task_list k \<Longrightarrow> linked t k = linked s k" and "\<And>l. rl_q (rls t l) = rl_q (rls s l)"
  shows "aside R B s t"
  using assms unfolding aside_def touches_def by blast

lemma aside_trans:
  assumes "aside R B s t" and "aside R' B' t u"
  shows "aside (R \<union> R') (B \<union> B') s u"
  by (rule asideI) (simp_all add: asideD [OF assms(1)] asideD [OF assms(2)])

text \<open>The counter of its list that a request is part of, and how many requests are part of the counter \<open>x\<close>.\<close>

definition lane :: "kst \<Rightarrow> rid \<Rightarrow> bool" where
  "lane s r = rw_is_sync (cmd_flags (rqs s r))"

definition in_lane :: "kst \<Rightarrow> bool \<Rightarrow> rid list \<Rightarrow> nat" where
  "in_lane s x rs = length (filter (\<lambda>r. lane s r = x) rs)"

lemma in_lane_simps [simp]:
  "in_lane s x [] = 0" "in_lane s x (r # rs) = (if lane s r = x then 1 else 0) + in_lane s x rs"
  "in_lane s x (rs @ rs') = in_lane s x rs + in_lane s x rs'"
  by (simp_all add: in_lane_def)

lemma in_lane_cong:
  assumes "\<And>r. r \<in> set rs \<Longrightarrow> lane t r = lane s r"
  shows "in_lane t x rs = in_lane s x rs"
proof -
  have "filter (\<lambda>r. lane t r = x) rs = filter (\<lambda>r. lane s r = x) rs" using assms by (simp cong: filter_cong)
  then show ?thesis by (simp add: in_lane_def)
qed

lemma in_lane_mset: "mset rs = mset rs' \<Longrightarrow> in_lane s x rs = in_lane s x rs'"
  unfolding in_lane_def by (metis mset_filter size_mset)

lemma lane_cargo: "cargo (rqs t r) = cargo (rqs s r) \<Longrightarrow> lane t r = lane s r"
  unfolding lane_def by (rule cargoD(8))

text \<open>Completing a request that has been taken keeps the rest of the queue servable.\<close>

lemma driver_ok_world:
  assumes w: "world t = world (rqs_update (\<lambda>_. R) (bios_update (\<lambda>_. B) s))"
    and R: "\<And>x. queuelist (R x) = queuelist (rqs s x)" "\<And>x. fetchable q (R x) = fetchable q (rqs s x)"
      "\<And>x. ELV_ON_HASH (R x) = ELV_ON_HASH (rqs s x)"
  shows "elv_bag q g t = elv_bag q g s" and "driver_ok E q g s \<Longrightarrow> driver_ok E q g t"
proof -
  note W = worldD [OF w]
  show bag: "elv_bag q g t = elv_bag q g s" by (simp add: elv_bag_def greedy_pending_def W)
  have "lists_ok t = lists_ok s" by (rule lists_ok_cong) (simp_all add: W R)
  moreover have "greedy_installed E q g t = greedy_installed E q g s"
    by (rule greedy_installed_cong) (simp_all add: W)
  moreover have "ready_queue (queues t q) = ready_queue (queues s q)"
    using drv_viewD [OF W(7) [of q]] by (simp add: ready_queue_def test_qflag_def)
  ultimately show "driver_ok E q g s \<Longrightarrow> driver_ok E q g t"
    using bag by (simp add: driver_ok_def elv_sorted_ok_def greedy_pending_def W R)
qed

text \<open>One round of the loop.\<close>

lemma serve_round:
  assumes env: "end_env E" and ok: "servable E q g l f s" and ne: "elv_bag q g s \<noteq> {#}"
  obtains r t where "serve_all E q s = serve_all E q t" and "servable E q g l f t"
    and "elv_bag q g s = add_mset r (elv_bag q g t)"
    and "bios_ended t = bios_ended s @ map (\<lambda>b. (b, bi_error (bios s b))) (f r)"
    and "num_requests_seen t = num_requests_seen s + 1" and "rq_allocated t = rq_allocated s - {r}"
    and "\<forall>x \<in># elv_bag q g t. lane t x = lane s x \<and> set (f x) \<inter> set (f r) = {}"
    and "locks t = locks s" and "aside (set_mset (elv_bag q g s)) (set (f r)) s t"
    and "\<forall>x. count (rls t l) x = count (rls s l) x - (if lane s r = x then 1 else 0)"
    and "last_ok q g s \<longrightarrow> last_ok q g t"
proof -
  have dr: "driver_ok E q g s" using ok by (simp add: servable_def)
  obtain r u where u: "blk_fetch_request E q s = Some (Some r, u)" "driver_ok E q g u"
    "elv_bag q g s = add_mset r (elv_bag q g u)" "\<forall>x. cargo (rqs u x) = cargo (rqs s x)"
    "side u = side s" "queuelist (rqs u r) = None" "\<not> ELV_ON_HASH (rqs u r)"
    "touches (set_mset (elv_bag q g s)) s u" "last_ok q g s \<longrightarrow> last_ok q g u"
    by (rule fetch_some [OF dr ne])
  note S = sideD [OF u(5)]
  have bu: "bios u = bios s" "told u = told s" "rq_allocated u = rq_allocated s"
    using S(1) by (simp_all add: outside_def)
  have r: "carries_bios q l r (f r) u"
    using ok u(3,4) carries_bios_cong [of u r s "f r"] bu(1) by (simp add: servable_def)
  have rl: "rl_q (rls u l) = q" using ok S(3) by (simp add: servable_def)
  note co = cargo_completable [OF u(2) rl r u(6,7)]
  obtain t e where t: "raw_blk_end_request_all E r None u = Some t"
    "bios_ended t = bios_ended u @ map (ended_with None u) (f r)"
    "tracked t = tracked (req_track E r u)" "rl_counters l t = released l q r u"
    "world t = world (rqs_update (\<lambda>_. (rqs u)(r := (rqs u r)\<lparr>rq_bio := None, data_len := 0, errors := e\<rparr>))
           (bios_update (\<lambda>_. bios t) u))"
    "\<forall>b. b \<notin> set (f r) \<longrightarrow> bios t b = bios u b"
    by (rule raw_blk_end_request_all_run [OF env co, of None])
  note W = worldD [OF t(5)]
  have dt: "elv_bag q g t = elv_bag q g u" "driver_ok E q g t"
    using driver_ok_world(1) [OF t(5), where q = q and g = g]
      driver_ok_world(2) [OF t(5), where q = q and g = g and E = E] u(2)
    by (simp_all add: fetchable_def ELV_ON_HASH_def)
  have "lists_ok u" using u(2) by (simp add: driver_ok_def elv_sorted_ok_def)
  then have nr: "r \<notin># elv_bag q g u"
    using u(6) lists_okD(2) by (fastforce simp: elv_bag_def greedy_pending_def)
  have others: "rqs t x = rqs u x" "set (f x) \<inter> set (f r) = {}" "\<forall>b \<in> set (f x). bios t b = bios s b"
    if "x \<in># elv_bag q g t" for x
  proof -
    have x: "x \<noteq> r" "x \<in># elv_bag q g s" "r \<in># elv_bag q g s" using that nr dt(1) u(3) by auto
    then show "set (f x) \<inter> set (f r) = {}" using ok by (simp add: servable_def disjoint_runs_def)
    then show "rqs t x = rqs u x" "\<forall>b \<in> set (f x). bios t b = bios s b" using x W(1) t(6) bu(1) by auto
  qed
  have "servable E q g l f t"
    unfolding servable_def
  proof (intro conjI ballI)
    show "driver_ok E q g t" "rl_q (rls t l) = q" using dt(2) W(6) rl by simp_all
    show "disjoint_runs f (set_mset (elv_bag q g t))"
      using ok u(3) dt(1) by (auto simp: servable_def disjoint_runs_def)
    fix x assume x: "x \<in># elv_bag q g t"
    then have "x \<in># elv_bag q g s" using u(3) dt(1) by simp
    then show "carries_bios q l x (f x) t"
      using ok u(4) others(1,3) [OF x] carries_bios_cong [of t x s "f x"] by (simp add: servable_def)
  qed
  moreover have "serve_all E q s = serve_all E q t"
    using u(1) t(1) by (subst serve_all.simps) simp
  moreover have "bios_ended t = bios_ended s @ map (\<lambda>b. (b, bi_error (bios s b))) (f r)"
    using t(2) bu by (simp add: ended_with_def told_def)
  moreover have "num_requests_seen t = num_requests_seen s + 1"
    using t(3) bu(2) by (simp add: tracked_def told_def req_track_def Let_def)
  moreover have "rq_allocated t = rq_allocated s - {r}"
    using t(4) bu(3) by (simp add: rl_counters_def released_def Let_def)
  moreover have "\<forall>x \<in># elv_bag q g t. lane t x = lane s x \<and> set (f x) \<inter> set (f r) = {}"
    using others lane_cargo [OF u(4) [rule_format]] by (simp add: lane_def)
  moreover have "aside (set_mset (elv_bag q g s)) (set (f r)) s t"
  proof (rule asideI)
    show "rqs t x = rqs s x" if "x \<notin># elv_bag q g s" for x
      using that u(3,8) W(1) by (simp add: touches_def)
    show "q_side (queues t z) = q_side (queues s z)" for z
      using W(7,8,11,12) S(4-7) by (simp add: q_side_def)
  qed (simp_all add: W(3,4,6,13) S t(6) bu(1))
  moreover have "lane u r = lane s r" by (rule lane_cargo [OF u(4) [rule_format]])
  then have "\<forall>x. count (rls t l) x = count (rls s l) x - (if lane s r = x then 1 else 0)"
    using t(4) S(3) by (auto simp: rl_counters_def released_def Let_def lane_def)
  moreover have "last_ok q g t = last_ok q g u" by (simp add: last_ok_def greedy_pending_def W(3,10))
  ultimately show thesis
    using that [of t r] u(3,9) dt(1) W(5) S(2) by simp
qed

text \<open>The whole loop.\<close>

lemma serve_all_run:
  assumes env: "end_env E"
  shows "servable E q g l f s \<Longrightarrow> \<exists>rs t. serve_all E q s = Some t \<and> mset rs = elv_bag q g s \<and>
    elv_bag q g t = {#} \<and> bios_ended t = bios_ended s @ map (\<lambda>b. (b, bi_error (bios s b))) (concat (map f rs)) \<and>
    num_requests_seen t = num_requests_seen s + of_nat (length rs) \<and>
    rq_allocated t = rq_allocated s - set rs \<and> elv_sorted_ok E q g t \<and> locks t = locks s \<and>
    linked t (QHead q) = [] \<and>
    aside (set rs) (set (concat (map f rs))) s t \<and> (last_ok q g s \<longrightarrow> last_ok q g t) \<and>
    (\<forall>x. count (rls t l) x = count (rls s l) x - int (in_lane s x rs))"
proof (induction "size (elv_bag q g s)" arbitrary: s)
  case 0
  then have ok: "driver_ok E q g s" and e: "elv_bag q g s = {#}" by (simp_all add: servable_def)
  have "serve_all E q s = Some s"
    using fetch_none [OF ok e] by (subst serve_all.simps) simp
  with ok e show ?case
    by (intro exI [of _ "[]"] exI [of _ s]) (simp add: driver_ok_def, simp add: elv_bag_def)
next
  case (Suc n)
  then have ne: "elv_bag q g s \<noteq> {#}" by auto
  obtain r t where t: "serve_all E q s = serve_all E q t" "servable E q g l f t"
    "elv_bag q g s = add_mset r (elv_bag q g t)"
    "bios_ended t = bios_ended s @ map (\<lambda>b. (b, bi_error (bios s b))) (f r)"
    "num_requests_seen t = num_requests_seen s + 1" "rq_allocated t = rq_allocated s - {r}"
    "\<forall>x \<in># elv_bag q g t. lane t x = lane s x \<and> set (f x) \<inter> set (f r) = {}"
    "locks t = locks s" "aside (set_mset (elv_bag q g s)) (set (f r)) s t"
    "\<forall>x. count (rls t l) x = count (rls s l) x - (if lane s r = x then 1 else 0)"
    "last_ok q g s \<longrightarrow> last_ok q g t"
    by (rule serve_round [OF env Suc.prems ne])
  have "n = size (elv_bag q g t)" using Suc.hyps(2) t(3) by simp
  from Suc.hyps(1) [OF this t(2)] obtain rs u where
    u: "serve_all E q t = Some u" "mset rs = elv_bag q g t" "elv_bag q g u = {#}"
      "bios_ended u = bios_ended t @ map (\<lambda>b. (b, bi_error (bios t b))) (concat (map f rs))"
      "num_requests_seen u = num_requests_seen t + of_nat (length rs)"
      "rq_allocated u = rq_allocated t - set rs" "elv_sorted_ok E q g u" "locks u = locks t"
      "linked u (QHead q) = []" "aside (set rs) (set (concat (map f rs))) t u"
      "last_ok q g t \<longrightarrow> last_ok q g u"
      "\<forall>x. count (rls u l) x = count (rls t l) x - int (in_lane t x rs)" by blast
  have rs: "set rs = set_mset (elv_bag q g t)" using u(2) by (metis set_mset_mset)
  have "bios t b = bios s b" if "b \<in> set (concat (map f rs))" for b
    using that t(7,9) rs by (auto simp: aside_def)
  then have "map (\<lambda>b. (b, bi_error (bios t b))) (concat (map f rs)) = map (\<lambda>b. (b, bi_error (bios s b))) (concat (map f rs))"
    by simp
  moreover have "in_lane t x rs = in_lane s x rs" for x by (rule in_lane_cong) (use t(7) rs in simp)
  moreover have "aside (set (r # rs)) (set (concat (map f (r # rs)))) s u"
    using aside_trans [OF t(9) u(10)] rs t(3) by (simp add: Un_ac)
  moreover have "mset (r # rs) = elv_bag q g s" using t(3) u(2) by simp
  moreover have "\<forall>x. count (rls u l) x = count (rls s l) x - int (in_lane s x (r # rs))"
    using t(10) u(12) calculation(2) by simp
  ultimately show ?case
    using t(1,4-6,8,11) u(1,3,5-9,11)
    by (intro exI [of _ "r # rs"] exI [of _ u]) (simp add: u(4) set_diff_eq [symmetric] Diff_insert2 [symmetric])
qed

section \<open>From submission to completion\<close>

text \<open>The environment in which the request functions of the drivers are the loop above.\<close>

definition with_server :: "kenv \<Rightarrow> kenv" where
  "with_server E = E\<lparr>call_request_fn := \<lambda>_. serve_all E\<rparr>"

lemma with_server_sorted:
  "elv_sorted_ok (with_server E) q g s = elv_sorted_ok E q g s"
proof -
  have "elv_dispatch_add_tail (with_server E) = elv_dispatch_add_tail E"
    by (intro ext) (simp add: elv_dispatch_add_tail_def Let_def with_server_def)
  then have "greedy_dispatch (with_server E) = greedy_dispatch E"
    unfolding with_server_def by (intro ext) (simp add: greedy_dispatch_def Let_def cong: option.case_cong)
  then have "elevator_greedy (with_server E) = elevator_greedy E" by (simp add: elevator_greedy_def)
  then show ?thesis by (simp add: elv_sorted_ok_def greedy_installed_def) (simp add: with_server_def)
qed

text \<open>What is needed of the queue, at rest, for its driver.\<close>

definition at_rest :: "qid \<Rightarrow> gdid \<Rightarrow> kst \<Rightarrow> bool" where
  "at_rest q g s \<longleftrightarrow> elv_bag q g s = {#} \<and> ready_queue (queues s q) \<and> request_fn (queues s q) \<noteq> None \<and>
     \<not> blk_queue_stopped (queues s q) \<and> \<not> blk_queue_dead (queues s q)"

lemma at_rest_cong:
  assumes "elv_bag q g t = elv_bag q g s" and "drv_view (queues t q) = drv_view (queues s q)"
  shows "at_rest q g t = at_rest q g s"
  using assms(1) drv_viewD [OF assms(2)] by (simp add: at_rest_def ready_queue_def test_qflag_def)

definition idle_queue :: "qid \<Rightarrow> gdid \<Rightarrow> kst \<Rightarrow> bool" where
  "idle_queue q g s \<longleftrightarrow> at_rest q g s \<and> (\<forall>r \<ge> heap_next s. r \<notin> rq_allocated s)"

text \<open>A bio that stands alone and has data, and is no flush.\<close>

definition plain_bio :: "bio \<Rightarrow> bool" where
  "plain_bio b \<longleftrightarrow> bi_rw b \<inter> {REQ_FLUSH, REQ_FUA} = {} \<and> bi_next b = None \<and> bi_size b \<noteq> 0"

lemma queued_servable:
  assumes so: "elv_sorted_ok E q g u" and rd: "ready_queue (queues s q)" and dv: "drv_view (queues u q) = drv_view (queues s q)"
    and bag: "elv_bag q g u = mset [n..<n + length bs]" and hd: "linked u (QHead q) = []"
    and cargo: "\<forall>i < length bs. cargo (rqs u (n + i)) = new_cargo q l s (bs ! i)"
    and bios: "bios u = bios s" and rl: "rl_q (rls u l) = q"
    and bs: "distinct bs" "\<forall>b \<in> set bs. plain_bio (bios s b)"
  shows "servable E q g l (\<lambda>r. [bs ! (r - n)]) u"
  unfolding servable_def
proof (intro conjI ballI)
  have c: "cargo (rqs u r) = new_cargo q l u (bs ! (r - n))" and i: "n \<le> r" "r - n < length bs"
    if "r \<in># elv_bag q g u" for r
  proof -
    show i: "n \<le> r" "r - n < length bs" using that by (auto simp: bag)
    then show "cargo (rqs u r) = new_cargo q l u (bs ! (r - n))"
      using cargo [rule_format, of "r - n"] by (simp add: new_cargo_def bios)
  qed
  have "fetchable q (rqs u r)" if "r \<in># elv_bag q g u" for r
    using c [OF that] by (simp add: fetchable_def cargo_def new_cargo_def)
  moreover have "ready_queue (queues u q)"
    using rd drv_viewD [OF dv] by (simp add: ready_queue_def test_qflag_def)
  ultimately show "driver_ok E q g u" using so hd by (simp add: driver_ok_def)
  show "rl_q (rls u l) = q" by (rule rl)
  have "inj_on (\<lambda>r. bs ! (r - n)) (set_mset (elv_bag q g u))"
    using i bs(1) by (auto simp: inj_on_def nth_eq_iff_index_eq) (metis diff_add_inverse2 le_add_diff_inverse2)
  then show "disjoint_runs (\<lambda>r. [bs ! (r - n)]) (set_mset (elv_bag q g u))"
    by (auto simp: disjoint_runs_def inj_on_def)
  fix r assume r: "r \<in># elv_bag q g u"
  show "carries_bios q l r [bs ! (r - n)] u"
    by (rule new_cargo_carries [OF c [OF r]]) (use bs(2) i [OF r] in \<open>auto simp: bios plain_bio_def\<close>)
qed

text \<open>Running the queue of such a driver serves everything.\<close>

lemma run_queue_serves:
  assumes env: "end_env D" and ok: "servable D q g l f s"
    and q: "request_fn (queues s q) \<noteq> None" "\<not> blk_queue_stopped (queues s q)" "\<not> blk_queue_dead (queues s q)"
    and lk: "locks s (queue_lock (queues s q))"
  shows "\<exists>rs t. queue_unplugged (with_server D) q False s = Some t \<and> mset rs = elv_bag q g s \<and>
    elv_bag q g t = {#} \<and> bios_ended t = bios_ended s @ map (\<lambda>b. (b, bi_error (bios s b))) (concat (map f rs)) \<and>
    num_requests_seen t = num_requests_seen s + of_nat (length rs) \<and>
    rq_allocated t = rq_allocated s - set rs \<and> locks t = (locks s)(queue_lock (queues s q) := False) \<and>
    elv_sorted_ok D q g t \<and> linked t (QHead q) = [] \<and> aside (set rs) (set (concat (map f rs))) s t \<and>
    (last_ok q g s \<longrightarrow> last_ok q g t) \<and> (\<forall>x. count (rls t l) x = count (rls s l) x - int (in_lane s x rs))"
proof -
  define s1 where "s1 = upd_q q (request_fn_active_update (\<lambda>n. n + 1)) s"
  have s1: "elv_bag q g s1 = elv_bag q g s" "last_ok q g s1 = last_ok q g s" "aside {} {} s s1" "rqs s1 = rqs s"
    by (simp_all add: s1_def elv_bag_def greedy_pending_def last_ok_def aside_def touches_def)
  have "lists_ok s1 = lists_ok s" by (rule lists_ok_cong) (simp_all add: s1_def)
  moreover have "greedy_installed D q g s1 = greedy_installed D q g s"
    by (rule greedy_installed_cong) (simp_all add: s1_def)
  ultimately have "driver_ok D q g s1 = driver_ok D q g s"
    by (simp add: driver_ok_def elv_sorted_ok_def s1)
      (simp add: s1_def greedy_pending_def ready_queue_def test_qflag_def)
  then have "servable D q g l f s1"
    using ok carries_bios_cong [of s1 _ s] by (simp add: servable_def s1) (simp add: s1_def)
  from serve_all_run [OF env this] obtain rs t where
    t: "serve_all D q s1 = Some t" "mset rs = elv_bag q g s1" "elv_bag q g t = {#}"
      "bios_ended t = bios_ended s1 @ map (\<lambda>b. (b, bi_error (bios s1 b))) (concat (map f rs))"
      "num_requests_seen t = num_requests_seen s1 + of_nat (length rs)"
      "rq_allocated t = rq_allocated s1 - set rs" "elv_sorted_ok D q g t" "locks t = locks s1"
      "linked t (QHead q) = []" "aside (set rs) (set (concat (map f rs))) s1 t" "last_ok q g s1 \<longrightarrow> last_ok q g t"
      "\<forall>x. count (rls t l) x = count (rls s1 l) x - int (in_lane s1 x rs)" by blast
  obtain fn where fn: "request_fn (queues s q) = Some fn" using q(1) by blast
  define t1 where "t1 = upd_q q (request_fn_active_update (\<lambda>n. n - 1)) t"
  define t2 where "t2 = locks_update (\<lambda>m. m(queue_lock (queues s q) := False)) t1"
  have "raw_blk_run_queue (with_server D) q s = Some t1"
    using q(2,3) fn t(1)
    by (simp add: raw_blk_run_queue_def raw_blk_run_queue_uncond_def s1_def t1_def with_server_def)
  moreover have "queue_lock (queues t q) = queue_lock (queues s q)"
    using t(10) drv_viewD(1) [OF q_sideD(1), of "queues t q" "queues s q"] s1(3) by (simp add: aside_def)
  ultimately have run: "queue_unplugged (with_server D) q False s = Some t2"
    using lk t(8) by (simp add: queue_unplugged_def t1_def t2_def s1_def)
  have T: "elv_bag q g t2 = elv_bag q g t" "last_ok q g t2 = last_ok q g t" "aside {} {} t t2"
    "bios_ended t2 = bios_ended t" "num_requests_seen t2 = num_requests_seen t" "rq_allocated t2 = rq_allocated t"
    "linked t2 = linked t" "rls t2 = rls t"
    by (simp_all add: t2_def t1_def elv_bag_def greedy_pending_def last_ok_def aside_def touches_def bios_ended_def)
  have "lists_ok t2 = lists_ok t" by (rule lists_ok_cong) (simp_all add: t2_def t1_def)
  moreover have "greedy_installed D q g t2 = greedy_installed D q g t"
    by (rule greedy_installed_cong) (simp_all add: t2_def t1_def)
  ultimately have "elv_sorted_ok D q g t2"
    using t(7) by (simp add: elv_sorted_ok_def) (simp add: t2_def t1_def greedy_pending_def)
  moreover have "aside (set rs) (set (concat (map f rs))) s t2"
    using aside_trans [OF aside_trans [OF s1(3) t(10)] T(3)] by simp
  moreover have "in_lane s1 x rs = in_lane s x rs" for x by (rule in_lane_cong) (simp add: lane_def s1(4))
  moreover have "locks t2 = (locks s)(queue_lock (queues s q) := False)"
    by (simp add: t2_def t1_def t(8)) (simp add: s1_def)
  moreover have "bios_ended s1 = bios_ended s" "bios s1 = bios s" "num_requests_seen s1 = num_requests_seen s"
    "rq_allocated s1 = rq_allocated s" "rls s1 = rls s"
    by (simp_all add: s1_def bios_ended_def)
  ultimately show ?thesis
    using run t(2-6,9,11,12) T s1(1,2) by (intro exI [of _ rs] exI [of _ t2]) simp
qed


section \<open>An instance\<close>

text \<open>An idle queue with room for 128 requests, and two bios for it, one of which has failed before.\<close>

definition serve_idle :: kst where
  "serve_idle = greedy_two
     \<lparr>queues := (\<lambda>_. queue_zero\<lparr>elevator := Some 7, queue_flags := 256, nr_requests := 128,
        nr_congestion_on := 113, request_fn := Some 1,
        q_fq := Some \<lparr>flush_queue_delayed = False, flush_pending_idx = False, flush_running_idx = False\<rparr>\<rparr>),
      bios := (\<lambda>b. bio_zero\<lparr>bi_sector := of_nat b, bi_size := 512,
        bi_error := if b = 30 then Some ENOMEM else None\<rparr>)\<rparr>"

lemma serve_idle_plugging: "plugging (with_server greedy_env) 0 8 (RootRl 0) 0 (blk_start_plug 0 serve_idle)"
proof -
  let ?s = "blk_start_plug 0 serve_idle"
  have "lists_ok ?s"
    by (auto simp: lists_ok_def serve_idle_def greedy_two_def kst_zero_def rq_zero_def blk_start_plug_def)
  then have "elv_sorted_ok greedy_env 0 8 ?s"
    by (simp add: elv_sorted_ok_def greedy_installed_def elevator_greedy_env serve_idle_def
        queue_zero_def greedy_two_def eq_zero_def greedy_pending_def blk_start_plug_def kst_zero_def)
  then have "elv_sorted_ok (with_server greedy_env) 0 8 ?s" by (simp add: with_server_sorted)
  moreover from this have "greedy_no_icq (with_server greedy_env) 0 8 ?s"
    by (simp add: greedy_no_icq_def elv_sorted_ok_def)
      (simp add: serve_idle_def greedy_two_def et_zero_def blk_start_plug_def kst_zero_def)
  ultimately show ?thesis
    by (auto simp: plugging_def plain_queue_def test_qflag_def serve_idle_def queue_zero_def rl_zero_def
        greedy_two_def kst_zero_def rq_zero_def bit_numeral_rec blk_start_plug_def)
qed


end
