(* ===== verification/Blk_Gather.thy ===== *)
theory Blk_Gather
  imports Blk_Serve Blk_Merge
begin

text \<open>
  The way of a bio onto a plug when merging is on: a bio is appended to a plugged request, put in front of
  one, or becomes a request of its own; every request carries a chain of bios.
\<close>

section \<open>What an attempt to merge leaves alone\<close>

definition frame_of :: "kst \<Rightarrow> _" where
  "frame_of s = (linked s, locks s, cur_plug s, elvqs s, etypes s, gds s, plug_cbs s, alloc_fails s, rls s,
     heap_next s, rq_allocated s, told s)"

definition rq_face :: "qid \<Rightarrow> request \<Rightarrow> _" where
  "rq_face q x = (queuelist x, plugged q x, rw_is_sync (cmd_flags x))"

definition q_face :: "request_queue \<Rightarrow> _" where
  "q_face q = (drv_view q, elevator q, nr_sorted q, nr_congestion_on q, nr_requests q)"

definition bio_face :: "bio \<Rightarrow> _" where
  "bio_face b = (bi_error b, bi_rw b \<inter> {REQ_SYNC, REQ_FLUSH, REQ_FUA})"

definition outline :: "qid \<Rightarrow> kst \<Rightarrow> kst \<Rightarrow> bool" where
  "outline q s t \<longleftrightarrow> frame_of t = frame_of s \<and> (\<forall>x. rq_face q (rqs t x) = rq_face q (rqs s x)) \<and>
     (\<forall>b. bio_face (bios t b) = bio_face (bios s b)) \<and> (\<forall>x. q_face (queues t x) = q_face (queues s x)) \<and>
     (\<forall>x. last_merge (queues t x) = None \<or> last_merge (queues t x) = last_merge (queues s x))"

text \<open>The requests outside \<open>R\<close> and the bios outside \<open>B\<close> are loaded as before.\<close>

definition same_load :: "rid set \<Rightarrow> bid set \<Rightarrow> kst \<Rightarrow> kst \<Rightarrow> bool" where
  "same_load R B s t \<longleftrightarrow> (\<forall>x. x \<notin> R \<longrightarrow> cargo (rqs t x) = cargo (rqs s x)) \<and>
     (\<forall>b. b \<notin> B \<longrightarrow> bi_next (bios t b) = bi_next (bios s b) \<and> bi_size (bios t b) = bi_size (bios s b))"

lemma outline_refl [simp]: "outline q s s" and same_load_refl [simp]: "same_load R B s s"
  by (simp_all add: outline_def same_load_def)

lemma outline_trans: "outline q s t \<Longrightarrow> outline q t u \<Longrightarrow> outline q s u"
  unfolding outline_def by metis

lemma same_load_trans: "same_load R B s t \<Longrightarrow> same_load R B t u \<Longrightarrow> same_load R B s u"
  by (simp add: same_load_def)

lemma same_load_mono: "same_load R B s t \<Longrightarrow> R \<subseteq> R' \<Longrightarrow> B \<subseteq> B' \<Longrightarrow> same_load R' B' s t"
  by (auto simp: same_load_def)

text \<open>
  The functions of \<open>blk-merge.c\<close>: the two that are asked whether a bio fits may change numbers of
  segments and the marks for \<open>not to be merged\<close>, and refuse what is too long; the one for bios with
  other failfast flags changes only such flags.
\<close>

definition quiet_merges :: "kenv \<Rightarrow> qid \<Rightarrow> bool" where
  "quiet_merges E q \<longleftrightarrow>
     (\<forall>r b s ok t. ll_back_merge_fn E q r b s = (ok, t) \<or> ll_front_merge_fn E q r b s = (ok, t) \<longrightarrow>
        outline q s t \<and> same_load {} {} s t \<and>
        (ok \<longrightarrow> unat (data_len (rqs s r)) + unat (bi_size (bios s b)) < 2 ^ 32)) \<and>
     (\<forall>r s. outline q s (blk_rq_set_mixed_merge E r s) \<and> same_load {} {} s (blk_rq_set_mixed_merge E r s))"

lemma merge_mixed_quiet:
  assumes "quiet_merges E q"
  shows "outline q s (merge_mixed E r ff s)" "same_load {} {} s (merge_mixed E r ff s)"
  using assms by (simp_all add: merge_mixed_def quiet_merges_def)

section \<open>The chain of a request\<close>

definition holds_run :: "qid \<Rightarrow> rlid \<Rightarrow> rid \<Rightarrow> bid list \<Rightarrow> kst \<Rightarrow> bool" where
  "holds_run q l r xs s \<longleftrightarrow> carries_bios q l r xs s \<and> biotail (rqs s r) = Some (last xs)"

lemma holds_run_cong:
  assumes "same_load R B s t" and "r \<notin> R" and "set xs \<inter> B = {}"
  shows "holds_run q l r xs t = holds_run q l r xs s"
proof -
  have b: "bi_next (bios t b) = bi_next (bios s b)" "bi_size (bios t b) = bi_size (bios s b)" if "b \<in> set xs" for b
    using assms that by (auto simp: same_load_def)
  have "bio_chain t c xs = bio_chain s c xs" for c by (rule bio_chain_cong) (simp add: b)
  moreover have "bios_bytes t xs = bios_bytes s xs" by (rule bios_bytes_cong) (simp add: b)
  moreover have c: "cargo (rqs t r) = cargo (rqs s r)" using assms by (simp add: same_load_def)
  moreover have "rq_bio (rqs t r) = rq_bio (rqs s r)" "data_len (rqs t r) = data_len (rqs s r)"
    "biotail (rqs t r) = biotail (rqs s r)" "rw_is_sync (cmd_flags (rqs t r)) = rw_is_sync (cmd_flags (rqs s r))"
    using cargoD(1,8) [OF c] by (simp_all add: carried_def)
  moreover have "(\<forall>x \<in> set xs. bi_size (bios t x) \<noteq> 0) = (\<forall>x \<in> set xs. bi_size (bios s x) \<noteq> 0)" using b(2) by simp
  ultimately show ?thesis by (simp only: holds_run_def carries_bios_def carrier_def rq_bytes_ok_def)
qed

lemma carrier_cargo: "carrier q l x \<longleftrightarrow> rq_q x = Some q \<and> rq_rl x = Some l \<and> next_rq x = None \<and> end_io x = None \<and>
    \<not> atom_complete x \<and> cmd_flags x \<inter> own_flags = {REQ_ALLOCED}"
  by (simp add: carrier_def cargo_def)

lemma carrier_no_stat:
  assumes "carrier q l (rqs s r)"
  shows "blk_account_io_start E r new s = Some s"
proof -
  have "cmd_flags (rqs s r) \<inter> own_flags = {REQ_ALLOCED}" using assms by (simp add: carrier_cargo)
  then have "REQ_IO_STAT \<notin> cmd_flags (rqs s r)" by auto
  then show ?thesis by (simp add: blk_account_io_start_def blk_do_io_stat_def)
qed

lemma linked_outline:
  "outline q s (back_linked E r c b s)" "outline q s (front_linked E r b s)"
  "same_load {r} {c} s (back_linked E r c b s)" "same_load {r} {b} s (front_linked E r b s)"
  by (simp_all add: outline_def same_load_def back_linked_def front_linked_def frame_of_def rq_face_def bio_face_def
      plugged_def)

lemma linked_fields [simp]:
  "rq_bio (rqs (back_linked E r c b s) r) = rq_bio (rqs s r)" "biotail (rqs (back_linked E r c b s) r) = Some b"
  "data_len (rqs (back_linked E r c b s) r) = data_len (rqs s r) + bi_size (bios s b)"
  "carrier q l (rqs (back_linked E r c b s) r) = carrier q l (rqs s r)"
  "bios (back_linked E r c b s) = (bios s)(c := (bios s c)\<lparr>bi_next := Some b\<rparr>)"
  "rq_bio (rqs (front_linked E r b s) r) = Some b" "biotail (rqs (front_linked E r b s) r) = biotail (rqs s r)"
  "data_len (rqs (front_linked E r b s) r) = data_len (rqs s r) + bi_size (bios s b)"
  "carrier q l (rqs (front_linked E r b s) r) = carrier q l (rqs s r)"
  "bios (front_linked E r b s) = (bios s)(b := (bios s b)\<lparr>bi_next := rq_bio (rqs s r)\<rparr>)"
  by (simp_all add: back_linked_def front_linked_def carrier_cargo)

text \<open>The chain after a bio has been added at its end, or in front of it.\<close>

lemma holds_runI:
  assumes "carrier q l (rqs t r)" and "bio_chain t (rq_bio (rqs t r)) ys" and "distinct ys" and "ys \<noteq> []"
    and "\<And>x. x \<in> set ys \<Longrightarrow> bi_size (bios t x) \<noteq> 0" and "unat (data_len (rqs t r)) = bios_bytes t ys"
    and "biotail (rqs t r) = Some (last ys)"
  shows "holds_run q l r ys t"
  using assms by (simp add: holds_run_def carries_bios_def rq_bytes_ok_def)

lemma holds_runD:
  assumes "holds_run q l r xs s"
  shows "carrier q l (rqs s r)" "bio_chain s (rq_bio (rqs s r)) xs" "distinct xs" "xs \<noteq> []"
    "\<And>x. x \<in> set xs \<Longrightarrow> bi_size (bios s x) \<noteq> 0" "unat (data_len (rqs s r)) = bios_bytes s xs"
    "biotail (rqs s r) = Some (last xs)"
  using assms by (auto simp: holds_run_def carries_bios_def rq_bytes_ok_def)

lemma bytes_after:
  assumes "unat (data_len (rqs s r)) = bios_bytes s xs" and "unat (data_len (rqs s r)) + unat (bi_size (bios s b)) < 2 ^ 32"
  shows "unat (data_len (rqs s r) + bi_size (bios s b)) = bios_bytes s xs + unat (bi_size (bios s b))"
  using assms by (simp add: unat_word_ariths)

lemma back_linked_holds:
  assumes run: "holds_run q l r xs s" and b: "b \<notin> set xs" "bi_next (bios s b) = None" "bi_size (bios s b) \<noteq> 0"
    and fits: "unat (data_len (rqs s r)) + unat (bi_size (bios s b)) < 2 ^ 32"
  shows "holds_run q l r (xs @ [b]) (back_linked E r (last xs) b s)"
proof (rule holds_runI)
  let ?t = "back_linked E r (last xs) b s"
  note R = holds_runD [OF run]
  have ne: "b \<noteq> last xs" using b(1) R(4) by (metis last_in_set)
  show "bio_chain ?t (rq_bio (rqs ?t r)) (xs @ [b])"
    unfolding linked_fields by (rule bio_chain_append [OF R(2,4,3)]) (use b(2) ne in simp_all)
  have "bios_bytes ?t ys = bios_bytes s ys" for ys by (rule bios_bytes_cong) simp
  then show "unat (data_len (rqs ?t r)) = bios_bytes ?t (xs @ [b])"
    using bytes_after [OF R(6) fits] by (simp only: linked_fields) (simp add: bios_bytes_def)
qed (use holds_runD [OF run] b in auto)

lemma front_linked_holds:
  assumes run: "holds_run q l r xs s" and b: "b \<notin> set xs" "bi_size (bios s b) \<noteq> 0"
    and fits: "unat (data_len (rqs s r)) + unat (bi_size (bios s b)) < 2 ^ 32"
  shows "holds_run q l r (b # xs) (front_linked E r b s)"
proof (rule holds_runI)
  let ?t = "front_linked E r b s"
  note R = holds_runD [OF run]
  have "bio_chain ?t c xs = bio_chain s c xs" for c
    by (rule bio_chain_cong) (use b(1) in auto)
  then show "bio_chain ?t (rq_bio (rqs ?t r)) (b # xs)" using R(2) by simp
  have "bios_bytes ?t ys = bios_bytes s ys" for ys by (rule bios_bytes_cong) simp
  then show "unat (data_len (rqs ?t r)) = bios_bytes ?t (b # xs)"
    using bytes_after [OF R(6) fits] by (simp only: linked_fields) (simp add: bios_bytes_def)
qed (use holds_runD [OF run] b in auto)

text \<open>A new request has the chain of its bio.\<close>

lemma new_cargo_holds:
  assumes "cargo (rqs s r) = new_cargo q l s b" and "bi_next (bios s b) = None" and "bi_size (bios s b) \<noteq> 0"
  shows "holds_run q l r [b] s"
proof -
  have "biotail (rqs s r) = Some b" using assms(1) by (simp add: cargo_def new_cargo_def carried_def)
  then show ?thesis using new_cargo_carries [OF assms] by (simp add: holds_run_def)
qed

section \<open>One attempt\<close>

text \<open>A bio that stands alone, as far as chains are concerned.\<close>

definition loose :: "kst \<Rightarrow> bid \<Rightarrow> bool" where
  "loose s b \<longleftrightarrow> bi_next (bios s b) = None \<and> bi_size (bios s b) \<noteq> 0"

lemma loose_same: "same_load R B s t \<Longrightarrow> b \<notin> B \<Longrightarrow> loose t b = loose s b"
  by (simp add: loose_def same_load_def)

text \<open>
  What an attempt to merge \<open>b\<close> into the request \<open>r\<close> with the chain \<open>xs\<close> has done: nothing, or it has made
  \<open>b\<close> the first or the last bio of the chain.
\<close>

definition attempted :: "qid \<Rightarrow> rlid \<Rightarrow> rid \<Rightarrow> bid list \<Rightarrow> bid \<Rightarrow> bool \<Rightarrow> kst \<Rightarrow> kst \<Rightarrow> bool" where
  "attempted q l r xs b ok s t \<longleftrightarrow> outline q s t \<and>
     (if ok then same_load {r} (insert b (set xs)) s t \<and> (\<exists>ys. holds_run q l r ys t \<and> (ys = xs @ [b] \<or> ys = b # xs))
      else same_load {} {} s t)"

lemma attempted_nothing [simp]: "attempted q l r xs b False s s"
  by (simp add: attempted_def)

lemma quiet_attempt:
  assumes q: "quiet_merges E q" and run: "holds_run q l r xs s" and b: "b \<notin> set xs" "loose s b"
    and ll: "ll_back_merge_fn E q r b s = (True, s1) \<or> ll_front_merge_fn E q r b s = (True, s1)"
  and s2_def: "s2 = merge_mixed E r ff s1"
  shows "outline q s s2" "same_load {} {} s s2" "holds_run q l r xs s2" "loose s2 b"
    "unat (data_len (rqs s2 r)) + unat (bi_size (bios s2 b)) < 2 ^ 32" "bi_next (bios s2 b) = None"
    "bi_size (bios s2 b) \<noteq> 0"
proof -
  have 1: "outline q s s1" "same_load {} {} s s1" "unat (data_len (rqs s r)) + unat (bi_size (bios s b)) < 2 ^ 32"
    using q ll unfolding quiet_merges_def by blast+
  then show s2: "outline q s s2" "same_load {} {} s s2"
    using merge_mixed_quiet [OF q] unfolding s2_def by (blast intro: outline_trans same_load_trans)+
  then show "holds_run q l r xs s2" "loose s2 b"
    using run holds_run_cong [OF s2(2)] loose_same [OF s2(2)] b(2) by simp_all
  then show "bi_next (bios s2 b) = None" "bi_size (bios s2 b) \<noteq> 0" by (simp_all add: loose_def)
  have "cargo (rqs s2 r) = cargo (rqs s r)" "bi_size (bios s2 b) = bi_size (bios s b)"
    using s2(2) by (simp_all add: same_load_def)
  then show "unat (data_len (rqs s2 r)) + unat (bi_size (bios s2 b)) < 2 ^ 32"
    using 1(3) by (simp add: cargo_def carried_def)
qed

lemma back_attempted:
  assumes q: "quiet_merges E q" and run: "holds_run q l r xs s" and b: "b \<notin> set xs" "loose s b"
  shows "\<exists>ok t. bio_attempt_back_merge E q r b s = Some (ok, t) \<and> attempted q l r xs b ok s t"
proof -
  obtain ok s1 where ll: "ll_back_merge_fn E q r b s = (ok, s1)" by (cases "ll_back_merge_fn E q r b s")
  show ?thesis
  proof (cases ok)
    case False
    then have "outline q s s1" "same_load {} {} s s1" using q ll unfolding quiet_merges_def by blast+
    with ll False show ?thesis
      by (intro exI [of _ False] exI [of _ s1]) (simp add: bio_attempt_back_merge_def attempted_def)
  next
    case True
    define s2 where "s2 = merge_mixed E r (bi_rw (bios s b) \<inter> REQ_FAILFAST_MASK E) s1"
    note Q = quiet_attempt [OF q run b _ s2_def]
    have l1: "ll_back_merge_fn E q r b s = (True, s1) \<or> ll_front_merge_fn E q r b s = (True, s1)" using ll True by simp
    define t where "t = back_linked E r (last xs) b s2"
    have t: "holds_run q l r (xs @ [b]) t"
      unfolding t_def by (rule back_linked_holds [OF Q(3) [OF l1] b(1) Q(6,7,5) [OF l1]])
    have ne: "last xs \<noteq> b" "last xs \<in> set xs" using holds_runD(4) [OF run] b(1) by (metis last_in_set)+
    have "bio_attempt_back_merge E q r b s = blk_account_io_start E r False t \<bind> (\<lambda>s. Some (True, s))"
      using ll True holds_runD(7) [OF Q(3) [OF l1]] ne(1)
      by (simp add: bio_attempt_back_merge_def Let_def s2_def [symmetric] t_def back_linked_def comp_def)
    then have run: "bio_attempt_back_merge E q r b s = Some (True, t)"
      using carrier_no_stat [OF holds_runD(1) [OF t]] by simp
    have "same_load {r} (insert b (set xs)) s t"
      unfolding t_def using Q(2) [OF l1] linked_outline(3) [of r "last xs" s2 E b] ne(2)
      by (blast intro: same_load_trans same_load_mono)
    moreover have "outline q s t"
      unfolding t_def using Q(1) [OF l1] linked_outline(1) by (rule outline_trans)
    ultimately show ?thesis using run t by (auto simp: attempted_def)
  qed
qed

lemma front_attempted:
  assumes q: "quiet_merges E q" and run: "holds_run q l r xs s" and b: "b \<notin> set xs" "loose s b"
  shows "\<exists>ok t. bio_attempt_front_merge E q r b s = Some (ok, t) \<and> attempted q l r xs b ok s t"
proof -
  obtain ok s1 where ll: "ll_front_merge_fn E q r b s = (ok, s1)" by (cases "ll_front_merge_fn E q r b s")
  show ?thesis
  proof (cases ok)
    case False
    then have "outline q s s1" "same_load {} {} s s1" using q ll unfolding quiet_merges_def by blast+
    with ll False show ?thesis
      by (intro exI [of _ False] exI [of _ s1]) (simp add: bio_attempt_front_merge_def attempted_def)
  next
    case True
    define s2 where "s2 = merge_mixed E r (bi_rw (bios s b) \<inter> REQ_FAILFAST_MASK E) s1"
    note Q = quiet_attempt [OF q run b _ s2_def]
    have l1: "ll_back_merge_fn E q r b s = (True, s1) \<or> ll_front_merge_fn E q r b s = (True, s1)" using ll True by simp
    define t where "t = front_linked E r b s2"
    have t: "holds_run q l r (b # xs) t"
      unfolding t_def by (rule front_linked_holds [OF Q(3) [OF l1] b(1) Q(7,5) [OF l1]])
    have "bio_attempt_front_merge E q r b s = blk_account_io_start E r False t \<bind> (\<lambda>s. Some (True, s))"
      using ll True
      by (simp add: bio_attempt_front_merge_def Let_def s2_def [symmetric] t_def front_linked_def comp_def)
    then have run: "bio_attempt_front_merge E q r b s = Some (True, t)"
      using carrier_no_stat [OF holds_runD(1) [OF t]] by simp
    have "same_load {r} (insert b (set xs)) s t"
      unfolding t_def using Q(2) [OF l1] linked_outline(4) [of r b s2 E]
      by (blast intro: same_load_trans same_load_mono)
    moreover have "outline q s t"
      unfolding t_def using Q(1) [OF l1] linked_outline(2) by (rule outline_trans)
    ultimately show ?thesis using run t by (auto simp: attempted_def)
  qed
qed

section \<open>The plugged requests\<close>

text \<open>
  The requests \<open>rs\<close> carry exactly the bios \<open>ms\<close>, each in one place; \<open>f\<close> says which.
\<close>

definition chains :: "qid \<Rightarrow> rlid \<Rightarrow> rid list \<Rightarrow> (rid \<Rightarrow> bid list) \<Rightarrow> bid list \<Rightarrow> kst \<Rightarrow> bool" where
  "chains q l rs f ms s \<longleftrightarrow> (\<forall>r \<in> set rs. holds_run q l r (f r) s) \<and> mset (concat (map f rs)) = mset ms"

lemma chains_frame:
  assumes "chains q l rs f ms s" and "same_load {} {} s t"
  shows "chains q l rs f ms t"
  using assms holds_run_cong [OF assms(2)] by (simp add: chains_def)

lemma chains_length:
  assumes "chains q l rs f ms s"
  shows "length rs \<le> length ms"
proof -
  have "length rs \<le> length (concat (map f rs))" if "\<forall>r \<in> set rs. f r \<noteq> []" for rs
    using that
  proof (induction rs)
    case (Cons x rs)
    then show ?case by (cases "f x") auto
  qed simp
  moreover have "\<forall>r \<in> set rs. f r \<noteq> []" using assms holds_runD(4) by (auto simp: chains_def)
  ultimately show ?thesis using assms mset_eq_length by (fastforce simp: chains_def)
qed

text \<open>Different requests carry different bios.\<close>

lemma chains_apart:
  assumes "chains q l rs f ms s" and "distinct ms" and "distinct rs"
  shows "disjoint_runs f (set rs)" and "\<And>r. r \<in> set rs \<Longrightarrow> set (f r) \<subseteq> set ms"
proof -
  have m: "mset (concat (map f rs)) = mset ms" using assms(1) by (simp add: chains_def)
  then have d: "distinct (concat (map f rs))" using assms(2) by (metis mset_eq_imp_distinct_iff)
  have "disjoint_runs f (set rs)" if "distinct (concat (map f rs))" "distinct rs" for rs
    using that by (induction rs) (auto simp: disjoint_runs_def)
  then show "disjoint_runs f (set rs)" using d assms(3) by blast
  show "set (f r) \<subseteq> set ms" if "r \<in> set rs" for r
    using that mset_eq_setD [OF m] by auto
qed

lemma concat_upd:
  assumes "distinct rs" and "r \<in> set rs"
  shows "mset (concat (map (f(r := ys)) rs)) + mset (f r) = mset (concat (map f rs)) + mset ys"
  using assms
proof (induction rs)
  case (Cons x rs)
  show ?case
  proof (cases "x = r")
    case True
    then have same: "map (f(r := ys)) rs = map f rs" using Cons.prems by auto
    show ?thesis unfolding list.map concat.simps mset_append same using True by (simp add: ac_simps)
  next
    case False
    then show ?thesis using Cons by (simp add: ac_simps)
  qed
qed simp

lemma chains_upd:
  assumes ch: "chains q l rs f ms s" and d: "distinct ms" "distinct rs" and r: "r \<in> set rs" and b: "b \<notin> set ms"
    and t: "attempted q l r (f r) b True s t"
  shows "\<exists>f'. chains q l rs f' (b # ms) t"
proof -
  obtain ys where ys: "holds_run q l r ys t" "ys = f r @ [b] \<or> ys = b # f r"
    and sl: "same_load {r} (insert b (set (f r))) s t"
    using t by (auto simp: attempted_def)
  have "holds_run q l x (f x) t" if "x \<in> set rs" "x \<noteq> r" for x
  proof -
    have "set (f x) \<inter> set (f r) = {}" "b \<notin> set (f x)"
      using chains_apart [OF ch d] that r b by (auto simp: disjoint_runs_def)
    then show ?thesis using holds_run_cong [OF sl, of x "f x"] that ch by (auto simp: chains_def)
  qed
  moreover have "mset ys = add_mset b (mset (f r))" using ys(2) by auto
  then have "mset (concat (map (f(r := ys)) rs)) = add_mset b (mset ms)"
    using concat_upd [OF d(2) r, of f ys] ch by (simp add: chains_def)
  ultimately have "chains q l rs (f(r := ys)) (b # ms) t"
    using ys(1) by (simp add: chains_def)
  then show ?thesis by blast
qed

lemma outlineD:
  assumes "outline q s t"
  shows "linked t = linked s" "locks t = locks s" "cur_plug t = cur_plug s" "elvqs t = elvqs s" "etypes t = etypes s"
    "gds t = gds s" "plug_cbs t = plug_cbs s" "alloc_fails t = alloc_fails s" "rls t = rls s"
    "heap_next t = heap_next s" "rq_allocated t = rq_allocated s" "told t = told s"
    "queuelist (rqs t x) = queuelist (rqs s x)" "plugged q (rqs t x) = plugged q (rqs s x)"
    "drv_view (queues t z) = drv_view (queues s z)" "elevator (queues t z) = elevator (queues s z)"
    "nr_sorted (queues t z) = nr_sorted (queues s z)" "nr_congestion_on (queues t z) = nr_congestion_on (queues s z)"
    "nr_requests (queues t z) = nr_requests (queues s z)" "bi_error (bios t b) = bi_error (bios s b)"
    "bi_rw (bios t b) \<inter> {REQ_SYNC, REQ_FLUSH, REQ_FUA} = bi_rw (bios s b) \<inter> {REQ_SYNC, REQ_FLUSH, REQ_FUA}"
    "last_merge (queues s z) = None \<Longrightarrow> last_merge (queues t z) = None"
    "lane t x = lane s x" "q_side (queues t z) = q_side (queues s z)"
  using assms by (simp_all add: outline_def frame_of_def rq_face_def q_face_def bio_face_def lane_def q_side_def, metis)

lemma outline_plugging:
  assumes o: "outline q s t" and pl: "plugging E q g l p s"
  shows "plugging E q g l p t" and "room n l q t = room n l q s" and "elv_bag q g t = elv_bag q g s"
proof -
  note O = outlineD [OF o]
  show "room n l q t = room n l q s" by (simp add: room_def queue_congestion_on_threshold_def O)
  show "elv_bag q g t = elv_bag q g s" by (simp add: elv_bag_def greedy_pending_def O)
  have gi: "greedy_installed E q g t = greedy_installed E q g s" by (rule greedy_installed_cong) (simp_all add: O)
  have li: "lists_ok t = lists_ok s" by (rule lists_ok_cong) (simp_all add: O)
  have "queue_flags (queues t q) = queue_flags (queues s q)" "queue_lock (queues t q) = queue_lock (queues s q)"
    using drv_viewD [OF O(15)] by simp_all
  then show "plugging E q g l p t"
    using pl O(22)
    by (auto simp: plugging_def elv_sorted_ok_def greedy_pending_def greedy_no_icq_def gi li O(1-19)
        plain_queue_def test_qflag_def)
qed

text \<open>
  The walk over plugged requests: it returns; either the bio has become part of one of the requests,
  or it is as it was, and all requests have been counted.
\<close>

lemma walk_gathers:
  assumes q: "quiet_merges E q" and L: "distinct L" and d: "distinct ms" "b \<notin> set ms"
  shows "chains q l L f ms s \<Longrightarrow> set rs \<subseteq> set L \<Longrightarrow> loose s b \<Longrightarrow>
    \<exists>ok m same' t. plug_merge_walk E q b rs n same s = Some (ok, m, same', t) \<and> outline q s t \<and>
      same_load UNIV (insert b (set ms)) s t \<and>
      (if ok then \<exists>f'. chains q l L f' (b # ms) t else same_load {} {} s t \<and> m = n + of_nat (length rs))"
proof (induction rs arbitrary: n same s)
  case (Cons r rs)
  have r: "r \<in> set L" and run: "holds_run q l r (f r) s" using Cons.prems by (simp_all add: chains_def)
  have bf: "b \<notin> set (f r)" "set (f r) \<subseteq> set ms"
    using chains_apart(2) [OF Cons.prems(1) d(1) L r] d(2) by auto
  have rq: "rq_q (rqs s r) = Some q" using holds_runD(1) [OF run] by (simp add: carrier_cargo)
  define att where "att = (case blk_try_merge E r b s of
      ELEVATOR_BACK_MERGE \<Rightarrow> bio_attempt_back_merge E q r b s
    | ELEVATOR_FRONT_MERGE \<Rightarrow> bio_attempt_front_merge E q r b s
    | ELEVATOR_NO_MERGE \<Rightarrow> Some (False, s))"
  have "\<exists>ok t. att = Some (ok, t) \<and> attempted q l r (f r) b ok s t"
    unfolding att_def using back_attempted [OF q run bf(1) Cons.prems(3)] front_attempted [OF q run bf(1) Cons.prems(3)]
    by (cases "blk_try_merge E r b s") auto
  then obtain ok t where t: "att = Some (ok, t)" "attempted q l r (f r) b ok s t" by blast
  have skip: "\<exists>ok m same' u. plug_merge_walk E q b rs (n + 1) (Some r) v = Some (ok, m, same', u) \<and> outline q s u \<and>
      same_load UNIV (insert b (set ms)) s u \<and> (if ok then \<exists>f'. chains q l L f' (b # ms) u
        else same_load {} {} s u \<and> m = n + of_nat (length (r # rs)))"
    if v: "outline q s v" "same_load {} {} s v" for v
  proof -
    have "chains q l L f ms v" "loose v b"
      using chains_frame [OF Cons.prems(1) v(2)] loose_same [OF v(2)] Cons.prems(3) by simp_all
    from Cons.IH [OF this(1) _ this(2), of "n + 1" "Some r"] Cons.prems(2) obtain ok m same' u where
      u: "plug_merge_walk E q b rs (n + 1) (Some r) v = Some (ok, m, same', u)" "outline q v u"
      "same_load UNIV (insert b (set ms)) v u"
      "if ok then \<exists>f'. chains q l L f' (b # ms) u else same_load {} {} v u \<and> m = n + 1 + of_nat (length rs)"
      by auto
    have "same_load UNIV (insert b (set ms)) s v" using v(2) by (rule same_load_mono) simp_all
    with u v show ?thesis
      by (intro exI [of _ ok] exI [of _ m] exI [of _ same'] exI [of _ u])
        (auto simp: ac_simps intro: outline_trans same_load_trans split: if_splits)
  qed
  show ?case
  proof (cases "blk_rq_merge_ok E r b s \<and> ok")
    case True
    have walk: "plug_merge_walk E q b (r # rs) n same s = Some (True, n + 1, Some r, t)"
      using True rq t(1) by (simp add: att_def)
    obtain f' where "chains q l L f' (b # ms) t"
      using chains_upd [OF Cons.prems(1) d(1) L r d(2)] t(2) True by auto
    moreover have "outline q s t" "same_load {r} (insert b (set (f r))) s t"
      using t(2) True by (simp_all add: attempted_def)
    moreover from this(2) bf(2) have "same_load UNIV (insert b (set ms)) s t" by (auto intro: same_load_mono)
    ultimately show ?thesis using walk by auto
  next
    case False
    define v where "v = (if blk_rq_merge_ok E r b s then t else s)"
    have "plug_merge_walk E q b (r # rs) n same s = plug_merge_walk E q b rs (n + 1) (Some r) v"
      using False rq t(1) by (auto simp: v_def att_def)
    moreover have "outline q s v" "same_load {} {} s v"
      using t(2) False by (auto simp: v_def attempted_def)
    ultimately show ?thesis using skip by simp
  qed
qed (auto intro!: exI [of _ False])

end
