(* ===== verification/Blk_Waves.thy ===== *)
theory Blk_Waves
  imports Blk_Gather
begin

text \<open>
  The whole way of any number of bios with merging on. When sixteen requests are on the plug, it is
  flushed before the next request is added, so the requests are served in waves while the task goes
  on submitting.
\<close>

section \<open>The state between two bios\<close>

text \<open>
  There is room for \<open>n\<close> requests more than the counters \<open>c\<close> of a list show, and the counters are \<open>c\<close>
  and the plugged requests.
\<close>

definition room_from :: "nat \<Rightarrow> (bool \<Rightarrow> int) \<Rightarrow> request_queue \<Rightarrow> bool" where
  "room_from n c rq \<longleftrightarrow> (\<forall>i < n. \<forall>sync. c sync + int i + 1 < queue_congestion_on_threshold rq \<and>
     of_c_int (c sync + int i) < 3 * nr_requests rq div 2)"

definition counted :: "rlid \<Rightarrow> (bool \<Rightarrow> int) \<Rightarrow> plugid \<Rightarrow> kst \<Rightarrow> bool" where
  "counted l c p s \<longleftrightarrow> (\<forall>x. count (rls s l) x = c x + int (in_lane s x (linked s (PlugList p))))"

lemma counted_room:
  assumes "counted l c p s" and "room_from 17 c (queues s q)" and "length (linked s (PlugList p)) \<le> 16"
  shows "room (Suc 0) l q s"
proof -
  have "in_lane s x (linked s (PlugList p)) < 17" for x
  proof -
    have "in_lane s x (linked s (PlugList p)) \<le> length (linked s (PlugList p))" by (simp add: in_lane_def)
    then show ?thesis using assms(3) by simp
  qed
  then show ?thesis using assms(1,2) by (simp add: room_def room_from_def counted_def)
qed

lemma room_from_cong: "q_side a = q_side b \<Longrightarrow> room_from n c a = room_from n c b"
  using q_sideD [of a b] by (simp add: room_from_def queue_congestion_on_threshold_def)

definition gathered :: "kenv \<Rightarrow> qid \<Rightarrow> gdid \<Rightarrow> rlid \<Rightarrow> plugid \<Rightarrow> rid set \<Rightarrow> (bool \<Rightarrow> int) \<Rightarrow>
    (rid \<Rightarrow> bid list) \<Rightarrow> bid list \<Rightarrow> kst \<Rightarrow> bool" where
  "gathered E q g l p A c f ms s \<longleftrightarrow> plugging E q g l p s \<and> chains q l (linked s (PlugList p)) f ms s \<and> distinct ms \<and>
     \<not> blk_queue_nomerges (queues s q) \<and> at_rest q g s \<and> counted l c p s \<and> room_from 17 c (queues s q) \<and>
     length (linked s (PlugList p)) \<le> 16 \<and>
     rq_allocated s = A \<union> set (linked s (PlugList p)) \<and> A \<inter> set (linked s (PlugList p)) = {} \<and>
     (\<forall>r \<ge> heap_next s. r \<notin> A)"

section \<open>Progress\<close>

text \<open>
  Between \<open>s\<close> and \<open>t\<close> the bios \<open>cs\<close> have been ended and \<open>n\<close> requests have been counted by the tracker;
  other bios have the errors they had, and those outside \<open>M\<close> stand alone as before.
\<close>

definition progress :: "qid \<Rightarrow> bid set \<Rightarrow> bid list \<Rightarrow> nat \<Rightarrow> kst \<Rightarrow> kst \<Rightarrow> bool" where
  "progress q M cs n s t \<longleftrightarrow> bios_ended t = bios_ended s @ map (\<lambda>b. (b, bi_error (bios s b))) cs \<and>
     num_requests_seen t = num_requests_seen s + of_nat n \<and> n \<le> length cs \<and>
     q_side (queues t q) = q_side (queues s q) \<and>
     (\<forall>b. b \<notin> set cs \<longrightarrow> bi_error (bios t b) = bi_error (bios s b)) \<and>
     (\<forall>b. b \<notin> M \<longrightarrow> plain_bio (bios t b) = plain_bio (bios s b))"

lemma progress_trans:
  assumes "progress q M cs n s t" and "progress q M' cs' n' t u" and "set cs \<inter> set cs' = {}"
  shows "progress q (M \<union> M') (cs @ cs') (n + n') s u"
proof -
  have "bi_error (bios t b) = bi_error (bios s b)" if "b \<in> set cs'" for b
    using assms(1,3) that by (auto simp: progress_def)
  then have "map (\<lambda>b. (b, bi_error (bios t b))) cs' = map (\<lambda>b. (b, bi_error (bios s b))) cs'" by simp
  then show ?thesis using assms(1,2) by (simp add: progress_def)
qed

lemma progress_mono: "progress q M cs n s t \<Longrightarrow> M \<subseteq> M' \<Longrightarrow> progress q M' cs n s t"
  by (auto simp: progress_def)

text \<open>Nothing has been told.\<close>

lemma progress_silent:
  assumes "told t = told s" and "q_side (queues t q) = q_side (queues s q)"
    and "\<And>b. bi_error (bios t b) = bi_error (bios s b)" and "\<And>b. b \<notin> M \<Longrightarrow> plain_bio (bios t b) = plain_bio (bios s b)"
  shows "progress q M [] 0 s t"
  using assms by (simp add: progress_def told_def tracked_def)

lemma outline_progress:
  assumes o: "outline q s t" and sl: "same_load UNIV M s t"
  shows "progress q M [] 0 s t"
proof (rule progress_silent)
  note O = outlineD [OF o]
  show "told t = told s" "q_side (queues t q) = q_side (queues s q)" "bi_error (bios t b) = bi_error (bios s b)" for b
    by (rule O)+
  have "bi_rw (bios t b) \<inter> {REQ_FLUSH, REQ_FUA} = bi_rw (bios s b) \<inter> {REQ_FLUSH, REQ_FUA}" for b
    using O(21) [of b] by auto
  then show "plain_bio (bios t b) = plain_bio (bios s b)" if "b \<notin> M" for b
    using sl that by (simp add: plain_bio_def same_load_def)
qed

lemma gathered_frame:
  assumes g: "gathered E q g l p A c f ms s" and o: "outline q s t" and ch: "chains q l (linked s (PlugList p)) f' ms' t"
    and d: "distinct ms'"
  shows "gathered E q g l p A c f' ms' t"
proof -
  note O = outlineD [OF o]
  have pl: "plugging E q g l p s" using g by (simp add: gathered_def)
  have "blk_queue_nomerges (queues t q) = blk_queue_nomerges (queues s q)"
    using drv_viewD [OF O(15)] by (simp add: test_qflag_def)
  moreover have "at_rest q g t = at_rest q g s"
    using O(15) outline_plugging(3) [OF o pl] by (intro at_rest_cong)
  moreover have "in_lane t x rs = in_lane s x rs" for x rs using O(23) by (intro in_lane_cong)
  then have "counted l c p t = counted l c p s" by (simp add: counted_def O)
  moreover note room_from_cong [OF O(24) [of q]]
  ultimately show ?thesis
    using g ch d outline_plugging(1) [OF o] by (simp add: gathered_def O)
qed

text \<open>A new request with its bio joins those of the plug.\<close>

lemma gathered_new:
  assumes g: "gathered E q g l p A c f ms s" and b: "b \<notin> set ms" "loose s b" and few: "length (linked s (PlugList p)) < 16"
    and t: "plugging E q g l p t" "linked t (PlugList p) = linked s (PlugList p) @ [heap_next s]"
      "q_side (queues t q) = q_side (queues s q)" "outside t = grown 1 s" "heap_next t = Suc (heap_next s)"
      "cargo (rqs t (heap_next s)) = new_cargo q l s b" "\<And>x. x \<noteq> heap_next s \<Longrightarrow> rqs t x = rqs s x"
      "elv_bag q g t = elv_bag q g s"
      "\<And>x. count (rls t l) x = count (rls s l) x + (if x = rw_is_sync (bi_rw (bios s b)) then 1 else 0)"
  shows "gathered E q g l p A c (f(heap_next s := [b])) (b # ms) t"
proof -
  let ?r = "heap_next s" and ?L = "linked s (PlugList p)"
  have bt: "bios t = bios s" "rq_allocated t = insert ?r (rq_allocated s)"
    using t(4) by (simp_all add: outside_def grown_def)
  have pl: "lists_ok s" "\<forall>r \<ge> ?r. queuelist (rqs s r) = None"
    using g by (simp_all add: gathered_def plugging_def elv_sorted_ok_def)
  then have fresh: "?r \<notin> set ?L" using lists_okD(2) by fastforce
  have "same_load {?r} {} s t" using t(7) bt(1) by (simp add: same_load_def)
  then have old: "holds_run q l r (f r) t" if "r \<in> set ?L" for r
    using that fresh g holds_run_cong [of "{?r}" "{}" s t r] by (auto simp: gathered_def chains_def)
  have new: "holds_run q l ?r [b] t"
    by (rule new_cargo_holds) (use t(6) b(2) bt(1) in \<open>simp_all add: new_cargo_def loose_def\<close>)
  have same: "map (f(?r := [b])) ?L = map f ?L" using fresh by auto
  have "mset (concat (map (f(?r := [b])) (?L @ [?r]))) = mset (b # ms)"
    unfolding map_append same using g by (simp add: gathered_def chains_def)
  then have "chains q l (linked t (PlugList p)) (f(?r := [b])) (b # ms) t"
    using old new fresh by (auto simp: chains_def t(2) simp del: map_append)
  moreover have "blk_queue_nomerges (queues t q) = blk_queue_nomerges (queues s q)"
    using drv_viewD [OF q_sideD(1) [OF t(3)]] by (simp add: test_qflag_def)
  moreover have "at_rest q g t = at_rest q g s" by (rule at_rest_cong [OF t(8) q_sideD(1) [OF t(3)]])
  moreover have "lane t ?r = rw_is_sync (bi_rw (bios s b))"
    using t(6) by (simp add: lane_def cargo_def new_cargo_def)
  moreover have "in_lane t x ?L = in_lane s x ?L" for x
    unfolding lane_def using t(7) fresh by (intro in_lane_cong) (metis lane_def)
  then have "counted l c p t"
    using g t(9) calculation(4) by (auto simp: gathered_def counted_def t(2))
  moreover note room_from_cong [OF t(3)]
  ultimately show ?thesis
    using g b(1) fresh t(1) few by (auto simp: gathered_def t(2,5) bt(2))
qed

section \<open>A wave\<close>

text \<open>The requests of the plug, handed to a queue at rest, can be served.\<close>

lemma plugged_servable:
  assumes w: "plugging E q g l p w" "chains q l (linked w (PlugList p)) f ms w" "distinct ms" "at_rest q g w"
    and so: "elv_sorted_ok D q g u" and bag: "elv_bag q g u = mset (linked w (PlugList p))"
    and rest: "rest_of q u = rest_of q (plug_taken q p w)"
  shows "servable D q g l f u"
  unfolding servable_def
proof (intro conjI ballI)
  note R = plug_takenD [OF rest]
  have bu: "bios u = bios w" using R(4) by (simp add: outside_def)
  have ls: "lists_ok w" using w(1) by (simp add: plugging_def elv_sorted_ok_def)
  show c: "carries_bios q l r (f r) u" if "r \<in># elv_bag q g u" for r
    using that w(2) carries_bios_cong [of u r w "f r"] R(3) bu by (simp add: bag chains_def holds_run_def)
  have "fetchable q (rqs u r)" if "r \<in># elv_bag q g u" for r
    using c [OF that] by (auto simp: fetchable_def carries_bios_def carrier_cargo)
  moreover have "ready_queue (queues u q)" "linked u (QHead q) = []"
    using w(4) drv_viewD [OF R(6) [of q]] R(5) by (simp_all add: at_rest_def ready_queue_def test_qflag_def elv_bag_def)
  ultimately show "driver_ok D q g u" using so by (simp add: driver_ok_def)
  show "rl_q (rls u l) = q" using w(1) R(7) by (simp add: plugging_def)
  show "disjoint_runs f (set_mset (elv_bag q g u))"
    unfolding bag set_mset_mset using chains_apart(1) [OF w(2,3)] lists_okD(1) [OF ls] .
qed

text \<open>
  Flushing the plug: all its requests are served, and the task can go on plugging. The requests that
  are not on the plug and the bios that are not carried are left alone.
\<close>

lemma flush_wave:
  assumes env: "end_env D" and perm: "\<And>f xs. mset (list_sort D f xs) = mset xs"
    and w: "plugging (with_server D) q g l p w" "chains q l (linked w (PlugList p)) f ms w" "distinct ms" "at_rest q g w"
    and on: "\<not> blk_queue_nomerges (queues w q)" and ne: "linked w (PlugList p) \<noteq> []"
  obtains v cs where "blk_flush_plug_list (with_server D) p False w = Some v" and "plugging (with_server D) q g l p v"
    and "linked v (PlugList p) = []" and "at_rest q g v" and "mset cs = mset ms"
    and "progress q (set ms) cs (length (linked w (PlugList p))) w v"
    and "rq_allocated v = rq_allocated w - set (linked w (PlugList p))"
    and "\<And>x. x \<notin> set (linked w (PlugList p)) \<Longrightarrow> rqs v x = rqs w x"
    and "\<And>b. b \<notin> set ms \<Longrightarrow> bios v b = bios w b" and "heap_next v = heap_next w"
    and "\<And>x. count (rls v l) x = count (rls w l) x - int (in_lane w x (linked w (PlugList p)))"
proof -
  let ?E = "with_server D" and ?L = "linked w (PlugList p)"
  have sort: "mset (list_sort ?E f xs) = mset xs" for f xs using perm by (simp add: with_server_def)
  have P: "elv_sorted_ok ?E q g w" "plain_queue ?E q w" "\<forall>r \<in> set ?L. plugged q (rqs w r)" "plug_cbs w p = []"
    "linked w (PlugMq p) = []" "linked w LocalList = []" "\<not> locks w (queue_lock (queues w q))"
    "rl_q (rls w l) = q" "last_merge (queues w q) = None" "greedy_no_icq ?E q g w"
    "\<forall>r \<ge> heap_next w. queuelist (rqs w r) = None"
    using w(1) on by (simp_all add: plugging_def)
  have B: "elv_bag q g w = {#}" using w(4) by (simp add: at_rest_def)
  from flush_plug_run [OF P(1,2) ne P(3-7) sort, of False] obtain u where
    u: "blk_flush_plug_list ?E p False w = queue_unplugged ?E q False u"
      "elv_bag q g u = elv_bag q g w + mset ?L" "elv_sorted_ok ?E q g u" "rest_of q u = rest_of q (plug_taken q p w)"
      "linked u LocalList = []" "touches (set ?L) w u" "last_ok q g w \<longrightarrow> last_ok q g u"
    by blast
  note R = plug_takenD [OF u(4)]
  have bag: "elv_bag q g u = mset ?L" using u(2) B by simp
  have bu: "bios u = bios w" "bios_ended u = bios_ended w" "num_requests_seen u = num_requests_seen w"
    "rq_allocated u = rq_allocated w"
    using R(4) by (simp_all add: outside_def told_def tracked_def)
  have so: "elv_sorted_ok D q g u" using u(3) by (simp add: with_server_sorted)
  have sv: "servable D q g l f u" by (rule plugged_servable [OF w so bag u(4)])
  have du: "drv_view (queues u q) = drv_view (queues w q)" by (rule R(6))
  have fn: "request_fn (queues u q) \<noteq> None" "\<not> blk_queue_stopped (queues u q)" "\<not> blk_queue_dead (queues u q)"
    using w(4) drv_viewD [OF du] by (simp_all add: at_rest_def test_qflag_def)
  from run_queue_serves [OF env sv fn R(2)] obtain rs v where
    v: "queue_unplugged ?E q False u = Some v" "mset rs = elv_bag q g u" "elv_bag q g v = {#}"
      "bios_ended v = bios_ended u @ map (\<lambda>b. (b, bi_error (bios u b))) (concat (map f rs))"
      "num_requests_seen v = num_requests_seen u + of_nat (length rs)" "rq_allocated v = rq_allocated u - set rs"
      "locks v = (locks u)(queue_lock (queues u q) := False)" "elv_sorted_ok D q g v"
      "aside (set rs) (set (concat (map f rs))) u v" "last_ok q g u \<longrightarrow> last_ok q g v"
      "\<forall>x. count (rls v l) x = count (rls u l) x - int (in_lane u x rs)" by blast
  note S = asideD [OF v(9)]
  have rs: "mset rs = mset ?L" using v(2) bag by simp
  then have set: "set rs = set ?L" and len: "length rs = length ?L" by (rule mset_eq_setD, rule mset_eq_length)
  have "mset (concat (map f xs)) = (\<Sum>r \<in># mset xs. mset (f r))" for xs by (induction xs) simp_all
  then have cs: "mset (concat (map f rs)) = mset ms" using w(2) rs unfolding chains_def by metis
  then have cset: "set (concat (map f rs)) = set ms" by (rule mset_eq_setD)
  have qs: "q_side (queues v z) = q_side (queues w z)" for z using S(4) R(10) by simp
  note Q = q_sideD [OF qs [of q]] drv_viewD [OF q_sideD(1) [OF qs [of q]]]
  have T: "etypes v = etypes w" "cur_plug v = cur_plug w" "plug_cbs v = plug_cbs w" "alloc_fails v = alloc_fails w"
    "heap_next v = heap_next w"
    using tasksD [of v w] S(3) R(8) by simp_all
  have same: "rqs v x = rqs w x" if "x \<notin> set ?L" for x using S(1) u(6) that set by (simp add: touches_def)
  have ls: "lists_ok w" using P(1) by (simp add: elv_sorted_ok_def)
  have "last_ok q g v" using u(7) v(10) P(9) by (simp add: last_ok_def)
  then have "last_merge (queues v q) = None" using v(3) by (auto simp: last_ok_def elv_bag_def)
  moreover have "locks v = locks w"
    using v(7) R(12) P(7) drv_viewD(1) [OF du] by (simp add: fun_upd_idem_iff)
  moreover have "greedy_installed ?E q g v" using v(8) with_server_sorted [of D q g v] by (simp add: elv_sorted_ok_def)
  then have "greedy_no_icq ?E q g v" using P(10) S(5) R(11) by (simp add: greedy_no_icq_def T Q)
  moreover have "linked v (PlugMq p) = []" "linked v LocalList = []" "linked v (PlugList p) = []"
    using S(6) R(1,9) u(5) P(5) by simp_all
  moreover have "\<forall>r \<ge> heap_next v. queuelist (rqs v r) = None"
  proof (intro allI impI)
    fix r assume "heap_next v \<le> r"
    then have "queuelist (rqs w r) = None" using P(11) T(5) by simp
    moreover from this have "r \<notin> set ?L" using lists_okD(2) [OF ls] by fastforce
    ultimately show "queuelist (rqs v r) = None" using same by simp
  qed
  moreover have "rl_q (rls v l) = q" using S(7) R(7) P(8) by simp
  ultimately have "plugging ?E q g l p v"
    using w(1) v(8) by (simp add: plugging_def plain_queue_def test_qflag_def T Q with_server_sorted)
  moreover have "at_rest q g v" using at_rest_cong [OF _ q_sideD(1) [OF qs], of q g] w(4) v(3) B by simp
  moreover have sb: "bios v b = bios w b" if "b \<notin> set ms" for b
    using S(2) [of b] that unfolding cset bu(1) by simp
  moreover have "progress q (set ms) (concat (map f rs)) (length ?L) w v"
    unfolding progress_def
  proof (intro conjI allI impI)
    show "length ?L \<le> length (concat (map f rs))"
      using chains_length [OF w(2)] mset_eq_length [OF cs] by simp
  qed (use v(4,5) bu len qs sb in \<open>simp_all only: cset, simp_all\<close>)
  moreover have "lane u r = lane w r" for r by (rule lane_cargo) (rule R(3) [rule_format])
  then have "in_lane u x ?L = in_lane w x ?L" for x by (intro in_lane_cong)
  then have "in_lane u x rs = in_lane w x ?L" for x using in_lane_mset [OF rs, of u x] by simp
  then have "count (rls v l) x = count (rls w l) x - int (in_lane w x ?L)" for x
    using v(11) R(7) by simp
  ultimately show thesis
    using that [of v "concat (map f rs)"] u(1) v(1,6) bu(4) cs same T(5) set \<open>linked v (PlugList p) = []\<close> by simp
qed

section \<open>One bio\<close>

text \<open>The plug is full: it is flushed, and the new request is the first of the next wave.\<close>

lemma flush_then_add:
  assumes env: "end_env D" and perm: "\<And>f xs. mset (list_sort D f xs) = mset xs"
    and g: "gathered (with_server D) q g l p A c f ms t" and b: "b \<notin> set ms" "loose t b"
    and ne: "linked t (PlugList p) \<noteq> []" and new: "new_request q l b t w"
  defines "r \<equiv> heap_next t"
  obtains v cs n u where "blk_flush_plug_list (with_server D) p False w = Some v"
    and "blk_account_io_start (with_server D) r True (list_add_tail r (PlugList p) v) = Some u"
    and "gathered (with_server D) q g l p A c (\<lambda>_. [b]) [b] u" and "mset cs = mset ms"
    and "progress q (insert b (set ms)) cs n t u"
proof -
  let ?E = "with_server D" and ?L = "linked t (PlugList p)"
  have G: "plugging ?E q g l p t" "chains q l ?L f ms t" "distinct ms" "\<not> blk_queue_nomerges (queues t q)"
    "at_rest q g t" "counted l c p t" "room_from 17 c (queues t q)" "rq_allocated t = A \<union> set ?L"
    "A \<inter> set ?L = {}" "\<forall>x \<ge> r. x \<notin> A"
    using g by (simp_all add: gathered_def r_def)
  have N: "heap_next w = Suc r" "\<And>x. x \<noteq> r \<Longrightarrow> rqs w x = rqs t x" "plugged q (rqs w r)"
    "queuelist (rqs w r) = None" "cargo (rqs w r) = new_cargo q l t b" "rq_allocated w = insert r (rq_allocated t)"
    "\<And>x. count (rls w l) x = count (rls t l) x + (if x = rw_is_sync (bi_rw (bios t b)) then 1 else 0)"
    using new by (simp_all add: new_request_def r_def)
  note W = new_request_plugging [OF G(1) new]
  have ls: "lists_ok t" "\<forall>x \<ge> r. queuelist (rqs t x) = None"
    using G(1) by (simp_all add: plugging_def elv_sorted_ok_def r_def)
  then have fresh: "r \<notin> set ?L" using lists_okD(2) by fastforce
  have sl: "same_load {r} {} t w" using N(2) W(5) by (simp add: same_load_def)
  have "holds_run q l x (f x) w" if "x \<in> set ?L" for x
  proof -
    have "x \<noteq> r" using that fresh by auto
    then show ?thesis using holds_run_cong [OF sl, of x "f x"] that G(2) by (simp add: chains_def)
  qed
  then have ch: "chains q l (linked w (PlugList p)) f ms w" using G(2) by (simp add: chains_def W(2))
  have rest: "at_rest q g w" using at_rest_cong [OF W(3) q_sideD(1) [OF W(4)]] G(5) by simp
  have on: "\<not> blk_queue_nomerges (queues w q)"
    using G(4) drv_viewD(2) [OF q_sideD(1) [OF W(4)]] by (simp add: test_qflag_def)
  have ne': "linked w (PlugList p) \<noteq> []" using ne W(2) by simp
  obtain v cs where v: "blk_flush_plug_list ?E p False w = Some v" "plugging ?E q g l p v"
    "linked v (PlugList p) = []" "at_rest q g v" "mset cs = mset ms" "progress q (set ms) cs (length ?L) w v"
    "rq_allocated v = rq_allocated w - set ?L" "\<And>x. x \<notin> set ?L \<Longrightarrow> rqs v x = rqs w x"
    "\<And>b. b \<notin> set ms \<Longrightarrow> bios v b = bios w b" "heap_next v = heap_next w"
    "\<And>x. count (rls v l) x = count (rls w l) x - int (in_lane w x ?L)"
    by (rule flush_wave [OF env perm W(1) ch G(3) rest on ne']) (simp_all add: W(2))
  define u where "u = list_add_tail r (PlugList p) v"
  have rv: "rqs v r = rqs w r" using v(8) fresh by simp
  then have cv: "cargo (rqs v r) = new_cargo q l t b" using N(5) by simp
  have U: "rqs u = (rqs v)(r := (rqs v r)\<lparr>queuelist := Some (PlugList p)\<rparr>)" "queues u = queues v" "rls u = rls v"
    "bios u = bios v" "rq_allocated u = rq_allocated v" "heap_next u = heap_next v" "told u = told v"
    by (simp_all add: u_def list_add_tail_def list_insert_def fun_upd_def)
  have "plugged q (rqs v r)" "queuelist (rqs v r) = None" "r < heap_next v" using rv N(1,3,4) v(10) by simp_all
  note P = plugging_link [OF v(2) this, folded u_def]
  have lu: "linked u (PlugList p) = [r]" using P(3) v(3) by simp
  have "holds_run q l r [b] u"
    by (rule new_cargo_holds)
      (use cv b v(9) W(5) in \<open>simp_all add: U new_cargo_def loose_def\<close>)
  then have chu: "chains q l (linked u (PlugList p)) (\<lambda>_. [b]) [b] u" by (simp add: chains_def lu)
  have "lane u r = rw_is_sync (bi_rw (bios t b))" using cv by (simp add: lane_def U cargo_def new_cargo_def)
  moreover have "in_lane w x ?L = in_lane t x ?L" for x
    using N(2) fresh by (intro in_lane_cong) (metis lane_def)
  ultimately have "counted l c p u"
    using G(6) v(11) N(7) by (auto simp: counted_def lu U(3))
  moreover have qs: "q_side (queues v q) = q_side (queues t q)" using v(6) W(4) by (simp add: progress_def)
  moreover have "rq_allocated u = A \<union> {r}" using U(5) v(7) N(6) G(8,9) fresh by auto
  moreover have "\<forall>x \<ge> heap_next u. x \<notin> A" "r \<notin> A" using G(10) U(6) v(10) N(1) by auto
  moreover have "at_rest q g u" using at_rest_cong [OF P(2)] v(4) U(2) by simp
  ultimately have gu: "gathered ?E q g l p A c (\<lambda>_. [b]) [b] u"
    using P(1) chu G(4,7) room_from_cong [OF qs] drv_viewD(2) [OF q_sideD(1) [OF qs]]
    by (simp add: gathered_def lu U(2) test_qflag_def)
  have "progress q {} [] 0 t w" using W by (intro progress_silent) simp_all
  moreover have "progress q {} [] 0 v u" using U by (intro progress_silent) simp_all
  ultimately have "progress q (set ms) cs (length ?L) t u"
    using progress_trans [OF progress_trans [OF _ v(6)]] by fastforce
  then have "progress q (insert b (set ms)) cs (length ?L) t u" by (rule progress_mono) auto
  then show thesis
    using that [OF v(1) _ gu v(5)] new_cargo_no_stat [OF cv] by (simp add: u_def)
qed

text \<open>
  One bio: it becomes part of a plugged request, or a new request on the plug, which is flushed
  before if it is full.
\<close>

lemma gather_step:
  assumes env: "end_env D" "plain_env (with_server D) q l" "quiet_merges (with_server D) q"
    and perm: "\<And>f xs. mset (list_sort D f xs) = mset xs"
    and g: "gathered (with_server D) q g l p A c f ms s" and b: "b \<notin> set ms" "plain_bio (bios s b)"
  shows "\<exists>t f' ms' cs n. blk_queue_bio (with_server D) q b s = Some t \<and> gathered (with_server D) q g l p A c f' ms' t \<and>
    mset cs + mset ms' = add_mset b (mset ms) \<and> ms' \<noteq> [] \<and> progress q (insert b (set ms)) cs n s t"
proof -
  let ?E = "with_server D" and ?L = "linked s (PlugList p)"
  have G: "plugging ?E q g l p s" "chains q l ?L f ms s" "distinct ms" "\<not> blk_queue_nomerges (queues s q)"
    "at_rest q g s" "counted l c p s" "room_from 17 c (queues s q)" "length ?L \<le> 16"
    using g by (simp_all add: gathered_def)
  have mq: "\<not> mq_ops (queues s q)" using G(5) by (simp add: at_rest_def ready_queue_def)
  have cur: "cur_plug s = Some p" using G(1) by (simp add: plugging_def)
  have "distinct ?L" using G(1) by (simp add: plugging_def elv_sorted_ok_def lists_ok_def)
  moreover have lb: "loose s b" using b(2) by (simp add: loose_def plain_bio_def)
  ultimately obtain ok m same t where w: "blk_attempt_plug_merge ?E q b 0 s = Some (ok, m, same, t)" "outline q s t"
    "same_load UNIV (insert b (set ms)) s t"
    "if ok then \<exists>f'. chains q l ?L f' (b # ms) t else same_load {} {} s t \<and> m = of_nat (length ?L)"
    using walk_gathers [OF env(3) _ G(3) b(1) G(2), of "rev ?L" 0 None] mq cur
    by (auto simp: blk_attempt_plug_merge_def)
  note O = outlineD [OF w(2)]
  note pr = outline_progress [OF w(2,3)]
  have flags: "bi_rw (bios s b) \<inter> {REQ_FLUSH, REQ_FUA} = {}" "bi_rw (bios t b) \<inter> {REQ_FLUSH, REQ_FUA} = {}"
    using b(2) O(21) [of b] by (auto simp: plain_bio_def)
  show ?thesis
  proof (cases ok)
    case True
    then obtain f' where f': "chains q l ?L f' (b # ms) t" using w(4) by auto
    have "blk_queue_bio ?E q b s = Some t"
      using env(2) w(1) True flags(1) G(4) by (simp add: blk_queue_bio_def plain_env_def)
    moreover have "gathered ?E q g l p A c f' (b # ms) t"
      using gathered_frame [OF g w(2) f'] G(3) b(1) by simp
    ultimately show ?thesis
      using pr by (intro exI [of _ t] exI [of _ f'] exI [of _ "b # ms"] exI [of _ "[]"] exI [of _ 0]) simp
  next
    case False
    then have same: "same_load {} {} s t" and m: "m = of_nat (length ?L)" using w(4) by auto
    have gt: "gathered ?E q g l p A c f ms t"
      using gathered_frame [OF g w(2) chains_frame [OF G(2) same] G(3)] .
    have lt: "loose t b" using loose_same [OF same] lb by simp
    have miss: "(if \<not> blk_queue_nomerges (queues s q) then blk_attempt_plug_merge ?E q b 0 s
      else Some (False, 0, None, s)) = Some (False, m, same, t)" using w(1) G(4) False by simp
    have pt: "plugging ?E q g l p t" "length (linked t (PlugList p)) = length ?L"
      using gt by (simp_all add: gathered_def O)
    have rm: "room (Suc 0) l q t"
      using gt counted_room [of l c p t q] by (simp add: gathered_def)
    note bw = env(2) pt(1) rm flags(2) O(21) [symmetric] miss
    show ?thesis
    proof (cases "length ?L < 16")
      case True
      then have few: "m < BLK_MAX_REQUEST_COUNT"
        by (simp add: m BLK_MAX_REQUEST_COUNT_def word_less_nat_alt unat_of_nat)
      obtain u where u: "blk_queue_bio ?E q b s = Some u" "plugging ?E q g l p u"
        "linked u (PlugList p) = linked t (PlugList p) @ [heap_next t]" "elv_bag q g u = elv_bag q g t"
        "q_side (queues u q) = q_side (queues t q)" "outside u = grown 1 t" "heap_next u = Suc (heap_next t)"
        "cargo (rqs u (heap_next t)) = new_cargo q l t b" "\<And>x. x \<noteq> heap_next t \<Longrightarrow> rqs u x = rqs t x"
        "\<And>x. count (rls u l) x = count (rls t l) x + (if x = rw_is_sync (bi_rw (bios t b)) then 1 else 0)"
        by (rule one_bio [OF bw few]) blast
      have "gathered ?E q g l p A c (f(heap_next t := [b])) (b # ms) u"
        by (rule gathered_new [OF gt b(1) lt _ u(2,3,5-9,4,10)]) (use True pt(2) in simp)
      moreover have "bios u = bios t" "told u = told t" using u(6) by (simp_all add: outside_def grown_def)
      then have "progress q {} [] 0 t u" using u(5) by (intro progress_silent) simp_all
      from progress_trans [OF pr this] have "progress q (insert b (set ms)) [] 0 s u" by simp
      ultimately show ?thesis
        using u(1) by (intro exI [of _ u] exI [of _ "f(heap_next t := [b])"] exI [of _ "b # ms"] exI [of _ "[]"]
            exI [of _ 0]) simp
    next
      case full: False
      then have len: "length ?L = 16" using G(8) by simp
      then have many: "BLK_MAX_REQUEST_COUNT \<le> m" and ne: "linked t (PlugList p) \<noteq> []"
        using pt(2) by (auto simp: m BLK_MAX_REQUEST_COUNT_def)
      obtain w where w: "new_request q l b t w" "blk_queue_bio ?E q b s = do {
          s' \<leftarrow> (if m \<ge> BLK_MAX_REQUEST_COUNT then blk_flush_plug_list ?E p False w else Some w);
          blk_account_io_start ?E (heap_next t) True (list_add_tail (heap_next t) (PlugList p) s') }"
        by (rule bio_request [OF bw])
      obtain v cs n u where v: "blk_flush_plug_list ?E p False w = Some v"
        "blk_account_io_start ?E (heap_next t) True (list_add_tail (heap_next t) (PlugList p) v) = Some u"
        "gathered ?E q g l p A c (\<lambda>_. [b]) [b] u" "mset cs = mset ms" "progress q (insert b (set ms)) cs n t u"
        by (rule flush_then_add [OF env(1) perm gt b(1) lt ne w(1)])
      have "progress q (insert b (set ms)) cs n s u" using progress_trans [OF pr v(5)] by simp
      with v w(2) many show ?thesis
        by (intro exI [of _ u] exI [of _ "\<lambda>_. [b]"] exI [of _ "[b]"] exI [of _ cs] exI [of _ n]) simp
    qed
  qed
qed

section \<open>A bracket of bios\<close>

lemma submit_all_waves:
  assumes env: "end_env D" "plain_env (with_server D) q l" "quiet_merges (with_server D) q"
    and perm: "\<And>f xs. mset (list_sort D f xs) = mset xs"
  shows "gathered (with_server D) q g l p A c f ms s \<Longrightarrow> distinct (bs @ ms) \<Longrightarrow>
    \<forall>b \<in> set bs. plain_bio (bios s b) \<Longrightarrow> bs @ ms \<noteq> [] \<Longrightarrow>
    \<exists>t f' ms' cs n. submit_all (with_server D) q bs s = Some t \<and> gathered (with_server D) q g l p A c f' ms' t \<and>
      mset cs + mset ms' = mset bs + mset ms \<and> ms' \<noteq> [] \<and> progress q (set bs \<union> set ms) cs n s t"
proof (induction bs arbitrary: f ms s)
  case Nil
  have "progress q (set ms) [] 0 s s" by (rule progress_silent) simp_all
  with Nil show ?case
    by (intro exI [of _ s] exI [of _ f] exI [of _ ms] exI [of _ "[]"] exI [of _ 0]) simp
next
  case (Cons b bs)
  have b: "b \<notin> set ms" "plain_bio (bios s b)" using Cons.prems by simp_all
  obtain t f' ms' cs n where t: "blk_queue_bio (with_server D) q b s = Some t"
    "gathered (with_server D) q g l p A c f' ms' t" "mset cs + mset ms' = add_mset b (mset ms)" "ms' \<noteq> []"
    "progress q (insert b (set ms)) cs n s t"
    using gather_step [OF env perm Cons.prems(1) b] by blast
  have m: "set cs \<union> set ms' = insert b (set ms)"
    using arg_cong [OF t(3), of set_mset] by simp
  have "distinct (cs @ ms')"
    using t(3) Cons.prems(2) mset_eq_imp_distinct_iff [of "cs @ ms'" "b # ms"] by simp
  then have d: "set cs \<inter> set ms' = {}" by simp
  have "distinct ms'" using t(2) by (simp add: gathered_def)
  then have "distinct (bs @ ms')" using Cons.prems(2) m by auto
  moreover have "plain_bio (bios t x) = plain_bio (bios s x)" if "x \<in> set bs" for x
    using t(5) that Cons.prems(2) by (auto simp: progress_def)
  then have "\<forall>x \<in> set bs. plain_bio (bios t x)" using Cons.prems(3) by simp
  moreover have "bs @ ms' \<noteq> []" using t(4) by simp
  ultimately obtain u f'' ms'' cs' n' where u: "submit_all (with_server D) q bs t = Some u"
    "gathered (with_server D) q g l p A c f'' ms'' u" "mset cs' + mset ms'' = mset bs + mset ms'" "ms'' \<noteq> []"
    "progress q (set bs \<union> set ms') cs' n' t u"
    using Cons.IH [OF t(2)] by blast
  have "set cs' \<subseteq> set bs \<union> set ms'"
    using arg_cong [OF u(3), of set_mset] by auto
  moreover have "set cs \<subseteq> insert b (set ms)" "set bs \<inter> insert b (set ms) = {}" using m Cons.prems(2) by auto
  ultimately have "set cs \<inter> set cs' = {}" using d by blast
  from progress_trans [OF t(5) u(5) this]
  have "progress q (set (b # bs) \<union> set ms) (cs @ cs') (n + n') s u" by (rule progress_mono) (use m in auto)
  moreover have "mset (cs @ cs') + mset ms'' = mset (b # bs) + mset ms"
    using t(3) u(3) by (simp add: ac_simps) (metis add.left_commute add_mset_add_single union_assoc)
  ultimately show ?case using t(1) u(1,2,4)
    by (intro exI [of _ u] exI [of _ f''] exI [of _ ms''] exI [of _ "cs @ cs'"] exI [of _ "n + n'"]) simp
qed


section \<open>An instance\<close>

text \<open>
  Bios and requests are merged when their sectors meet and the length of the request stays below 4 GB.
  The queue is that of \<open>serve_idle\<close> with \<open>QUEUE_FLAG_NOXMERGES\<close>: bios are merged into the requests of
  the plug. The bios have one sector each; the second one continues the first one, and the others
  have gaps between them, so that the plug is flushed on the way.
\<close>

definition fits_rq :: "rid \<Rightarrow> bid \<Rightarrow> kst \<Rightarrow> bool" where
  "fits_rq r b s \<longleftrightarrow> unat (data_len (rqs s r)) + unat (bi_size (bios s b)) < 2 ^ 32"

definition gather_env :: kenv where
  "gather_env = greedy_env
     \<lparr>blk_rq_merge_ok := (\<lambda>r b s. True),
      blk_try_merge := (\<lambda>r b s. if rq_hash_key (rqs s r) = bi_sector (bios s b) then ELEVATOR_BACK_MERGE
        else if blk_rq_pos (rqs s r) = bio_end (bios s b) then ELEVATOR_FRONT_MERGE else ELEVATOR_NO_MERGE),
      ll_back_merge_fn := (\<lambda>q r b s. (fits_rq r b s, s)), ll_front_merge_fn := (\<lambda>q r b s. (fits_rq r b s, s))\<rparr>"

definition gather_idle :: kst where
  "gather_idle = queues_update (\<lambda>m q. (m q)\<lparr>queue_flags := 2 ^ 15\<rparr>) serve_idle"

lemma gather_env_sorted: "elv_sorted_ok gather_env q g s = elv_sorted_ok greedy_env q g s"
proof -
  have "elv_dispatch_add_tail gather_env = elv_dispatch_add_tail greedy_env"
    by (intro ext) (simp add: elv_dispatch_add_tail_def Let_def gather_env_def)
  then have "greedy_dispatch gather_env = greedy_dispatch greedy_env"
    unfolding gather_env_def by (intro ext) (simp add: greedy_dispatch_def Let_def cong: option.case_cong)
  then have "elevator_greedy gather_env = elevator_greedy greedy_env" by (simp add: elevator_greedy_def)
  then show ?thesis by (simp add: elv_sorted_ok_def greedy_installed_def) (simp add: gather_env_def)
qed

lemma gather_idle_plugging: "plugging (with_server gather_env) 0 8 (RootRl 0) 0 (blk_start_plug 0 gather_idle)"
proof -
  let ?s = "blk_start_plug 0 gather_idle"
  have so: "elv_sorted_ok (with_server gather_env) 0 8 ?s"
  proof -
    have "lists_ok ?s"
      by (auto simp: lists_ok_def gather_idle_def serve_idle_def greedy_two_def kst_zero_def rq_zero_def blk_start_plug_def)
    then have "elv_sorted_ok greedy_env 0 8 ?s"
      by (simp add: elv_sorted_ok_def greedy_installed_def elevator_greedy_env gather_idle_def serve_idle_def
          queue_zero_def greedy_two_def eq_zero_def greedy_pending_def blk_start_plug_def kst_zero_def)
    then show ?thesis by (simp add: with_server_sorted gather_env_sorted)
  qed
  moreover from this have "greedy_no_icq (with_server gather_env) 0 8 ?s"
    by (simp add: greedy_no_icq_def elv_sorted_ok_def)
      (simp add: gather_idle_def serve_idle_def greedy_two_def et_zero_def blk_start_plug_def kst_zero_def)
  moreover have "no_rq_merge (with_server gather_env)"
    by (simp add: no_rq_merge_def with_server_def gather_env_def greedy_env_def env_zero_def)
  ultimately show ?thesis
    by (auto simp: plugging_def plain_queue_def test_qflag_def gather_idle_def serve_idle_def queue_zero_def rl_zero_def
        greedy_two_def kst_zero_def rq_zero_def bit_numeral_rec blk_start_plug_def)
qed


end
