(* ===== verification/Track_Steps.thy ===== *)
theory Track_Steps
  imports Blk_Serve Req_Track
begin

text \<open>
  The request tracker in a running system: requests are queued, fetched by the driver and completed,
  the clock advances, and the tracker is switched on and off at any time. What
  \<open>end_req_track\<close> hands out is then a table of consistent measurements.
\<close>

section \<open>Times\<close>

text \<open>The order of two times, with the signed fields of \<open>struct timespec\<close>.\<close>

definition ts_le :: "timespec \<Rightarrow> timespec \<Rightarrow> bool" where
  "ts_le a b \<longleftrightarrow> sint (tv_sec a) < sint (tv_sec b) \<or>
     sint (tv_sec a) = sint (tv_sec b) \<and> sint (tv_nsec a) \<le> sint (tv_nsec b)"

lemma ts_le_refl [simp]: "ts_le a a"
  and ts_le_trans [trans]: "ts_le a b \<Longrightarrow> ts_le b c \<Longrightarrow> ts_le a c"
  by (auto simp: ts_le_def)

section \<open>The steps\<close>

text \<open>
  A state is the state of the kernel with the set of the requests that the driver has fetched and not yet
  completed. A request that is queued is not with the driver and on no list.
\<close>

inductive track_step :: "kenv \<Rightarrow> qid \<Rightarrow> gdid \<Rightarrow> rlid \<Rightarrow> rid set \<times> kst \<Rightarrow> rid set \<times> kst \<Rightarrow> bool"
  for E q g l
where
  tick: "ts_le (now_ts s) now \<Longrightarrow> track_step E q g l (F, s) (F, now_ts_update (\<lambda>_. now) s)"
| queue: "r \<notin> F \<Longrightarrow> queuelist (rqs s r) = None \<Longrightarrow> plugged q (rqs s r) \<Longrightarrow> fetchable q (rqs s r) \<Longrightarrow>
    raw_elv_add_request E q r ELEVATOR_INSERT_SORT s = Some t \<Longrightarrow> track_step E q g l (F, s) (F, t)"
| fetch: "blk_fetch_request E q s = Some (Some r, t) \<Longrightarrow> track_step E q g l (F, s) (insert r F, t)"
| finish: "r \<in> F \<Longrightarrow> completable E q g l r xs s \<Longrightarrow> raw_blk_end_request_all E r err s = Some t \<Longrightarrow>
    track_step E q g l (F, s) (F - {r}, t)"
| switch_on: "track_step E q g l (F, s) (F, snd (start_req_track s))"
| switch_off: "end_req_track cap data s = (ret, data', t) \<Longrightarrow> track_step E q g l (F, s) (F, t)"

section \<open>The invariant\<close>

text \<open>
  A queued request has been queued in the past, one that the driver has was queued before it was
  fetched; the entries of the table are ordered, and in the past.
\<close>

definition waiting_ok :: "qid \<Rightarrow> gdid \<Rightarrow> rid set \<Rightarrow> kst \<Rightarrow> bool" where
  "waiting_ok q g F s \<longleftrightarrow>
     (\<forall>r \<in># elv_bag q g s. r \<notin> F \<and> ts_le (start_wait (rqs s r)) (now_ts s)) \<and>
     (\<forall>r \<in> F. ts_le (start_wait (rqs s r)) (start_service (rqs s r)) \<and>
        ts_le (start_service (rqs s r)) (now_ts s))"

definition entry_ok :: "req_stuff \<Rightarrow> bool" where
  "entry_ok e \<longleftrightarrow> ts_le (rs_arrival e) (rs_serv_start e) \<and> ts_le (rs_serv_start e) (rs_end e)"

definition table_ok :: "kst \<Rightarrow> bool" where
  "table_ok s \<longleftrightarrow> unat (requests_seen s) \<le> REQS_RECORDED \<and>
     (\<forall>i < unat (requests_seen s). entry_ok (stored_reqs s i) \<and> ts_le (rs_end (stored_reqs s i)) (now_ts s) \<and>
        (\<forall>j \<le> i. ts_le (rs_end (stored_reqs s j)) (rs_end (stored_reqs s i))))"

definition times_ok :: "kenv \<Rightarrow> qid \<Rightarrow> gdid \<Rightarrow> rid set \<times> kst \<Rightarrow> bool" where
  "times_ok E q g = (\<lambda>(F, s). driver_ok E q g s \<and> waiting_ok q g F s \<and> table_ok s)"

lemma driver_ok_same:
  assumes "rqs t = rqs s" "queues t = queues s" "linked t = linked s" "elvqs t = elvqs s" "etypes t = etypes s"
  shows "elv_bag q g t = elv_bag q g s" and "driver_ok E q g t = driver_ok E q g s"
proof -
  show bag: "elv_bag q g t = elv_bag q g s" by (simp add: elv_bag_def greedy_pending_def assms)
  have "lists_ok t = lists_ok s" by (rule lists_ok_cong) (simp_all add: assms)
  moreover have "greedy_installed E q g t = greedy_installed E q g s"
    by (rule greedy_installed_cong) (simp_all add: assms)
  ultimately show "driver_ok E q g t = driver_ok E q g s"
    using bag by (simp add: driver_ok_def elv_sorted_ok_def greedy_pending_def assms)
qed

lemma not_queued:
  assumes "driver_ok E q g s" and "queuelist (rqs s r) = None"
  shows "r \<notin># elv_bag q g s"
  using assms lists_okD(2) by (fastforce simp: driver_ok_def elv_sorted_ok_def elv_bag_def greedy_pending_def)

lemma table_ok_cong:
  "requests_seen t = requests_seen s \<Longrightarrow> stored_reqs t = stored_reqs s \<Longrightarrow> now_ts t = now_ts s \<Longrightarrow>
     table_ok t = table_ok s"
  by (simp add: table_ok_def)

lemma table_ok_later:
  assumes "table_ok s" and "ts_le (now_ts s) (now_ts t)"
    and "requests_seen t = requests_seen s" and "stored_reqs t = stored_reqs s"
  shows "table_ok t"
  using assms unfolding table_ok_def by (metis ts_le_trans)

text \<open>One more measurement.\<close>

lemma table_ok_recorded:
  assumes "table_ok s" and "ts_le (start_wait (rqs s r)) (start_service (rqs s r))"
    and "ts_le (start_service (rqs s r)) (now_ts s)"
  shows "table_ok (req_track E r s)"
proof (cases "serv_recording s \<and> Req_Track.tracked s r \<and> unat (requests_seen s) < REQS_RECORDED")
  case True
  have now: "now_ts (req_track E r s) = now_ts s" by (simp add: req_track_def Let_def)
  have le: "unat (requests_seen s) \<le> REQS_RECORDED" using assms(1) by (simp add: table_ok_def)
  note seen = req_track_seen [OF True [THEN conjunct1] le, of E r]
  have "entry_ok (stuff_of s (r, now_ts s))" using assms(2,3) by (simp add: entry_ok_def stuff_of_def)
  moreover have "rs_end (stuff_of s (r, now_ts s)) = now_ts s" by (simp add: stuff_of_def)
  ultimately show ?thesis
    using assms(1) True by (auto simp: table_ok_def seen now less_Suc_eq)
next
  case False
  then have "requests_seen (req_track E r s) = requests_seen s" "stored_reqs (req_track E r s) = stored_reqs s"
    "now_ts (req_track E r s) = now_ts s"
    by (auto simp: req_track_def Let_def Req_Track.tracked_def)
  then show ?thesis using assms(1) table_ok_cong by blast
qed

section \<open>Every step keeps it\<close>

lemma queue_times:
  assumes ok: "times_ok E q g (F, s)" and r: "r \<notin> F" "queuelist (rqs s r) = None"
    and pl: "plugged q (rqs s r)" "fetchable q (rqs s r)"
    and run: "raw_elv_add_request E q r ELEVATOR_INSERT_SORT s = Some t"
  shows "times_ok E q g (F, t)"
proof -
  have dr: "driver_ok E q g s" and so: "elv_sorted_ok E q g s" using ok by (simp_all add: times_ok_def driver_ok_def)
  note nq = not_queued [OF dr r(2)]
  have fl: "cmd_type (rqs s r) = REQ_TYPE_FS" "REQ_ELVPRIV \<in> cmd_flags (rqs s r)"
    "cmd_flags (rqs s r) \<inter> {REQ_HASHED, REQ_SOFTBARRIER} = {}"
    using pl(1) by (auto simp: plugged_def)
  obtain t' where t': "raw_elv_add_request E q r ELEVATOR_INSERT_SORT s = Some t'" "elv_sorted_ok E q g t'"
    "greedy_pending g t' = add_mset r (greedy_pending g s)" "linked t' (QHead q) = linked s (QHead q)"
    "\<forall>x. x \<noteq> r \<longrightarrow> rqs t' x = rqs s x"
    using insert_sort_pending [OF so r(2) fl] by blast
  then have t: "elv_sorted_ok E q g t" "elv_bag q g t = add_mset r (elv_bag q g s)"
    "linked t (QHead q) = linked s (QHead q)" "\<And>x. x \<noteq> r \<Longrightarrow> rqs t x = rqs s x"
    using run by (simp_all add: elv_bag_def)
  note rest = insert_rest [OF so r(2) pl(1) run]
  note R = rest_ofD [OF rest(1)]
  have st: "start_wait (rqs t r) = now_ts s" "now_ts t = now_ts s"
    using rest(4) [of r] tasksD(6) [OF R(9)] by (simp_all add: stamps_def)
  have "fetchable q (rqs t r)"
    using cargoD [OF R(6) [of r]] pl(2) by (simp add: fetchable_def)
  moreover have "ready_queue (queues t q) = ready_queue (queues s q)"
    using drv_viewD [OF R(11) [of q]] by (simp add: ready_queue_def test_qflag_def)
  moreover have hd: "r \<notin> set (linked s (QHead q))" using nq by (simp add: elv_bag_def)
  have others: "rqs t x = rqs s x" if "x \<in># elv_bag q g s" for x
    using t(4) nq that by metis
  have "\<forall>x \<in> set (linked t (QHead q)). \<not> ELV_ON_HASH (rqs t x)"
    using dr t(3) others by (simp add: driver_ok_def elv_bag_def)
  moreover have "\<forall>x \<in># elv_bag q g s. fetchable q (rqs t x)"
    using dr others by (simp add: driver_ok_def)
  ultimately have "driver_ok E q g t" using t(1,2) dr by (simp add: driver_ok_def)
  moreover have "\<forall>x \<in> F. rqs t x = rqs s x" using r(1) t(4) by metis
  then have "waiting_ok q g F t"
    using ok r(1) others by (simp add: times_ok_def waiting_ok_def t(2) st)
  moreover have "told t = told s" using R(7) by (simp add: outside_def)
  then have "table_ok t = table_ok s"
    by (intro table_ok_cong) (simp_all add: told_def Blk_Views.tracked_def st)
  ultimately show ?thesis using ok by (simp add: times_ok_def)
qed

lemma fetch_times:
  assumes ok: "times_ok E q g (F, s)" and run: "blk_fetch_request E q s = Some (Some r, t)"
  shows "times_ok E q g (insert r F, t)"
proof -
  have dr: "driver_ok E q g s" using ok by (simp add: times_ok_def)
  have "elv_bag q g s \<noteq> {#}" using run fetch_none [OF dr] by auto
  then obtain r' t' where t': "blk_fetch_request E q s = Some (Some r', t')" "driver_ok E q g t'"
    "elv_bag q g s = add_mset r' (elv_bag q g t')" "side t' = side s" "queuelist (rqs t' r') = None"
    "\<forall>x. stamps (rqs t' x) = (start_wait (rqs s x), if x = r' then now_ts s else start_service (rqs s x))"
    by (rule fetch_some [OF dr])
  then have t: "driver_ok E q g t" "elv_bag q g s = add_mset r (elv_bag q g t)" "queuelist (rqs t r) = None"
    "side t = side s"
    "\<And>x. start_wait (rqs t x) = start_wait (rqs s x)"
    "\<And>x. start_service (rqs t x) = (if x = r then now_ts s else start_service (rqs s x))"
    using run by (simp_all add: stamps_def)
  note S = sideD [OF t(4)]
  have now: "now_ts t = now_ts s" by (rule tasksD(6) [OF S(8)])
  have "r \<notin># elv_bag q g t" by (rule not_queued [OF t(1,3)])
  then have "waiting_ok q g (insert r F) t"
    using ok by (auto simp: times_ok_def waiting_ok_def t(2,5,6) now)
  moreover have "told t = told s" using S(1) by (simp add: outside_def)
  then have "table_ok t = table_ok s"
    by (intro table_ok_cong) (simp_all add: told_def Blk_Views.tracked_def now)
  ultimately show ?thesis using ok t(1) by (simp add: times_ok_def)
qed

lemma finish_times:
  assumes env: "end_env E" and ok: "times_ok E q g (F, s)" and r: "r \<in> F" "completable E q g l r xs s"
    and run: "raw_blk_end_request_all E r err s = Some t"
  shows "times_ok E q g (F - {r}, t)"
proof -
  have dr: "driver_ok E q g s" and tb: "table_ok s" and wt: "waiting_ok q g F s"
    using ok by (simp_all add: times_ok_def)
  obtain t' e where t': "raw_blk_end_request_all E r err s = Some t'"
    "Blk_Views.tracked t' = Blk_Views.tracked (req_track E r s)"
    "world t' = world (rqs_update (\<lambda>_. (rqs s)(r := (rqs s r)\<lparr>rq_bio := None, data_len := 0, errors := e\<rparr>))
       (bios_update (\<lambda>_. bios t') s))"
    by (rule raw_blk_end_request_all_run [OF env r(2)])
  then have tr: "Blk_Views.tracked t = Blk_Views.tracked (req_track E r s)"
    and w: "world t = world (rqs_update (\<lambda>_. (rqs s)(r := (rqs s r)\<lparr>rq_bio := None, data_len := 0, errors := e\<rparr>))
       (bios_update (\<lambda>_. bios t) s))"
    using run by simp_all
  note W = worldD [OF w]
  have now: "now_ts t = now_ts s" using tasksD(6) [OF W(13)] by simp
  have d: "elv_bag q g t = elv_bag q g s" "driver_ok E q g t"
    using driver_ok_world(1) [OF w, where q = q and g = g]
      driver_ok_world(2) [OF w, where q = q and g = g and E = E] dr
    by (simp_all add: fetchable_def ELV_ON_HASH_def)
  have "waiting_ok q g (F - {r}) t"
    using wt by (auto simp: waiting_ok_def d(1) now W(1))
  moreover have "table_ok (req_track E r s)"
    using table_ok_recorded [OF tb, of r E] wt r(1) by (simp add: waiting_ok_def)
  then have "table_ok t"
    using tr now by (subst table_ok_cong [of t "req_track E r s"])
      (simp_all add: Blk_Views.tracked_def, simp add: req_track_def Let_def)
  ultimately show ?thesis using d(2) by (simp add: times_ok_def)
qed

lemma track_step_times:
  assumes env: "end_env E"
  shows "track_step E q g l a b \<Longrightarrow> times_ok E q g a \<Longrightarrow> times_ok E q g b"
proof (induction rule: track_step.induct)
  case (tick s now F)
  let ?t = "now_ts_update (\<lambda>_. now) s"
  have "elv_bag q g ?t = elv_bag q g s" "driver_ok E q g ?t = driver_ok E q g s"
    by (rule driver_ok_same; simp)+
  moreover have "table_ok s \<Longrightarrow> table_ok ?t" using table_ok_later [of s ?t] tick(1) by simp
  moreover have "waiting_ok q g F s \<Longrightarrow> waiting_ok q g F ?t"
    using tick(1) calculation(1) by (auto simp: waiting_ok_def intro: ts_le_trans)
  ultimately show ?case using tick(2) by (simp add: times_ok_def)
next
  case (switch_on F s)
  let ?t = "snd (start_req_track s)"
  have "elv_bag q g ?t = elv_bag q g s" "driver_ok E q g ?t = driver_ok E q g s"
    by (rule driver_ok_same; simp add: start_req_track_def)+
  then show ?case
    using switch_on by (simp add: times_ok_def waiting_ok_def table_ok_def)
      (simp add: start_req_track_def)
next
  case (switch_off cap data s ret data' t F)
  then have t: "t = serv_recording_update (\<lambda>_. False) s" by (simp add: end_req_track_def Let_def)
  have "elv_bag q g t = elv_bag q g s" "driver_ok E q g t = driver_ok E q g s"
    by (rule driver_ok_same; simp add: t)+
  then show ?case
    using switch_off(2) by (simp add: times_ok_def waiting_ok_def table_ok_def) (simp add: t)
next
  case (queue r F s t)
  then show ?case using queue_times by blast
next
  case (fetch s r t F)
  then show ?case using fetch_times by blast
next
  case (finish r F xs s err t)
  then show ?case using finish_times [OF env] by blast
qed

section \<open>The table\<close>

text \<open>
  C31: the tracker's measurements are consistent. After \<open>start_req_track\<close> on an idle queue with the
  greedy scheduler, requests are queued, fetched and completed in any order and any number while the clock
  never runs backwards, and the tracker is switched off and on again at any time. In every entry that
  \<open>end_req_track\<close> hands out, the request arrived no later than its service started, and that was no
  later than its end, which is not in the future; the entries are in the order of their ends.
\<close>

theorem tracker_times_ordered:
  assumes env: "end_env E" and idle: "driver_ok E q g s" "elv_bag q g s = {#}"
    and run: "rtranclp (track_step E q g l) ({}, snd (start_req_track s)) (F, t)"
    and end_call: "end_req_track cap data t = (ret, data', u)" "i < min cap (unat (requests_seen t))"
  shows "ts_le (rs_arrival (data' i)) (rs_serv_start (data' i)) \<and>
    ts_le (rs_serv_start (data' i)) (rs_end (data' i)) \<and> ts_le (rs_end (data' i)) (now_ts t) \<and>
    (\<forall>j \<le> i. ts_le (rs_end (data' j)) (rs_end (data' i)))"
proof -
  let ?s = "snd (start_req_track s)"
  have "elv_bag q g ?s = elv_bag q g s" "driver_ok E q g ?s = driver_ok E q g s"
    by (rule driver_ok_same; simp add: start_req_track_def)+
  then have "times_ok E q g ({}, ?s)"
    using idle by (simp add: times_ok_def waiting_ok_def table_ok_def) (simp add: start_req_track_def)
  with run have "times_ok E q g (F, t)"
    by (induction rule: rtranclp_induct) (auto dest: track_step_times [OF env])
  then have "table_ok t" by (simp add: times_ok_def)
  moreover have "\<forall>j \<le> i. data' j = stored_reqs t j"
    using end_call by (auto simp: end_req_track_def Let_def)
  ultimately show ?thesis using end_call(2) by (simp add: table_ok_def entry_ok_def)
qed

text \<open>An idle queue and a request of one bio that can be queued on it: one run through all steps.\<close>

definition track_idle :: kst where
  "track_idle = serve_idle\<lparr>rqs := (\<lambda>_. rq_zero)(20 := rq_zero\<lparr>cmd_type := REQ_TYPE_FS, rq_q := Some 0,
     rq_rl := Some (RootRl 0), rq_bio := Some 40, biotail := Some 40, data_len := 512,
     cmd_flags := {REQ_ALLOCED, REQ_ELVPRIV}\<rparr>)\<rparr>"

lemma track_idle_ok: "driver_ok greedy_env 0 8 track_idle" "elv_bag 0 8 track_idle = {#}"
proof -
  have "lists_ok track_idle"
    by (auto simp: lists_ok_def track_idle_def serve_idle_def greedy_two_def kst_zero_def rq_zero_def)
  then have "elv_sorted_ok greedy_env 0 8 track_idle"
    by (simp add: elv_sorted_ok_def greedy_installed_def elevator_greedy_env track_idle_def serve_idle_def
        queue_zero_def greedy_two_def eq_zero_def greedy_pending_def kst_zero_def)
  then show "driver_ok greedy_env 0 8 track_idle" "elv_bag 0 8 track_idle = {#}"
    by (simp_all add: driver_ok_def elv_bag_def greedy_pending_def ready_queue_def test_qflag_def)
      (simp_all add: track_idle_def serve_idle_def greedy_two_def kst_zero_def queue_zero_def bit_numeral_rec)
qed

definition track_queueing :: kst where
  "track_queueing =
     now_ts_update (\<lambda>_. \<lparr>tv_sec = 5, tv_nsec = 7\<rparr>) (snd (start_req_track track_idle))"

lemma track_queueing_ok:
  "times_ok greedy_env 0 8 ({}, track_queueing)" "plugged 0 (rqs track_queueing 20)"
  "fetchable 0 (rqs track_queueing 20)" "queuelist (rqs track_queueing 20) = None"
  "carries_bios 0 (RootRl 0) 20 [40] track_queueing" "rl_q (rls track_queueing (RootRl 0)) = 0"
  "serv_recording track_queueing" "requests_seen track_queueing = 0" "elv_bag 0 8 track_queueing = {#}"
proof -
  have s: "elv_bag 0 8 track_queueing = elv_bag 0 8 track_idle"
    "driver_ok greedy_env 0 8 track_queueing = driver_ok greedy_env 0 8 track_idle"
    by (rule driver_ok_same; simp add: track_queueing_def start_req_track_def)+
  show "serv_recording track_queueing" "requests_seen track_queueing = 0" "elv_bag 0 8 track_queueing = {#}"
    by (simp_all add: s track_idle_ok) (simp_all add: track_queueing_def start_req_track_def)
  then show "times_ok greedy_env 0 8 ({}, track_queueing)"
    using track_idle_ok by (simp add: times_ok_def waiting_ok_def table_ok_def s)
  have rqs: "rqs track_queueing = rqs track_idle" "bios track_queueing = bios serve_idle"
    "rls track_queueing = rls serve_idle"
    by (simp_all add: track_queueing_def start_req_track_def track_idle_def)
  show "plugged 0 (rqs track_queueing 20)" "fetchable 0 (rqs track_queueing 20)"
    "queuelist (rqs track_queueing 20) = None" "rl_q (rls track_queueing (RootRl 0)) = 0"
    "carries_bios 0 (RootRl 0) 20 [40] track_queueing"
    by (simp_all add: rqs plugged_def fetchable_def carries_bios_def carrier_def rq_bytes_ok_def cargo_def)
      (auto simp: track_idle_def rq_zero_def serve_idle_def greedy_two_def kst_zero_def rl_zero_def bio_zero_def)
qed

text \<open>The request is queued, fetched and completed.\<close>

lemma track_idle_run:
  obtains t where "rtranclp (track_step greedy_env 0 8 (RootRl 0)) ({}, snd (start_req_track track_idle)) ({}, t)"
    and "requests_seen t = 1" and "rs_arrival (stored_reqs t 0) = \<lparr>tv_sec = 5, tv_nsec = 7\<rparr>"
proof -
  let ?E = greedy_env and ?l = "RootRl 0" and ?s = track_queueing
  let ?step = "track_step greedy_env 0 8 (RootRl 0)"
  note Q = track_queueing_ok
  have dr: "driver_ok ?E 0 8 ?s" and so: "elv_sorted_ok ?E 0 8 ?s"
    using Q(1) by (simp_all add: times_ok_def driver_ok_def)
  have fl: "cmd_type (rqs ?s 20) = REQ_TYPE_FS" "REQ_ELVPRIV \<in> cmd_flags (rqs ?s 20)"
    "cmd_flags (rqs ?s 20) \<inter> {REQ_HASHED, REQ_SOFTBARRIER} = {}"
    using Q(2) by (auto simp: plugged_def)
  obtain t where t: "raw_elv_add_request ?E 0 20 ELEVATOR_INSERT_SORT ?s = Some t"
    "greedy_pending 8 t = add_mset 20 (greedy_pending 8 ?s)" "linked t (QHead 0) = linked ?s (QHead 0)"
    using insert_sort_pending [OF so Q(4) fl] by blast
  note rest = insert_rest [OF so Q(4,2) t(1)]
  note R = rest_ofD [OF rest(1)]
  have 2: "?step ({}, ?s) ({}, t)" using Q(2,3,4) t(1) by (intro track_step.queue) simp_all
  have tt: "times_ok ?E 0 8 ({}, t)" using queue_times [OF Q(1) _ Q(4,2,3) t(1)] by simp
  have bag: "elv_bag 0 8 t = {#20#}" using Q(9) t(2,3) by (simp add: elv_bag_def)
  have "driver_ok ?E 0 8 t" "elv_bag 0 8 t \<noteq> {#}" using tt bag by (simp_all add: times_ok_def)
  then obtain r u where u: "blk_fetch_request ?E 0 t = Some (Some r, u)" "driver_ok ?E 0 8 u"
    "elv_bag 0 8 t = add_mset r (elv_bag 0 8 u)" "\<forall>x. cargo (rqs u x) = cargo (rqs t x)"
    "side u = side t" "queuelist (rqs u r) = None" "\<not> ELV_ON_HASH (rqs u r)"
    "\<forall>x. stamps (rqs u x) = (start_wait (rqs t x), if x = r then now_ts t else start_service (rqs t x))"
    by (rule fetch_some)
  have r: "r = 20" using u(3) bag by simp
  note S = sideD [OF u(5)]
  have 3: "?step ({}, t) ({20}, u)" using track_step.fetch [OF u(1)] r by simp
  have same: "bios u = bios ?s" "told u = told ?s" using S(1) R(7) by (simp_all add: outside_def)
  have "cargo (rqs u 20) = cargo (rqs ?s 20)" using u(4) R(6) by simp
  then have "carries_bios 0 ?l 20 [40] u" using carries_bios_cong [of u 20 ?s "[40]"] Q(5) same(1) by simp
  moreover have "rl_q (rls u ?l) = 0" using S(3) R(8) Q(6) by simp
  ultimately have co: "completable ?E 0 8 ?l 20 [40] u"
    using cargo_completable [OF u(2) _ _ u(6,7)] r by simp
  obtain v where v: "raw_blk_end_request_all ?E 20 None u = Some v"
    "Blk_Views.tracked v = Blk_Views.tracked (req_track ?E 20 u)"
    by (rule raw_blk_end_request_all_run [OF end_env_greedy co, of None])
  have 4: "?step ({20}, u) ({}, v)" using track_step.finish [OF _ co v(1), of "{20}"] by simp
  have 1: "?step ({}, snd (start_req_track track_idle)) ({}, ?s)"
    unfolding track_queueing_def
    by (rule track_step.tick)
      (simp add: ts_le_def start_req_track_def track_idle_def serve_idle_def greedy_two_def kst_zero_def ts_zero_def)
  have "start_wait (rqs u 20) = now_ts ?s" using u(8) rest(4) [of 20] by (simp add: stamps_def)
  then have w: "start_wait (rqs u 20) = \<lparr>tv_sec = 5, tv_nsec = 7\<rparr>" by (simp add: track_queueing_def)
  have "serv_recording u" "requests_seen u = 0"
    using Q(7,8) tasksD(7) [OF S(8)] tasksD(7) [OF R(9)] same(2)
    by (simp_all add: told_def Blk_Views.tracked_def)
  then have "requests_seen v = 1" "rs_arrival (stored_reqs v 0) = \<lparr>tv_sec = 5, tv_nsec = 7\<rparr>"
    using v(2) w by (simp_all add: Blk_Views.tracked_def req_track_def Let_def REQS_RECORDED_def)
  with 1 2 3 4 show thesis
    by (intro that [of v]) (auto intro: converse_rtranclp_into_rtranclp)
qed

lemma tracker_times_ordered_witness:
  "\<exists>t e. rtranclp (track_step greedy_env 0 8 (RootRl 0)) ({}, snd (start_req_track track_idle)) ({}, t) \<and>
     fst (snd (end_req_track 3 (\<lambda>_. stuff_zero) t)) 0 = e \<and> rs_arrival e = \<lparr>tv_sec = 5, tv_nsec = 7\<rparr> \<and>
     entry_ok e"
proof -
  obtain t where t: "rtranclp (track_step greedy_env 0 8 (RootRl 0))
      ({}, snd (start_req_track track_idle)) ({}, t)"
    "requests_seen t = 1" "rs_arrival (stored_reqs t 0) = \<lparr>tv_sec = 5, tv_nsec = 7\<rparr>"
    by (rule track_idle_run)
  obtain ret d u where r: "end_req_track 3 (\<lambda>_. stuff_zero) t = (ret, d, u)" by (metis prod_cases3)
  have d: "d 0 = stored_reqs t 0" using r t(2) by (auto simp: end_req_track_def Let_def)
  have "0 < min 3 (unat (requests_seen t))" by (simp add: t(2))
  from tracker_times_ordered [OF end_env_greedy track_idle_ok t(1) r this] show ?thesis
    using t(1,3) d r by (intro exI [of _ t] exI [of _ "d 0"]) (simp add: entry_ok_def)
qed

end
