(* ===== verification/Kyouko_Lab3.thy ===== *)
theory Kyouko_Lab3
  imports Kyouko_Safety
begin

text \<open>
  The first version of the Kyouko3 driver, without DMA, \<open>src/lab3/mymod.c\<close>, and its relation to
  the second one: the driver of lab 4 answers the commands that both know in the same way.
  Registers and commands are those of theory \<open>Kyouko\<close>; the register file \<open>src/lab3/reg.h\<close> gives
  them the same numbers.
\<close>

section \<open>State\<close>

record 'd kyouko_l3 =
  l3_p_control_base :: u64
  l3_p_card_ram_base :: u64
  l3_control_mapped :: bool
  l3_fifo :: ky_fifo
  l3_graphics_on :: u32
  l3_dev :: 'd
  l3_log :: "ky_event list"

record 'd l3_env =
  l3_dev_read :: "u32 \<Rightarrow> 'd \<Rightarrow> u32 \<times> 'd"
  l3_dev_write :: "u32 \<Rightarrow> u32 \<Rightarrow> 'd \<Rightarrow> 'd"
  l3_dev_step :: "'d \<Rightarrow> 'd"
  l3_pci_resource_start :: "nat \<Rightarrow> u64"
  l3_pci_alloc_consistent :: "u32 \<Rightarrow> 'd kyouko_l3 \<Rightarrow> u64 option"
  l3_remap_pfn_range :: "vm_area \<Rightarrow> u64 \<Rightarrow> u64 \<Rightarrow> int"
  l3_copy_entry :: "u32 \<Rightarrow> 'd \<Rightarrow> fifo_entry"

abbreviation l3_note :: "ky_event \<Rightarrow> 'd kyouko_l3 \<Rightarrow> 'd kyouko_l3" where
  "l3_note e \<equiv> l3_log_update (\<lambda>l. l @ [e])"

section \<open>Registers and the FIFO\<close>

definition l3_K_READ_REG :: "'d l3_env \<Rightarrow> u32 \<Rightarrow> 'd kyouko_l3 \<Rightarrow> (u32 \<times> 'd kyouko_l3) option" where
  "l3_K_READ_REG E reg s =
     (if l3_control_mapped s then
        (let (v, d) = l3_dev_read E (drop_bit 2 reg) (l3_dev s) in Some (v, l3_dev_update (\<lambda>_. d) s))
      else None)"

definition l3_K_WRITE_REG :: "'d l3_env \<Rightarrow> u32 \<Rightarrow> u32 \<Rightarrow> 'd kyouko_l3 \<Rightarrow> 'd kyouko_l3 option" where
  "l3_K_WRITE_REG E reg v s =
     (if l3_control_mapped s then Some (l3_dev_update (l3_dev_write E (drop_bit 2 reg) v) s) else None)"

definition l3_FIFO_WRITE :: "u32 \<Rightarrow> u32 \<Rightarrow> 'd kyouko_l3 \<Rightarrow> 'd kyouko_l3 option" where
  "l3_FIFO_WRITE reg v s =
     (let h = unat (head (l3_fifo s)) in
      if h < length (fifo_k_base (l3_fifo s)) then
        (let s = l3_fifo_update (fifo_k_base_update (\<lambda>k. k[h := \<lparr>command = reg, entry_value = v\<rparr>])) s;
             s = l3_fifo_update (head_update (\<lambda>n. n + 1)) s
         in Some (if head (l3_fifo s) \<ge> FIFO_ENTRIES then l3_fifo_update (head_update (\<lambda>_. 0)) s else s))
      else None)"

fun l3_k_write_all :: "'d l3_env \<Rightarrow> (u32 \<times> u32) list \<Rightarrow> 'd kyouko_l3 \<Rightarrow> 'd kyouko_l3 option" where
  "l3_k_write_all E [] s = Some s"
| "l3_k_write_all E ((r, v) # ws) s = do { s \<leftarrow> l3_K_WRITE_REG E r v s; l3_k_write_all E ws s }"

fun l3_fifo_write_all :: "(u32 \<times> u32) list \<Rightarrow> 'd kyouko_l3 \<Rightarrow> 'd kyouko_l3 option" where
  "l3_fifo_write_all [] s = Some s"
| "l3_fifo_write_all ((r, v) # ws) s = do { s \<leftarrow> l3_FIFO_WRITE r v s; l3_fifo_write_all ws s }"

section \<open>Probing, opening and mapping\<close>

definition l3_kyouko3_probe :: "'d l3_env \<Rightarrow> 'd kyouko_l3 \<Rightarrow> 'd kyouko_l3" where
  "l3_kyouko3_probe E s =
     l3_note Pci_set_master (l3_note Pci_enable
       (s\<lparr>l3_p_control_base := l3_pci_resource_start E 1,
          l3_p_card_ram_base := l3_pci_resource_start E 2\<rparr>))"

definition l3_kyouko3_remove :: "'d kyouko_l3 \<Rightarrow> 'd kyouko_l3" where
  "l3_kyouko3_remove = l3_note Pci_disable"

partial_function (option) l3_pause :: "'d l3_env \<Rightarrow> 'd kyouko_l3 \<Rightarrow> 'd kyouko_l3 option" where
  "l3_pause E s =
     Option.bind (l3_K_READ_REG E FifoTail s) (\<lambda>(v, s).
       if v \<noteq> 0 then l3_pause E (l3_dev_update (l3_dev_step E) s) else Some s)"

definition l3_init_fifo :: "'d l3_env \<Rightarrow> 'd kyouko_l3 \<Rightarrow> 'd kyouko_l3 option" where
  "l3_init_fifo E s = do {
     let (p, k) = (case l3_pci_alloc_consistent E 8192 s of
                     None \<Rightarrow> (fifo_p_base (l3_fifo s), [])
                   | Some p \<Rightarrow> (p, replicate 1024 \<lparr>command = 0, entry_value = 0\<rparr>));
     let s = s\<lparr>l3_fifo := \<lparr>fifo_p_base = p, fifo_k_base = k, head = 0, tail_cache = 0\<rparr>\<rparr>;
     s \<leftarrow> l3_K_WRITE_REG E FifoStart (ucast (fifo_p_base (l3_fifo s))) s;
     s \<leftarrow> l3_K_WRITE_REG E FifoEnd (ucast (fifo_p_base (l3_fifo s) + 8192)) s;
     l3_pause E s
   }"

definition l3_kyouko3_open :: "'d l3_env \<Rightarrow> 'd kyouko_l3 \<Rightarrow> 'd kyouko_l3 option" where
  "l3_kyouko3_open E s = do {
     let s = l3_note (Ioremap (l3_p_control_base s) 65536) (s\<lparr>l3_control_mapped := True\<rparr>);
     (ramsize, s) \<leftarrow> l3_K_READ_REG E Device_RAM s;
     let ramsize = ramsize * (1024 * 1024);
     let s = l3_note (Ioremap (l3_p_card_ram_base s) ramsize) s;
     l3_init_fifo E s
   }"

definition l3_kyouko3_release :: "'d kyouko_l3 \<Rightarrow> 'd kyouko_l3" where
  "l3_kyouko3_release s =
     l3_note (Pci_free 8192 (fifo_p_base (l3_fifo s))) (l3_note Iounmap (l3_note Iounmap s))"

text \<open>
  The physical addresses are cast to \<open>unsigned int\<close> before the shift. The answer is \<open>None\<close> where
  \<open>ret\<close> was never assigned.
\<close>

definition l3_kyouko3_mmap :: "'d l3_env \<Rightarrow> vm_area \<Rightarrow> 'd kyouko_l3 \<Rightarrow> int option" where
  "l3_kyouko3_mmap E v s =
     (let off = push_bit PAGE_SHIFT (vm_pgoff v);
          len = vm_end v - vm_start v;
          pfn = (\<lambda>base. drop_bit PAGE_SHIFT (ucast (ucast base :: u32) :: u64));
          ret = None;
          ret = (if off = 0 then Some (l3_remap_pfn_range E v (pfn (l3_p_control_base s)) len) else ret);
          ret = (if off = 0x80000000
                 then Some (l3_remap_pfn_range E v (pfn (l3_p_card_ram_base s)) len) else ret)
      in ret)"

section \<open>The ioctl\<close>

definition l3_vmode_on_regs :: "(u32 \<times> u32) list" where
  "l3_vmode_on_regs =
     [(Frame_Objects + 0x0000, 1024), (Frame_Objects + 0x0004, 768),
      (Frame_Objects + 0x0008, 1024 * 4), (Frame_Objects + 0x000C, 0xf888),
      (Frame_Objects + 0x0010, 0), (Acceleration, 0x40000000),
      (DAC_Objects + 0x0000, 1024), (DAC_Objects + 0x0004, 768),
      (DAC_Objects + 0x0008, 0), (DAC_Objects + 0x000C, 0), (DAC_Objects + 0x0010, 0),
      (ModeSet, 1)]"

definition l3_vmode_on_cmds :: "(u32 \<times> u32) list" where
  "l3_vmode_on_cmds =
     [(Clear_Color, 0), (Clear_Color + 4, 0), (Clear_Color + 8, 0),
      (Clear_Color + 12, one_as_int), (Clear_Buffer, 0x03), (Flush, 0)]"

definition l3_vmode :: "'d l3_env \<Rightarrow> u32 \<Rightarrow> 'd kyouko_l3 \<Rightarrow> 'd kyouko_l3 option" where
  "l3_vmode E arg s =
     (if sint arg = GRAPHICS_ON then do {
        s \<leftarrow> l3_k_write_all E l3_vmode_on_regs s;
        let s = l3_note (Sleep_ms 10) s;
        s \<leftarrow> l3_fifo_write_all l3_vmode_on_cmds s;
        Some (s\<lparr>l3_graphics_on := 1\<rparr>)
      } else do {
        s \<leftarrow> l3_k_write_all E [(Acceleration, 0x80000000), (ModeSet, 0)] s;
        Some (s\<lparr>l3_graphics_on := 0\<rparr>)
      })"

partial_function (option) l3_flush_loop :: "'d l3_env \<Rightarrow> 'd kyouko_l3 \<Rightarrow> 'd kyouko_l3 option" where
  "l3_flush_loop E s =
     (if tail_cache (l3_fifo s) = head (l3_fifo s) then Some s
      else Option.bind (l3_K_READ_REG E FifoTail s) (\<lambda>(v, s).
             l3_flush_loop E (l3_dev_update (l3_dev_step E)
               (l3_fifo_update (tail_cache_update (\<lambda>_. v)) s))))"

definition l3_kyouko3_ioctl ::
  "'d l3_env \<Rightarrow> ky_cmd \<Rightarrow> u64 \<Rightarrow> 'd kyouko_l3 \<Rightarrow> (int \<times> 'd kyouko_l3) option" where
  "l3_kyouko3_ioctl E cmd uarg s =
     (let arg = ucast uarg :: u32 in
      case cmd of
        VMODE \<Rightarrow> do { s \<leftarrow> l3_vmode E arg s; Some (0, s) }
      | FIFO_QUEUE \<Rightarrow> do {
          let e = l3_copy_entry E arg (l3_dev s);
          s \<leftarrow> l3_FIFO_WRITE (command e) (entry_value e) s;
          Some (0, s)
        }
      | FIFO_FLUSH \<Rightarrow> do {
          s \<leftarrow> l3_K_WRITE_REG E FifoHead (head (l3_fifo s)) s;
          s \<leftarrow> l3_flush_loop E s;
          Some (0, s)
        }
      | _ \<Rightarrow> Some (0, s))"

definition l3_my_init_function :: "'d kyouko_l3 \<Rightarrow> 'd kyouko_l3" where
  "l3_my_init_function s = l3_note Pci_register (l3_note Cdev_add s)"

definition l3_my_exit_function :: "'d kyouko_l3 \<Rightarrow> 'd kyouko_l3" where
  "l3_my_exit_function s = l3_note Pci_unregister (l3_note Cdev_del s)"

section \<open>The lab 4 driver seen as a lab 3 driver\<close>

definition to_l3 :: "'d kyouko \<Rightarrow> 'd kyouko_l3" where
  "to_l3 s = \<lparr>l3_p_control_base = p_control_base s, l3_p_card_ram_base = p_card_ram_base s,
     l3_control_mapped = k_control_mapped s, l3_fifo = fifo s, l3_graphics_on = graphics_on s,
     l3_dev = dev s, l3_log = ky_log s\<rparr>"

text \<open>The same card and the same kernel services.\<close>

definition same_env :: "'d ky_env \<Rightarrow> 'd l3_env \<Rightarrow> bool" where
  "same_env E F \<longleftrightarrow> l3_dev_read F = dev_read E \<and> l3_dev_write F = dev_write E \<and>
     l3_dev_step F = dev_step E \<and> l3_remap_pfn_range F = remap_pfn_range E \<and>
     l3_copy_entry F = copy_entry E"

lemma to_l3_simps [simp]:
  "l3_p_control_base (to_l3 s) = p_control_base s" "l3_p_card_ram_base (to_l3 s) = p_card_ram_base s"
  "l3_control_mapped (to_l3 s) = k_control_mapped s" "l3_fifo (to_l3 s) = fifo s"
  "l3_dev (to_l3 s) = dev s" "l3_log (to_l3 s) = ky_log s"
  "to_l3 (dev_update f s) = l3_dev_update f (to_l3 s)"
  "to_l3 (fifo_update g s) = l3_fifo_update g (to_l3 s)"
  "to_l3 (ky_log_update h s) = l3_log_update h (to_l3 s)"
  "to_l3 (graphics_on_update k s) = l3_graphics_on_update k (to_l3 s)"
  by (simp_all add: to_l3_def)

lemma l3_read:
  "same_env E F \<Longrightarrow> l3_K_READ_REG F r (to_l3 s) = map_option (map_prod id to_l3) (K_READ_REG E r s)"
  by (simp add: l3_K_READ_REG_def K_READ_REG_def same_env_def split: prod.split)

lemma l3_write:
  "same_env E F \<Longrightarrow> l3_K_WRITE_REG F r v (to_l3 s) = map_option to_l3 (K_WRITE_REG E r v s)"
  by (simp add: l3_K_WRITE_REG_def K_WRITE_REG_def same_env_def)

lemma l3_fifo_write: "l3_FIFO_WRITE r v (to_l3 s) = map_option to_l3 (FIFO_WRITE r v s)"
  by (simp add: l3_FIFO_WRITE_def FIFO_WRITE_def Let_def)

lemma l3_write_all:
  "same_env E F \<Longrightarrow> l3_k_write_all F ws (to_l3 s) = map_option to_l3 (k_write_all E ws s)"
proof (induction ws arbitrary: s)
  case (Cons w ws)
  then show ?case
    by (cases w; cases "K_WRITE_REG E (fst w) (snd w) s") (simp_all add: l3_write)
qed simp

lemma l3_fifo_all: "l3_fifo_write_all ws (to_l3 s) = map_option to_l3 (fifo_write_all ws s)"
proof (induction ws arbitrary: s)
  case (Cons w ws)
  then show ?case
    by (cases w; cases "FIFO_WRITE (fst w) (snd w) s") (simp_all add: l3_fifo_write)
qed simp

lemma l3_vmode_lists: "l3_vmode_on_regs = vmode_on_regs" "l3_vmode_on_cmds = vmode_on_cmds"
  by (simp_all add: l3_vmode_on_regs_def vmode_on_regs_def l3_vmode_on_cmds_def vmode_on_cmds_def)

lemma l3_vmode_eq:
  assumes "same_env E F"
  shows "l3_vmode F a (to_l3 s) = map_option to_l3 (ky_vmode E a s)"
proof (cases "sint a = GRAPHICS_ON")
  case True
  show ?thesis
  proof (cases "k_write_all E vmode_on_regs s")
    case None
    with True show ?thesis by (simp add: l3_vmode_def ky_vmode_def l3_vmode_lists l3_write_all [OF assms])
  next
    case (Some t)
    have n: "l3_note e (to_l3 t) = to_l3 (ky_note e t)" for e by simp
    show ?thesis
      using True Some
      by (cases "fifo_write_all vmode_on_cmds (ky_note (Sleep_ms 10) t)")
        (simp_all add: l3_vmode_def ky_vmode_def l3_vmode_lists l3_write_all [OF assms] Let_def n
          l3_fifo_all del: to_l3_simps(9))
  qed
next
  case False
  define ws :: "(u32 \<times> u32) list" where "ws = [(Acceleration, 0x80000000), (ModeSet, 0)]"
  show ?thesis
    using False unfolding l3_vmode_def ky_vmode_def ws_def [symmetric]
    by (cases "k_write_all E ws s") (simp_all add: l3_write_all [OF assms])
qed

text \<open>The loops that wait for the card: each returns exactly if the other does.\<close>

lemma l3_flush_loop_only:
  assumes "l3_flush_loop F u = Some u'" and "same_env E F" and "u = to_l3 s"
  shows "\<exists>t. flush_loop E s = Some t \<and> u' = to_l3 t"
  using assms
proof (induction arbitrary: s rule: l3_flush_loop.raw_induct [rotated, consumes 1, case_names step])
  case (step f F u u')
  show ?case
  proof (cases "tail_cache (fifo s) = head (fifo s)")
    case True
    with step(2,4) show ?thesis by (subst flush_loop.simps) simp
  next
    case False
    obtain v x where r: "K_READ_REG E FifoTail s = Some (v, x)"
      using step(2,4) False l3_read [OF step(3), of FifoTail s]
      by (cases "K_READ_REG E FifoTail s") auto
    have sd: "l3_dev_step F = dev_step E" using step(3) by (simp add: same_env_def)
    let ?y = "dev_update (dev_step E) (fifo_update (tail_cache_update (\<lambda>_. v)) x)"
    have "f F (to_l3 ?y) = Some u'"
      using step(2,4) False l3_read [OF step(3), of FifoTail s] r by (simp add: sd)
    from step(1) [OF this step(3) refl] obtain t where "flush_loop E ?y = Some t" "u' = to_l3 t" by blast
    with r False show ?thesis by (subst flush_loop.simps) simp
  qed
qed

lemma l3_flush_loop_if:
  assumes "flush_loop E s = Some t" and "same_env E F"
  shows "l3_flush_loop F (to_l3 s) = Some (to_l3 t)"
  using assms
proof (induction rule: flush_loop.raw_induct [rotated, consumes 1, case_names step])
  case (step f E s t)
  show ?case
  proof (cases "tail_cache (fifo s) = head (fifo s)")
    case True
    with step(2) show ?thesis by (subst l3_flush_loop.simps) simp
  next
    case False
    with step(2) obtain v x where r: "K_READ_REG E FifoTail s = Some (v, x)"
      and f: "f E (dev_update (dev_step E) (fifo_update (tail_cache_update (\<lambda>_. v)) x)) = Some t"
      by (auto simp: Option.bind_eq_Some_conv)
    have sd: "l3_dev_step F = dev_step E" using step(3) by (simp add: same_env_def)
    from step(1) [OF f step(3)] l3_read [OF step(3), of FifoTail s] r False show ?thesis
      by (subst l3_flush_loop.simps) (simp add: sd)
  qed
qed

lemma l3_flush_loop_eq:
  assumes "same_env E F"
  shows "l3_flush_loop F (to_l3 s) = map_option to_l3 (flush_loop E s)"
proof (cases "flush_loop E s")
  case None
  then have "l3_flush_loop F (to_l3 s) = None"
    using l3_flush_loop_only [OF _ assms refl, of s] by (cases "l3_flush_loop F (to_l3 s)") auto
  with None show ?thesis by simp
next
  case (Some t)
  with l3_flush_loop_if [OF Some assms] show ?thesis by simp
qed

lemma l3_ioctl_eq:
  assumes env: "same_env E F" and cmd: "cmd \<in> {VMODE, FIFO_QUEUE, FIFO_FLUSH}"
  shows "l3_kyouko3_ioctl F cmd arg (to_l3 s) = map_option (map_prod id to_l3) (kyouko3_ioctl E cmd arg s)"
proof -
  have ce: "l3_copy_entry F = copy_entry E" using env by (simp add: same_env_def)
  consider "cmd = VMODE" | "cmd = FIFO_QUEUE" | "cmd = FIFO_FLUSH" using cmd by blast
  then show ?thesis
  proof cases
    case 1
    then show ?thesis
      by (cases "ky_vmode E (ucast arg) s") (simp_all add: l3_kyouko3_ioctl_def kyouko3_ioctl_def l3_vmode_eq [OF env])
  next
    case 2
    let ?e = "copy_entry E (ucast arg) (dev s)"
    show ?thesis using 2
      by (cases "FIFO_WRITE (command ?e) (entry_value ?e) s")
        (simp_all add: l3_kyouko3_ioctl_def kyouko3_ioctl_def l3_fifo_write Let_def ce)
  next
    case 3
    show ?thesis
    proof (cases "K_WRITE_REG E FifoHead (head (fifo s)) s")
      case None
      with 3 show ?thesis
        by (simp add: l3_kyouko3_ioctl_def kyouko3_ioctl_def fifo_flush_def l3_write [OF env])
    next
      case (Some t)
      with 3 show ?thesis
        by (cases "flush_loop E t")
          (simp_all add: l3_kyouko3_ioctl_def kyouko3_ioctl_def fifo_flush_def l3_write [OF env]
            l3_flush_loop_eq [OF env])
    qed
  qed
qed

text \<open>
  On the commands that both drivers know, \<open>VMODE\<close>, \<open>FIFO_QUEUE\<close> and \<open>FIFO_FLUSH\<close>, the driver of
  lab 4 does what the driver of lab 3 does, if its DMA state is left out: the same accesses to the
  card in the same order, the same FIFO and the same answer; and the one does not return where the
  other does not.
\<close>

theorem lab3_ioctl_equivalent:
  assumes env: "same_env E F" and cmd: "cmd \<in> {VMODE, FIFO_QUEUE, FIFO_FLUSH}"
  shows "l3_kyouko3_ioctl F cmd arg (to_l3 s) = map_option (map_prod id to_l3) (kyouko3_ioctl E cmd arg s)"
  by (rule l3_ioctl_eq [OF assms])

text \<open>
  Mapping memory is where the two differ. Where the offset selects the registers or the memory
  of the card, both map the same pages if the physical address is below 4 GB; above, the older
  driver loses the high half of the address. For any other offset its result is undefined.
\<close>

theorem lab3_mmap_low_memory:
  assumes env: "same_env E F" and off: "push_bit PAGE_SHIFT (vm_pgoff v) \<in> {0, 0x80000000}"
    and low: "unat (p_control_base s) < 2 ^ 32" "unat (p_card_ram_base s) < 2 ^ 32"
  shows "l3_kyouko3_mmap F v (to_l3 s) = map_option fst (kyouko3_mmap E v s)"
proof -
  have t: "(ucast (ucast w :: u32) :: u64) = w" if "unat w < 2 ^ 32" for w :: u64
  proof -
    have "unat (ucast (ucast w :: u32) :: u64) = unat w"
      using that by (simp add: unsigned_ucast_eq unsigned_take_bit_eq take_bit_nat_eq_self)
    then show ?thesis by (simp add: word_unat_eq_iff)
  qed
  show ?thesis
    using off env
    by (auto simp: l3_kyouko3_mmap_def kyouko3_mmap_def Let_def same_env_def t [OF low(1)] t [OF low(2)])
qed


section \<open>Instances\<close>

definition l3_env0 :: "u32 l3_env" where
  "l3_env0 = \<lparr>l3_dev_read = dev_read ky_env0, l3_dev_write = dev_write ky_env0,
     l3_dev_step = dev_step ky_env0, l3_pci_resource_start = pci_resource_start ky_env0,
     l3_pci_alloc_consistent = (\<lambda>n s. Some 4096), l3_remap_pfn_range = remap_pfn_range ky_env0,
     l3_copy_entry = copy_entry ky_env0\<rparr>"

lemma same_env0 [simp]: "same_env ky_env0 l3_env0"
  by (simp add: same_env_def l3_env0_def)

theorem lab3_ioctl_equivalent_witness:
  "map_option fst (l3_kyouko3_ioctl l3_env0 FIFO_QUEUE 12 (to_l3 ky_opened)) = Some 0"
proof -
  have "map_option fst (kyouko3_ioctl ky_env0 FIFO_QUEUE 12 ky_opened) = Some 0" by code_simp
  with lab3_ioctl_equivalent [OF same_env0, of FIFO_QUEUE 12 ky_opened] show ?thesis
    by (simp add: option.map_comp comp_def)
qed

theorem lab3_mmap_low_memory_witness:
  "l3_kyouko3_mmap l3_env0 \<lparr>vm_start = 0, vm_end = 4096, vm_pgoff = 0\<rparr> (to_l3 ky_probed) =
    map_option fst (kyouko3_mmap ky_env0 \<lparr>vm_start = 0, vm_end = 4096, vm_pgoff = 0\<rparr> ky_probed)"
  by (rule lab3_mmap_low_memory [OF same_env0]) (simp_all add: ky_probed_def)

end
