(* ===== verification/Kyouko_Bind.thy ===== *)
theory Kyouko_Bind
  imports Kyouko_Steps
begin

text \<open>
  The life of the DMA buffers of \<open>src/lab4/mymod.c\<close>: what \<open>BIND_DMA\<close> allocates and shows to the user,
  what happens to the buffers while they are used, and what \<open>UNBIND_DMA\<close> gives back.
\<close>

section \<open>Binding\<close>

text \<open>The memory is there, and the kernel finds the address \<open>va i\<close> for the \<open>i\<close>-th mapping.\<close>

definition bind_env :: "'d ky_env \<Rightarrow> (nat \<Rightarrow> vm_area) \<Rightarrow> bool" where
  "bind_env E va \<longleftrightarrow> (\<forall>s. pci_alloc_consistent E (124 * 1024) s \<noteq> None) \<and>
     (\<forall>i<8. \<forall>s. user_mmap E i s = Some (va i)) \<and> (\<forall>d. pci_enable_msi E d = 0) \<and> (\<forall>d. request_irq E d = 0)"

text \<open>The address of entry \<open>i\<close> in the user's array, and the store of a mapping's address into it.\<close>

definition slot_store :: "u32 \<Rightarrow> (nat \<Rightarrow> vm_area) \<Rightarrow> nat \<Rightarrow> ky_event" where
  "slot_store a va i = User_store (ucast a + 16 * of_nat i) (vm_start (va i))"

definition page_of :: "k_dmabuff \<Rightarrow> u64" where
  "page_of b = drop_bit PAGE_SHIFT (p_base b)"

lemma ky_inv_pages [simp]: "ky_inv (ky_pages_update f s) = ky_inv s"
  by (simp add: ky_inv_def ky_ok_def)

text \<open>
  One buffer. The page shown is that of the buffer at \<open>mmap_index\<close>, whichever that is.
\<close>

lemma bind_one_effect:
  assumes env: "bind_env E va" and s: "ky_inv s" and i: "i < 8"
  shows "\<exists>t p. bind_one E a i s = Some t \<and> ky_inv t \<and> mmap_index t = (mmap_index s + 1) mod NUM_BUFS \<and>
    dmabuffs t = (dmabuffs s)[i := (dmabuffs s ! i)\<lparr>p_base := p, k_mapped := True,
      u_dma_bufferAddress := vm_start (va i)\<rparr>] \<and>
    ky_pages t = ky_pages s @ [(vm_start (va i), page_of (dmabuffs t ! unat (mmap_index s)))] \<and>
    ky_log t = ky_log s @ [slot_store a va i]"
proof -
  have "\<exists>p. pci_alloc_consistent E (124 * 1024) s = Some p" using env by (simp add: bind_env_def)
  then obtain p where p: "pci_alloc_consistent E (124 * 1024) s = Some p" by (rule exE)
  define b where "b = (dmabuffs s ! i)\<lparr>p_base := p, k_mapped := True\<rparr>"
  define v where "v = (va i)\<lparr>vm_pgoff := 0x90000\<rparr>"
  define x where "x = s\<lparr>dmabuffs := (dmabuffs s)[i := b]\<rparr>"
  have len: "length (dmabuffs s) = 8" and j: "unat (mmap_index s) < 8"
    using s by (simp_all add: ky_inv_def ky_ok_def)
  have x: "ky_inv x" using s by (simp add: x_def)
  let ?t = "\<lambda>y. ky_note (slot_store a va i)
    (y\<lparr>dmabuffs := (dmabuffs x)[i := b\<lparr>u_dma_bufferAddress := vm_start (va i)\<rparr>]\<rparr>)"
  define y where "y = show_page v (page_of ((dmabuffs s)[i := b] ! unat (mmap_index s)))
    (x\<lparr>ky_vma := Some v, mmap_index := (mmap_index s + 1) mod NUM_BUFS\<rparr>)"
  have m: "\<exists>r. kyouko3_mmap E v x = Some (r, y)"
    using len j by (simp add: kyouko3_mmap_def Let_def v_def x_def y_def PAGE_SHIFT_def page_of_def)
  have al: "pci_alloc_consistent E 126976 s = Some p" using p by simp
  have um: "user_mmap E i x = Some (va i)" using env i by (simp add: bind_env_def)
  have y: "dmabuffs y = (dmabuffs s)[i := b]" "ky_vma y = Some v" by (simp_all add: y_def x_def)
  have run: "bind_one E a i s = Some (?t y)"
    using len i m um y al
    by (auto simp: bind_one_def Let_def x_def [symmetric] b_def [symmetric] v_def [symmetric] slot_store_def)
      (simp_all add: v_def x_def)
  obtain r where r: "kyouko3_mmap E v x = Some (r, y)" using m by blast
  have "ky_inv y" using ky_inv_mmap [OF x, of E v] r by simp
  then have "ky_inv (?t y)" by (simp add: x_def y ky_inv_buf)
  moreover have "page_of ((dmabuffs s)[i := b] ! unat (mmap_index s)) =
      page_of (dmabuffs (?t y) ! unat (mmap_index s))"
    using len i by (cases "unat (mmap_index s) = i") (simp_all add: x_def page_of_def)
  ultimately show ?thesis
    using run len i
    by (intro exI [of _ "?t y"] exI [of _ p]) (simp add: y_def x_def b_def v_def)
qed

text \<open>
  If the user has made a mapping at another offset before, \<open>mmap_index\<close> is ahead: the address that
  is stored for buffer \<open>i\<close> shows the memory of another buffer.
\<close>

theorem bind_one_other_buffer:
  assumes "bind_env E va" and "ky_inv s" and "i < 8" and "unat (mmap_index s) \<noteq> i"
  shows "\<exists>t. bind_one E a i s = Some t \<and> u_dma_bufferAddress (dmabuffs t ! i) = vm_start (va i) \<and>
    last (ky_pages t) = (vm_start (va i), page_of (dmabuffs s ! unat (mmap_index s)))"
proof -
  have "length (dmabuffs s) = 8" using assms(2) by (simp add: ky_inv_def ky_ok_def)
  with bind_one_effect [OF assms(1-3), of a] assms(3,4) show ?thesis by fastforce
qed

lemma bind_all_effect:
  assumes env: "bind_env E va" and "ky_inv s" and "k \<le> 8" and "unat (mmap_index s) = k mod 8"
  shows "\<exists>t. bind_all E a [k..<8] s = Some t \<and> ky_inv t \<and> mmap_index t = 0 \<and>
    take k (dmabuffs t) = take k (dmabuffs s) \<and>
    (\<forall>i. k \<le> i \<longrightarrow> i < 8 \<longrightarrow> k_mapped (dmabuffs t ! i) \<and> u_dma_bufferAddress (dmabuffs t ! i) = vm_start (va i)) \<and>
    ky_pages t = ky_pages s @ map (\<lambda>i. (vm_start (va i), page_of (dmabuffs t ! i))) [k..<8] \<and>
    ky_log t = ky_log s @ map (slot_store a va) [k..<8]"
  using assms(2-4)
proof (induction "8 - k" arbitrary: k s)
  case 0
  then have "k = 8" "mmap_index s = 0" by (auto simp: unat_eq_0)
  with 0 show ?case by simp
next
  case (Suc n)
  then have k: "k < 8" by simp
  obtain u p where u: "bind_one E a k s = Some u" "ky_inv u" "mmap_index u = (mmap_index s + 1) mod NUM_BUFS"
    "dmabuffs u = (dmabuffs s)[k := (dmabuffs s ! k)\<lparr>p_base := p, k_mapped := True,
      u_dma_bufferAddress := vm_start (va k)\<rparr>]"
    "ky_pages u = ky_pages s @ [(vm_start (va k), page_of (dmabuffs u ! unat (mmap_index s)))]"
    "ky_log u = ky_log s @ [slot_store a va k]"
    using bind_one_effect [OF env Suc.prems(1) k] by blast
  have idx: "unat (mmap_index u) = Suc k mod 8"
  proof -
    have "unat (mmap_index s + 1) = Suc k"
      using k Suc.prems(3) unat_add_lem [of "mmap_index s" 1] by simp
    then show ?thesis by (simp add: u(3) unat_mod NUM_BUFS_def)
  qed
  have "n = 8 - Suc k" "Suc k \<le> 8" using Suc.hyps(2) k by simp_all
  from Suc.hyps(1) [OF this(1) u(2) this(2) idx] obtain t where
    t: "bind_all E a [Suc k..<8] u = Some t" "ky_inv t" "mmap_index t = 0"
      "take (Suc k) (dmabuffs t) = take (Suc k) (dmabuffs u)"
      "\<forall>i. Suc k \<le> i \<longrightarrow> i < 8 \<longrightarrow> k_mapped (dmabuffs t ! i) \<and> u_dma_bufferAddress (dmabuffs t ! i) = vm_start (va i)"
      "ky_pages t = ky_pages u @ map (\<lambda>i. (vm_start (va i), page_of (dmabuffs t ! i))) [Suc k..<8]"
      "ky_log t = ky_log u @ map (slot_store a va) [Suc k..<8]"
    by blast
  have len: "length (dmabuffs s) = 8" "length (dmabuffs t) = 8"
    using Suc.prems(1) t(2) by (simp_all add: ky_inv_def ky_ok_def)
  have tk: "dmabuffs t ! k = dmabuffs u ! k"
    using arg_cong [OF t(4), of "\<lambda>l. l ! k"] by simp
  have "take k (dmabuffs t) = take k (dmabuffs s)"
    using arg_cong [OF t(4), of "take k"] by (simp add: u(4))
  moreover have "k_mapped (dmabuffs t ! i) \<and> u_dma_bufferAddress (dmabuffs t ! i) = vm_start (va i)"
    if "k \<le> i" "i < 8" for i
    using that t(5) tk k len by (cases "i = k") (simp_all add: u(4))
  moreover have "[k..<8] = k # [Suc k..<8]" using k by (simp add: upt_conv_Cons)
  moreover have "unat (mmap_index s) = k" using Suc.prems(3) k by simp
  ultimately show ?case using u(1,5,6) t(1-3,6,7) tk by simp
qed

lemma bind_dma_effect:
  assumes env: "bind_env E va" and s: "ky_inv s" and i: "mmap_index s = 0"
  shows "\<exists>t. bind_dma E a s = Some (0, t) \<and> ky_inv t \<and> mmap_index t = 0 \<and>
    (\<forall>i<8. k_mapped (dmabuffs t ! i) \<and> u_dma_bufferAddress (dmabuffs t ! i) = vm_start (va i)) \<and>
    ky_pages t = ky_pages s @ map (\<lambda>i. (vm_start (va i), page_of (dmabuffs t ! i))) [0..<8] \<and>
    ky_log t = ky_log s @ map (slot_store a va) [0..<8] @ [Enable_msi, Request_irq]"
proof -
  obtain u where u: "bind_all E a [0..<8] s = Some u" "ky_inv u" "mmap_index u = 0"
    "\<forall>i<8. k_mapped (dmabuffs u ! i) \<and> u_dma_bufferAddress (dmabuffs u ! i) = vm_start (va i)"
    "ky_pages u = ky_pages s @ map (\<lambda>i. (vm_start (va i), page_of (dmabuffs u ! i))) [0..<8]"
    "ky_log u = ky_log s @ map (slot_store a va) [0..<8]"
    using bind_all_effect [OF env s, of 0 a] i by auto
  define t where "t = dev_update (dev_write E (drop_bit 2 InterruptSet) 2) (ky_note Request_irq (ky_note Enable_msi u))"
  have n: "[0..<unat NUM_BUFS] = [0..<8]" by (simp add: NUM_BUFS_def)
  have "bind_dma E a s = Some (0, t)"
    using env u(1,2)
    by (simp add: bind_dma_def n bind_env_def Let_def K_WRITE_REG_def t_def ky_inv_def ky_ok_def del: upt_rec_numeral)
  moreover have "ky_inv t" using u(2) by (simp add: t_def)
  ultimately show ?thesis using u(3-6) by (intro exI [of _ t]) (simp add: t_def del: upt_rec_numeral)
qed


section \<open>Using the buffers\<close>

text \<open>Where the buffers are, and what their users know of them.\<close>

definition bindings :: "'d kyouko \<Rightarrow> (u64 \<times> bool \<times> u64) list" where
  "bindings s = map (\<lambda>b. (p_base b, k_mapped b, u_dma_bufferAddress b)) (dmabuffs s)"

definition same_bindings :: "'d kyouko \<Rightarrow> 'd kyouko \<Rightarrow> bool" where
  "same_bindings s t \<longleftrightarrow> bindings t = bindings s"

lemma same_bindings_refl: "dmabuffs t = dmabuffs s \<Longrightarrow> same_bindings s t"
  by (simp add: same_bindings_def bindings_def)

lemma same_bindings_trans: "same_bindings s t \<Longrightarrow> same_bindings t u \<Longrightarrow> same_bindings s u"
  by (simp add: same_bindings_def)

lemma same_bindings_nth:
  assumes "same_bindings s t"
  shows "length (dmabuffs t) = length (dmabuffs s)"
    and "i < length (dmabuffs s) \<Longrightarrow> p_base (dmabuffs t ! i) = p_base (dmabuffs s ! i)"
    and "i < length (dmabuffs s) \<Longrightarrow> k_mapped (dmabuffs t ! i) = k_mapped (dmabuffs s ! i)"
    and "i < length (dmabuffs s) \<Longrightarrow>
      u_dma_bufferAddress (dmabuffs t ! i) = u_dma_bufferAddress (dmabuffs s ! i)"
proof -
  have b: "bindings t = bindings s" using assms by (simp add: same_bindings_def)
  show l: "length (dmabuffs t) = length (dmabuffs s)"
    using arg_cong [OF b, of length] by (simp add: bindings_def)
  show "i < length (dmabuffs s) \<Longrightarrow> p_base (dmabuffs t ! i) = p_base (dmabuffs s ! i)"
    and "i < length (dmabuffs s) \<Longrightarrow> k_mapped (dmabuffs t ! i) = k_mapped (dmabuffs s ! i)"
    and "i < length (dmabuffs s) \<Longrightarrow>
      u_dma_bufferAddress (dmabuffs t ! i) = u_dma_bufferAddress (dmabuffs s ! i)"
    using arg_cong [OF b, of "\<lambda>l. l ! i"] l by (simp_all add: bindings_def)
qed

lemma K_WRITE_REG_bufs: "K_WRITE_REG E r v s = Some t \<Longrightarrow> dmabuffs t = dmabuffs s"
  by (auto simp: K_WRITE_REG_def split: if_splits)

lemma K_READ_REG_bufs: "K_READ_REG E r s = Some (v, t) \<Longrightarrow> dmabuffs t = dmabuffs s"
  by (auto simp: K_READ_REG_def split: if_splits prod.splits)

lemma k_write_all_bufs: "k_write_all E ws s = Some t \<Longrightarrow> dmabuffs t = dmabuffs s"
  by (induction E ws s rule: k_write_all.induct) (auto simp: Option.bind_eq_Some_conv dest: K_WRITE_REG_bufs)

lemma fifo_write_all_bufs: "fifo_write_all ws s = Some t \<Longrightarrow> dmabuffs t = dmabuffs s"
  by (induction ws s rule: fifo_write_all.induct) (auto simp: Option.bind_eq_Some_conv dest: FIFO_WRITE_frame)

lemma flush_loop_bufs: "flush_loop E s = Some t \<Longrightarrow> dmabuffs t = dmabuffs s"
proof (induction rule: flush_loop.raw_induct [rotated, consumes 1, case_names step])
  case (step f E s t)
  then show ?case
    by (auto simp: Option.bind_eq_Some_conv split: if_splits dest: K_READ_REG_bufs)
qed

text \<open>What happens while a caller sleeps keeps the buffers.\<close>

definition sleep_keeps :: "'d ky_env \<Rightarrow> bool" where
  "sleep_keeps E \<longleftrightarrow> ky_sleep_ok E \<and> (\<forall>s. same_bindings s (ky_sleep E s))"

lemma wait_dma_bindings:
  "wait_dma E s = Some t \<Longrightarrow> sleep_keeps E \<Longrightarrow> same_bindings s t"
proof (induction rule: wait_dma.raw_induct [rotated, consumes 1, case_names step])
  case (step f E s t)
  then show ?case
    by (auto simp: sleep_keeps_def same_bindings_refl split: if_splits intro: same_bindings_trans)
qed

lemma transfer_bindings:
  assumes "initiate_transfer E n s = Some (r, t)" and "sleep_keeps E"
  shows "same_bindings s t"
proof -
  have sub: "same_bindings s u" if "transfer_submit E n s = Some (b, u)" for b u
    using that
    by (auto simp: transfer_submit_def ky_lock_irq_def ky_unlock_irq_def Let_def Option.bind_eq_Some_conv
        K_WRITE_REG_def same_bindings_def bindings_def list_eq_iff_nth_eq nth_list_update FIFO_WRITE_frame
        split: if_splits dest!: FIFO_WRITE_frame(1))
  with assms show ?thesis
    by (auto simp: initiate_transfer_def Option.bind_eq_Some_conv split: if_splits
        dest: wait_dma_bindings intro: same_bindings_trans)
qed

lemma ioctl_bindings:
  assumes "kyouko3_ioctl E cmd arg s = Some (r, t)" and "cmd \<noteq> BIND_DMA" and "sleep_keeps E"
  shows "same_bindings s t"
proof (cases cmd)
  case VMODE
  with assms show ?thesis
    by (auto simp: kyouko3_ioctl_def ky_vmode_def Let_def Option.bind_eq_Some_conv same_bindings_refl
        simp del: k_write_all.simps fifo_write_all.simps split: if_splits dest!: k_write_all_bufs fifo_write_all_bufs)
next
  case START_DMA
  with assms show ?thesis
    by (auto simp: kyouko3_ioctl_def Option.bind_eq_Some_conv dest: transfer_bindings)
next
  case FIFO_QUEUE
  with assms show ?thesis
    by (auto simp: kyouko3_ioctl_def Let_def Option.bind_eq_Some_conv same_bindings_refl dest: FIFO_WRITE_frame)
next
  case FIFO_FLUSH
  with assms show ?thesis
    by (auto simp: kyouko3_ioctl_def fifo_flush_def Option.bind_eq_Some_conv same_bindings_refl
        dest!: K_WRITE_REG_bufs flush_loop_bufs)
next
  case UNBIND_DMA
  have un: "unbind_all is s = Some u \<Longrightarrow> dmabuffs u = dmabuffs s" for "is" s u
    by (induction "is" s rule: unbind_all.induct) (auto split: if_splits)
  with UNBIND_DMA assms show ?thesis
    by (auto simp: kyouko3_ioctl_def unbind_dma_def Option.bind_eq_Some_conv same_bindings_refl
        dest!: K_WRITE_REG_bufs un)
qed (use assms in \<open>simp_all add: kyouko3_ioctl_def same_bindings_refl\<close>)


text \<open>A run of the driver in which the buffers are neither bound nor unbound.\<close>

inductive dma_session :: "'d ky_env \<Rightarrow> 'd kyouko \<Rightarrow> 'd kyouko \<Rightarrow> bool" for E s where
  start: "dma_session E s s"
| ioctl: "dma_session E s t \<Longrightarrow> cmd \<noteq> BIND_DMA \<Longrightarrow> cmd \<noteq> UNBIND_DMA \<Longrightarrow>
    kyouko3_ioctl E cmd arg t = Some (r, u) \<Longrightarrow> dma_session E s u"
| irq: "dma_session E s t \<Longrightarrow> rkintr E t = Some (q, u) \<Longrightarrow> dma_session E s u"
| mmap: "dma_session E s t \<Longrightarrow> kyouko3_mmap E v t = Some (r, u) \<Longrightarrow> dma_session E s u"
| card: "dma_session E s t \<Longrightarrow> dma_session E s (dev_update (dev_step E) t)"

lemma mmap_bufs: "kyouko3_mmap E v s = Some (r, t) \<Longrightarrow> dmabuffs t = dmabuffs s"
  by (auto simp: kyouko3_mmap_def Let_def split: if_splits)

lemma dma_session_keeps:
  assumes "dma_session E s t" and "ky_inv s" and "sleep_keeps E"
  shows "ky_inv t \<and> same_bindings s t"
  using assms(1)
proof induction
  case start
  show ?case using assms(2) by (simp add: same_bindings_refl)
next
  case (ioctl t cmd arg r u)
  have "ky_sleep_ok E" using assms(3) by (simp add: sleep_keeps_def)
  with ioctl show ?case
    using ky_inv_ioctl [of E t cmd arg r u] ioctl_bindings [OF ioctl(4) ioctl(2) assms(3)] same_bindings_trans
    by blast
next
  case (irq t q u)
  then have "ky_ok t" by (simp add: ky_inv_def)
  from rkintr_result [OF this, of E] irq(2) have "dmabuffs u = dmabuffs t" by auto
  with irq ky_inv_rkintr [of t E] show ?case
    using same_bindings_trans [OF _ same_bindings_refl [of u t]] by auto
next
  case (mmap t v r u)
  with mmap_bufs [OF mmap(2)] ky_inv_mmap [of t E v] show ?case
    using same_bindings_trans [OF _ same_bindings_refl [of u t]] by auto
next
  case (card t)
  then show ?case
    using same_bindings_trans [OF _ same_bindings_refl [of "dev_update (dev_step E) t" t]] by auto
qed

section \<open>Unbinding\<close>

definition give_back :: "k_dmabuff \<Rightarrow> ky_event list" where
  "give_back b = [Munmap (u_dma_bufferAddress b) 126976, Pci_free 126976 (p_base b)]"

lemma unbind_all_effect:
  "list_all (\<lambda>i. i < length (dmabuffs s)) is \<Longrightarrow>
   unbind_all is s = Some (ky_log_update (\<lambda>l. l @ concat (map (\<lambda>i. give_back (dmabuffs s ! i)) is)) s)"
proof (induction "is" arbitrary: s)
  case Nil
  then show ?case by simp
next
  case (Cons i "is")
  then show ?case by (simp add: give_back_def comp_def)
qed

lemma unbind_dma_effect:
  assumes "ky_inv s"
  shows "\<exists>t. unbind_dma E s = Some t \<and>
    ky_log t = ky_log s @ concat (map (\<lambda>i. give_back (dmabuffs s ! i)) [0..<8]) @ [Free_irq, Disable_msi]"
proof -
  have "list_all (\<lambda>i. i < length (dmabuffs s)) [0..<unat NUM_BUFS]"
    using assms by (simp add: ky_inv_def ky_ok_def NUM_BUFS_def list_all_iff)
  from unbind_all_effect [OF this] show ?thesis
    using assms by (simp add: unbind_dma_def K_WRITE_REG_def ky_inv_def ky_ok_def NUM_BUFS_def del: upt_rec_numeral)
qed


section \<open>Examples\<close>

definition bind_env0 :: "u32 ky_env" where
  "bind_env0 = ky_env0\<lparr>user_mmap := (\<lambda>i s. Some \<lparr>vm_start = 0x20000 * of_nat (i + 1),
     vm_end = 0x20000 * of_nat (i + 2), vm_pgoff = 0\<rparr>)\<rparr>"

lemma bind_env0_ok:
  "bind_env bind_env0 (\<lambda>i. \<lparr>vm_start = 0x20000 * of_nat (i + 1), vm_end = 0x20000 * of_nat (i + 2), vm_pgoff = 0\<rparr>)"
  "sleep_keeps bind_env0"
  by (simp_all add: bind_env_def sleep_keeps_def bind_env0_def ky_env0_def ky_sleep_ok_def ky_inv_def ky_ok_def
      same_bindings_refl)

lemma ky_inv_opened: "ky_inv ky_opened"
  using ky_ok_opened by (simp add: ky_inv_def ky_opened_def ky_probed_def)


end
