(* ===== verification/Kyouko_User.thy ===== *)
theory Kyouko_User
  imports Kyouko_Safety
begin

text \<open>
  The user programs of the Kyouko3 driver: \<open>src/lab4/user.c\<close> in its two modes, \<open>fifo\<close> and \<open>dma\<close>,
  and \<open>src/lab4/smp.c\<close>. They run against the driver of theory \<open>Kyouko\<close>: a system call is the entry
  point of the driver, on the state that the program and the driver share.

  A \<open>float\<close> is its bit pattern, as \<open>float_to_uint\<close> reads it. \<open>rand\<close> and the arithmetic on its
  results are parameters.
\<close>

section \<open>State\<close>

text \<open>The bit fields of \<open>DMAhdr\<close>, at their widths, and the word they share.\<close>

record DMAhdr =
  hdr_address :: "14 word"
  hdr_count :: "10 word"
  hdr_opcode :: "8 word"

definition hdr_word :: "DMAhdr \<Rightarrow> u32" where
  "hdr_word h = ucast (hdr_address h) OR push_bit 14 (ucast (hdr_count h)) OR
     push_bit 24 (ucast (hdr_opcode h))"

definition TRIANGLE_NUM :: u32 where "TRIANGLE_NUM = 100"
definition KYOUKO_CONTROL_SIZE :: u64 where "KYOUKO_CONTROL_SIZE = 65535"
definition GRAPHICS_OFF :: u64 where "GRAPHICS_OFF = 7"

text \<open>
  \<open>u_fb\<close> is the mapped frame buffer by pixel, \<open>u_regs\<close> the mapped registers by word, \<open>u_addr\<close> and
  \<open>u_hdr\<close> are the fields of \<open>dmaHeadBuffs\<close>, and \<open>u_buf\<close> is the memory behind the address of a DMA
  buffer, by word.
\<close>

record 'd user =
  u_entry :: fifo_entry
  u_fb :: "u32 \<Rightarrow> u32"
  u_regs :: "u32 \<Rightarrow> u32"
  u_addr :: "nat \<Rightarrow> u64"
  u_hdr :: "nat \<Rightarrow> DMAhdr"
  u_buf :: "u64 \<Rightarrow> u32 \<Rightarrow> u32"
  rand_calls :: nat
  drv :: "'d kyouko"

text \<open>
  \<open>entry_addr\<close> and \<open>bufs_addr\<close> are the addresses of \<open>entry\<close> and \<open>dmaHeadBuffs\<close>, \<open>mmap_at\<close> the address
  the kernel chooses for a mapping, \<open>u_sleep\<close> what happens to driver and card during \<open>sleep\<close>.
\<close>

record 'd u_env =
  k_env :: "'d ky_env"
  entry_addr :: u64
  bufs_addr :: u64
  mmap_at :: "u64 \<Rightarrow> u64"
  u_sleep :: "nat \<Rightarrow> 'd kyouko \<Rightarrow> 'd kyouko"
  u_rand :: "nat \<Rightarrow> u32"
  coord_of :: "u32 \<Rightarrow> u32"
  colour_of :: "u32 \<Rightarrow> u32"

section \<open>System calls\<close>

text \<open>
  The driver copies the entry from the address it was given. If that is the address of \<open>entry\<close> it
  gets its contents; from elsewhere it gets what the copy leaves.
\<close>

definition env_of :: "'d u_env \<Rightarrow> 'd user \<Rightarrow> 'd ky_env" where
  "env_of U u = (k_env U)
     \<lparr>copy_entry := (\<lambda>a d. if ucast a = entry_addr U then u_entry u else copy_entry (k_env U) a d)\<rparr>"

text \<open>What the driver stores into \<open>dmaHeadBuffs\<close> during a call.\<close>

fun apply_stores :: "'d u_env \<Rightarrow> ky_event list \<Rightarrow> 'd user \<Rightarrow> 'd user" where
  "apply_stores U [] u = u"
| "apply_stores U (User_store a v # es) u =
     apply_stores U es
       (case find (\<lambda>i. bufs_addr U + 16 * of_nat i = a) [0..<unat NUM_BUFS] of
          None \<Rightarrow> u
        | Some i \<Rightarrow> u\<lparr>u_addr := (u_addr u)(i := v)\<rparr>)"
| "apply_stores U (_ # es) u = apply_stores U es u"

definition call_ioctl :: "'d u_env \<Rightarrow> ky_cmd \<Rightarrow> u64 \<Rightarrow> 'd user \<Rightarrow> 'd user option" where
  "call_ioctl U cmd arg u = do {
     (_, d) \<leftarrow> kyouko3_ioctl (env_of U u) cmd arg (drv u);
     Some (apply_stores U (drop (length (ky_log (drv u))) (ky_log d)) (u\<lparr>drv := d\<rparr>))
   }"

definition call_mmap :: "'d u_env \<Rightarrow> u64 \<Rightarrow> u64 \<Rightarrow> 'd user \<Rightarrow> 'd user option" where
  "call_mmap U len off u = do {
     let a = mmap_at U off;
     (_, d) \<leftarrow> kyouko3_mmap (env_of U u)
       \<lparr>vm_start = a, vm_end = a + ((len + 4095) AND NOT 4095), vm_pgoff = drop_bit PAGE_SHIFT off\<rparr> (drv u);
     Some (u\<lparr>drv := d\<rparr>)
   }"

definition call_open :: "'d u_env \<Rightarrow> 'd user \<Rightarrow> 'd user option" where
  "call_open U u = do { d \<leftarrow> kyouko3_open (env_of U u) (drv u); Some (u\<lparr>drv := d\<rparr>) }"

abbreviation call_close :: "'d user \<Rightarrow> 'd user" where
  "call_close \<equiv> drv_update kyouko3_release"

abbreviation call_sleep :: "'d u_env \<Rightarrow> nat \<Rightarrow> 'd user \<Rightarrow> 'd user" where
  "call_sleep U n \<equiv> drv_update (u_sleep U n)"

section \<open>Drawing through the FIFO\<close>

definition U_READ_REG :: "u32 \<Rightarrow> 'd user \<Rightarrow> u32" where
  "U_READ_REG r u = u_regs u (drop_bit 2 r)"

definition U_WRITE_FB :: "u32 \<Rightarrow> u32 \<Rightarrow> 'd user \<Rightarrow> 'd user" where
  "U_WRITE_FB pixel v = u_fb_update (\<lambda>f. f(pixel := v))"

definition float_to_uint :: "u32 \<Rightarrow> u32" where
  "float_to_uint v = v"

definition ioctlQueue :: "'d u_env \<Rightarrow> u32 \<Rightarrow> u32 \<Rightarrow> 'd user \<Rightarrow> 'd user option" where
  "ioctlQueue U reg v u =
     call_ioctl U FIFO_QUEUE (entry_addr U) (u\<lparr>u_entry := \<lparr>command = reg, entry_value = v\<rparr>\<rparr>)"

definition draw_point :: "'d u_env \<Rightarrow> u32 list \<Rightarrow> u32 list \<Rightarrow> 'd user \<Rightarrow> 'd user option" where
  "draw_point U xyzw rgba u = do {
     u \<leftarrow> ioctlQueue U Vertex_Coordinate (float_to_uint (xyzw ! 0)) u;
     u \<leftarrow> ioctlQueue U Vertex_Color (float_to_uint (rgba ! 0)) u;
     u \<leftarrow> ioctlQueue U (Vertex_Coordinate + 4) (float_to_uint (xyzw ! 1)) u;
     u \<leftarrow> ioctlQueue U (Vertex_Color + 4) (float_to_uint (rgba ! 1)) u;
     u \<leftarrow> ioctlQueue U (Vertex_Coordinate + 8) (float_to_uint (xyzw ! 2)) u;
     u \<leftarrow> ioctlQueue U (Vertex_Color + 8) (float_to_uint (rgba ! 2)) u;
     u \<leftarrow> ioctlQueue U (Vertex_Coordinate + 12) (float_to_uint (xyzw ! 3)) u;
     ioctlQueue U (Vertex_Color + 12) (float_to_uint (rgba ! 3)) u
   }"

text \<open>The \<open>float\<close> constants of the program.\<close>

definition f_0 :: u32 where "f_0 = 0"
definition f_1 :: u32 where "f_1 = 0x3F800000"
definition f_half :: u32 where "f_half = 0x3F000000"
definition f_mhalf :: u32 where "f_mhalf = 0xBF000000"
definition f_eighth :: u32 where "f_eighth = 0x3E000000"

text \<open>The line: the pixels from \<open>200 * 1024\<close> on, below \<open>201 * 1024\<close>.\<close>

definition draw_line :: "'d user \<Rightarrow> 'd user" where
  "draw_line u = fold (\<lambda>i. U_WRITE_FB (of_nat i) 0xff0000) [200 * 1024..<201 * 1024] u"

definition main_fifo :: "'d u_env \<Rightarrow> 'd user \<Rightarrow> (int \<times> 'd user) option" where
  "main_fifo U u = do {
     u \<leftarrow> call_open U u;
     u \<leftarrow> call_mmap U KYOUKO_CONTROL_SIZE 0 u;
     u \<leftarrow> call_mmap U (1024 * 768 * 4) 0x80000000 u;
     u \<leftarrow> call_ioctl U VMODE (word_of_int GRAPHICS_ON) u;
     let u = draw_line u;
     u \<leftarrow> ioctlQueue U Flush 0 u;
     let u = call_sleep U 1 u;
     u \<leftarrow> ioctlQueue U Command_Primitive 1 u;
     u \<leftarrow> draw_point U [f_mhalf, f_mhalf, f_0, f_1] [f_1, f_0, f_0, f_1] u;
     u \<leftarrow> ioctlQueue U Vertex_Emit 0 u;
     u \<leftarrow> draw_point U [f_half, f_0, f_0, f_1] [f_1, f_1, f_0, f_1] u;
     u \<leftarrow> ioctlQueue U Vertex_Emit 0 u;
     u \<leftarrow> draw_point U [f_eighth, f_half, f_0, f_1] [f_1, f_0, f_1, f_1] u;
     u \<leftarrow> ioctlQueue U Vertex_Emit 0 u;
     u \<leftarrow> ioctlQueue U Command_Primitive 0 u;
     u \<leftarrow> ioctlQueue U Flush 0 u;
     let u = call_sleep U 2 u;
     u \<leftarrow> call_ioctl U FIFO_FLUSH 0 u;
     let u = call_sleep U 2 u;
     u \<leftarrow> call_ioctl U VMODE GRAPHICS_OFF u;
     Some (0, call_close u)
   }"

section \<open>Drawing through DMA\<close>

definition u_store :: "nat \<Rightarrow> u32 \<Rightarrow> u32 \<Rightarrow> 'd user \<Rightarrow> 'd user" where
  "u_store index w v u =
     u\<lparr>u_buf := (u_buf u)(u_addr u index := (u_buf u (u_addr u index))(w := v))\<rparr>"

definition U_WRITE_DMABufferPoint ::
  "nat \<Rightarrow> u32 \<Rightarrow> u32 list \<Rightarrow> u32 list \<Rightarrow> 'd user \<Rightarrow> 'd user" where
  "U_WRITE_DMABufferPoint index i xyz rgb u =
     (let u = u_store index (i * 6 + 1) (float_to_uint (rgb ! 0)) u;
          u = u_store index (i * 6 + 2) (float_to_uint (rgb ! 1)) u;
          u = u_store index (i * 6 + 3) (float_to_uint (rgb ! 2)) u;
          u = u_store index (i * 6 + 4) (float_to_uint (xyz ! 0)) u;
          u = u_store index (i * 6 + 5) (float_to_uint (xyz ! 1)) u
      in u_store index (i * 6 + 6) (float_to_uint (xyz ! 2)) u)"

text \<open>The header of a buffer, and its word at the start of the buffer.\<close>

definition fill_header :: "nat \<Rightarrow> 'd user \<Rightarrow> 'd user" where
  "fill_header i u =
     (let u = u\<lparr>u_hdr := (u_hdr u)(i :=
            \<lparr>hdr_address = 0x1045, hdr_count = ucast (3 * TRIANGLE_NUM), hdr_opcode = 0x14\<rparr>)\<rparr>
      in u_store i 0 (hdr_word (u_hdr u i)) u)"

definition fill_triangle :: "'d u_env \<Rightarrow> nat \<Rightarrow> nat \<Rightarrow> 'd user \<Rightarrow> 'd user" where
  "fill_triangle U i j u =
     (let c = (\<lambda>k. coord_of U (u_rand U (rand_calls u + k)));
          l = (\<lambda>k. colour_of U (u_rand U (rand_calls u + k)));
          rgb = [l 6, l 7, l 8, f_1];
          u = u\<lparr>rand_calls := rand_calls u + 9\<rparr>;
          u = U_WRITE_DMABufferPoint i (of_nat (3 * j + 0)) [c 0, c 1, f_0, f_1] rgb u;
          u = U_WRITE_DMABufferPoint i (of_nat (3 * j + 1)) [c 2, c 3, f_0, f_1] rgb u
      in U_WRITE_DMABufferPoint i (of_nat (3 * j + 2)) [c 4, c 5, f_0, f_1] rgb u)"

definition fill_buffer :: "'d u_env \<Rightarrow> nat \<Rightarrow> 'd user \<Rightarrow> 'd user" where
  "fill_buffer U i u = fold (fill_triangle U i) [0..<unat TRIANGLE_NUM] (fill_header i u)"

fun send_buffers :: "'d u_env \<Rightarrow> nat list \<Rightarrow> 'd user \<Rightarrow> 'd user option" where
  "send_buffers U [] u = Some u"
| "send_buffers U (i # is) u = do {
     let u = fill_buffer U i u;
     u \<leftarrow> ioctlQueue U Flush 0 u;
     u \<leftarrow> call_ioctl U START_DMA (18 * ucast TRIANGLE_NUM + 1) u;
     let u = call_sleep U 1 u;
     u \<leftarrow> ioctlQueue U Flush 0 u;
     send_buffers U is u
   }"

definition main_dma :: "'d u_env \<Rightarrow> 'd user \<Rightarrow> (int \<times> 'd user) option" where
  "main_dma U u = do {
     u \<leftarrow> call_open U u;
     u \<leftarrow> call_mmap U KYOUKO_CONTROL_SIZE 0 u;
     u \<leftarrow> call_mmap U (1024 * 768 * 4) 0x80000000 u;
     u \<leftarrow> call_ioctl U VMODE (word_of_int GRAPHICS_ON) u;
     u \<leftarrow> call_ioctl U BIND_DMA (bufs_addr U) u;
     u \<leftarrow> send_buffers U [0..<unat NUM_BUFS] u;
     u \<leftarrow> ioctlQueue U Flush 0 u;
     let u = call_sleep U 1 u;
     u \<leftarrow> call_ioctl U UNBIND_DMA 0 u;
     let u = call_sleep U 1 u;
     u \<leftarrow> call_ioctl U VMODE GRAPHICS_OFF u;
     Some (0, call_close u)
   }"

text \<open>Without an argument the program ends with status 1; any other word does nothing.\<close>

definition user_main :: "'d u_env \<Rightarrow> string list \<Rightarrow> 'd user \<Rightarrow> (int \<times> 'd user) option" where
  "user_main U argv u =
     (if length argv < 2 then Some (1, u)
      else if argv ! 1 = ''fifo'' then main_fifo U u
      else if argv ! 1 = ''dma'' then main_dma U u
      else Some (0, u))"

section \<open>Two processes\<close>

text \<open>
  After \<open>fork\<close> each process has its own copy of \<open>flag\<close>, and the loop at the end waits for a value
  that only its own assignments could give it.
\<close>

partial_function (option) spin_flag :: "int \<Rightarrow> unit option" where
  "spin_flag flag = (if flag \<noteq> 2 then spin_flag flag else Some ())"

definition smp_process :: "'d u_env \<Rightarrow> 'd user \<Rightarrow> (int \<times> 'd user) option" where
  "smp_process U u = do {
     let flag = (0 :: int);
     u \<leftarrow> call_ioctl U BIND_DMA (bufs_addr U) u;
     let u = fold fill_header [0..<unat NUM_BUFS] u;
     let flag = flag + 1;
     Some (flag, u)
   }"

definition smp_rest :: "'d u_env \<Rightarrow> int \<Rightarrow> 'd user \<Rightarrow> (int \<times> 'd user) option" where
  "smp_rest U flag u = do {
     _ \<leftarrow> spin_flag flag;
     u \<leftarrow> call_ioctl U UNBIND_DMA 0 u;
     let u = call_sleep U 4 u;
     u \<leftarrow> call_ioctl U VMODE GRAPHICS_OFF u;
     Some (0, call_close u)
   }"

definition smp_start :: "'d u_env \<Rightarrow> 'd user \<Rightarrow> 'd user option" where
  "smp_start U u = do {
     u \<leftarrow> call_open U u;
     u \<leftarrow> call_mmap U KYOUKO_CONTROL_SIZE 0 u;
     u \<leftarrow> call_mmap U (1024 * 768 * 4) 0x80000000 u;
     call_ioctl U VMODE (word_of_int GRAPHICS_ON) u
   }"

end
