(* ===== verification/Kyouko_User_Run.thy ===== *)
theory Kyouko_User_Run
  imports Kyouko_User Kyouko_Steps
begin

text \<open>
  The user programs together with the driver: what the program \<open>user.c\<close> leaves in the command FIFO,
  what it puts into a DMA buffer, and why the program \<open>smp.c\<close> does not end.
\<close>

section \<open>Results of partial steps\<close>

definition sat :: "('a \<Rightarrow> bool) \<Rightarrow> 'a option \<Rightarrow> bool" where
  "sat P x \<longleftrightarrow> (\<exists>y. x = Some y \<and> P y)"

lemma sat_Some [simp]: "sat P (Some y) = P y"
  by (simp add: sat_def)

lemma sat_seq: "sat P x \<Longrightarrow> (\<And>y. P y \<Longrightarrow> sat Q (f y)) \<Longrightarrow> sat Q (Option.bind x f)"
  by (auto simp: sat_def)

section \<open>The FIFO after a program\<close>

text \<open>The FIFO holds exactly these commands, from its first entry on, and nothing was flushed yet.\<close>

definition holds_cmds :: "(u32 \<times> u32) list \<Rightarrow> 'd kyouko \<Rightarrow> bool" where
  "holds_cmds ws s \<longleftrightarrow> ky_ok s \<and> unat (head (fifo s)) = length ws \<and> tail_cache (fifo s) = 0 \<and>
     (\<forall>i < length ws. fifo_k_base (fifo s) ! i = \<lparr>command = fst (ws ! i), entry_value = snd (ws ! i)\<rparr>)"

definition drawn :: "(u32 \<times> u32) list \<Rightarrow> (u32 \<Rightarrow> u32) \<Rightarrow> 'd user \<Rightarrow> bool" where
  "drawn ws fb u \<longleftrightarrow> holds_cmds ws (drv u) \<and> u_fb u = fb"

text \<open>
  What is assumed: the program is loaded below 4 GB, a sleep of the program disturbs neither the FIFO
  nor the arrays of the driver, and the tail the card shows after it was told the head is that head.
\<close>

definition u_env_ok :: "'d u_env \<Rightarrow> bool" where
  "u_env_ok U \<longleftrightarrow> ucast (ucast (entry_addr U) :: u32) = entry_addr U \<and>
     (\<forall>n s. fifo (u_sleep U n s) = fifo s \<and> (ky_ok s \<longrightarrow> ky_ok (u_sleep U n s)))"

definition card_follows :: "'d ky_env \<Rightarrow> bool" where
  "card_follows E \<longleftrightarrow>
     (\<forall>h d. fst (dev_read E (drop_bit 2 FifoTail) (dev_write E (drop_bit 2 FifoHead) h d)) = h)"

lemma env_of_simps [simp]:
  "dev_read (env_of U u) = dev_read (k_env U)" "dev_write (env_of U u) = dev_write (k_env U)"
  "dev_step (env_of U u) = dev_step (k_env U)"
  "pci_alloc_consistent (env_of U u) = pci_alloc_consistent (k_env U)"
  by (simp_all add: env_of_def)

lemma holds_fifo_write:
  assumes h: "holds_cmds ws s" and len: "length ws < 1023"
  shows "\<exists>t. FIFO_WRITE r v s = Some t \<and> holds_cmds (ws @ [(r, v)]) t \<and> ky_log t = ky_log s"
proof -
  have ok: "ky_ok s" using h by (simp add: holds_cmds_def)
  obtain t where t: "FIFO_WRITE r v s = Some t" using FIFO_WRITE_ok [OF ok] by blast
  have "unat (head (fifo t)) = length ws + 1"
    using head_FIFO_WRITE [OF ok t] h len by (simp add: holds_cmds_def)
  moreover have "fifo_k_base (fifo t) =
      (fifo_k_base (fifo s))[length ws := \<lparr>command = r, entry_value = v\<rparr>]"
    "tail_cache (fifo t) = tail_cache (fifo s)" "ky_log t = ky_log s"
    using t FIFO_WRITE_ok [OF ok, of r v] h by (auto simp: holds_cmds_def)
  moreover have "length (fifo_k_base (fifo s)) = 1024" using ok by (simp add: ky_ok_def)
  ultimately show ?thesis
    using t ky_ok_fifo_write [OF ok t] h len
    by (auto simp: holds_cmds_def nth_append nth_list_update less_Suc_eq)
qed

lemma ioctlQueue_drawn:
  assumes "u_env_ok U" and "drawn ws fb u" and "length ws < 1023"
  shows "sat (drawn (ws @ [(r, v)]) fb) (ioctlQueue U r v u)"
proof -
  obtain t where t: "FIFO_WRITE r v (drv u) = Some t" "holds_cmds (ws @ [(r, v)]) t"
    "ky_log t = ky_log (drv u)"
    using holds_fifo_write assms(2,3) unfolding drawn_def by blast
  with assms(1,2) show ?thesis
    by (simp add: ioctlQueue_def call_ioctl_def kyouko3_ioctl_def env_of_def u_env_ok_def drawn_def)
qed

lemma sleep_drawn: "u_env_ok U \<Longrightarrow> drawn ws fb u \<Longrightarrow> drawn ws fb (call_sleep U n u)"
  by (simp add: drawn_def holds_cmds_def u_env_ok_def)

text \<open>The commands of one vertex.\<close>

definition point_cmds :: "u32 list \<Rightarrow> u32 list \<Rightarrow> (u32 \<times> u32) list" where
  "point_cmds p c =
     [(Vertex_Coordinate, p ! 0), (Vertex_Color, c ! 0),
      (Vertex_Coordinate + 4, p ! 1), (Vertex_Color + 4, c ! 1),
      (Vertex_Coordinate + 8, p ! 2), (Vertex_Color + 8, c ! 2),
      (Vertex_Coordinate + 12, p ! 3), (Vertex_Color + 12, c ! 3)]"

fun queue_all :: "'d u_env \<Rightarrow> (u32 \<times> u32) list \<Rightarrow> 'd user \<Rightarrow> 'd user option" where
  "queue_all U [] u = Some u"
| "queue_all U ((r, v) # ws) u = do { u \<leftarrow> ioctlQueue U r v u; queue_all U ws u }"

lemma queue_all_fun:
  "queue_all U [] = Some" "queue_all U ((r, v) # ws) = (\<lambda>u. Option.bind (ioctlQueue U r v u) (queue_all U ws))"
  by (simp_all add: fun_eq_iff)

lemma draw_point_queue: "draw_point U p c u = queue_all U (point_cmds p c) u"
  unfolding draw_point_def point_cmds_def float_to_uint_def queue_all_fun by simp

lemma queue_all_drawn:
  assumes U: "u_env_ok U"
  shows "drawn ws fb u \<Longrightarrow> length ws + length xs \<le> 1023 \<Longrightarrow> sat (drawn (ws @ xs) fb) (queue_all U xs u)"
proof (induction xs arbitrary: ws u)
  case (Cons x xs)
  obtain r v where x: "x = (r, v)" by (cases x)
  have "sat (drawn (ws @ [(r, v)]) fb) (ioctlQueue U r v u)"
    using ioctlQueue_drawn [OF U Cons.prems(1)] Cons.prems(2) by simp
  moreover have "sat (drawn (ws @ x # xs) fb) (queue_all U xs y)" if "drawn (ws @ [(r, v)]) fb y" for y
    using Cons.IH [OF that] Cons.prems(2) x by simp
  ultimately show ?case unfolding x by (simp add: sat_seq)
qed simp

section \<open>The program in FIFO mode\<close>

lemma ky_pause_fifo: "ky_pause E s = Some t \<Longrightarrow> fifo t = fifo s"
proof (induction rule: ky_pause.raw_induct [rotated, consumes 1, case_names step])
  case (step f E s t)
  from step(2) obtain v x where "K_READ_REG E FifoTail s = Some (v, x)"
    and "(if v \<noteq> 0 then f E (dev_update (dev_step E) x) else Some x) = Some t"
    by (auto simp: Option.bind_eq_Some_conv)
  with step(1) show ?case by (fastforce simp: K_READ_REG_def split: if_splits prod.splits)
qed

lemma open_holds:
  assumes alloc: "ky_alloc_ok E" and s: "length (dmabuffs s) = 8" "unat (mmap_index s) < 8"
    "\<not> ky_lock s" and opn: "kyouko3_open E s = Some t"
  shows "holds_cmds [] t"
proof -
  have "ky_ok t" using ky_inv_open [OF alloc s opn] by (simp add: ky_inv_def)
  moreover have "head (fifo t) = 0 \<and> tail_cache (fifo t) = 0"
  proof -
    from opn obtain x w where i: "init_fifo E x = Some w" and t: "fifo t = fifo w"
      by (auto simp: kyouko3_open_def Let_def Option.bind_eq_Some_conv)
    from i show ?thesis unfolding t
      by (auto simp: init_fifo_def K_WRITE_REG_def Let_def Option.bind_eq_Some_conv
          dest!: ky_pause_fifo split: option.splits if_splits)
  qed
  ultimately show ?thesis by (simp add: holds_cmds_def)
qed

lemma call_open_drawn:
  assumes "ky_alloc_ok (k_env U)" and "length (dmabuffs (drv u)) = 8" "unat (mmap_index (drv u)) < 8"
    "\<not> ky_lock (drv u)" and opn: "call_open U u = Some v"
  shows "drawn [] (u_fb u) v"
proof -
  from opn obtain d where d: "kyouko3_open (env_of U u) (drv u) = Some d" "v = u\<lparr>drv := d\<rparr>"
    by (auto simp: call_open_def Option.bind_eq_Some_conv)
  have "ky_alloc_ok (env_of U u)" using assms(1) by (simp add: ky_alloc_ok_def)
  from open_holds [OF this assms(2-4) d(1)] d(2) show ?thesis by (simp add: drawn_def)
qed

lemma call_mmap_drawn: "drawn ws fb u \<Longrightarrow> sat (drawn ws fb) (call_mmap U len off u)"
  using unat_mod_NUM_BUFS
  by (auto simp: drawn_def holds_cmds_def call_mmap_def kyouko3_mmap_def Let_def ky_ok_def)

lemma k_write_all_holds:
  "ky_ok s \<Longrightarrow> \<exists>t. k_write_all E ws s = Some t \<and> fifo t = fifo s \<and> ky_ok t \<and> ky_log t = ky_log s"
proof (induction ws arbitrary: s)
  case (Cons w ws)
  obtain r v where w: "w = (r, v)" by (cases w)
  let ?x = "dev_update (dev_write E (drop_bit 2 r) v) s"
  have "ky_ok ?x" using Cons.prems by (simp add: ky_ok_def)
  with Cons.IH [of ?x] K_WRITE_REG_ok [OF Cons.prems] w show ?case by auto
qed simp

lemma fifo_write_all_log: "fifo_write_all ws s = Some t \<Longrightarrow> ky_log t = ky_log s"
  by (induction ws arbitrary: s)
    (auto simp: FIFO_WRITE_def Let_def Option.bind_eq_Some_conv split: if_splits)

lemma vmode_on_drawn:
  assumes d: "drawn [] fb u"
  shows "sat (drawn vmode_on_cmds fb) (call_ioctl U VMODE (word_of_int GRAPHICS_ON) u)"
proof -
  have ok: "ky_ok (drv u)" "unat (head (fifo (drv u))) = 0" "tail_cache (fifo (drv u)) = 0"
    using d by (simp_all add: drawn_def holds_cmds_def)
  obtain x where x: "k_write_all (env_of U u) vmode_on_regs (drv u) = Some x" "fifo x = fifo (drv u)"
    "ky_ok x" "ky_log x = ky_log (drv u)"
    using k_write_all_holds [OF ok(1)] by blast
  let ?y = "ky_note (Sleep_ms 10) x"
  have y: "ky_ok ?y" using x(3) by (simp add: ky_ok_def)
  have l: "length vmode_on_cmds = 6" by (simp add: vmode_on_cmds_def)
  obtain z where z: "fifo_write_all vmode_on_cmds ?y = Some z" "ky_ok z"
    using fifo_write_all_ok [OF y] by blast
  have h: "unat (head (fifo ?y)) = 0" using x(2) ok by simp
  from fifo_write_all_ring [OF y _ z(1)]
  have ring: "unat (head (fifo z)) = 6 \<and> tail_cache (fifo z) = tail_cache (fifo ?y) \<and>
      (\<forall>i < length vmode_on_cmds. fifo_k_base (fifo z) ! ((unat (head (fifo ?y)) + i) mod 1024) =
       \<lparr>command = fst (vmode_on_cmds ! i), entry_value = snd (vmode_on_cmds ! i)\<rparr>)"
    unfolding h by (simp add: l)
  have tc: "tail_cache (fifo ?y) = 0" using x(2) ok(3) by simp
  have i: "(unat (head (fifo ?y)) + i) mod 1024 = i" if "i < 6" for i using that h by simp
  have "holds_cmds vmode_on_cmds (z\<lparr>graphics_on := 1\<rparr>)"
    using ring z(2) i unfolding tc holds_cmds_def by (simp add: l ky_ok_def)
  moreover have "ky_log z = ky_log (drv u) @ [Sleep_ms 10]"
    using fifo_write_all_log [OF z(1)] x(4) by simp
  moreover have "sint (ucast (word_of_int GRAPHICS_ON :: u64) :: u32) = GRAPHICS_ON"
    by (simp add: GRAPHICS_ON_def)
  ultimately show ?thesis
    using x(1) z(1) d
    by (simp add: call_ioctl_def kyouko3_ioctl_def ky_vmode_def drawn_def Let_def)
qed

text \<open>All commands of the program, in order.\<close>

definition program_cmds :: "(u32 \<times> u32) list" where
  "program_cmds = vmode_on_cmds @ [(Flush, 0), (Command_Primitive, 1)] @
     point_cmds [f_mhalf, f_mhalf, f_0, f_1] [f_1, f_0, f_0, f_1] @ [(Vertex_Emit, 0)] @
     point_cmds [f_half, f_0, f_0, f_1] [f_1, f_1, f_0, f_1] @ [(Vertex_Emit, 0)] @
     point_cmds [f_eighth, f_half, f_0, f_1] [f_1, f_0, f_1, f_1] @
     [(Vertex_Emit, 0), (Command_Primitive, 0), (Flush, 0)]"

lemma fold_fb_drv: "drv (fold (\<lambda>i. U_WRITE_FB (of_nat i) v) js u) = drv u"
  by (induction js arbitrary: u) (simp_all add: U_WRITE_FB_def)

lemma fold_fb:
  assumes "\<forall>i \<in> set js. i < 2 ^ 32"
  shows "u_fb (fold (\<lambda>i. U_WRITE_FB (of_nat i) v) js u) p = (if unat p \<in> set js then v else u_fb u p)"
  using assms
proof (induction js arbitrary: u)
  case (Cons i js)
  have "p = of_nat i \<longleftrightarrow> unat p = i"
    using Cons.prems by (auto simp: unat_of_nat take_bit_nat_eq_self)
  with Cons show ?case by (auto simp: U_WRITE_FB_def)
qed simp

lemma draw_line_drv [simp]: "drv (draw_line u) = drv u"
  unfolding draw_line_def by (rule fold_fb_drv)

lemma draw_line_fb:
  "u_fb (draw_line u) p = (if 200 * 1024 \<le> unat p \<and> unat p < 201 * 1024 then 0xff0000 else u_fb u p)"
  unfolding draw_line_def by (subst fold_fb) (simp_all only: set_upt atLeastLessThan_iff, auto)

lemma flush_drawn:
  assumes "drawn ws fb u" and card: "card_follows (k_env U)" and len: "length ws < 1024"
  shows "sat (\<lambda>v. ky_ok (drv v) \<and> u_fb v = fb \<and> tail_cache (fifo (drv v)) = head (fifo (drv v)) \<and>
    unat (head (fifo (drv v))) = length ws \<and> fifo_k_base (fifo (drv v)) = fifo_k_base (fifo (drv u)))
    (call_ioctl U FIFO_FLUSH 0 u)"
proof -
  let ?s = "drv u" let ?E = "env_of U u"
  have ok: "ky_ok ?s" "unat (head (fifo ?s)) = length ws" "u_fb u = fb"
    using assms(1) by (simp_all add: drawn_def holds_cmds_def)
  let ?t = "dev_update (dev_write ?E (drop_bit 2 FifoHead) (head (fifo ?s))) ?s"
  have w: "K_WRITE_REG ?E FifoHead (head (fifo ?s)) ?s = Some ?t" by (rule K_WRITE_REG_ok [OF ok(1)])
  have okt: "ky_ok ?t" using ok(1) by (simp add: ky_ok_def)
  have "\<exists>v. flush_loop ?E ?t = Some v \<and> ky_ok v \<and> tail_cache (fifo v) = head (fifo ?s) \<and>
      head (fifo v) = head (fifo ?s) \<and> fifo_k_base (fifo v) = fifo_k_base (fifo ?s) \<and> ky_log v = ky_log ?s"
  proof (cases "tail_cache (fifo ?s) = head (fifo ?s)")
    case True
    with okt show ?thesis by (subst flush_loop.simps) simp
  next
    case False
    have v: "fst (dev_read ?E (drop_bit 2 FifoTail) (dev ?t)) = head (fifo ?s)"
      using card by (simp add: card_follows_def)
    obtain d where r: "K_READ_REG ?E FifoTail ?t = Some (head (fifo ?s), dev_update (\<lambda>_. d) ?t)"
      using okt v by (cases "dev_read ?E (drop_bit 2 FifoTail) (dev ?t)")
        (auto simp: K_READ_REG_def ky_ok_def)
    let ?v = "dev_update (dev_step ?E)
      (fifo_update (tail_cache_update (\<lambda>_. head (fifo ?s))) (dev_update (\<lambda>_. d) ?t))"
    have "flush_loop ?E ?t = flush_loop ?E ?v"
      using False r by (subst flush_loop.simps) simp
    also have "\<dots> = Some ?v" by (subst flush_loop.simps) simp
    finally show ?thesis using ok(1) by (auto simp: ky_ok_def)
  qed
  then obtain v where "flush_loop ?E ?t = Some v" "ky_ok v" "tail_cache (fifo v) = head (fifo ?s)"
    "head (fifo v) = head (fifo ?s)" "fifo_k_base (fifo v) = fifo_k_base (fifo ?s)" "ky_log v = ky_log ?s"
    by blast
  with w ok show ?thesis by (simp add: call_ioctl_def kyouko3_ioctl_def fifo_flush_def)
qed

lemma vmode_off:
  assumes "ky_ok (drv u)"
  shows "sat (\<lambda>v. fifo (drv v) = fifo (drv u) \<and> u_fb v = u_fb u \<and> graphics_on (drv v) = 0)
    (call_ioctl U VMODE GRAPHICS_OFF u)"
proof -
  obtain x where x: "k_write_all (env_of U u) [(Acceleration, 0x80000000), (ModeSet, 0)] (drv u) = Some x"
    "fifo x = fifo (drv u)" "ky_log x = ky_log (drv u)"
    using k_write_all_holds [OF assms] by blast
  have "sint (ucast GRAPHICS_OFF :: u32) \<noteq> GRAPHICS_ON"
    by (simp add: GRAPHICS_ON_def GRAPHICS_OFF_def)
  with x show ?thesis
    by (simp add: call_ioctl_def kyouko3_ioctl_def ky_vmode_def del: k_write_all.simps)
qed

text \<open>Consecutive calls of \<open>ioctlQueue\<close> are one list of commands.\<close>

lemma queue_all_bind:
  "Option.bind (queue_all U xs u) (\<lambda>u. Option.bind (queue_all U ys u) f) =
   Option.bind (queue_all U (xs @ ys) u) f"
  by (induction xs arbitrary: u) auto

lemma ioctlQueue_queue: "ioctlQueue U r v u = queue_all U [(r, v)] u"
  by (simp add: queue_all_fun)

lemma queue_all_step:
  assumes "u_env_ok U" and "drawn ws fb u" and "length ws + length xs \<le> 1023"
    and "\<And>v. drawn (ws @ xs) fb v \<Longrightarrow> sat Q (f v)"
  shows "sat Q (Option.bind (queue_all U xs u) f)"
  by (rule sat_seq [OF queue_all_drawn [OF assms(1-3)] assms(4)])

text \<open>The last part of the program, from the call that turns the graphics on.\<close>

definition fifo_done :: "(u32 \<Rightarrow> u32) \<Rightarrow> int \<times> 'd user \<Rightarrow> bool" where
  "fifo_done fb p \<longleftrightarrow> (case p of (r, v) \<Rightarrow> r = 0 \<and> u_fb v = fb \<and> graphics_on (drv v) = 0 \<and>
     unat (head (fifo (drv v))) = length program_cmds \<and>
     tail_cache (fifo (drv v)) = head (fifo (drv v)) \<and>
     (\<forall>i < length program_cmds. fifo_k_base (fifo (drv v)) ! i =
       \<lparr>command = fst (program_cmds ! i), entry_value = snd (program_cmds ! i)\<rparr>))"

lemma program_length: "length program_cmds = 37" "length vmode_on_cmds = 6" "length (point_cmds p c) = 8"
  by (simp_all add: program_cmds_def vmode_on_cmds_def point_cmds_def)

lemma fifo_finish:
  assumes U: "u_env_ok U" and card: "card_follows (k_env U)"
    and d: "drawn program_cmds fb (u :: 'a user)"
  shows "sat (fifo_done fb) (do {
     u \<leftarrow> call_ioctl U FIFO_FLUSH 0 u;
     let u = call_sleep U 2 u;
     u \<leftarrow> call_ioctl U VMODE GRAPHICS_OFF u;
     Some (0, call_close u)
   })"
proof (rule sat_seq [OF flush_drawn [OF d card]])
  show "length program_cmds < 1024" by (simp add: program_length)
next
  fix v :: "'a user"
  assume v: "ky_ok (drv v) \<and> u_fb v = fb \<and> tail_cache (fifo (drv v)) = head (fifo (drv v)) \<and>
    unat (head (fifo (drv v))) = length program_cmds \<and> fifo_k_base (fifo (drv v)) = fifo_k_base (fifo (drv u))"
  have "ky_ok (drv (call_sleep U 2 v))" and f: "fifo (drv (call_sleep U 2 v)) = fifo (drv v)"
    using U v by (simp_all add: u_env_ok_def)
  from vmode_off [OF this(1), of U] show "sat (fifo_done fb) (let u = call_sleep U 2 v in
      Option.bind (call_ioctl U VMODE GRAPHICS_OFF u) (\<lambda>u. Some (0, call_close u)))"
    unfolding Let_def
  proof (rule sat_seq)
    fix w :: "'a user"
    assume "fifo (drv w) = fifo (drv (call_sleep U 2 v)) \<and> u_fb w = u_fb (call_sleep U 2 v) \<and>
      graphics_on (drv w) = 0"
    with v f d show "sat (fifo_done fb) (Some (0, call_close w))"
      by (simp add: fifo_done_def kyouko3_release_def drawn_def holds_cmds_def)
  qed
qed

lemma main_fifo_draw:
  assumes U: "u_env_ok U" and card: "card_follows (k_env U)" and d: "drawn vmode_on_cmds fb u"
  shows "sat (fifo_done fb) (do {
     u \<leftarrow> ioctlQueue U Flush 0 u;
     let u = call_sleep U 1 u;
     u \<leftarrow> ioctlQueue U Command_Primitive 1 u;
     u \<leftarrow> draw_point U [f_mhalf, f_mhalf, f_0, f_1] [f_1, f_0, f_0, f_1] u;
     u \<leftarrow> ioctlQueue U Vertex_Emit 0 u;
     u \<leftarrow> draw_point U [f_half, f_0, f_0, f_1] [f_1, f_1, f_0, f_1] u;
     u \<leftarrow> ioctlQueue U Vertex_Emit 0 u;
     u \<leftarrow> draw_point U [f_eighth, f_half, f_0, f_1] [f_1, f_0, f_1, f_1] u;
     u \<leftarrow> ioctlQueue U Vertex_Emit 0 u;
     u \<leftarrow> ioctlQueue U Command_Primitive 0 u;
     u \<leftarrow> ioctlQueue U Flush 0 u;
     let u = call_sleep U 2 u;
     u \<leftarrow> call_ioctl U FIFO_FLUSH 0 u;
     let u = call_sleep U 2 u;
     u \<leftarrow> call_ioctl U VMODE GRAPHICS_OFF u;
     Some (0, call_close u)
   })"
proof -
  define xs where "xs = [(Command_Primitive, 1)] @
     point_cmds [f_mhalf, f_mhalf, f_0, f_1] [f_1, f_0, f_0, f_1] @ [(Vertex_Emit, 0)] @
     point_cmds [f_half, f_0, f_0, f_1] [f_1, f_1, f_0, f_1] @ [(Vertex_Emit, 0)] @
     point_cmds [f_eighth, f_half, f_0, f_1] [f_1, f_0, f_1, f_1] @
     [(Vertex_Emit, 0)] @ [(Command_Primitive, 0)] @ [(Flush, 0)]"
  have xs: "program_cmds = (vmode_on_cmds @ [(Flush, 0)]) @ xs"
    by (simp add: xs_def program_cmds_def vmode_on_cmds_def)
  have len: "length xs = 30" by (simp add: xs_def program_length)
  show ?thesis
    unfolding ioctlQueue_queue draw_point_queue Let_def queue_all_bind append_assoc
      xs_def [unfolded append_assoc, symmetric]
  proof (rule queue_all_step [OF U d])
    fix v :: "'a user"
    assume "drawn (vmode_on_cmds @ [(Flush, 0)]) fb v"
    from sleep_drawn [OF U this, of 1]
    have v: "drawn (vmode_on_cmds @ [(Flush, 0)]) fb (call_sleep U 1 v)" .
    show "sat (fifo_done fb) (Option.bind (queue_all U xs (call_sleep U 1 v)) (\<lambda>u.
        Option.bind (call_ioctl U FIFO_FLUSH 0 (call_sleep U 2 u)) (\<lambda>u.
          Option.bind (call_ioctl U VMODE GRAPHICS_OFF (call_sleep U 2 u))
            (\<lambda>u. Some (0, call_close u)))))"
    proof (rule queue_all_step [OF U v])
      fix w :: "'a user"
      assume "drawn ((vmode_on_cmds @ [(Flush, 0)]) @ xs) fb w"
      from fifo_finish [OF U card sleep_drawn [OF U this [folded xs], of 2]]
      show "sat (fifo_done fb) (Option.bind (call_ioctl U FIFO_FLUSH 0 (call_sleep U 2 w)) (\<lambda>u.
          Option.bind (call_ioctl U VMODE GRAPHICS_OFF (call_sleep U 2 u))
            (\<lambda>u. Some (0, call_close u))))" by (simp only: Let_def)
    qed (simp add: len program_length)
  qed (simp add: program_length)
qed

lemma main_fifo_run:
  assumes U: "u_env_ok U" and card: "card_follows (k_env U)" and alloc: "ky_alloc_ok (k_env U)"
    and u: "length (dmabuffs (drv u)) = 8" "unat (mmap_index (drv u)) < 8" "\<not> ky_lock (drv u)"
    and opn: "call_open U u = Some v"
  shows "\<exists>w. main_fifo U u = Some (0, w) \<and> fifo_done (u_fb w) (0, w) \<and>
    (\<forall>p. u_fb w p = (if 200 * 1024 \<le> unat p \<and> unat p < 201 * 1024 then 0xff0000 else u_fb u p))"
proof -
  have v: "drawn [] (u_fb u) v" by (rule call_open_drawn [OF alloc u opn])
  obtain a where a: "call_mmap U KYOUKO_CONTROL_SIZE 0 v = Some a" "drawn [] (u_fb u) a"
    using call_mmap_drawn [OF v] unfolding sat_def by blast
  obtain b where b: "call_mmap U (1024 * 768 * 4) 0x80000000 a = Some b" "drawn [] (u_fb u) b"
    using call_mmap_drawn [OF a(2)] unfolding sat_def by blast
  obtain c where c: "call_ioctl U VMODE (word_of_int GRAPHICS_ON) b = Some c"
    "drawn vmode_on_cmds (u_fb u) c"
    using vmode_on_drawn [OF b(2)] unfolding sat_def by blast
  then have "drawn vmode_on_cmds (u_fb (draw_line c)) (draw_line c)" by (simp add: drawn_def)
  from main_fifo_draw [OF U card this] obtain w where
    "main_fifo U u = Some w" and w: "fifo_done (u_fb (draw_line c)) w"
    unfolding sat_def main_fifo_def opn a(1) b(1) c(1) Option.bind.simps Let_def [of "draw_line c"]
    by blast
  then obtain x where x: "main_fifo U u = Some (0, x)" "fifo_done (u_fb x) (0, x)"
    "u_fb x = u_fb (draw_line c)"
    by (cases w) (auto simp: fifo_done_def)
  moreover have "u_fb c = u_fb u" using c(2) by (simp add: drawn_def)
  ultimately show ?thesis by (simp add: draw_line_fb)
qed


section \<open>The contents of a DMA buffer\<close>

text \<open>
  The three fields of a DMA header can be read back from the word they share.
\<close>

theorem hdr_word_fields:
  "hdr_address h = ucast (hdr_word h) \<and> hdr_count h = ucast (drop_bit 14 (hdr_word h)) \<and>
   hdr_opcode h = ucast (drop_bit 24 (hdr_word h))"
proof -
  have "\<not> bit (hdr_address h) n" if "14 \<le> n" for n using that by (intro impossible_bit) simp
  moreover have "\<not> bit (hdr_count h) n" if "10 \<le> n" for n using that by (intro impossible_bit) simp
  ultimately show ?thesis by (auto simp: hdr_word_def bit_simps intro!: bit_word_eqI)
qed

lemma point_index:
  assumes "m < 1000" and "x < 2 ^ 32" and "c \<le> 6"
  shows "(of_nat x :: u32) = of_nat m * 6 + of_nat c \<longleftrightarrow> x = 6 * m + c"
proof -
  have "(of_nat m * 6 + of_nat c :: u32) = of_nat (6 * m + c)" by simp
  then show ?thesis
    using assms by (simp only: word_unat_eq_iff unat_of_nat) (simp add: take_bit_nat_eq_self)
qed

lemma point_words:
  assumes "m < 1000" and "x < 2 ^ 32"
  shows "u_buf (U_WRITE_DMABufferPoint i (of_nat m) xyz rgb u) (u_addr u i) (of_nat x) =
    (if 6 * m < x \<and> x \<le> 6 * m + 6
     then [rgb ! 0, rgb ! 1, rgb ! 2, xyz ! 0, xyz ! 1, xyz ! 2] ! (x - 6 * m - 1)
     else u_buf u (u_addr u i) (of_nat x))"
proof -
  note ix = point_index [OF assms, of 1] point_index [OF assms, of 2] point_index [OF assms, of 3]
    point_index [OF assms, of 4] point_index [OF assms, of 5] point_index [OF assms, of 6]
  consider "x = 6 * m + 1" | "x = 6 * m + 2" | "x = 6 * m + 3" | "x = 6 * m + 4" | "x = 6 * m + 5"
    | "x = 6 * m + 6" | "x \<le> 6 * m" | "6 * m + 6 < x" by linarith
  then show ?thesis
    by cases (use ix in \<open>simp_all add: U_WRITE_DMABufferPoint_def u_store_def float_to_uint_def Let_def\<close>)
qed

lemma point_frame [simp]:
  "u_addr (U_WRITE_DMABufferPoint i m xyz rgb u) = u_addr u"
  "u_hdr (U_WRITE_DMABufferPoint i m xyz rgb u) = u_hdr u"
  "rand_calls (U_WRITE_DMABufferPoint i m xyz rgb u) = rand_calls u"
  "drv (U_WRITE_DMABufferPoint i m xyz rgb u) = drv u"
  "a \<noteq> u_addr u i \<Longrightarrow> u_buf (U_WRITE_DMABufferPoint i m xyz rgb u) a = u_buf u a"
  by (simp_all add: U_WRITE_DMABufferPoint_def u_store_def Let_def)

text \<open>
  Word \<open>c\<close> (from 1 to 6) of vertex \<open>m\<close>, if \<open>rand\<close> had been called \<open>n\<close> times before the buffer was
  filled: red, green and blue of the triangle, then x, y and z.
\<close>

definition vertex_word :: "'d u_env \<Rightarrow> nat \<Rightarrow> nat \<Rightarrow> nat \<Rightarrow> u32" where
  "vertex_word U n m c =
     (let b = n + 9 * (m div 3) in
      if c \<le> 3 then colour_of U (u_rand U (b + 5 + c))
      else if c = 6 then f_0
      else coord_of U (u_rand U (b + 2 * (m mod 3) + (c - 4))))"

lemma triangle_frame [simp]:
  "u_addr (fill_triangle U i j u) = u_addr u" "u_hdr (fill_triangle U i j u) = u_hdr u"
  "rand_calls (fill_triangle U i j u) = rand_calls u + 9" "drv (fill_triangle U i j u) = drv u"
  "a \<noteq> u_addr u i \<Longrightarrow> u_buf (fill_triangle U i j u) a = u_buf u a"
  by (simp_all add: fill_triangle_def Let_def)

lemma triangle_words:
  assumes j: "j < 300" and x: "x < 2 ^ 32" and n: "rand_calls u = n + 9 * j"
  shows "u_buf (fill_triangle U i j u) (u_addr u i) (of_nat x) =
    (if 18 * j < x \<and> x \<le> 18 * j + 18 then vertex_word U n ((x - 1) div 6) ((x - 1) mod 6 + 1)
     else u_buf u (u_addr u i) (of_nat x))"
proof -
  define A where "A = u_addr u i"
  define u0 where "u0 = u\<lparr>rand_calls := rand_calls u + 9\<rparr>"
  define c where "c k = coord_of U (u_rand U (rand_calls u + k))" for k
  define l where "l = map (\<lambda>k. colour_of U (u_rand U (rand_calls u + k))) [6, 7, 8] @ [f_1]"
  define u1 where "u1 = U_WRITE_DMABufferPoint i (of_nat (3 * j + 0)) [c 0, c 1, f_0, f_1] l u0"
  define u2 where "u2 = U_WRITE_DMABufferPoint i (of_nat (3 * j + 1)) [c 2, c 3, f_0, f_1] l u1"
  define u3 where "u3 = U_WRITE_DMABufferPoint i (of_nat (3 * j + 2)) [c 4, c 5, f_0, f_1] l u2"
  have t: "fill_triangle U i j u = u3"
    by (simp add: fill_triangle_def Let_def u3_def u2_def u1_def u0_def c_def l_def)
  have A: "A = u_addr u0 i" "A = u_addr u1 i" "A = u_addr u2 i"
    by (simp_all add: A_def u0_def u1_def u2_def)
  have m: "3 * j + 0 < 1000" "3 * j + 1 < 1000" "3 * j + 2 < 1000" using j by simp_all
  have w: "u_buf u3 A (of_nat x) =
    (if 18 * j + 12 < x \<and> x \<le> 18 * j + 18
     then [l ! 0, l ! 1, l ! 2, c 4, c 5, f_0] ! (x - (18 * j + 12) - 1)
     else if 18 * j + 6 < x \<and> x \<le> 18 * j + 12
     then [l ! 0, l ! 1, l ! 2, c 2, c 3, f_0] ! (x - (18 * j + 6) - 1)
     else if 18 * j < x \<and> x \<le> 18 * j + 6
     then [l ! 0, l ! 1, l ! 2, c 0, c 1, f_0] ! (x - 18 * j - 1)
     else u_buf u A (of_nat x))"
    using point_words [OF m(1) x, of i "[c 0, c 1, f_0, f_1]" l u0, folded u1_def A(1)]
      point_words [OF m(2) x, of i "[c 2, c 3, f_0, f_1]" l u1, folded u2_def A(2)]
      point_words [OF m(3) x, of i "[c 4, c 5, f_0, f_1]" l u2, folded u3_def A(3)]
    by (simp add: u0_def)
  show ?thesis
  proof (cases "18 * j < x \<and> x \<le> 18 * j + 18")
    case False
    then show ?thesis unfolding t A_def [symmetric] w by auto
  next
    case True
    define k where "k = x - 18 * j - 1"
    have xk: "x = 18 * j + k + 1" and k: "k < 18" using True by (auto simp: k_def)
    have "x - 1 = k + 6 * (3 * j)" by (simp add: xk)
    then have d: "(x - 1) div 6 = 3 * j + k div 6" "(x - 1) mod 6 = k mod 6"
      by (simp_all only: div_mult_self2 mod_mult_self2)
    have v: "vertex_word U n (3 * j + q) (r + 1) = [l ! 0, l ! 1, l ! 2, c (2 * q), c (2 * q + 1), f_0] ! r"
      if "q < 3" "r < 6" for q r
    proof -
      have "(3 * j + q) div 3 = j" "(3 * j + q) mod 3 = q" using that(1) by simp_all
      then show ?thesis
        using that(2) unfolding less_Suc_eq_le numeral_nat
        by (auto simp: vertex_word_def Let_def l_def c_def n le_Suc_eq add.commute add.left_commute)
    qed
    have r: "k mod 6 < 6" and r5: "k mod 6 \<le> 5" and kq: "k = 6 * (k div 6) + k mod 6"
      using mod_less_divisor [of 6 k] by simp_all
    have "k div 6 = 0 \<or> k div 6 = 1 \<or> k div 6 = 2" using k by linarith
    then show ?thesis
    proof (elim disjE)
      assume q: "k div 6 = 0"
      with kq r show ?thesis unfolding t A_def [symmetric] w d q using v [of 0, OF _ r] by (simp add: xk)
    next
      assume q: "k div 6 = 1"
      with kq r have "x = 18 * j + 6 + k mod 6 + 1" by (simp add: xk)
      with r r5 show ?thesis unfolding t A_def [symmetric] w d q using v [of 1, OF _ r] by simp
    next
      assume q: "k div 6 = 2"
      with kq r have "x = 18 * j + 12 + k mod 6 + 1" by (simp add: xk)
      with r r5 show ?thesis unfolding t A_def [symmetric] w d q using v [of 2, OF _ r] by simp
    qed
  qed
qed

lemma triangles_words:
  fixes U :: "'d u_env" and u :: "'d user" and i J :: nat
  defines "v \<equiv> fold (fill_triangle U i) [0..<J] u"
  assumes "J \<le> 100"
  shows "u_addr v = u_addr u \<and> rand_calls v = rand_calls u + 9 * J \<and> drv v = drv u \<and>
    (\<forall>a. a \<noteq> u_addr u i \<longrightarrow> u_buf v a = u_buf u a) \<and>
    (\<forall>x < 2 ^ 32. u_buf v (u_addr u i) (of_nat x) =
      (if 0 < x \<and> x \<le> 18 * J then vertex_word U (rand_calls u) ((x - 1) div 6) ((x - 1) mod 6 + 1)
       else u_buf u (u_addr u i) (of_nat x)))"
  using assms(2) unfolding v_def
proof (induction J)
  case (Suc J)
  let ?v = "fold (fill_triangle U i) [0..<J] u"
  from Suc have IH: "u_addr ?v = u_addr u" "rand_calls ?v = rand_calls u + 9 * J" "drv ?v = drv u"
    "\<forall>a. a \<noteq> u_addr u i \<longrightarrow> u_buf ?v a = u_buf u a" and w: "\<And>x. x < 2 ^ 32 \<Longrightarrow>
      u_buf ?v (u_addr u i) (of_nat x) =
      (if 0 < x \<and> x \<le> 18 * J then vertex_word U (rand_calls u) ((x - 1) div 6) ((x - 1) mod 6 + 1)
       else u_buf u (u_addr u i) (of_nat x))" by simp_all
  have e: "fold (fill_triangle U i) [0..<Suc J] u = fill_triangle U i J ?v" by simp
  have "u_buf (fill_triangle U i J ?v) (u_addr u i) (of_nat x) =
      (if 0 < x \<and> x \<le> 18 * Suc J then vertex_word U (rand_calls u) ((x - 1) div 6) ((x - 1) mod 6 + 1)
       else u_buf u (u_addr u i) (of_nat x))" if "x < 2 ^ 32" for x
    using triangle_words [of J x ?v "rand_calls u" U i] Suc.prems IH(1,2) w [OF that] that by auto
  with IH show ?case unfolding e by simp
qed simp

text \<open>
  Filling a DMA buffer writes the header, with the count of 300 vertices, into word 0 and the six
  words of each vertex behind it, and nothing else; \<open>n\<close> numbers had been drawn before, and \<open>m\<close> is the
  memory of the buffer.
\<close>

definition dma_words :: "'d u_env \<Rightarrow> nat \<Rightarrow> (u32 \<Rightarrow> u32) \<Rightarrow> u32 \<Rightarrow> u32" where
  "dma_words U n m = (\<lambda>w.
     if unat w = 0 then 0x144B1045
     else if unat w \<le> 1800 then vertex_word U n ((unat w - 1) div 6) ((unat w - 1) mod 6 + 1)
     else m w)"

lemma fill_buffer_words:
  "u_buf (fill_buffer U i u) = (u_buf u)(u_addr u i := dma_words U (rand_calls u) (u_buf u (u_addr u i)))"
  and fill_buffer_frame: "u_addr (fill_buffer U i u) = u_addr u" "rand_calls (fill_buffer U i u) = rand_calls u + 900"
    "drv (fill_buffer U i u) = drv u"
proof -
  have T: "unat TRIANGLE_NUM = 100" by (simp add: TRIANGLE_NUM_def)
  let ?h = "fill_header i u" let ?v = "fill_buffer U i u"
  have h: "u_addr ?h = u_addr u" "rand_calls ?h = rand_calls u" "drv ?h = drv u"
    "u_buf ?h = (u_buf u)(u_addr u i := (u_buf u (u_addr u i))(0 := 0x144B1045))"
    by (simp_all add: fill_header_def u_store_def Let_def hdr_word_def TRIANGLE_NUM_def)
  note v = triangles_words [of 100 U i ?h, folded T, folded fill_buffer_def, unfolded h T]
  have "u_buf ?v (u_addr u i) w = dma_words U (rand_calls u) (u_buf u (u_addr u i)) w" for w
  proof -
    have "unat w < 2 ^ 32" using unsigned_less [of w, where ?'a = nat] by simp
    with v have "u_buf ?v (u_addr u i) (of_nat (unat w)) =
        (if 0 < unat w \<and> unat w \<le> 18 * 100
         then vertex_word U (rand_calls u) ((unat w - 1) div 6) ((unat w - 1) mod 6 + 1)
         else ((u_buf u)(u_addr u i := (u_buf u (u_addr u i))(0 := 0x144B1045))) (u_addr u i)
           (of_nat (unat w)))"
      by blast
    moreover have "of_nat (unat w) = w" "unat w = 0 \<longleftrightarrow> w = 0" by (simp_all add: unat_eq_0)
    ultimately show ?thesis by (auto simp: dma_words_def)
  qed
  with v show "u_buf ?v = (u_buf u)(u_addr u i := dma_words U (rand_calls u) (u_buf u (u_addr u i)))"
    by (auto simp: fun_eq_iff)
  from v show "u_addr ?v = u_addr u" "rand_calls ?v = rand_calls u + 900" "drv ?v = drv u" by simp_all
qed

section \<open>Two processes\<close>

lemma spin_flag_ends: "spin_flag f = Some x \<Longrightarrow> f = 2"
  by (induction rule: spin_flag.raw_induct [rotated, consumes 1, case_names step])
    (auto split: if_splits)

text \<open>
  Neither process of \<open>smp.c\<close> gets past its waiting loop. Each counts its own copy of \<open>flag\<close> to 1,
  and the loop waits for 2; so the buffers are never unbound and the graphics stays on.
\<close>

theorem smp_never_ends:
  assumes "smp_process U u = Some (flag, v)"
  shows "flag = 1 \<and> (\<forall>w. smp_rest U flag w = None)"
proof -
  have f: "flag = 1" using assms by (auto simp: smp_process_def Let_def Option.bind_eq_Some_conv)
  moreover have "spin_flag 1 = None" using spin_flag_ends [of 1] by (cases "spin_flag 1") auto
  ultimately show ?thesis by (simp add: smp_rest_def)
qed

section \<open>An instance\<close>

definition u_env0 :: "u32 u_env" where
  "u_env0 = \<lparr>k_env = ky_env0, entry_addr = 0x4040, bufs_addr = 0x4100, mmap_at = (\<lambda>_. 0x7000000),
     u_sleep = (\<lambda>n s. s), u_rand = of_nat, coord_of = (\<lambda>r. r), colour_of = (\<lambda>r. r)\<rparr>"

definition user0 :: "u32 kyouko \<Rightarrow> u32 user" where
  "user0 s = \<lparr>u_entry = \<lparr>command = 0, entry_value = 0\<rparr>, u_fb = (\<lambda>_. 0), u_regs = (\<lambda>_. 0),
     u_addr = (\<lambda>_. 0), u_hdr = (\<lambda>_. \<lparr>hdr_address = 0, hdr_count = 0, hdr_opcode = 0\<rparr>),
     u_buf = (\<lambda>_ _. 0), rand_calls = 0, drv = s\<rparr>"

lemma u_env0_ok: "u_env_ok u_env0" "card_follows (k_env u_env0)" "ky_alloc_ok (k_env u_env0)"
  by (simp_all add: u_env_ok_def card_follows_def ky_alloc_ok_def u_env0_def ky_env0_def)

lemma user0_opens:
  obtains v where "call_open u_env0 (user0 ky_probed) = Some v"
proof -
  have "\<exists>d. kyouko3_open (env_of u_env0 (user0 ky_probed)) ky_probed = Some d"
    by (simp add: kyouko3_open_def init_fifo_def K_READ_REG_def K_WRITE_REG_def u_env0_def ky_env0_def
        env_of_def ky_probed_def ky_pause.simps FifoTail_def FifoHead_def FifoStart_def FifoEnd_def
        Device_RAM_def)
  then show thesis using that by (auto simp: call_open_def user0_def)
qed

lemma user0_probed:
  "length (dmabuffs (drv (user0 ky_probed))) = 8" "unat (mmap_index (drv (user0 ky_probed))) < 8"
  "\<not> ky_lock (drv (user0 ky_probed))"
  by (simp_all add: user0_def ky_probed_def)


theorem smp_never_ends_witness:
  "\<exists>u v. smp_process u_env0 u = Some (1, v) \<and> smp_rest u_env0 1 v = None"
proof -
  let ?u = "user0 (ky_opened\<lparr>ky_vma := Some \<lparr>vm_start = 64, vm_end = 128, vm_pgoff = 0\<rparr>\<rparr>)"
  have "\<exists>r d. bind_dma (env_of u_env0 ?u) 0x4100 (drv ?u) = Some (r, d)"
    by (simp add: bind_dma_def bind_one_def upt_rec u_env0_def ky_env0_def env_of_def user0_def
        ky_opened_def ky_probed_def NUM_BUFS_def K_WRITE_REG_def)
  then obtain f v where s: "smp_process u_env0 ?u = Some (f, v)"
    by (auto simp: smp_process_def call_ioctl_def kyouko3_ioctl_def u_env0_def Let_def)
  from smp_never_ends [OF s] s show ?thesis by blast
qed

end
