(* ===== verification/Kyouko_Dma_Run.thy ===== *)
theory Kyouko_Dma_Run
  imports Kyouko_User_Run Kyouko_Bind
begin

text \<open>
  The program \<open>src/lab4/user.c\<close> in its mode \<open>dma\<close>, together with the driver and its interrupt handler:
  eight buffers of triangles are bound, filled, sent one after the other and given back.
\<close>

section \<open>The state of the driver between two calls\<close>

text \<open>
  The commands \<open>ws\<close> are in the FIFO, the buffers are \<open>B\<close>, the next one to fill is \<open>f\<close> and the card
  has finished those before \<open>d\<close>; \<open>L\<close> is the log of kernel services.
\<close>

definition dma_at ::
  "k_dmabuff list \<Rightarrow> (u32 \<times> u32) list \<Rightarrow> ky_event list \<Rightarrow> nat \<Rightarrow> nat \<Rightarrow> 'd kyouko \<Rightarrow> bool" where
  "dma_at B ws L f d s \<longleftrightarrow> holds_cmds ws s \<and> \<not> ky_lock s \<and> \<not> isFull s \<and> unat (dma_fill s) = f \<and>
     unat (dma_drain s) = d \<and> dmabuffs s = B \<and> mmap_index s = 0 \<and> ky_log s = L"

lemma dma_atD:
  assumes "dma_at B ws L f d s"
  shows "ky_ok s" "ky_inv s" "length B = 8" "f < 8" "d < 8" "k_control_mapped s"
  using assms by (auto simp: dma_at_def holds_cmds_def ky_inv_def ky_ok_def)

lemma dma_at_dev [simp]: "dma_at B ws L f d (dev_update g s) = dma_at B ws L f d s"
  by (simp add: dma_at_def holds_cmds_def ky_ok_def)

lemma dma_at_vma [simp]:
  "dma_at B ws L f d (ky_vma_update g s) = dma_at B ws L f d s"
  "dma_at B ws L f d (ky_pages_update h s) = dma_at B ws L f d s"
  "dma_at B ws L f d (graphics_on_update k s) = dma_at B ws L f d s"
  by (simp_all add: dma_at_def holds_cmds_def ky_ok_def)

lemma dma_at_note: "dma_at B ws L f d s \<Longrightarrow> dma_at B ws (L @ [e]) f d (ky_note e s)"
  by (auto simp: dma_at_def holds_cmds_def ky_ok_def)

lemma dma_at_write:
  assumes "dma_at B ws L f d s" and "length ws < 1023"
  shows "\<exists>t. FIFO_WRITE r v s = Some t \<and> dma_at B (ws @ [(r, v)]) L f d t"
proof -
  have h: "holds_cmds ws s" and ok: "ky_ok s" using assms(1) by (simp_all add: dma_at_def holds_cmds_def)
  obtain t where t: "FIFO_WRITE r v s = Some t" "holds_cmds (ws @ [(r, v)]) t" "ky_log t = ky_log s"
    using holds_fifo_write [OF h assms(2)] by blast
  moreover have "mmap_index t = mmap_index s" using FIFO_WRITE_ok [OF ok, of r v] t(1) by auto
  ultimately show ?thesis using assms(1) FIFO_WRITE_frame [OF t(1)] by (simp add: dma_at_def)
qed

lemma dma_at_write_all:
  "dma_at B ws L f d s \<Longrightarrow> length ws + length xs \<le> 1023 \<Longrightarrow>
   \<exists>t. fifo_write_all xs s = Some t \<and> dma_at B (ws @ xs) L f d t"
proof (induction xs arbitrary: ws s)
  case (Cons x xs)
  obtain r v where x: "x = (r, v)" by (cases x)
  have "length ws < 1023" using Cons.prems(2) by simp
  from dma_at_write [OF Cons.prems(1) this] obtain t where
    t: "FIFO_WRITE r v s = Some t" "dma_at B (ws @ [(r, v)]) L f d t" by blast
  with Cons.IH [OF t(2)] Cons.prems(2) x show ?case by simp
qed simp

lemma dma_at_reg: "dma_at B ws L f d s \<Longrightarrow> K_WRITE_REG E r v s = Some (dev_update (dev_write E (drop_bit 2 r) v) s)"
  by (simp add: K_WRITE_REG_ok dma_atD)

lemma dma_at_regs:
  "dma_at B ws L f d s \<Longrightarrow> \<exists>t. k_write_all E rs s = Some t \<and> dma_at B ws L f d t"
proof (induction rs arbitrary: s)
  case (Cons x rs)
  obtain r v where x: "x = (r, v)" by (cases x)
  with Cons dma_at_reg [OF Cons.prems] show ?case by simp
qed simp

section \<open>The calls of the driver\<close>

lemma ky_pause_dev: "ky_pause E s = Some t \<Longrightarrow> \<exists>d. t = dev_update (\<lambda>_. d) s"
proof (induction rule: ky_pause.raw_induct [rotated, consumes 1, case_names step])
  case (step f E s t)
  from step(2) obtain v x where k: "K_READ_REG E FifoTail s = Some (v, x)"
    and r: "(if v \<noteq> 0 then f E (dev_update (dev_step E) x) else Some x) = Some t"
    by (auto simp: Option.bind_eq_Some_conv)
  from k obtain y where x: "x = dev_update (\<lambda>_. y) s" by (auto simp: K_READ_REG_def split: if_splits prod.splits)
  show ?case
  proof (cases "v = 0")
    case True
    with r x show ?thesis by auto
  next
    case False
    with r have "f E (dev_update (dev_step E) x) = Some t" by simp
    from step(1) [OF this] x show ?thesis by (auto simp: comp_def)
  qed
qed

lemma open_at:
  assumes "ky_alloc_ok E" and "length (dmabuffs s) = 8" "mmap_index s = 0" "\<not> ky_lock s" "\<not> isFull s"
    and opn: "kyouko3_open E s = Some t"
  shows "dma_at (dmabuffs s) [] (ky_log t) 0 0 t"
proof -
  have "unat (mmap_index s) < 8" using assms(3) by simp
  from open_holds [OF assms(1,2) this assms(4) opn] have "holds_cmds [] t" .
  moreover from opn have "dmabuffs t = dmabuffs s \<and> mmap_index t = mmap_index s \<and> ky_lock t = ky_lock s \<and>
      isFull t = isFull s \<and> dma_fill t = 0 \<and> dma_drain t = 0"
    by (auto simp: kyouko3_open_def init_fifo_def K_READ_REG_def K_WRITE_REG_def Let_def Option.bind_eq_Some_conv
        dest!: ky_pause_dev split: option.splits if_splits prod.splits)
  ultimately show ?thesis using assms by (simp add: dma_at_def)
qed

lemma mmap_at:
  assumes "dma_at B ws L f d s" and "push_bit PAGE_SHIFT (vm_pgoff v) \<in> {0, 0x80000000}"
  shows "\<exists>r t. kyouko3_mmap E v s = Some (r, t) \<and> dma_at B ws L f d t"
  using assms by (auto simp: kyouko3_mmap_def Let_def)

lemma vmode_on_at:
  assumes "dma_at B ws L f d s" and "length ws + 6 \<le> 1023"
  shows "\<exists>t. kyouko3_ioctl E VMODE (word_of_int GRAPHICS_ON) s = Some (0, t) \<and>
    dma_at B (ws @ vmode_on_cmds) (L @ [Sleep_ms 10]) f d t"
proof -
  obtain x where x: "k_write_all E vmode_on_regs s = Some x" "dma_at B ws L f d x"
    using dma_at_regs [OF assms(1)] by blast
  have "length ws + length vmode_on_cmds \<le> 1023" using assms(2) by (simp add: vmode_on_cmds_def)
  from dma_at_write_all [OF dma_at_note [OF x(2)] this] obtain y where
    y: "fifo_write_all vmode_on_cmds (ky_note (Sleep_ms 10) x) = Some y"
      "dma_at B (ws @ vmode_on_cmds) (L @ [Sleep_ms 10]) f d y" by blast
  moreover have "sint (ucast (word_of_int GRAPHICS_ON :: u64) :: u32) = GRAPHICS_ON"
    by (simp add: GRAPHICS_ON_def)
  ultimately show ?thesis using x(1) by (simp add: kyouko3_ioctl_def ky_vmode_def Let_def)
qed

lemma vmode_off_at:
  assumes "dma_at B ws L f d s"
  shows "\<exists>t. kyouko3_ioctl E VMODE GRAPHICS_OFF s = Some (0, t) \<and> dma_at B ws L f d t \<and> graphics_on t = 0"
proof -
  obtain x where x: "k_write_all E [(Acceleration, 0x80000000), (ModeSet, 0)] s = Some x" "dma_at B ws L f d x"
    using dma_at_regs [OF assms] by blast
  moreover have "sint (ucast GRAPHICS_OFF :: u32) \<noteq> GRAPHICS_ON"
    by (simp add: GRAPHICS_ON_def GRAPHICS_OFF_def)
  ultimately show ?thesis by (simp add: kyouko3_ioctl_def ky_vmode_def Let_def del: k_write_all.simps)
qed

text \<open>Binding leaves the FIFO and the indices of the transfers alone.\<close>

definition idle_view :: "'d kyouko \<Rightarrow> _" where
  "idle_view s = (fifo s, dma_fill s, dma_drain s, isFull s, ky_lock s)"

lemma idle_view_update [simp]:
  "idle_view (dmabuffs_update f1 s) = idle_view s" "idle_view (ky_log_update f2 s) = idle_view s"
  "idle_view (ky_vma_update f3 s) = idle_view s" "idle_view (ky_pages_update f4 s) = idle_view s"
  "idle_view (mmap_index_update f5 s) = idle_view s" "idle_view (dev_update f6 s) = idle_view s"
  by (simp_all add: idle_view_def)

lemma mmap_idle: "kyouko3_mmap E v s = Some (r, t) \<Longrightarrow> idle_view t = idle_view s"
  by (auto simp: kyouko3_mmap_def Let_def split: if_splits)

lemma bind_one_idle:
  assumes "bind_one E a i s = Some t"
  shows "idle_view t = idle_view s"
proof -
  define x where "x = (case pci_alloc_consistent E 126976 s of
      None \<Rightarrow> s\<lparr>dmabuffs := (dmabuffs s)[i := (dmabuffs s ! i)\<lparr>k_mapped := False\<rparr>]\<rparr>
    | Some p \<Rightarrow> s\<lparr>dmabuffs := (dmabuffs s)[i := (dmabuffs s ! i)\<lparr>p_base := p, k_mapped := True\<rparr>]\<rparr>)"
  have x: "idle_view x = idle_view s" by (simp add: x_def split: option.split)
  from assms obtain y v where "idle_view t = idle_view y" and
    y: "(case user_mmap E i x of None \<Rightarrow> Some x
      | Some v \<Rightarrow> do { (_, s) \<leftarrow> kyouko3_mmap E (v\<lparr>vm_pgoff := 0x90000\<rparr>) x; Some s }) = Some y"
    by (auto simp: bind_one_def x_def [symmetric] Option.bind_eq_Some_conv Let_def split: if_splits)
  moreover from y have "idle_view y = idle_view x"
    by (auto simp: Option.bind_eq_Some_conv split: option.splits dest: mmap_idle)
  ultimately show ?thesis using x by simp
qed

lemma bind_all_idle: "bind_all E a is s = Some t \<Longrightarrow> idle_view t = idle_view s"
  by (induction E a "is" s rule: bind_all.induct) (auto simp: Option.bind_eq_Some_conv dest: bind_one_idle)

lemma bind_dma_idle:
  assumes "bind_dma E a s = Some (r, t)"
  shows "idle_view t = idle_view s"
proof -
  from assms obtain u where u: "bind_all E a [0..<unat NUM_BUFS] s = Some u"
    and r: "(let ret = pci_enable_msi E (dev u); s = ky_note Enable_msi u in
      if ret \<noteq> 0 then Some (ret, s)
      else let ret = request_irq E (dev s); s = ky_note Request_irq s in
        if ret \<noteq> 0 then Some (ret, ky_note Disable_msi s)
        else do { s \<leftarrow> K_WRITE_REG E InterruptSet 0x02 s; Some (0, s) }) = Some (r, t)"
    unfolding bind_dma_def by (cases "bind_all E a [0..<unat NUM_BUFS] s") simp_all
  from r have "idle_view t = idle_view u"
    by (auto simp: Let_def K_WRITE_REG_def split: if_splits)
  with bind_all_idle [OF u] show ?thesis by simp
qed

lemma bind_at:
  assumes at: "dma_at B ws L f d s" and env: "bind_env E va"
  shows "\<exists>t. kyouko3_ioctl E BIND_DMA arg s = Some (0, t) \<and>
    dma_at (dmabuffs t) ws (L @ map (slot_store (ucast arg) va) [0..<8] @ [Enable_msi, Request_irq]) f d t \<and>
    (\<forall>i<8. k_mapped (dmabuffs t ! i) \<and> u_dma_bufferAddress (dmabuffs t ! i) = vm_start (va i))"
proof -
  have "mmap_index s = 0" using at by (simp add: dma_at_def)
  from bind_dma_effect [OF env dma_atD(2) [OF at] this, of "ucast arg"] obtain t where
    t: "bind_dma E (ucast arg) s = Some (0, t)" "ky_inv t" "mmap_index t = 0"
      "\<forall>i<8. k_mapped (dmabuffs t ! i) \<and> u_dma_bufferAddress (dmabuffs t ! i) = vm_start (va i)"
      "ky_log t = ky_log s @ map (slot_store (ucast arg) va) [0..<8] @ [Enable_msi, Request_irq]"
    by blast
  have "fifo t = fifo s" "dma_fill t = dma_fill s" "dma_drain t = dma_drain s" "isFull t = isFull s" "ky_lock t = ky_lock s"
    using bind_dma_idle [OF t(1)] by (simp_all add: idle_view_def)
  then have "dma_at (dmabuffs t) ws (L @ map (slot_store (ucast arg) va) [0..<8] @ [Enable_msi, Request_irq]) f d t"
    using at t(2,3,5) by (simp add: dma_at_def holds_cmds_def ky_inv_def del: upt_rec_numeral)
  with t(1,4) show ?thesis by (simp add: kyouko3_ioctl_def del: upt_rec_numeral)
qed

lemma unbind_at:
  assumes at: "dma_at B ws L f d s"
  shows "\<exists>t. kyouko3_ioctl E UNBIND_DMA arg s = Some (0, t) \<and>
    dma_at B ws (L @ concat (map (\<lambda>i. give_back (B ! i)) [0..<8]) @ [Free_irq, Disable_msi]) f d t"
proof -
  have B: "dmabuffs s = B" "ky_log s = L" using at by (simp_all add: dma_at_def)
  have "list_all (\<lambda>i. i < length (dmabuffs s)) [0..<unat NUM_BUFS]"
    using dma_atD(3) [OF at] by (simp add: B NUM_BUFS_def list_all_iff)
  from unbind_all_effect [OF this] have
    "unbind_all [0..<unat NUM_BUFS] s = Some (ky_log_update (\<lambda>l. l @ concat (map (\<lambda>i. give_back (B ! i)) [0..<8])) s)"
    by (simp add: B NUM_BUFS_def del: upt_rec_numeral)
  moreover define x where "x = ky_log_update (\<lambda>l. l @ concat (map (\<lambda>i. give_back (B ! i)) [0..<8])) s"
  moreover have x: "dma_at B ws (L @ concat (map (\<lambda>i. give_back (B ! i)) [0..<8])) f d x"
    using at by (auto simp: dma_at_def holds_cmds_def ky_ok_def x_def simp del: upt_rec_numeral)
  ultimately have "kyouko3_ioctl E UNBIND_DMA arg s =
      Some (0, ky_note Disable_msi (ky_note Free_irq (dev_update (dev_write E (drop_bit 2 InterruptSet) 0) x)))"
    using dma_at_reg [OF x] by (simp add: kyouko3_ioctl_def unbind_dma_def del: upt_rec_numeral)
  moreover have "dma_at B ws (L @ concat (map (\<lambda>i. give_back (B ! i)) [0..<8]) @ [Free_irq, Disable_msi]) f d
      (ky_note Disable_msi (ky_note Free_irq (dev_update (dev_write E (drop_bit 2 InterruptSet) 0) x)))"
  proof -
    have "dma_at B ws (L @ concat (map (\<lambda>i. give_back (B ! i)) [0..<8])) f d
        (dev_update (dev_write E (drop_bit 2 InterruptSet) 0) x)" using x by (simp only: dma_at_dev)
    from dma_at_note [OF dma_at_note [OF this, of Free_irq], of Disable_msi] show ?thesis
      by (simp only: append_assoc append_Cons append_Nil)
  qed
  ultimately show ?thesis by blast
qed

section \<open>A transfer and its interrupt\<close>

text \<open>
  The card is free: the descriptor of the buffer goes into the FIFO at once, with the number of words
  that the program gave.
\<close>

lemma unat_next: "unat x < 8 \<Longrightarrow> unat ((x + 1) mod NUM_BUFS) = Suc (unat x) mod 8"
  using unat_add_lem [of x 1] by (simp add: NUM_BUFS_def unat_mod)

lemma next_other: "unat (x :: u32) < 8 \<Longrightarrow> (x + 1) mod NUM_BUFS \<noteq> x"
proof
  assume x: "unat x < 8" "(x + 1) mod NUM_BUFS = x"
  then have "Suc (unat x) mod 8 = unat x" using unat_next [of x] by simp
  with x(1) show False by (cases "unat x = 7") simp_all
qed

lemma start_at:
  assumes at: "dma_at B ws L k k s" and len: "length ws + 2 \<le> 1023" and m: "k_mapped (B ! k)"
  shows "\<exists>t. kyouko3_ioctl E START_DMA n s = Some (0, t) \<and>
    dma_at B (ws @ [(BufferA_Address, ucast (p_base (B ! k))), (BufferA_Config, ucast n)]) L (Suc k mod 8) k t"
proof -
  let ?s = "s\<lparr>ky_lock := True\<rparr>"
  have S: "ky_ok s" "holds_cmds ws s" "\<not> ky_lock s" "\<not> isFull s" "unat (dma_fill s) = k" "dmabuffs s = B"
    "dma_fill s = dma_drain s" "k < 8" "length B = 8"
    using at dma_atD [OF at] by (auto simp: dma_at_def word_unat_eq_iff)
  have l: "holds_cmds ws ?s" using S(2) by (simp add: holds_cmds_def ky_ok_def)
  obtain x where x: "FIFO_WRITE BufferA_Address (ucast (p_base (B ! k))) ?s = Some x"
    "holds_cmds (ws @ [(BufferA_Address, ucast (p_base (B ! k)))]) x" "ky_log x = ky_log ?s"
    using holds_fifo_write [OF l] len by fastforce
  obtain y where y: "FIFO_WRITE BufferA_Config (ucast n) x = Some y"
    "holds_cmds ((ws @ [(BufferA_Address, ucast (p_base (B ! k)))]) @ [(BufferA_Config, ucast n)]) y" "ky_log y = ky_log x"
    using holds_fifo_write [OF x(2)] len by fastforce
  have ok: "ky_ok ?s" "ky_ok x" "ky_ok y" using l x(2) y(2) by (simp_all add: holds_cmds_def)
  have X: "mmap_index x = mmap_index s" using FIFO_WRITE_ok [OF ok(1)] x(1) by auto
  have Y: "mmap_index y = mmap_index x" using FIFO_WRITE_ok [OF ok(2)] y(1) by auto
  note F = FIFO_WRITE_frame [OF x(1)] FIFO_WRITE_frame [OF y(1)]
  define t where "t = dev_update (dev_write E (drop_bit 2 FifoHead) (head (fifo y)))
    (y\<lparr>dma_fill := (dma_fill s + 1) mod NUM_BUFS, ky_lock := False\<rparr>)"
  have "kyouko3_ioctl E START_DMA n s = Some (0, t)"
    using S x(1) y(1) m F ok(3)
    by (simp add: kyouko3_ioctl_def initiate_transfer_def transfer_submit_def ky_lock_irq_def ky_unlock_irq_def
        K_WRITE_REG_def Let_def t_def ky_ok_def)
  moreover have "unat ((dma_fill s + 1) mod NUM_BUFS) = Suc k mod 8" using unat_next [of "dma_fill s"] S(5,8) by simp
  then have "dma_at B (ws @ [(BufferA_Address, ucast (p_base (B ! k))), (BufferA_Config, ucast n)]) L (Suc k mod 8) k t"
    using at x(3) y(2,3) F X Y by (auto simp: dma_at_def t_def holds_cmds_def ky_ok_def)
  ultimately show ?thesis by blast
qed

text \<open>
  The interrupt at the end of a transfer: the handler moves \<open>dma_drain\<close> on and puts the descriptor of the
  following buffer into the FIFO, although no transfer of that buffer is waiting.
\<close>

lemma irq_at:
  assumes at: "dma_at B ws L f k s" and f: "f = Suc k mod 8" and len: "length ws + 2 \<le> 1023"
    and run: "rkintr E s = Some (q, t)"
  shows "dma_at B (ws @ [(BufferA_Address, ucast (p_base (B ! f))), (BufferA_Config, cmdCount (B ! f))]) L f f t"
proof -
  have S: "ky_ok s" "unat (dma_drain s) = k" "dmabuffs s = B" "k < 8" "\<not> isFull s" "f < 8" "unat (dma_fill s) = f"
    using at dma_atD [OF at] by (auto simp: dma_at_def)
  obtain v d where r: "K_READ_REG E InterruptStatus s = Some (v, dev_update (\<lambda>_. d) s)"
    using K_READ_REG_ok [OF S(1)] by blast
  define s1 where "s1 = dev_update (dev_write E (drop_bit 2 InterruptStatus) 0xf) (dev_update (\<lambda>_. d) s)"
  define s2 where "s2 = s1\<lparr>dma_drain := (dma_drain s + 1) mod NUM_BUFS\<rparr>"
  have dd: "unat ((dma_drain s + 1) mod NUM_BUFS) = f" using unat_next [of "dma_drain s"] S(2,4) f by simp
  have a1: "dma_at B ws L f k s1" using at by (simp add: s1_def)
  then have a2: "dma_at B ws L f f s2" using dd S(6) by (auto simp: s2_def dma_at_def holds_cmds_def ky_ok_def)
  have w: "K_WRITE_REG E InterruptStatus 0xf (dev_update (\<lambda>_. d) s) = Some s1"
    using at by (simp add: s1_def dma_at_reg)
  have B: "dmabuffs s2 = B" "length B = 8" using a2 dma_atD(3) [OF a2] by (simp_all add: dma_at_def)
  obtain x where x: "FIFO_WRITE BufferA_Address (ucast (p_base (B ! f))) s2 = Some x"
    "dma_at B (ws @ [(BufferA_Address, ucast (p_base (B ! f)))]) L f f x"
    using dma_at_write [OF a2] len by fastforce
  obtain y where y: "FIFO_WRITE BufferA_Config (cmdCount (B ! f)) x = Some y"
    "dma_at B ((ws @ [(BufferA_Address, ucast (p_base (B ! f)))]) @ [(BufferA_Config, cmdCount (B ! f))]) L f f y"
    using dma_at_write [OF x(2)] len by fastforce
  have "dmabuffs x = B" using x(2) by (simp add: dma_at_def)
  moreover have "dma_fill y = dma_drain y" using y(2) by (auto simp: dma_at_def word_unat_eq_iff)
  moreover have "(iflags AND (if (0x02 :: u32) = 0 then 1 else 0) \<noteq> 0) = False" for iflags :: u32 by simp
  moreover have "dma_drain s1 = dma_drain s" "dmabuffs s1 = B" using S(3) by (simp_all add: s1_def)
  ultimately have "rkintr E s = Some (IRQ_HANDLED, dev_update (dev_write E (drop_bit 2 FifoHead) (head (fifo y))) y)"
    using r w x(1) y(1) B dd S(6) dma_at_reg [OF y(2)]
    by (simp add: rkintr_def Let_def s2_def [symmetric])
  with run have "t = dev_update (dev_write E (drop_bit 2 FifoHead) (head (fifo y))) y" by simp
  with y(2) show ?thesis by simp
qed

section \<open>The program\<close>

text \<open>
  While the program sleeps only the card acts, and if a transfer is under way, the interrupt at its end
  is handled. The program, with its static data, is loaded below 4 GB.
\<close>

definition irq_sleep :: "'d u_env \<Rightarrow> bool" where
  "irq_sleep U \<longleftrightarrow> (\<forall>n s. ky_ok s \<longrightarrow>
     (if dma_fill s = dma_drain s then \<exists>d. u_sleep U n s = dev_update (\<lambda>_. d) s
      else \<exists>d d' q t. rkintr (k_env U) (dev_update (\<lambda>_. d) s) = Some (q, t) \<and>
        u_sleep U n s = dev_update (\<lambda>_. d') t))"

definition low_data :: "'d u_env \<Rightarrow> bool" where
  "low_data U \<longleftrightarrow> ucast (ucast (entry_addr U) :: u32) = entry_addr U \<and> ucast (ucast (bufs_addr U) :: u32) = bufs_addr U"

definition u_mem :: "'d user \<Rightarrow> _" where
  "u_mem u = (u_buf u, u_addr u, rand_calls u)"

text \<open>The driver is at this point, and the memory of the program is \<open>M\<close>.\<close>

definition user_at where
  "user_at B ws L f d M u \<longleftrightarrow> dma_at B ws L f d (drv u) \<and> u_mem u = M"

lemma env_of_more [simp]:
  "user_mmap (env_of U u) = user_mmap (k_env U)" "pci_enable_msi (env_of U u) = pci_enable_msi (k_env U)"
  "request_irq (env_of U u) = request_irq (k_env U)" "bind_env (env_of U u) va = bind_env (k_env U) va"
  "ky_alloc_ok (env_of U u) = ky_alloc_ok (k_env U)"
  by (simp_all add: env_of_def bind_env_def ky_alloc_ok_def)

text \<open>Only \<open>BIND_DMA\<close> stores into the memory of the program.\<close>

lemma no_stores: "\<forall>a v. User_store a v \<notin> set es \<Longrightarrow> apply_stores U es u = u"
  by (induction U es u rule: apply_stores.induct) auto

lemma call_ioctl_at:
  assumes run: "kyouko3_ioctl (env_of U u) cmd arg (drv u) = Some (r, t)"
    and t: "dma_at B ws (ky_log (drv u) @ es) f d t" and es: "\<forall>a v. User_store a v \<notin> set es" and M: "u_mem u = M"
  shows "sat (user_at B ws (ky_log (drv u) @ es) f d M) (call_ioctl U cmd arg u)"
proof -
  have "ky_log t = ky_log (drv u) @ es" using t by (simp add: dma_at_def)
  then have "call_ioctl U cmd arg u = Some (u\<lparr>drv := t\<rparr>)"
    using run no_stores [OF es] by (simp add: call_ioctl_def)
  with t M show ?thesis by (simp add: user_at_def u_mem_def)
qed

lemma queue_at:
  assumes U: "low_data U" and u: "user_at B ws L f d M u" and len: "length ws < 1023"
  shows "sat (user_at B (ws @ [(r, v)]) L f d M) (ioctlQueue U r v u)"
proof -
  have at: "dma_at B ws L f d (drv u)" "ky_log (drv u) = L" "u_mem u = M"
    using u by (simp_all add: user_at_def dma_at_def)
  obtain t where t: "FIFO_WRITE r v (drv u) = Some t" "dma_at B (ws @ [(r, v)]) L f d t"
    using dma_at_write [OF at(1) len] by blast
  let ?u = "u\<lparr>u_entry := \<lparr>command = r, entry_value = v\<rparr>\<rparr>"
  have "kyouko3_ioctl (env_of U ?u) FIFO_QUEUE (entry_addr U) (drv ?u) = Some (0, t)"
    using t(1) U by (simp add: kyouko3_ioctl_def env_of_def low_data_def)
  from call_ioctl_at [OF this, of B "ws @ [(r, v)]" "[]" f d M] t(2) at(2,3) show ?thesis
    by (simp add: ioctlQueue_def u_mem_def)
qed

lemma sleep_idle:
  assumes "irq_sleep U" and "user_at B ws L k k M u"
  shows "user_at B ws L k k M (call_sleep U n u)"
proof -
  have at: "dma_at B ws L k k (drv u)" "u_mem u = M" using assms(2) by (simp_all add: user_at_def)
  then have "dma_fill (drv u) = dma_drain (drv u)" by (auto simp: dma_at_def word_unat_eq_iff)
  with assms(1) dma_atD(1) [OF at(1)] obtain d where "u_sleep U n (drv u) = dev_update (\<lambda>_. d) (drv u)"
    unfolding irq_sleep_def by metis
  with at show ?thesis by (simp add: user_at_def u_mem_def del: kyouko.simps)
qed

lemma sleep_irq:
  assumes "irq_sleep U" and u: "user_at B ws L f k M u" and f: "f = Suc k mod 8" and len: "length ws + 2 \<le> 1023"
  shows "user_at B (ws @ [(BufferA_Address, ucast (p_base (B ! f))), (BufferA_Config, cmdCount (B ! f))]) L f f M
    (call_sleep U n u)"
proof -
  have at: "dma_at B ws L f k (drv u)" "u_mem u = M" using u by (simp_all add: user_at_def)
  then have "unat (dma_fill (drv u)) = Suc k mod 8" "unat (dma_drain (drv u)) = k" "k < 8"
    using f dma_atD(5) [OF at(1)] by (simp_all add: dma_at_def)
  then have "dma_fill (drv u) \<noteq> dma_drain (drv u)" by (cases "k = 7") auto
  with assms(1) dma_atD(1) [OF at(1)] obtain d d' q t where
    r: "rkintr (k_env U) (dev_update (\<lambda>_. d) (drv u)) = Some (q, t)" and t: "u_sleep U n (drv u) = dev_update (\<lambda>_. d') t"
    unfolding irq_sleep_def by metis
  have "dma_at B ws L f k (dev_update (\<lambda>_. d) (drv u))" using at(1) by (simp only: dma_at_dev)
  from irq_at [OF this f len r] t at(2) show ?thesis
    by (simp add: user_at_def u_mem_def del: kyouko.simps)
qed

text \<open>The commands for one buffer, and the memory of the program after \<open>k\<close> buffers have been filled.\<close>

definition buffer_cmds :: "k_dmabuff list \<Rightarrow> nat \<Rightarrow> (u32 \<times> u32) list" where
  "buffer_cmds B i =
     [(Flush, 0), (BufferA_Address, ucast (p_base (B ! i))), (BufferA_Config, 1801),
      (BufferA_Address, ucast (p_base (B ! (Suc i mod 8)))), (BufferA_Config, cmdCount (B ! (Suc i mod 8))), (Flush, 0)]"

definition painted where
  "painted U A n0 m0 k M \<longleftrightarrow> (case M of (buf, addr, n) \<Rightarrow>
     (\<forall>i<8. addr i = A i) \<and> n = n0 + 900 * k \<and> (\<forall>i<k. buf (A i) = dma_words U (n0 + 900 * i) (m0 (A i))) \<and>
     (\<forall>a. a \<notin> A ` {..<k} \<longrightarrow> buf a = m0 a))"

lemma send_one:
  fixes U :: "'d u_env" and u :: "'d user"
  assumes U: "low_data U" "irq_sleep U" and u: "user_at B ws L k k M u" and len: "length ws + 6 \<le> 1023"
    and m: "k_mapped (B ! k)" and Q: "\<And>v. user_at B (ws @ buffer_cmds B k) L (Suc k mod 8) (Suc k mod 8) M v \<Longrightarrow> sat Q (g v)"
  shows "sat Q (do {
     u \<leftarrow> ioctlQueue U Flush 0 u;
     u \<leftarrow> call_ioctl U START_DMA (18 * ucast TRIANGLE_NUM + 1) u;
     u \<leftarrow> ioctlQueue U Flush 0 (call_sleep U 1 u);
     g u })"
proof (rule sat_seq [OF queue_at [OF U(1) u]])
  show "length ws < 1023" using len by simp
next
  fix v :: "'d user" assume v: "user_at B (ws @ [(Flush, 0)]) L k k M v"
  let ?w1 = "[(BufferA_Address, ucast (p_base (B ! k))), (BufferA_Config, 1801)]"
    and ?w2 = "[(BufferA_Address, ucast (p_base (B ! (Suc k mod 8)))), (BufferA_Config, cmdCount (B ! (Suc k mod 8)))]"
  have at: "dma_at B (ws @ [(Flush, 0)]) L k k (drv v)" "ky_log (drv v) = L" "u_mem v = M"
    using v by (simp_all add: user_at_def dma_at_def)
  have n: "(ucast (18 * ucast TRIANGLE_NUM + 1 :: u64) :: u32) = 1801" by (simp add: TRIANGLE_NUM_def)
  have "length (ws @ [(Flush, 0)]) + 2 \<le> 1023" using len by simp
  from start_at [OF at(1) this m, of "env_of U v" "18 * ucast TRIANGLE_NUM + 1"] obtain t where
    t: "kyouko3_ioctl (env_of U v) START_DMA (18 * ucast TRIANGLE_NUM + 1) (drv v) = Some (0, t)"
      "dma_at B ((ws @ [(Flush, 0)]) @ ?w1) L (Suc k mod 8) k t" unfolding n by blast
  from call_ioctl_at [OF t(1), of B "(ws @ [(Flush, 0)]) @ ?w1" "[]" "Suc k mod 8" k M] t(2) at(2,3)
  have "sat (user_at B ((ws @ [(Flush, 0)]) @ ?w1) L (Suc k mod 8) k M)
      (call_ioctl U START_DMA (18 * ucast TRIANGLE_NUM + 1) v)" by simp
  then show "sat Q (do {
     u \<leftarrow> call_ioctl U START_DMA (18 * ucast TRIANGLE_NUM + 1) v;
     u \<leftarrow> ioctlQueue U Flush 0 (call_sleep U 1 u);
     g u })"
  proof (rule sat_seq)
    fix w :: "'d user" assume w: "user_at B ((ws @ [(Flush, 0)]) @ ?w1) L (Suc k mod 8) k M w"
    have x: "user_at B (((ws @ [(Flush, 0)]) @ ?w1) @ ?w2) L (Suc k mod 8) (Suc k mod 8) M (call_sleep U 1 w)"
      by (rule sleep_irq [OF U(2) w refl]) (use len in simp)
    show "sat Q (do { u \<leftarrow> ioctlQueue U Flush 0 (call_sleep U 1 w); g u })"
    proof (rule sat_seq [OF queue_at [OF U(1) x]])
      fix y :: "'d user" assume "user_at B ((((ws @ [(Flush, 0)]) @ ?w1) @ ?w2) @ [(Flush, 0)]) L (Suc k mod 8) (Suc k mod 8) M y"
      then show "sat Q (g y)" by (intro Q) (simp add: buffer_cmds_def)
    qed (use len in simp)
  qed
qed

lemma fill_at:
  assumes u: "user_at B ws L f d M u" and M: "painted U A n0 m0 k M" and k: "k < 8" and A: "inj_on A {..<8}"
  shows "\<exists>M'. user_at B ws L f d M' (fill_buffer U k u) \<and> painted U A n0 m0 (Suc k) M'"
proof -
  have mem: "(u_buf u, u_addr u, rand_calls u) = M" "dma_at B ws L f d (drv u)"
    using u by (simp_all add: user_at_def u_mem_def)
  then have P: "\<forall>i<8. u_addr u i = A i" "rand_calls u = n0 + 900 * k"
    "\<forall>i<k. u_buf u (A i) = dma_words U (n0 + 900 * i) (m0 (A i))" "\<forall>a. a \<notin> A ` {..<k} \<longrightarrow> u_buf u a = m0 a"
    using M by (auto simp: painted_def)
  have new: "A k \<notin> A ` {..<k}" using inj_onD [OF A, of k] k by force
  have "u_buf (fill_buffer U k u) = (u_buf u)(A k := dma_words U (n0 + 900 * k) (m0 (A k)))"
    using fill_buffer_words [of U k u] P k new by simp
  moreover have "\<forall>i<k. A i \<noteq> A k" using new by (metis imageI lessThan_iff)
  ultimately have "painted U A n0 m0 (Suc k) (u_mem (fill_buffer U k u))"
    using P by (auto simp: painted_def u_mem_def fill_buffer_frame less_Suc_eq lessThan_Suc)
  moreover have "user_at B ws L f d (u_mem (fill_buffer U k u)) (fill_buffer U k u)"
    using mem(2) by (simp add: user_at_def fill_buffer_frame)
  ultimately show ?thesis by blast
qed

lemma send_buffers_run:
  fixes U :: "'d u_env" and u :: "'d user"
  assumes U: "low_data U" "irq_sleep U" and B: "\<forall>i<8. k_mapped (B ! i)" and A: "inj_on A {..<8}"
  shows "k \<le> 8 \<Longrightarrow> user_at B ws L (k mod 8) (k mod 8) M u \<Longrightarrow> painted U A n0 m0 k M \<Longrightarrow>
    length ws + 6 * (8 - k) \<le> 1023 \<Longrightarrow>
    \<exists>M'. painted U A n0 m0 8 M' \<and>
      sat (user_at B (ws @ concat (map (buffer_cmds B) [k..<8])) L 0 0 M') (send_buffers U [k..<8] u)"
proof (induction "8 - k" arbitrary: k ws M u)
  case 0
  then have "k = 8" by simp
  with 0 show ?case by (intro exI [of _ M]) simp
next
  case (Suc j)
  then have k: "k < 8" "k mod 8 = k" "[k..<8] = k # [Suc k..<8]" by (simp_all add: upt_conv_Cons)
  obtain M1 where M1: "user_at B ws L k k M1 (fill_buffer U k u)" "painted U A n0 m0 (Suc k) M1"
    using fill_at [OF Suc.prems(2,3) k(1) A] k(2) by auto
  have len: "length ws + 6 \<le> 1023" using Suc.prems(4) k(1) by simp
  have IH: "\<exists>M'. painted U A n0 m0 8 M' \<and> sat (user_at B ((ws @ buffer_cmds B k) @ concat (map (buffer_cmds B) [Suc k..<8])) L 0 0 M')
      (send_buffers U [Suc k..<8] v)"
    if "user_at B (ws @ buffer_cmds B k) L (Suc k mod 8) (Suc k mod 8) M1 v" for v
    by (rule Suc.hyps(1) [OF _ _ that M1(2)]) (use Suc k in \<open>simp_all add: buffer_cmds_def\<close>)
  have "sat (\<lambda>w. \<exists>M'. painted U A n0 m0 8 M' \<and> user_at B (ws @ concat (map (buffer_cmds B) [k..<8])) L 0 0 M' w)
      (send_buffers U [k..<8] u)"
    unfolding k(3) send_buffers.simps Let_def
  proof (rule send_one [OF U M1(1) len])
    show "k_mapped (B ! k)" using B k(1) by simp
    fix v :: "'d user" assume "user_at B (ws @ buffer_cmds B k) L (Suc k mod 8) (Suc k mod 8) M1 v"
    from IH [OF this] show "sat (\<lambda>w. \<exists>M'. painted U A n0 m0 8 M' \<and>
        user_at B (ws @ concat (map (buffer_cmds B) (k # [Suc k..<8]))) L 0 0 M' w) (send_buffers U [Suc k..<8] v)"
      by (auto simp: sat_def)
  qed
  then show ?case by (auto simp: sat_def)
qed

text \<open>The other calls of the program.\<close>

lemma mmap_user:
  assumes u: "user_at B ws L f d M u" and off: "push_bit PAGE_SHIFT (drop_bit PAGE_SHIFT off) \<in> {0, 0x80000000}"
  shows "sat (user_at B ws L f d M) (call_mmap U len off u)"
proof -
  let ?v = "\<lparr>vm_start = mmap_at U off, vm_end = mmap_at U off + ((len + 4095) AND NOT 4095),
    vm_pgoff = drop_bit PAGE_SHIFT off\<rparr>"
  have "dma_at B ws L f d (drv u)" "push_bit PAGE_SHIFT (vm_pgoff ?v) \<in> {0, 0x80000000}"
    using u off by (simp_all add: user_at_def)
  from mmap_at [OF this, of "env_of U u"] u show ?thesis
    by (auto simp: call_mmap_def user_at_def u_mem_def Let_def)
qed

lemma slot_found:
  assumes "i < 8"
  shows "find (\<lambda>j. a + 16 * of_nat j = a + 16 * (of_nat i :: u64)) [0..<unat NUM_BUFS] = Some i"
proof -
  have "i = 0 \<or> i = 1 \<or> i = 2 \<or> i = 3 \<or> i = 4 \<or> i = 5 \<or> i = 6 \<or> i = 7" using assms by linarith
  then show ?thesis by (elim disjE) (simp_all add: NUM_BUFS_def upt_rec)
qed

lemma bind_stores:
  assumes a: "low_data U"
  shows "set is \<subseteq> {..<8} \<Longrightarrow> \<exists>w. apply_stores U (map (slot_store (ucast (bufs_addr U)) va) is @ es) u = apply_stores U es w \<and>
    u_buf w = u_buf u \<and> rand_calls w = rand_calls u \<and> drv w = drv u \<and>
    (\<forall>i. u_addr w i = (if i \<in> set is then vm_start (va i) else u_addr u i))"
proof (induction "is" arbitrary: u)
  case (Cons i "is")
  let ?u = "u\<lparr>u_addr := (u_addr u)(i := vm_start (va i))\<rparr>"
  have "apply_stores U (map (slot_store (ucast (bufs_addr U)) va) (i # is) @ es) u =
      apply_stores U (map (slot_store (ucast (bufs_addr U)) va) is @ es) ?u"
    using a Cons.prems slot_found [of i "bufs_addr U"] by (simp add: slot_store_def low_data_def)
  with Cons.IH [of ?u] Cons.prems show ?case by fastforce
qed (auto intro: exI [of _ u])

lemma bind_user:
  assumes U: "low_data U" and env: "bind_env (k_env U) va" and u: "user_at B ws L 0 0 (buf, addr, n) u"
  shows "sat (\<lambda>w. user_at (dmabuffs (drv w)) ws
      (L @ map (slot_store (ucast (bufs_addr U)) va) [0..<8] @ [Enable_msi, Request_irq]) 0 0 (buf, u_addr w, n) w \<and>
    (\<forall>i<8. u_addr w i = vm_start (va i) \<and> k_mapped (dmabuffs (drv w) ! i) \<and>
      u_dma_bufferAddress (dmabuffs (drv w) ! i) = vm_start (va i))) (call_ioctl U BIND_DMA (bufs_addr U) u)"
proof -
  let ?es = "map (slot_store (ucast (bufs_addr U)) va) [0..<8] @ [Enable_msi, Request_irq]"
  have at: "dma_at B ws L 0 0 (drv u)" "ky_log (drv u) = L" "u_buf u = buf" "rand_calls u = n"
    using u by (simp_all add: user_at_def u_mem_def dma_at_def)
  have "bind_env (env_of U u) va" using env by simp
  from bind_at [OF at(1) this, of "bufs_addr U"] obtain t where
    t: "kyouko3_ioctl (env_of U u) BIND_DMA (bufs_addr U) (drv u) = Some (0, t)"
      "dma_at (dmabuffs t) ws (L @ ?es) 0 0 t"
      "\<forall>i<8. k_mapped (dmabuffs t ! i) \<and> u_dma_bufferAddress (dmabuffs t ! i) = vm_start (va i)" by blast
  have "set [0..<8] \<subseteq> {..<8 :: nat}" by auto
  from bind_stores [OF U this, of va "[Enable_msi, Request_irq]" "u\<lparr>drv := t\<rparr>"] obtain w where
    w: "apply_stores U ?es (u\<lparr>drv := t\<rparr>) = apply_stores U [Enable_msi, Request_irq] w"
      "u_buf w = buf" "rand_calls w = n" "drv w = t" "\<forall>i. u_addr w i = (if i \<in> set [0..<8] then vm_start (va i) else u_addr u i)"
    using at(3,4) by (auto simp del: upt_rec_numeral)
  have "ky_log t = L @ ?es" using t(2) by (simp add: dma_at_def del: upt_rec_numeral)
  then have "call_ioctl U BIND_DMA (bufs_addr U) u = Some w"
    using t(1) w(1) at(2) by (simp add: call_ioctl_def del: upt_rec_numeral)
  with t(2,3) w(2-5) show ?thesis by (simp add: user_at_def u_mem_def del: upt_rec_numeral)
qed

text \<open>All commands of the program, and the events of its run, if the buffers are \<open>B\<close>.\<close>

definition dma_cmds :: "k_dmabuff list \<Rightarrow> (u32 \<times> u32) list" where
  "dma_cmds B = vmode_on_cmds @ concat (map (buffer_cmds B) [0..<8]) @ [(Flush, 0)]"

definition dma_events :: "'d u_env \<Rightarrow> (nat \<Rightarrow> vm_area) \<Rightarrow> k_dmabuff list \<Rightarrow> ky_event list" where
  "dma_events U va B = Sleep_ms 10 # map (slot_store (ucast (bufs_addr U)) va) [0..<8] @ [Enable_msi, Request_irq] @
     concat (map (\<lambda>i. give_back (B ! i)) [0..<8]) @ [Free_irq, Disable_msi]"

text \<open>What is left of a run that started with the buffers' memory \<open>m0\<close> and the log \<open>L\<close>.\<close>

definition dma_done where
  "dma_done U va n0 m0 L p \<longleftrightarrow> (case p of (r, w) \<Rightarrow> r = 0 \<and> graphics_on (drv w) = 0 \<and>
     (let B = dmabuffs (drv w) in holds_cmds (dma_cmds B) (drv w) \<and>
        (\<forall>i<8. u_dma_bufferAddress (B ! i) = vm_start (va i)) \<and>
        ky_log (drv w) = L @ dma_events U va B @ [Iounmap, Iounmap, Pci_free 8192 (fifo_p_base (fifo (drv w)))]) \<and>
     dma_fill (drv w) = dma_drain (drv w) \<and> \<not> isFull (drv w) \<and>
     (\<forall>i<8. u_addr w i = vm_start (va i) \<and> u_buf w (vm_start (va i)) = dma_words U (n0 + 900 * i) (m0 (vm_start (va i)))))"

lemma buffer_cmds_length [simp]: "length (buffer_cmds B i) = 6" "length (concat (map (buffer_cmds B) is)) = 6 * length is"
  by (simp add: buffer_cmds_def, induction "is") (simp_all add: buffer_cmds_def)

text \<open>From the last commands on.\<close>

lemma dma_finish:
  fixes U :: "'d u_env" and u :: "'d user"
  assumes U: "low_data U" "irq_sleep U" and M: "painted U (\<lambda>i. vm_start (va i)) n0 m0 8 M"
    and u: "user_at B (vmode_on_cmds @ concat (map (buffer_cmds B) [0..<8]))
      (L @ Sleep_ms 10 # map (slot_store (ucast (bufs_addr U)) va) [0..<8] @ [Enable_msi, Request_irq]) 0 0 M u"
    and B: "\<forall>i<8. u_dma_bufferAddress (B ! i) = vm_start (va i)"
  shows "sat (dma_done U va n0 m0 L) (do {
     u \<leftarrow> ioctlQueue U Flush 0 u;
     u \<leftarrow> call_ioctl U UNBIND_DMA 0 (call_sleep U 1 u);
     u \<leftarrow> call_ioctl U VMODE GRAPHICS_OFF (call_sleep U 1 u);
     Some (0, call_close u) })"
proof (rule sat_seq [OF queue_at [OF U(1) u]])
  show "length (vmode_on_cmds @ concat (map (buffer_cmds B) [0..<8])) < 1023"
    by (simp add: program_length del: upt_rec_numeral)
next
  let ?L = "L @ Sleep_ms 10 # map (slot_store (ucast (bufs_addr U)) va) [0..<8] @ [Enable_msi, Request_irq]"
  let ?es = "concat (map (\<lambda>i. give_back (B ! i)) [0..<8]) @ [Free_irq, Disable_msi]"
  fix v :: "'d user"
  assume "user_at B ((vmode_on_cmds @ concat (map (buffer_cmds B) [0..<8])) @ [(Flush, 0)]) ?L 0 0 M v"
  then have v: "user_at B (dma_cmds B) ?L 0 0 M v" by (simp only: dma_cmds_def append_assoc)
  let ?v = "call_sleep U 1 v"
  have at: "dma_at B (dma_cmds B) ?L 0 0 (drv ?v)" "ky_log (drv ?v) = ?L" "u_mem ?v = M"
    using sleep_idle [OF U(2) v, of 1] by (auto simp: user_at_def dma_at_def simp del: upt_rec_numeral)
  from unbind_at [OF at(1), of "env_of U ?v" 0] obtain t where
    t: "kyouko3_ioctl (env_of U ?v) UNBIND_DMA 0 (drv ?v) = Some (0, t)" "dma_at B (dma_cmds B) (?L @ ?es) 0 0 t"
    by blast
  have ns: "\<forall>a x. User_store a x \<notin> set ?es" by (auto simp: give_back_def simp del: upt_rec_numeral)
  have "dma_at B (dma_cmds B) (ky_log (drv ?v) @ ?es) 0 0 t" unfolding at(2) by (rule t(2))
  from call_ioctl_at [OF t(1) this ns at(3), unfolded at(2)]
  have ub: "sat (user_at B (dma_cmds B) (?L @ ?es) 0 0 M) (call_ioctl U UNBIND_DMA 0 ?v)" .
  show "sat (dma_done U va n0 m0 L) (do {
     u \<leftarrow> call_ioctl U UNBIND_DMA 0 ?v;
     u \<leftarrow> call_ioctl U VMODE GRAPHICS_OFF (call_sleep U 1 u);
     Some (0, call_close u) })"
  proof (rule sat_seq [OF ub])
    fix w :: "'d user"
    assume w: "user_at B (dma_cmds B) (?L @ ?es) 0 0 M w"
    let ?w = "call_sleep U 1 w"
    have aw: "dma_at B (dma_cmds B) (?L @ ?es) 0 0 (drv ?w)" "u_mem ?w = M"
      using sleep_idle [OF U(2) w, of 1] by (simp_all add: user_at_def del: upt_rec_numeral)
    from vmode_off_at [OF aw(1), of "env_of U ?w"] obtain x where
      x: "kyouko3_ioctl (env_of U ?w) VMODE GRAPHICS_OFF (drv ?w) = Some (0, x)"
        "dma_at B (dma_cmds B) (?L @ ?es) 0 0 x" "graphics_on x = 0" by blast
    have "ky_log x = ky_log (drv ?w)" using x(2) aw(1) by (simp add: dma_at_def del: upt_rec_numeral)
    then have run: "call_ioctl U VMODE GRAPHICS_OFF ?w = Some (?w\<lparr>drv := x\<rparr>)"
      using x(1) by (simp add: call_ioctl_def)
    have X: "holds_cmds (dma_cmds B) x" "dmabuffs x = B" "dma_fill x = dma_drain x" "\<not> isFull x" "ky_log x = ?L @ ?es"
      using x(2) by (auto simp: dma_at_def word_unat_eq_iff simp del: upt_rec_numeral)
    have mem: "\<forall>i<8. u_addr ?w i = vm_start (va i) \<and>
        u_buf ?w (vm_start (va i)) = dma_words U (n0 + 900 * i) (m0 (vm_start (va i)))"
      using M aw(2) by (auto simp: painted_def u_mem_def)
    show "sat (dma_done U va n0 m0 L)
        (call_ioctl U VMODE GRAPHICS_OFF ?w \<bind> (\<lambda>u. Some (0, call_close u)))"
      using X mem B x(3) unfolding run
      by (simp add: dma_done_def dma_events_def kyouko3_release_def Let_def holds_cmds_def ky_ok_def del: upt_rec_numeral)
  qed
qed

text \<open>The calls before the first buffer is filled.\<close>

definition dma_ready where
  "dma_ready U va L buf n w \<longleftrightarrow> user_at (dmabuffs (drv w)) vmode_on_cmds
      (L @ Sleep_ms 10 # map (slot_store (ucast (bufs_addr U)) va) [0..<8] @ [Enable_msi, Request_irq])
      0 0 (buf, u_addr w, n) w \<and>
    (\<forall>i<8. u_addr w i = vm_start (va i) \<and> k_mapped (dmabuffs (drv w) ! i) \<and>
      u_dma_bufferAddress (dmabuffs (drv w) ! i) = vm_start (va i))"

lemma dma_prepare:
  fixes U :: "'d u_env" and v :: "'d user"
  assumes U: "low_data U" and env: "bind_env (k_env U) va" and v: "user_at B [] L 0 0 (buf, addr, n) v"
    and Q: "\<And>w. dma_ready U va L buf n w \<Longrightarrow> sat Q (g w)"
  shows "sat Q (do {
     u \<leftarrow> call_mmap U KYOUKO_CONTROL_SIZE 0 v;
     u \<leftarrow> call_mmap U (1024 * 768 * 4) 0x80000000 u;
     u \<leftarrow> call_ioctl U VMODE (word_of_int GRAPHICS_ON) u;
     u \<leftarrow> call_ioctl U BIND_DMA (bufs_addr U) u;
     g u })"
proof -
  have 1: "sat (user_at B [] L 0 0 (buf, addr, n)) (call_mmap U KYOUKO_CONTROL_SIZE 0 v)"
    by (rule mmap_user [OF v]) simp
  have 2: "sat (user_at B [] L 0 0 (buf, addr, n)) (call_mmap U (1024 * 768 * 4) 0x80000000 a)"
    if "user_at B [] L 0 0 (buf, addr, n) a" for a :: "'d user"
    by (rule mmap_user [OF that]) (simp add: PAGE_SHIFT_def)
  have 3: "sat (user_at B vmode_on_cmds (L @ [Sleep_ms 10]) 0 0 (buf, addr, n))
      (call_ioctl U VMODE (word_of_int GRAPHICS_ON) b)"
    if b: "user_at B [] L 0 0 (buf, addr, n) b" for b :: "'d user"
  proof -
    have at: "dma_at B [] (ky_log (drv b)) 0 0 (drv b)" "ky_log (drv b) = L" "u_mem b = (buf, addr, n)"
      using b by (simp_all add: user_at_def dma_at_def)
    from vmode_on_at [OF at(1), of "env_of U b"] obtain t where
      t: "kyouko3_ioctl (env_of U b) VMODE (word_of_int GRAPHICS_ON) (drv b) = Some (0, t)"
        "dma_at B vmode_on_cmds (ky_log (drv b) @ [Sleep_ms 10]) 0 0 t" by auto
    from call_ioctl_at [OF t _ at(3)] at(2) show ?thesis by simp
  qed
  have 4: "sat (dma_ready U va L buf n) (call_ioctl U BIND_DMA (bufs_addr U) c)"
    if "user_at B vmode_on_cmds (L @ [Sleep_ms 10]) 0 0 (buf, addr, n) c" for c :: "'d user"
    using bind_user [OF U env that] by (simp add: dma_ready_def [abs_def] del: upt_rec_numeral)
  show ?thesis
    by (rule sat_seq [OF 1], rule sat_seq [OF 2], assumption, rule sat_seq [OF 3], assumption,
        rule sat_seq [OF 4], assumption, rule Q)
qed


section \<open>An instance\<close>

text \<open>The interrupt of a transfer is handled as soon as the program sleeps.\<close>

definition dma_uenv :: "u32 u_env" where
  "dma_uenv = u_env0\<lparr>k_env := bind_env0,
     u_sleep := (\<lambda>n s. if dma_fill s = dma_drain s then s
       else case rkintr bind_env0 s of Some (_, t) \<Rightarrow> t | None \<Rightarrow> s)\<rparr>"

lemma dma_uenv_ok: "low_data dma_uenv" "irq_sleep dma_uenv" "ky_alloc_ok (k_env dma_uenv)"
proof -
  show "low_data dma_uenv" "ky_alloc_ok (k_env dma_uenv)"
    by (simp_all add: low_data_def dma_uenv_def u_env0_def ky_alloc_ok_def bind_env0_def ky_env0_def)
  show "irq_sleep dma_uenv"
    unfolding irq_sleep_def
  proof (intro allI impI)
    fix n and s :: "u32 kyouko" assume "ky_ok s"
    from rkintr_result [OF this, of bind_env0] obtain t where "rkintr bind_env0 s = Some (IRQ_HANDLED, t)" by blast
    then have "rkintr (k_env dma_uenv) (dev_update (\<lambda>_. dev s) s) = Some (IRQ_HANDLED, t)"
      "dma_fill s \<noteq> dma_drain s \<Longrightarrow> u_sleep dma_uenv n s = dev_update (\<lambda>_. dev t) t"
      by (simp_all add: dma_uenv_def)
    moreover have "dma_fill s = dma_drain s \<Longrightarrow> u_sleep dma_uenv n s = dev_update (\<lambda>_. dev s) s"
      by (simp add: dma_uenv_def)
    ultimately show "if dma_fill s = dma_drain s then \<exists>d. u_sleep dma_uenv n s = dev_update (\<lambda>_. d) s
      else \<exists>d d' q t. rkintr (k_env dma_uenv) (dev_update (\<lambda>_. d) s) = Some (q, t) \<and>
        u_sleep dma_uenv n s = dev_update (\<lambda>_. d') t"
      by (metis (no_types))
  qed
qed


end
