(* ===== verification/Kyouko_User_L3.thy ===== *)
theory Kyouko_User_L3
  imports Kyouko_User_Run Kyouko_Lab3
begin

text \<open>
  The user program of lab 3, \<open>src/lab3/user.c\<close>, on the driver of lab 3, and its relation to the
  fifo mode of the program of lab 4 on the driver of lab 4.
\<close>

section \<open>The program\<close>

record 'd l3_user =
  l3u_entry :: fifo_entry
  l3u_fb :: "u32 \<Rightarrow> u32"
  l3u_regs :: "u32 \<Rightarrow> u32"
  l3_drv :: "'d kyouko_l3"

record 'd l3_u_env =
  l3_k_env :: "'d l3_env"
  l3_entry_addr :: u64
  l3_mmap_at :: "u64 \<Rightarrow> u64"
  l3_u_sleep :: "nat \<Rightarrow> 'd kyouko_l3 \<Rightarrow> 'd kyouko_l3"

definition l3_env_of :: "'d l3_u_env \<Rightarrow> 'd l3_user \<Rightarrow> 'd l3_env" where
  "l3_env_of F u = (l3_k_env F)\<lparr>l3_copy_entry :=
     (\<lambda>a d. if ucast a = l3_entry_addr F then l3u_entry u else l3_copy_entry (l3_k_env F) a d)\<rparr>"

definition l3_call_ioctl :: "'d l3_u_env \<Rightarrow> ky_cmd \<Rightarrow> u64 \<Rightarrow> 'd l3_user \<Rightarrow> 'd l3_user option" where
  "l3_call_ioctl F cmd arg u = do {
     (_, d) \<leftarrow> l3_kyouko3_ioctl (l3_env_of F u) cmd arg (l3_drv u);
     Some (u\<lparr>l3_drv := d\<rparr>)
   }"

text \<open>The answer of the driver is used only as an address; it must have one.\<close>

definition l3_call_mmap :: "'d l3_u_env \<Rightarrow> u64 \<Rightarrow> u64 \<Rightarrow> 'd l3_user \<Rightarrow> 'd l3_user option" where
  "l3_call_mmap F len off u = do {
     let a = l3_mmap_at F off;
     _ \<leftarrow> l3_kyouko3_mmap (l3_env_of F u)
       \<lparr>vm_start = a, vm_end = a + ((len + 4095) AND NOT 4095), vm_pgoff = drop_bit PAGE_SHIFT off\<rparr> (l3_drv u);
     Some u
   }"

definition l3_call_open :: "'d l3_u_env \<Rightarrow> 'd l3_user \<Rightarrow> 'd l3_user option" where
  "l3_call_open F u = do { d \<leftarrow> l3_kyouko3_open (l3_env_of F u) (l3_drv u); Some (u\<lparr>l3_drv := d\<rparr>) }"

abbreviation l3_call_sleep :: "'d l3_u_env \<Rightarrow> nat \<Rightarrow> 'd l3_user \<Rightarrow> 'd l3_user" where
  "l3_call_sleep F n \<equiv> l3_drv_update (l3_u_sleep F n)"

definition l3_U_READ_REG :: "u32 \<Rightarrow> 'd l3_user \<Rightarrow> u32" where
  "l3_U_READ_REG r u = l3u_regs u (drop_bit 2 r)"

definition l3_U_WRITE_FB :: "u32 \<Rightarrow> u32 \<Rightarrow> 'd l3_user \<Rightarrow> 'd l3_user" where
  "l3_U_WRITE_FB pixel v = l3u_fb_update (\<lambda>f. f(pixel := v))"

definition l3_float_to_uint :: "u32 \<Rightarrow> u32" where
  "l3_float_to_uint v = v"

definition l3_ioctlQueue :: "'d l3_u_env \<Rightarrow> u32 \<Rightarrow> u32 \<Rightarrow> 'd l3_user \<Rightarrow> 'd l3_user option" where
  "l3_ioctlQueue F reg v u =
     l3_call_ioctl F FIFO_QUEUE (l3_entry_addr F) (u\<lparr>l3u_entry := \<lparr>command = reg, entry_value = v\<rparr>\<rparr>)"

definition l3_draw_point :: "'d l3_u_env \<Rightarrow> u32 list \<Rightarrow> u32 list \<Rightarrow> 'd l3_user \<Rightarrow> 'd l3_user option" where
  "l3_draw_point F xyzw rgba u = do {
     u \<leftarrow> l3_ioctlQueue F Vertex_Coordinate (l3_float_to_uint (xyzw ! 0)) u;
     u \<leftarrow> l3_ioctlQueue F Vertex_Color (l3_float_to_uint (rgba ! 0)) u;
     u \<leftarrow> l3_ioctlQueue F (Vertex_Coordinate + 4) (l3_float_to_uint (xyzw ! 1)) u;
     u \<leftarrow> l3_ioctlQueue F (Vertex_Color + 4) (l3_float_to_uint (rgba ! 1)) u;
     u \<leftarrow> l3_ioctlQueue F (Vertex_Coordinate + 8) (l3_float_to_uint (xyzw ! 2)) u;
     u \<leftarrow> l3_ioctlQueue F (Vertex_Color + 8) (l3_float_to_uint (rgba ! 2)) u;
     u \<leftarrow> l3_ioctlQueue F (Vertex_Coordinate + 12) (l3_float_to_uint (xyzw ! 3)) u;
     l3_ioctlQueue F (Vertex_Color + 12) (l3_float_to_uint (rgba ! 3)) u
   }"

definition l3_draw_line :: "'d l3_user \<Rightarrow> 'd l3_user" where
  "l3_draw_line u = fold (\<lambda>i. l3_U_WRITE_FB (of_nat i) 0xff0000) [200 * 1024..<201 * 1024] u"

definition l3_main :: "'d l3_u_env \<Rightarrow> 'd l3_user \<Rightarrow> (int \<times> 'd l3_user) option" where
  "l3_main F u = do {
     u \<leftarrow> l3_call_open F u;
     u \<leftarrow> l3_call_mmap F KYOUKO_CONTROL_SIZE 0 u;
     u \<leftarrow> l3_call_mmap F (1024 * 768 * 4) 0x80000000 u;
     u \<leftarrow> l3_call_ioctl F VMODE (word_of_int GRAPHICS_ON) u;
     let u = l3_draw_line u;
     u \<leftarrow> l3_ioctlQueue F Flush 0 u;
     let u = l3_call_sleep F 2 u;
     u \<leftarrow> l3_ioctlQueue F Command_Primitive 1 u;
     u \<leftarrow> l3_draw_point F [f_mhalf, f_mhalf, f_0, f_1] [f_1, f_0, f_0, f_1] u;
     u \<leftarrow> l3_ioctlQueue F Vertex_Emit 0 u;
     u \<leftarrow> l3_draw_point F [f_half, f_0, f_0, f_1] [f_1, f_1, f_0, f_1] u;
     u \<leftarrow> l3_ioctlQueue F Vertex_Emit 0 u;
     u \<leftarrow> l3_draw_point F [f_eighth, f_half, f_0, f_1] [f_1, f_0, f_1, f_1] u;
     u \<leftarrow> l3_ioctlQueue F Vertex_Emit 0 u;
     u \<leftarrow> l3_ioctlQueue F Command_Primitive 0 u;
     u \<leftarrow> l3_ioctlQueue F Flush 0 u;
     let u = l3_call_sleep F 2 u;
     u \<leftarrow> l3_call_ioctl F FIFO_FLUSH 0 u;
     let u = l3_call_sleep F 4 u;
     u \<leftarrow> l3_call_ioctl F VMODE GRAPHICS_OFF u;
     Some (0, l3_drv_update l3_kyouko3_release u)
   }"

section \<open>Both programs seen as one\<close>

definition to_l3u :: "'d user \<Rightarrow> 'd l3_user" where
  "to_l3u u = \<lparr>l3u_entry = u_entry u, l3u_fb = u_fb u, l3u_regs = u_regs u, l3_drv = to_l3 (drv u)\<rparr>"

text \<open>The same card and kernel, the same addresses, and a length of sleep that makes no difference.\<close>

definition same_u_env :: "'d u_env \<Rightarrow> 'd l3_u_env \<Rightarrow> bool" where
  "same_u_env U F \<longleftrightarrow> same_env (k_env U) (l3_k_env F) \<and> l3_entry_addr F = entry_addr U \<and>
     (\<forall>n s. l3_pci_alloc_consistent (l3_k_env F) n (to_l3 s) = pci_alloc_consistent (k_env U) n s) \<and>
     (\<forall>m n s. l3_u_sleep F m (to_l3 s) = to_l3 (u_sleep U n s))"

lemma bind_same:
  assumes "x' = map_option p x" and "\<And>y. f' (p y) = map_option q (f y)"
  shows "Option.bind x' f' = map_option q (Option.bind x f)"
  using assms by (cases x) simp_all

lemma to_l3u_sleep:
  "same_u_env U F \<Longrightarrow> l3_call_sleep F m (to_l3u u) = to_l3u (call_sleep U n u)"
  by (simp add: to_l3u_def same_u_env_def)

lemma apply_stores_l3 [simp]: "to_l3u (apply_stores U es u) = to_l3u u"
  by (induction U es u rule: apply_stores.induct) (auto simp: to_l3u_def split: option.split)

lemma env_of_same: "same_u_env U F \<Longrightarrow> same_env (env_of U u) (l3_env_of F (to_l3u u))"
  by (simp add: same_u_env_def same_env_def env_of_def l3_env_of_def to_l3u_def fun_eq_iff)

lemma ioctl_same:
  assumes "same_u_env U F" and "cmd \<in> {VMODE, FIFO_QUEUE, FIFO_FLUSH}"
  shows "l3_call_ioctl F cmd arg (to_l3u u) = map_option to_l3u (call_ioctl U cmd arg u)"
proof -
  have "l3_kyouko3_ioctl (l3_env_of F (to_l3u u)) cmd arg (to_l3 (drv u)) =
      map_option (map_prod id to_l3) (kyouko3_ioctl (env_of U u) cmd arg (drv u))"
    by (rule l3_ioctl_eq [OF env_of_same [OF assms(1)] assms(2)])
  moreover have "l3_drv (to_l3u u) = to_l3 (drv u)" by (simp add: to_l3u_def)
  moreover have "(to_l3u u)\<lparr>l3_drv := to_l3 d\<rparr> = to_l3u (u\<lparr>drv := d\<rparr>)" for d by (simp add: to_l3u_def)
  ultimately show ?thesis
    by (cases "kyouko3_ioctl (env_of U u) cmd arg (drv u)") (auto simp: l3_call_ioctl_def call_ioctl_def)
qed

lemma queue_same:
  assumes "same_u_env U F"
  shows "l3_ioctlQueue F r v (to_l3u u) = map_option to_l3u (ioctlQueue U r v u)"
proof -
  have "(to_l3u u)\<lparr>l3u_entry := e\<rparr> = to_l3u (u\<lparr>u_entry := e\<rparr>)" for e by (simp add: to_l3u_def)
  moreover have "l3_entry_addr F = entry_addr U" using assms by (simp add: same_u_env_def)
  ultimately show ?thesis
    using ioctl_same [OF assms, of FIFO_QUEUE] by (simp add: l3_ioctlQueue_def ioctlQueue_def)
qed

lemma draw_point_same:
  assumes "same_u_env U F"
  shows "l3_draw_point F p c (to_l3u u) = map_option to_l3u (draw_point U p c u)"
  unfolding l3_draw_point_def draw_point_def l3_float_to_uint_def float_to_uint_def
  by (intro bind_same [where p = to_l3u] queue_same [OF assms])

lemma draw_line_same: "l3_draw_line (to_l3u u) = to_l3u (draw_line u)"
proof -
  have w: "l3_U_WRITE_FB p v (to_l3u u) = to_l3u (U_WRITE_FB p v u)" for p v and u :: "'a user"
    by (simp add: l3_U_WRITE_FB_def U_WRITE_FB_def to_l3u_def)
  have "fold (\<lambda>i. l3_U_WRITE_FB (of_nat i) v) js (to_l3u u) = to_l3u (fold (\<lambda>i. U_WRITE_FB (of_nat i) v) js u)"
    for js v and u :: "'a user"
    by (induction js arbitrary: u) (simp_all add: w)
  then show ?thesis by (simp only: l3_draw_line_def draw_line_def)
qed

text \<open>Opening and mapping.\<close>

lemma l3_pause_only:
  assumes "l3_pause F u = Some u'" and "same_env E F" and "u = to_l3 s"
  shows "\<exists>t. ky_pause E s = Some t \<and> u' = to_l3 t"
  using assms
proof (induction arbitrary: s rule: l3_pause.raw_induct [rotated, consumes 1, case_names step])
  case (step f F u u')
  obtain v x where r: "K_READ_REG E FifoTail s = Some (v, x)"
    using step(2,4) l3_read [OF step(3), of FifoTail s] by (cases "K_READ_REG E FifoTail s") auto
  have sd: "l3_dev_step F = dev_step E" using step(3) by (simp add: same_env_def)
  have "(if v \<noteq> 0 then f F (to_l3 (dev_update (dev_step E) x)) else Some (to_l3 x)) = Some u'"
    using step(2,4) l3_read [OF step(3), of FifoTail s] r by (simp add: sd split: if_splits)
  with r step(1) [OF _ step(3) refl] show ?case
    by (subst ky_pause.simps) (auto split: if_splits)
qed

lemma l3_pause_if:
  assumes "ky_pause E s = Some t" and "same_env E F"
  shows "l3_pause F (to_l3 s) = Some (to_l3 t)"
  using assms
proof (induction rule: ky_pause.raw_induct [rotated, consumes 1, case_names step])
  case (step f E s t)
  then obtain v x where r: "K_READ_REG E FifoTail s = Some (v, x)"
    and f: "(if v \<noteq> 0 then f E (dev_update (dev_step E) x) else Some x) = Some t"
    by (auto simp: Option.bind_eq_Some_conv)
  have sd: "l3_dev_step F = dev_step E" using step(3) by (simp add: same_env_def)
  show ?case
  proof (cases "v = 0")
    case True
    with f l3_read [OF step(3), of FifoTail s] r show ?thesis by (subst l3_pause.simps) simp
  next
    case False
    with f have "f E (dev_update (dev_step E) x) = Some t" by simp
    from step(1) [OF this step(3)] False l3_read [OF step(3), of FifoTail s] r show ?thesis
      by (subst l3_pause.simps) (simp add: sd)
  qed
qed

lemma l3_pause_eq: "same_env E F \<Longrightarrow> l3_pause F (to_l3 s) = map_option to_l3 (ky_pause E s)"
  using l3_pause_only [of F "to_l3 s" _ E s] l3_pause_if [of E s _ F]
  by (cases "ky_pause E s"; cases "l3_pause F (to_l3 s)") auto

lemma open_same:
  assumes U: "same_u_env U F"
  shows "l3_call_open F (to_l3u u) = map_option to_l3u (call_open U u)"
proof -
  let ?E = "env_of U u" and ?F = "l3_env_of F (to_l3u u)"
  note E = env_of_same [OF U, of u]
  have al: "l3_pci_alloc_consistent ?F n (to_l3 s) = pci_alloc_consistent ?E n s" for n s
    using U by (simp add: l3_env_of_def env_of_def same_u_env_def)
  have init: "l3_init_fifo ?F (to_l3 s) = map_option to_l3 (init_fifo ?E s)" for s
  proof -
    obtain p k where pk: "(case pci_alloc_consistent ?E 8192 s of None \<Rightarrow> (fifo_p_base (fifo s), [])
        | Some p \<Rightarrow> (p, replicate 1024 \<lparr>command = 0, entry_value = 0\<rparr>)) = (p, k)" by (rule prod.exhaust)
    define s1 where "s1 = s\<lparr>fifo := \<lparr>fifo_p_base = p, fifo_k_base = k, head = 0, tail_cache = 0\<rparr>\<rparr>"
    have s1: "(to_l3 s)\<lparr>l3_fifo := \<lparr>fifo_p_base = p, fifo_k_base = k, head = 0, tail_cache = 0\<rparr>\<rparr> = to_l3 s1"
      by (simp add: to_l3_def s1_def)
    show ?thesis
      unfolding l3_init_fifo_def init_fifo_def al to_l3_simps(4) pk Let_def prod.case s1 s1_def [symmetric]
      by (intro bind_same [where p = to_l3] l3_write [OF E] l3_pause_eq [OF E])
        (simp only: to_l3_simps(4) l3_write [OF E])
  qed
  have n: "l3_note e (to_l3 s) = to_l3 (ky_note e s)" for e and s :: "'a kyouko" by simp
  have m: "(to_l3 s)\<lparr>l3_control_mapped := b\<rparr> = to_l3 (s\<lparr>k_control_mapped := b\<rparr>)" for b and s :: "'a kyouko"
    by (simp add: to_l3_def)
  have z: "to_l3 (s\<lparr>dma_fill := a, dma_drain := b\<rparr>) = to_l3 s" for a b and s :: "'a kyouko"
    by (simp add: to_l3_def)
  have opn: "l3_kyouko3_open ?F (to_l3 s) = map_option to_l3 (kyouko3_open ?E s)" for s
  proof -
    define s1 where "s1 = ky_note (Ioremap (p_control_base s) 65536) (s\<lparr>k_control_mapped := True\<rparr>)"
    have s1: "l3_note (Ioremap (l3_p_control_base (to_l3 s)) 65536) ((to_l3 s)\<lparr>l3_control_mapped := True\<rparr>) = to_l3 s1"
      by (simp add: s1_def m)
    show ?thesis
    proof (cases "K_READ_REG ?E Device_RAM s1")
      case None
      then show ?thesis
        by (simp add: l3_kyouko3_open_def kyouko3_open_def s1 [simplified] s1_def [symmetric] l3_read [OF E] Let_def)
    next
      case (Some vx)
      obtain v x where vx: "vx = (v, x)" by (cases vx)
      define y where "y = ky_note (Ioremap (p_card_ram_base x) (v * (1024 * 1024))) x"
      have y: "l3_note (Ioremap (l3_p_card_ram_base (to_l3 x)) (v * (1024 * 1024))) (to_l3 x) = to_l3 y"
        by (simp add: y_def)
      have "l3_kyouko3_open ?F (to_l3 s) = l3_init_fifo ?F (to_l3 y)"
        unfolding l3_kyouko3_open_def Let_def s1 l3_read [OF E] Some vx 
        by (simp only: option.map map_prod_simp Option.bind.simps prod.case id_apply y)
      moreover have "kyouko3_open ?E s = Option.bind (init_fifo ?E y) (\<lambda>s. Some (s\<lparr>dma_fill := 0, dma_drain := 0\<rparr>))"
        using Some by (simp add: kyouko3_open_def s1_def [symmetric] y_def vx Let_def)
      ultimately show ?thesis by (cases "init_fifo ?E y") (simp_all add: init z)
    qed
  qed
  have "(to_l3u u)\<lparr>l3_drv := to_l3 d\<rparr> = to_l3u (u\<lparr>drv := d\<rparr>)" "l3_drv (to_l3u u) = to_l3 (drv u)" for d
    by (simp_all add: to_l3u_def)
  then show ?thesis
    by (cases "kyouko3_open ?E (drv u)") (simp_all add: l3_call_open_def call_open_def opn)
qed


text \<open>The offsets of the two mappings select the registers and the memory of the card.\<close>

lemma mmap_same:
  assumes "off = 0 \<or> off = 0x80000000"
  shows "l3_call_mmap F len off (to_l3u u) = map_option to_l3u (call_mmap U len off u)"
proof -
  have off: "push_bit PAGE_SHIFT (drop_bit PAGE_SHIFT off) = off"
    using assms by (auto simp: PAGE_SHIFT_def)
  let ?v = "\<lparr>vm_start = mmap_at U off, vm_end = mmap_at U off + ((len + 4095) AND NOT 4095),
    vm_pgoff = drop_bit PAGE_SHIFT off\<rparr>"
  obtain r x where r: "kyouko3_mmap (env_of U u) ?v (drv u) = Some (r, show_page ?v x ((drv u)\<lparr>ky_vma := Some ?v\<rparr>))"
    using assms by (auto simp: kyouko3_mmap_def Let_def off)
  have "\<exists>r. l3_kyouko3_mmap (l3_env_of F (to_l3u u))
      \<lparr>vm_start = a, vm_end = b, vm_pgoff = drop_bit PAGE_SHIFT off\<rparr> (l3_drv (to_l3u u)) = Some r" for a b
    using assms by (auto simp: l3_kyouko3_mmap_def Let_def off)
  then obtain r' where r': "l3_kyouko3_mmap (l3_env_of F (to_l3u u))
      \<lparr>vm_start = l3_mmap_at F off, vm_end = l3_mmap_at F off + ((len + 4095) AND NOT 4095),
        vm_pgoff = drop_bit PAGE_SHIFT off\<rparr> (l3_drv (to_l3u u)) = Some r'" by blast
  have "to_l3u (u\<lparr>drv := show_page ?v x ((drv u)\<lparr>ky_vma := Some ?v\<rparr>)\<rparr>) = to_l3u u" by (simp add: to_l3u_def to_l3_def)
  then show ?thesis
    unfolding l3_call_mmap_def call_mmap_def Let_def r r' by simp
qed

lemma after_sleep:
  assumes "same_u_env U F"
  shows "l3_ioctlQueue F r v (l3_call_sleep F m (to_l3u u)) = map_option to_l3u (ioctlQueue U r v (call_sleep U n u))"
    and "cmd \<in> {VMODE, FIFO_QUEUE, FIFO_FLUSH} \<Longrightarrow>
      l3_call_ioctl F cmd arg (l3_call_sleep F m (to_l3u u)) = map_option to_l3u (call_ioctl U cmd arg (call_sleep U n u))"
  by (simp_all only: to_l3u_sleep [OF assms, of m _ n] queue_same [OF assms] ioctl_same [OF assms])

lemma after_line:
  assumes "same_u_env U F"
  shows "l3_ioctlQueue F r v (l3_draw_line (to_l3u u)) = map_option to_l3u (ioctlQueue U r v (draw_line u))"
  by (simp only: draw_line_same queue_same [OF assms])


section \<open>An instance\<close>

definition l3_u_env0 :: "u32 l3_u_env" where
  "l3_u_env0 = \<lparr>l3_k_env = l3_env0, l3_entry_addr = 0x4040, l3_mmap_at = (\<lambda>_. 0x7000000),
     l3_u_sleep = (\<lambda>n s. s)\<rparr>"


end
