(* ===== verification/Smunch.thy ===== *)
theory Smunch
  imports Blk_Prelude
begin

text \<open>
  The system call \<open>smunch\<close>, which replaces the set of pending signals of a process and kills a
  zombie, in its three versions: \<open>src/lab8/kernel_smunch_3_1.c\<close>, \<open>kernel_smunch_3_3.c\<close> and
  \<open>kernel_smunch_3_5.c\<close>, for three kernel versions.

  The process table, the exit states and the nesting depth of RCU read sections are state.
  \<open>release_task\<close> and \<open>wake_up_process\<close> are parameters, and so is what other processors do between
  the test of the exit state and the \<open>cmpxchg\<close>.
\<close>

section \<open>State\<close>

type_synonym tid = nat      \<comment> \<open>\<open>struct task_struct *\<close>\<close>

datatype exit_code = EXIT_NONE | EXIT_ZOMBIE | EXIT_DEAD

record task_struct =
  exit_state :: exit_code
  group_empty :: bool          \<comment> \<open>\<open>thread_group_empty\<close>\<close>
  pt_seized :: bool            \<comment> \<open>\<open>ptrace & PT_SEIZED\<close>\<close>
  pending_signal :: u64        \<comment> \<open>\<open>pending.signal.sig[0]\<close>\<close>
  has_sighand :: bool          \<comment> \<open>\<open>sighand\<close> is not \<open>NULL\<close>\<close>
  siglock :: bool

record sm_state =
  pid_table :: "int \<Rightarrow> tid option"
  tasks :: "tid \<Rightarrow> task_struct"
  rcu_depth :: nat

record sm_env =
  release_task :: "tid \<Rightarrow> sm_state \<Rightarrow> sm_state"
  wake_up_process :: "tid \<Rightarrow> sm_state \<Rightarrow> sm_state"
  other_cpus :: "sm_state \<Rightarrow> sm_state"

definition SIGKILL :: nat where "SIGKILL = 9"

text \<open>\<open>sigismember\<close> of a set with one word: signal \<open>n\<close> is bit \<open>n - 1\<close>.\<close>

definition sigismember :: "u64 \<Rightarrow> nat \<Rightarrow> bool" where
  "sigismember w n = bit w (n - 1)"

abbreviation upd_task :: "tid \<Rightarrow> (task_struct \<Rightarrow> task_struct) \<Rightarrow> sm_state \<Rightarrow> sm_state" where
  "upd_task p f \<equiv> tasks_update (\<lambda>m. m(p := f (m p)))"

definition rcu_read_lock :: "sm_state \<Rightarrow> sm_state" where
  "rcu_read_lock = rcu_depth_update Suc"

definition rcu_read_unlock :: "sm_state \<Rightarrow> sm_state option" where
  "rcu_read_unlock s = (if rcu_depth s = 0 then None else Some (rcu_depth_update (\<lambda>n. n - 1) s))"

text \<open>
  \<open>lock_task_sighand\<close> answers whether the task has signal handlers and takes their lock if so;
  waiting for a lock that is held never ends in this model.
\<close>

definition lock_task_sighand :: "tid \<Rightarrow> sm_state \<Rightarrow> (bool \<times> sm_state) option" where
  "lock_task_sighand p s =
     (if \<not> has_sighand (tasks s p) then Some (False, s)
      else if siglock (tasks s p) then None
      else Some (True, upd_task p (siglock_update (\<lambda>_. True)) s))"

definition unlock_task_sighand :: "tid \<Rightarrow> sm_state \<Rightarrow> sm_state option" where
  "unlock_task_sighand p s =
     (if siglock (tasks s p) then Some (upd_task p (siglock_update (\<lambda>_. False)) s) else None)"

text \<open>\<open>cmpxchg(&p->exit_state, old, new)\<close> gives the value before.\<close>

definition cmpxchg_exit :: "tid \<Rightarrow> exit_code \<Rightarrow> exit_code \<Rightarrow> sm_state \<Rightarrow> exit_code \<times> sm_state" where
  "cmpxchg_exit p old new s =
     (exit_state (tasks s p),
      if exit_state (tasks s p) = old then upd_task p (exit_state_update (\<lambda>_. new)) s else s)"

section \<open>The three versions\<close>

definition smunch_3_1 :: "sm_env \<Rightarrow> int \<Rightarrow> u64 \<Rightarrow> sm_state \<Rightarrow> (int \<times> sm_state) option" where
  "smunch_3_1 E pid bit_pattern s =
     (case pid_table s pid of
        None \<Rightarrow> Some (-1, s)
      | Some p \<Rightarrow>
          if \<not> group_empty (tasks s p) \<or> pt_seized (tasks s p) then Some (-1, s)
          else if sigismember bit_pattern SIGKILL \<and> exit_state (tasks s p) = EXIT_ZOMBIE then
            (let (old, s) = cmpxchg_exit p EXIT_ZOMBIE EXIT_DEAD (other_cpus E s)
             in if old \<noteq> EXIT_ZOMBIE then Some (0, s) else Some (0, release_task E p s))
          else Some (0, wake_up_process E p (upd_task p (pending_signal_update (\<lambda>_. bit_pattern)) s)))"

definition smunch_3_3 :: "sm_env \<Rightarrow> int \<Rightarrow> u64 \<Rightarrow> sm_state \<Rightarrow> (int \<times> sm_state) option" where
  "smunch_3_3 E pid bit_pattern s =
     (let s = rcu_read_lock s in
      case pid_table s pid of
        None \<Rightarrow> Some (-1, s)
      | Some p \<Rightarrow>
          if \<not> group_empty (tasks s p) \<or> pt_seized (tasks s p) then Some (-1, s)
          else if sigismember bit_pattern SIGKILL \<and> exit_state (tasks s p) = EXIT_ZOMBIE then
            (let (old, s) = cmpxchg_exit p EXIT_ZOMBIE EXIT_DEAD (other_cpus E s)
             in if old \<noteq> EXIT_ZOMBIE then Some (-1, s) else Some (0, release_task E p s))
          else do {
            (locked, s) \<leftarrow> lock_task_sighand p s;
            s \<leftarrow> (if locked then
                   unlock_task_sighand p (upd_task p (pending_signal_update (\<lambda>_. bit_pattern)) s)
                 else Some s);
            s \<leftarrow> rcu_read_unlock (wake_up_process E p s);
            Some (0, s)
          })"

definition smunch_3_5 :: "sm_env \<Rightarrow> int \<Rightarrow> u64 \<Rightarrow> sm_state \<Rightarrow> (int \<times> sm_state) option" where
  "smunch_3_5 E pid bit_pattern s = do {
     let s = rcu_read_lock s;
     let po = pid_table s pid;
     (locked, s) \<leftarrow> (case po of None \<Rightarrow> Some (False, s) | Some p \<Rightarrow> lock_task_sighand p s);
     (case po of
        Some p \<Rightarrow>
          if locked then
            if \<not> group_empty (tasks s p) \<or> pt_seized (tasks s p) then do {
              s \<leftarrow> unlock_task_sighand p s;
              s \<leftarrow> rcu_read_unlock s;
              Some (-1, s)
            } else if sigismember bit_pattern SIGKILL \<and> exit_state (tasks s p) = EXIT_ZOMBIE then do {
              s \<leftarrow> unlock_task_sighand p s;
              s \<leftarrow> rcu_read_unlock (release_task E p s);
              Some (0, s)
            } else do {
              s \<leftarrow> unlock_task_sighand p (upd_task p (pending_signal_update (\<lambda>_. bit_pattern)) s);
              s \<leftarrow> rcu_read_unlock (wake_up_process E p s);
              Some (0, s)
            }
          else do { s \<leftarrow> rcu_read_unlock s; Some (-1, s) }
      | None \<Rightarrow> do { s \<leftarrow> rcu_read_unlock s; Some (-1, s) })
   }"

section \<open>Balance of the read sections\<close>

text \<open>
  What is assumed of the calls: they leave the depth of the read sections of the caller as it is.
\<close>

definition sm_env_ok :: "sm_env \<Rightarrow> bool" where
  "sm_env_ok E \<longleftrightarrow> (\<forall>p s. rcu_depth (release_task E p s) = rcu_depth s \<and>
     rcu_depth (wake_up_process E p s) = rcu_depth s) \<and> (\<forall>s. rcu_depth (other_cpus E s) = rcu_depth s)"

text \<open>Whether a call gets as far as replacing the pending signals.\<close>

definition sm_delivers :: "int \<Rightarrow> u64 \<Rightarrow> sm_state \<Rightarrow> bool" where
  "sm_delivers pid w s \<longleftrightarrow> (\<exists>p. pid_table s pid = Some p \<and> group_empty (tasks s p) \<and>
     \<not> pt_seized (tasks s p) \<and> \<not> (sigismember w SIGKILL \<and> exit_state (tasks s p) = EXIT_ZOMBIE))"

lemma lock_task_sighand_simps [simp]:
  "has_sighand (tasks s p) \<Longrightarrow> \<not> siglock (tasks s p) \<Longrightarrow>
     lock_task_sighand p s = Some (True, upd_task p (siglock_update (\<lambda>_. True)) s)"
  "\<not> has_sighand (tasks s p) \<Longrightarrow> lock_task_sighand p s = Some (False, s)"
  by (simp_all add: lock_task_sighand_def)

lemma cmpxchg_exit_depth: "cmpxchg_exit p a b s = (old, t) \<Longrightarrow> rcu_depth t = rcu_depth s"
  by (auto simp: cmpxchg_exit_def split: if_splits)

text \<open>
  The version for kernel 3.3 leaves its RCU read section open on every early return: for an
  unknown process, a process with several threads or a tracer, and a zombie, whether it is killed
  or not. Only a call that gets as far as delivering signals closes it again.
\<close>

lemma smunch_3_3_leaks_rcu:
  assumes env: "sm_env_ok E" and run: "smunch_3_3 E pid w s = Some (r, t)"
  shows "rcu_depth t = rcu_depth s + (if sm_delivers pid w s then 0 else 1)"
proof (cases "pid_table s pid")
  case None
  with run show ?thesis by (auto simp: smunch_3_3_def sm_delivers_def rcu_read_lock_def)
next
  case (Some p)
  show ?thesis
  proof (cases "sm_delivers pid w s")
    case True
    with Some run env show ?thesis
      by (auto simp: smunch_3_3_def sm_delivers_def rcu_read_lock_def rcu_read_unlock_def Let_def
          lock_task_sighand_def unlock_task_sighand_def sm_env_ok_def Option.bind_eq_Some_conv
          split: if_splits)
  next
    case False
    with Some run env show ?thesis
      by (auto simp: smunch_3_3_def sm_delivers_def rcu_read_lock_def Let_def sm_env_ok_def
          dest!: cmpxchg_exit_depth split: if_splits prod.splits)
  qed
qed

text \<open>
  The version for kernel 3.5 returns whenever the lock of the signal handlers is free, on every
  path with its read section closed and, as long as \<open>release_task\<close> and \<open>wake_up_process\<close> leave the
  lock alone, with the lock released.
\<close>

lemma smunch_3_5_balanced:
  assumes env: "sm_env_ok E" and free: "\<And>p. \<not> siglock (tasks s p)"
    and keep: "\<And>p x. siglock \<circ> tasks (release_task E p x) = siglock \<circ> tasks x"
      "\<And>p x. siglock \<circ> tasks (wake_up_process E p x) = siglock \<circ> tasks x"
  shows "\<exists>r t. smunch_3_5 E pid w s = Some (r, t) \<and> rcu_depth t = rcu_depth s \<and>
    (\<forall>p. \<not> siglock (tasks t p))"
proof -
  have keep': "siglock (tasks (release_task E p x) q) = siglock (tasks x q)"
    "siglock (tasks (wake_up_process E p x) q) = siglock (tasks x q)" for p x q
    using keep(1) [of p x, THEN fun_cong, of q] keep(2) [of p x, THEN fun_cong, of q] by simp_all
  show ?thesis
  proof (cases "pid_table s pid")
    case None
    with free show ?thesis by (simp add: smunch_3_5_def rcu_read_lock_def rcu_read_unlock_def)
  next
    case (Some p)
    show ?thesis
    proof (cases "has_sighand (tasks s p)")
      case True
      with Some free env show ?thesis
        by (auto simp: smunch_3_5_def rcu_read_lock_def rcu_read_unlock_def unlock_task_sighand_def
            Let_def sm_env_ok_def keep')
    next
      case False
      with Some free show ?thesis
        by (simp add: smunch_3_5_def rcu_read_lock_def rcu_read_unlock_def)
    qed
  qed
qed

text \<open>
  C38: the RCU read section of \<open>smunch\<close>. The version for kernel 3.5 returns whenever the lock of the
  signal handlers is free, on every path with its section closed and, as long as \<open>release_task\<close> and
  \<open>wake_up_process\<close> leave the lock alone, with the lock released. The version for kernel 3.3, if it
  returns, has its section open except where it got as far as delivering signals: it stays open for
  an unknown process, one with several threads or a tracer, and a zombie.
\<close>

theorem smunch_rcu_balance:
  assumes env: "sm_env_ok E" and free: "\<And>p. \<not> siglock (tasks s p)"
    and keep: "\<And>p x. siglock \<circ> tasks (release_task E p x) = siglock \<circ> tasks x"
      "\<And>p x. siglock \<circ> tasks (wake_up_process E p x) = siglock \<circ> tasks x"
  shows "(\<exists>r t. smunch_3_5 E pid w s = Some (r, t) \<and> rcu_depth t = rcu_depth s \<and>
      (\<forall>p. \<not> siglock (tasks t p))) \<and>
    (\<forall>r t. smunch_3_3 E pid w s = Some (r, t) \<longrightarrow>
      rcu_depth t = rcu_depth s + (if sm_delivers pid w s then 0 else 1))"
  using smunch_3_5_balanced [OF assms] smunch_3_3_leaks_rcu [OF env] by blast

text \<open>
  The three versions agree where they deliver: for a process with one thread, no tracer, its
  signal handlers and a free lock, and unless a zombie is to be killed, each of them answers 0,
  makes the pattern the whole set of pending signals and wakes the process in that state.
\<close>

theorem smunch_versions_agree:
  assumes del: "sm_delivers pid w s" and p: "pid_table s pid = Some p"
    and sig: "has_sighand (tasks s p)" "\<not> siglock (tasks s p)" and env: "sm_env_ok E"
  shows "\<exists>t. t = upd_task p (pending_signal_update (\<lambda>_. w)) s \<and>
    smunch_3_1 E pid w s = Some (0, wake_up_process E p t) \<and>
    smunch_3_3 E pid w s = Some (0, rcu_depth_update (\<lambda>n. n - 1) (wake_up_process E p (rcu_read_lock t))) \<and>
    smunch_3_5 E pid w s = smunch_3_3 E pid w s"
proof -
  have d: "group_empty (tasks s p)" "\<not> pt_seized (tasks s p)"
    "(sigismember w SIGKILL \<and> exit_state (tasks s p) = EXIT_ZOMBIE) = False"
    using del p by (auto simp: sm_delivers_def)
  define t where "t = upd_task p (pending_signal_update (\<lambda>_. w)) s"
  define u where "u = rcu_read_lock s"
  have u: "tasks u = tasks s" "pid_table u = pid_table s" by (simp_all add: u_def rcu_read_lock_def)
  have one: "smunch_3_1 E pid w s = Some (0, wake_up_process E p t)"
    by (simp only: smunch_3_1_def p d option.case t_def) simp
  have lock: "lock_task_sighand p u = Some (True, upd_task p (siglock_update (\<lambda>_. True)) u)"
    using sig by (simp add: lock_task_sighand_def u)
  have lk: "unlock_task_sighand p (upd_task p (pending_signal_update (\<lambda>_. w))
      (upd_task p (siglock_update (\<lambda>_. True)) u)) = Some (rcu_read_lock t)"
    using sig(2) by (cases s; cases "tasks s p")
      (auto simp: unlock_task_sighand_def t_def u_def rcu_read_lock_def fun_upd_def)
  have depth: "rcu_read_unlock (wake_up_process E p (rcu_read_lock t)) =
      Some (rcu_depth_update (\<lambda>n. n - 1) (wake_up_process E p (rcu_read_lock t)))"
    using env by (simp add: rcu_read_unlock_def sm_env_ok_def) (simp add: rcu_read_lock_def)
  have three: "smunch_3_3 E pid w s =
      Some (0, rcu_depth_update (\<lambda>n. n - 1) (wake_up_process E p (rcu_read_lock t)))"
    unfolding smunch_3_3_def Let_def u_def [symmetric]
    by (simp only: u p d lock lk depth option.case Option.bind.simps prod.case if_True if_False
        simp_thms)
  let ?v = "upd_task p (siglock_update (\<lambda>_. True)) u"
  have e: "group_empty (tasks ?v p)" "\<not> pt_seized (tasks ?v p)"
    "(sigismember w SIGKILL \<and> exit_state (tasks ?v p) = EXIT_ZOMBIE) = False"
    using d by (simp_all add: u)
  have "smunch_3_5 E pid w s =
      Some (0, rcu_depth_update (\<lambda>n. n - 1) (wake_up_process E p (rcu_read_lock t)))"
    unfolding smunch_3_5_def Let_def u_def [symmetric]
    by (simp only: u(2) p lock lk depth e option.case Option.bind.simps prod.case if_True if_False
        simp_thms)
  with one three show ?thesis by (simp add: t_def)
qed

section \<open>A process table\<close>

text \<open>Process 7 is a sleeping task and process 8 a zombie without signal handlers.\<close>

definition sm_task :: task_struct where
  "sm_task = \<lparr>exit_state = EXIT_NONE, group_empty = True, pt_seized = False, pending_signal = 0,
     has_sighand = True, siglock = False\<rparr>"

definition sm_state0 :: sm_state where
  "sm_state0 = \<lparr>pid_table = Map.empty(7 \<mapsto> 1, 8 \<mapsto> 2),
     tasks = (\<lambda>p. if p = 2 then sm_task\<lparr>exit_state := EXIT_ZOMBIE, has_sighand := False\<rparr> else sm_task),
     rcu_depth = 0\<rparr>"

definition sm_env0 :: sm_env where
  "sm_env0 = \<lparr>release_task = (\<lambda>p s. s\<lparr>pid_table := Map.empty(7 \<mapsto> 1)\<rparr>),
     wake_up_process = (\<lambda>p s. s), other_cpus = (\<lambda>s. s)\<rparr>"

lemma sm_env0_ok [simp]: "sm_env_ok sm_env0"
  by (simp add: sm_env_ok_def sm_env0_def)

lemmas sm_eval = sm_state0_def sm_env0_def sm_task_def

text \<open>Killing the zombie with 256, the mask of \<open>SIGKILL\<close>, leaves the section open.\<close>

lemma smunch_rcu_balance_witness:
  "(\<exists>r t. smunch_3_5 sm_env0 8 256 sm_state0 = Some (r, t) \<and> rcu_depth t = 0) \<and>
   (\<exists>t. smunch_3_3 sm_env0 8 256 sm_state0 = Some (0, t) \<and> rcu_depth t = 1)"
proof -
  have nd: "\<not> sm_delivers 8 256 sm_state0"
    by (simp add: sm_delivers_def sm_eval sigismember_def SIGKILL_def bit_numeral_rec)
  obtain t where run: "smunch_3_3 sm_env0 8 256 sm_state0 = Some (0, t)"
    by (simp add: smunch_3_3_def sm_eval sigismember_def SIGKILL_def cmpxchg_exit_def
        rcu_read_lock_def)
  have f: "\<not> siglock (tasks sm_state0 p)" for p by (simp add: sm_eval)
  have k: "siglock \<circ> tasks (release_task sm_env0 p x) = siglock \<circ> tasks x"
    "siglock \<circ> tasks (wake_up_process sm_env0 p x) = siglock \<circ> tasks x" for p x
    by (simp_all add: sm_env0_def)
  have d: "rcu_depth sm_state0 = 0" by (simp add: sm_eval)
  from smunch_rcu_balance [OF sm_env0_ok f k, of 8 256] nd run d show ?thesis by auto
qed

theorem smunch_versions_agree_witness:
  "smunch_3_5 sm_env0 7 256 sm_state0 = smunch_3_3 sm_env0 7 256 sm_state0"
  using smunch_versions_agree [of 7 256 sm_state0 1 sm_env0]
  by (simp add: sm_delivers_def sm_state0_def sm_task_def)

end
