(* ===== verification/Labs.thy ===== *)
theory Labs
  imports Smunch
begin

text \<open>
  The small programs of \<open>src/lab5\<close> to \<open>src/lab8\<close>, \<open>src/lab10\<close> and \<open>src/scheduler/set.c\<close>. A program is the sequence of the
  calls it makes, and its exit status; a program that loops for ever is what it does first and the
  body of its loop. The system calls with numbers of their own are a parameter, except \<open>smunch\<close>,
  which is the one of \<open>Smunch\<close>: the programs \<open>fork.c\<close>, \<open>zombie.c\<close> and \<open>smunch.c\<close> are run with it.
\<close>

section \<open>Calls\<close>

datatype lab_call =
    Printf string "int list"
  | Eprintf string "int list"
  | Perror string
  | Sleep nat
  | Syscall nat "int list"
  | Kill int nat
  | Signal nat string

type_synonym sys_calls = "nat \<Rightarrow> int list \<Rightarrow> int"

definition is_space :: "char \<Rightarrow> bool" where
  "is_space c \<longleftrightarrow> (of_char c :: nat) = 32 \<or> (9 \<le> (of_char c :: nat) \<and> (of_char c :: nat) \<le> 13)"

definition is_digit :: "char \<Rightarrow> bool" where
  "is_digit c \<longleftrightarrow> 48 \<le> (of_char c :: nat) \<and> (of_char c :: nat) \<le> 57"

text \<open>\<open>atoi\<close>, for numbers that fit.\<close>

definition atoi :: "string \<Rightarrow> int" where
  "atoi str =
     (let str = dropWhile is_space str;
          (sg, str) = (case str of
             c # cs \<Rightarrow> if c = CHR ''-'' then (-1, cs) else if c = CHR ''+'' then (1, cs) else (1, str)
           | [] \<Rightarrow> (1, []))
      in sg * foldl (\<lambda>n c. n * 10 + (of_char c - 48)) 0 (takeWhile is_digit str))"

section \<open>Signals\<close>

definition SIGUSR1 :: nat where "SIGUSR1 = 10"
definition SIGCONT :: nat where "SIGCONT = 18"
definition SIGSTOP :: nat where "SIGSTOP = 19"
definition SIGURG :: nat where "SIGURG = 23"
definition SIGWINCH :: nat where "SIGWINCH = 28"

lemmas sig_defs = SIGKILL_def SIGUSR1_def SIGCONT_def SIGSTOP_def SIGURG_def SIGWINCH_def

datatype default_action = Terminate | Stop | Continue | Ignore

text \<open>\<open>signal(7)\<close>; a core dump terminates.\<close>

definition default_action :: "nat \<Rightarrow> default_action" where
  "default_action n =
     (if n = SIGCONT then Continue
      else if n \<in> {SIGSTOP, 20, 21, 22} then Stop
      else if n \<in> {17, SIGURG, SIGWINCH} then Ignore
      else Terminate)"

text \<open>The signals of a set with one word.\<close>

definition sigs :: "u64 \<Rightarrow> nat set" where
  "sigs w = set (filter (sigismember w) [1..<65])"

text \<open>
  A process takes its pending signals in some order: those in \<open>H\<close> run their handler, which makes the
  calls \<open>act n\<close>; the others have their default action. The result is whether the process still runs
  and what it called.
\<close>

fun take_signals :: "nat set \<Rightarrow> (nat \<Rightarrow> lab_call list) \<Rightarrow> nat list \<Rightarrow> bool \<times> lab_call list" where
  "take_signals H act [] = (True, [])"
| "take_signals H act (n # ns) =
     (if n \<in> H then (let (alive, cs) = take_signals H act ns in (alive, act n @ cs))
      else if default_action n = Terminate then (False, [])
      else take_signals H act ns)"

lemma take_signals_alive: "fst (take_signals H act ns) \<longleftrightarrow> (\<forall>n \<in> set ns. n \<in> H \<or> default_action n \<noteq> Terminate)"
  by (induction ns) (auto split: prod.split)

lemma take_signals_calls:
  "fst (take_signals H act ns) \<Longrightarrow> snd (take_signals H act ns) = concat (map act (filter (\<lambda>n. n \<in> H) ns))"
  by (induction ns) (auto split: prod.splits if_splits)

section \<open>The programs\<close>

text \<open>\<open>lab5/user.c\<close>\<close>

definition goob_main :: "sys_calls \<Rightarrow> lab_call list \<times> int" where
  "goob_main sys = ([Syscall 325 [5], Eprintf ''syscall return %d'' [sys 325 [5]]], 0)"

text \<open>
  \<open>lab5/user_counter.c\<close>. The variable \<open>pid\<close> has no value when it is compared with the result of
  \<open>fork\<close>; \<open>g\<close> is what it holds, in both processes.
\<close>

datatype counter_branch = Play | Check

definition counter_branch :: "int \<Rightarrow> int \<Rightarrow> counter_branch" where
  "counter_branch g r = (if of_bool (g = r) = (0 :: int) then Play else Check)"

definition counter_start :: "int \<Rightarrow> int \<Rightarrow> lab_call list" where
  "counter_start g r =
     (case counter_branch g r of
        Play \<Rightarrow> [Signal SIGUSR1 ''son'', Signal SIGWINCH ''test'', Syscall 326 [g]]
      | Check \<Rightarrow> [])"

text \<open>The messages of the loop print a number that is not passed; it is left out.\<close>

definition counter_round :: "int \<Rightarrow> int \<Rightarrow> lab_call list" where
  "counter_round g r =
     (case counter_branch g r of
        Play \<Rightarrow> [Printf ''child is playing'' [], Sleep 1]
      | Check \<Rightarrow>
          [Printf ''parent is going to sleep!'' [], Sleep 5, Printf ''wake up, check on child'' [],
           Kill g SIGUSR1, Printf ''kill USR1 returned'' [], Kill g SIGSTOP, Printf ''kill SIGSTOP returned'' [],
           Kill g SIGCONT, Printf ''kill SIGCONT returned'' [],
           Kill g SIGWINCH, Printf ''kill SIGWINCH returned'' []])"

definition counter_handler :: "nat \<Rightarrow> lab_call list" where
  "counter_handler n = (if n = SIGUSR1 then [Syscall 327 [int SIGUSR1]] else [Printf ''there'' []])"

text \<open>\<open>lab6/zombie.c\<close> and \<open>lab8/zombie.c\<close>: the child returns, the parent never waits for it.\<close>

definition zombie_child :: "int \<Rightarrow> lab_call list \<times> int" where
  "zombie_child pid = ([Printf ''try to kill pid %d'' [pid]], 0)"

definition zombie_parent :: "int \<Rightarrow> lab_call list" where
  "zombie_parent pid = [Printf ''without killing pid: %d'' [pid]]"

definition zombie_round :: "lab_call list" where
  "zombie_round = [Sleep 10]"

text \<open>\<open>lab7/usr.c\<close>; \<open>kill\<close> answers \<open>ret\<close>.\<close>

definition usr_child_start :: "lab_call list" where
  "usr_child_start = [Signal SIGUSR1 ''son'']"

definition usr_child_round :: "lab_call list" where
  "usr_child_round = [Printf ''Child is playing'' [], Sleep 3]"

definition usr_parent_round :: "int \<Rightarrow> int \<Rightarrow> lab_call list" where
  "usr_parent_round pid ret = [Sleep 3, Kill pid SIGUSR1, Printf ''kill return:%d'' [ret]]"

definition usr_son :: "nat \<Rightarrow> lab_call list" where
  "usr_son n = [Printf ''child get SIGUSR1'' []]"

text \<open>\<open>lab8/deepSleep.c\<close>, \<open>killZombie.c\<close>, \<open>wakeup.c\<close>, \<open>multi_threads.c\<close>\<close>

definition deepSleep_main :: "lab_call list" where
  "deepSleep_main =
     [Printf ''goodnight, Irene'' [], Syscall 328 [], Sleep 10, Printf ''oops ... wake up!'' []]"

definition killZombie_main :: "sys_calls \<Rightarrow> string list \<Rightarrow> lab_call list \<times> int" where
  "killZombie_main sys argv =
     (if 1 < length argv then
        (let pid = atoi (argv ! 1); ret = sys 330 [pid]
         in ([Syscall 330 [pid]] @ (if ret < 0 then [Perror ''mywait''] else []), 0))
      else ([], 0))"

definition wakeup_main :: "string list \<Rightarrow> lab_call list \<times> int" where
  "wakeup_main argv =
     (if 1 < length argv then ([Syscall 329 [atoi (argv ! 1)], Kill (atoi (argv ! 1)) SIGKILL], 0)
      else ([Printf ''need you assign a target pid!'' []], 0))"

definition print_ids :: "string \<Rightarrow> int \<Rightarrow> int \<Rightarrow> lab_call list" where
  "print_ids str pid tid = [Printf (str @ '' pid %u tid %u (0x%x)'') [pid, tid, tid]]"

text \<open>The first thread, after \<open>pthread_create\<close> has answered \<open>err\<close>, and the new one.\<close>

definition threads_main :: "int \<Rightarrow> int \<Rightarrow> int \<Rightarrow> lab_call list \<times> int option" where
  "threads_main err pid tid =
     (if err \<noteq> 0 then ([Eprintf ''thread creat error'' [err]], Some 1)
      else (print_ids ''main thread: '' pid tid, None))"

definition thr_fn :: "int \<Rightarrow> int \<Rightarrow> lab_call list" where
  "thr_fn pid tid = print_ids ''new thread: '' pid tid"

definition threads_round :: "lab_call list" where
  "threads_round = [Sleep 10]"

text \<open>\<open>lab10/init.c\<close> and \<open>lab10/test.c\<close>\<close>

definition init_main :: "lab_call list \<times> int" where
  "init_main = ([Syscall 327 []], 0)"

definition test_main :: "lab_call list \<times> int" where
  "test_main = ([Syscall 328 []], 0)"

text \<open>\<open>scheduler/set.c\<close>\<close>

definition set_main :: "lab_call list" where
  "set_main = [Syscall 332 []]"

section \<open>The programs that call \<open>smunch\<close>\<close>

type_synonym smunch_call = "sm_env \<Rightarrow> int \<Rightarrow> u64 \<Rightarrow> sm_state \<Rightarrow> (int \<times> sm_state) option"

text \<open>\<open>lab8/smunch.c\<close>\<close>

definition smunch_main ::
  "smunch_call \<Rightarrow> sm_env \<Rightarrow> string list \<Rightarrow> sm_state \<Rightarrow> (lab_call list \<times> int \<times> sm_state) option" where
  "smunch_main smunch E argv s =
     (if length argv < 2 then Some ([Printf ''need pid!'' []], 1, s)
      else do {
        (ret, s) \<leftarrow> smunch E (atoi (argv ! 1)) 256 s;
        Some ([Printf ''smunch return: %d'' [ret]], 0, s)
      })"

text \<open>
  \<open>lab8/fork.c\<close>: the child installs its handlers one after the other, the parent calls \<open>smunch\<close> at
  once. \<open>r\<close> is the result of \<open>fork\<close> in the parent.
\<close>

definition fork_signals :: "nat list" where
  "fork_signals = [SIGUSR1, SIGCONT, SIGURG, SIGWINCH]"

definition fork_child_start :: "lab_call list" where
  "fork_child_start = map (\<lambda>n. Signal n ''son'') fork_signals"

definition fork_child_round :: "lab_call list" where
  "fork_child_round = [Printf ''Child is playing'' [], Sleep 3]"

definition fork_son :: "nat \<Rightarrow> lab_call list" where
  "fork_son n = [Printf ''child get sig:%d'' [int n]]"

definition fork_parent :: "smunch_call \<Rightarrow> sm_env \<Rightarrow> int \<Rightarrow> sm_state \<Rightarrow> (int \<times> sm_state) option" where
  "fork_parent smunch E r s = smunch E r 138543616 s"

definition fork_parent_round :: "int \<Rightarrow> lab_call list" where
  "fork_parent_round ret = [Sleep 3, Printf ''smunch return:%d'' [ret]]"

text \<open>The handlers that are in place after the first calls of the child.\<close>

definition installed :: "lab_call list \<Rightarrow> nat set" where
  "installed cs = {n. \<exists>h. Signal n h \<in> set cs}"

section \<open>\<open>fork.c\<close> with \<open>smunch\<close>\<close>

lemma sigs_fork: "sigs 138543616 = set fork_signals"
proof -
  have "filter (sigismember 138543616) [1..<65] = fork_signals" by code_simp
  then show ?thesis by (simp add: sigs_def)
qed

lemma sigs_kill: "sigismember 256 SIGKILL"
  by (simp add: sigismember_def sig_defs bit_numeral_rec)

lemma fork_no_kill: "\<not> sigismember 138543616 SIGKILL"
  by (simp add: sigismember_def sig_defs bit_numeral_rec)

lemma installed_fork: "installed (take k fork_child_start) = set (take k fork_signals)"
  by (auto simp: installed_def fork_child_start_def take_map)

lemma fork_default: "n \<in> set fork_signals \<Longrightarrow> default_action n = Terminate \<longleftrightarrow> n = SIGUSR1"
  by (auto simp: fork_signals_def default_action_def sig_defs)

lemma usr1_installed: "SIGUSR1 \<in> set (take k fork_signals) \<longleftrightarrow> 0 < k"
  by (cases k) (simp_all add: fork_signals_def sig_defs)

text \<open>A process with one thread that is not traced, with handlers whose lock is free.\<close>

definition plain_task :: "task_struct \<Rightarrow> bool" where
  "plain_task p \<longleftrightarrow> group_empty p \<and> \<not> pt_seized p \<and> has_sighand p \<and> \<not> siglock p"

text \<open>
  The parent of \<open>fork.c\<close> against its child. In each of the three versions, \<open>smunch\<close> answers 0 and
  leaves the child with exactly the signals USR1, CONT, URG and WINCH pending. If the child
  had made \<open>k\<close> of its calls of \<open>signal\<close> by then, it survives exactly if \<open>k\<close> is not 0, in whatever order
  the signals are delivered, and it prints one line for each of the first \<open>k\<close> of the four
  signals, in the order of delivery. If the parent is faster than the first of them, the child is
  killed.
\<close>

theorem fork_smunch_delivers:
  assumes env: "sm_env_ok E" "\<And>x p. pending_signal (tasks (wake_up_process E p x) p) = pending_signal (tasks x p)"
    and p: "pid_table s r = Some p" "plain_task (tasks s p)" and V: "V \<in> {smunch_3_1, smunch_3_3, smunch_3_5}"
  shows "\<exists>t. fork_parent V E r s = Some (0, t) \<and> sigs (pending_signal (tasks t p)) = set fork_signals \<and>
    (\<forall>k ns. distinct ns \<and> set ns = set fork_signals \<longrightarrow>
       (let (alive, calls) = take_signals (installed (take k fork_child_start)) fork_son ns
        in (alive \<longleftrightarrow> 0 < k) \<and>
           (alive \<longrightarrow> calls = concat (map fork_son (filter (\<lambda>n. n \<in> set (take k fork_signals)) ns)))))"
proof -
  have "sm_delivers r 138543616 s"
    using p fork_no_kill by (simp add: sm_delivers_def plain_task_def)
  define t where "t = upd_task p (pending_signal_update (\<lambda>_. 138543616)) s"
  have pend: "pending_signal (tasks t p) = 138543616" by (simp add: t_def)
  have t: "smunch_3_1 E r 138543616 s = Some (0, wake_up_process E p t)"
    "smunch_3_3 E r 138543616 s = Some (0, rcu_depth_update (\<lambda>n. n - 1) (wake_up_process E p (rcu_read_lock t)))"
    "smunch_3_5 E r 138543616 s = smunch_3_3 E r 138543616 s"
    using smunch_versions_agree [OF \<open>sm_delivers r 138543616 s\<close> p(1) _ _ env(1)] p(2)
    by (simp_all add: plain_task_def t_def)
  have "\<exists>t. fork_parent V E r s = Some (0, t) \<and> pending_signal (tasks t p) = 138543616"
    using V t pend env(2) by (auto simp: fork_parent_def rcu_read_lock_def)
  then obtain t where run: "fork_parent V E r s = Some (0, t)" "pending_signal (tasks t p) = 138543616" by blast
  have alive: "fst (take_signals (set (take k fork_signals)) fork_son ns) \<longleftrightarrow> 0 < k"
    if "set ns = set fork_signals" for k ns
    using that fork_default usr1_installed [of k]
    by (auto simp: take_signals_alive fork_signals_def sig_defs)
  have "let (alive, calls) = take_signals (installed (take k fork_child_start)) fork_son ns
      in (alive \<longleftrightarrow> 0 < k) \<and>
         (alive \<longrightarrow> calls = concat (map fork_son (filter (\<lambda>n. n \<in> set (take k fork_signals)) ns)))"
    if "set ns = set fork_signals" for k ns
    using alive [OF that, of k] take_signals_calls [of "set (take k fork_signals)" fork_son ns]
    by (cases "take_signals (set (take k fork_signals)) fork_son ns") (simp add: installed_fork)
  with run show ?thesis by (intro exI [of _ t]) (simp add: sigs_fork)
qed

section \<open>\<open>zombie.c\<close> and \<open>smunch.c\<close>\<close>

text \<open>A process that has returned from \<open>main\<close> and has not been waited for.\<close>

definition exit_task :: "tid \<Rightarrow> sm_state \<Rightarrow> sm_state" where
  "exit_task p = upd_task p (exit_state_update (\<lambda>_. EXIT_ZOMBIE))"

text \<open>
  C37: \<open>smunch.c\<close> reaps the child that \<open>zombie.c\<close> leaves behind. Called with the number of the child as
  its argument, in each of the three versions and if nobody else reaps the child meanwhile, it reports 0,
  exits with status 0, and the child is no longer in the table of processes.
\<close>

theorem smunch_kills_zombie:
  assumes p: "pid_table s c = Some p" "plain_task (tasks s p)" and arg: "atoi arg = c"
    and env: "sm_env_ok E" "\<And>x. pid_table (release_task E p x) c = None" "\<And>x. other_cpus E x = x"
    and V: "V \<in> {smunch_3_1, smunch_3_3, smunch_3_5}"
  shows "\<exists>t. smunch_main V E [prog, arg] (exit_task p s) = Some ([Printf ''smunch return: %d'' [0]], 0, t) \<and>
    pid_table t c = None"
proof -
  let ?s = "exit_task p s"
  have f: "pid_table ?s c = Some p" "group_empty (tasks ?s p)" "\<not> pt_seized (tasks ?s p)"
    "has_sighand (tasks ?s p)" "\<not> siglock (tasks ?s p)" "exit_state (tasks ?s p) = EXIT_ZOMBIE"
    using p by (simp_all add: exit_task_def plain_task_def)
  have "\<exists>t. V E c 256 ?s = Some (0, t) \<and> pid_table t c = None"
    using V
  proof (elim insertE emptyE)
    assume "V = smunch_3_1"
    then show ?thesis using f sigs_kill env(2,3) by (simp add: smunch_3_1_def cmpxchg_exit_def)
  next
    assume "V = smunch_3_3"
    then show ?thesis
      using f sigs_kill env(2,3) by (simp add: smunch_3_3_def cmpxchg_exit_def rcu_read_lock_def)
  next
    assume "V = smunch_3_5"
    then show ?thesis
      using f sigs_kill env(1,2)
      by (simp add: smunch_3_5_def rcu_read_lock_def unlock_task_sighand_def rcu_read_unlock_def sm_env_ok_def)
  qed
  then show ?thesis using arg by (auto simp: smunch_main_def)
qed

section \<open>\<open>user_counter.c\<close>\<close>

text \<open>
  The comparison in \<open>user_counter.c\<close> sends the processes the wrong way. With the garbage \<open>g\<close> in \<open>pid\<close>,
  the parent checks and the child plays, as intended, exactly if \<open>g\<close> happens to be the number of
  the child. If \<open>g\<close> is 0, the two have changed places, and the child, which has no handlers,
  sends its signals to process 0, which is its whole process group. For every other \<open>g\<close> both
  processes play, and no signal is ever sent.
\<close>

theorem user_counter_branches:
  assumes "0 < child"
  shows "(counter_branch g child = Check \<and> counter_branch g 0 = Play \<longleftrightarrow> g = child) \<and>
    (g = 0 \<longrightarrow> counter_branch g child = Play \<and> counter_start g 0 = [] \<and>
       Kill 0 SIGUSR1 \<in> set (counter_round g 0)) \<and>
    (g \<noteq> 0 \<and> g \<noteq> child \<longrightarrow> Kill p n \<notin> set (counter_round g child) \<union> set (counter_round g 0))"
  using assms by (auto simp: counter_branch_def counter_start_def counter_round_def)

section \<open>Instances\<close>

text \<open>Process 7 of the table of \<open>Smunch\<close> as the child.\<close>

lemma sm_state0_child: "pid_table sm_state0 7 = Some 1" "plain_task (tasks sm_state0 1)"
  by (simp_all add: sm_state0_def sm_task_def plain_task_def)

lemma fork_smunch_delivers_witness:
  "\<exists>t. fork_parent smunch_3_5 sm_env0 7 sm_state0 = Some (0, t) \<and>
     take_signals (installed (take 4 fork_child_start)) fork_son [28, 10, 23, 18] =
       (True, map (\<lambda>n. Printf ''child get sig:%d'' [n]) [28, 10, 23, 18]) \<and>
     \<not> fst (take_signals (installed (take 0 fork_child_start)) fork_son [28, 10, 23, 18])"
proof -
  from fork_smunch_delivers [OF sm_env0_ok _ sm_state0_child, of smunch_3_5] obtain t where
    t: "fork_parent smunch_3_5 sm_env0 7 sm_state0 = Some (0, t)"
      "distinct ns \<and> set ns = set fork_signals \<longrightarrow>
       (let (alive, calls) = take_signals (installed (take k fork_child_start)) fork_son ns
        in (alive \<longleftrightarrow> 0 < k) \<and>
           (alive \<longrightarrow> calls = concat (map fork_son (filter (\<lambda>n. n \<in> set (take k fork_signals)) ns))))" for k ns
    by (auto simp: sm_env0_def)
  have ns: "distinct [28, 10, 23, 18 :: nat]" "set [28, 10, 23, 18 :: nat] = set fork_signals"
    by (auto simp: fork_signals_def sig_defs)
  have "fst (take_signals (installed (take k fork_child_start)) fork_son [28, 10, 23, 18]) \<longleftrightarrow> 0 < k"
    "0 < k \<Longrightarrow> snd (take_signals (installed (take k fork_child_start)) fork_son [28, 10, 23, 18]) =
       concat (map fork_son (filter (\<lambda>n. n \<in> set (take k fork_signals)) [28, 10, 23, 18]))" for k
    using t(2) [of "[28, 10, 23, 18]" k] ns by (simp_all only: Let_def case_prod_beta simp_thms)
  from this [of 4] this(1) [of 0] t(1)
  show ?thesis
    by (intro exI [of _ t] conjI prod_eqI) (simp_all add: fork_signals_def sig_defs fork_son_def)
qed

lemma smunch_kills_zombie_witness:
  "\<exists>t. smunch_main smunch_3_3 (sm_env0\<lparr>release_task := \<lambda>p s. s\<lparr>pid_table := Map.empty\<rparr>\<rparr>)
     [''smunch'', ''7''] (exit_task 1 sm_state0) = Some ([Printf ''smunch return: %d'' [0]], 0, t) \<and>
     pid_table t 7 = None"
proof -
  let ?E = "sm_env0\<lparr>release_task := \<lambda>p s. s\<lparr>pid_table := Map.empty\<rparr>\<rparr>"
  have "atoi ''7'' = 7" by code_simp
  moreover have "sm_env_ok ?E" by (simp add: sm_env_ok_def sm_env0_def)
  ultimately show ?thesis
    using smunch_kills_zombie [OF sm_state0_child, of "''7''" ?E smunch_3_3] by (simp add: sm_env0_def)
qed

lemma user_counter_branches_witness:
  "counter_branch 0 42 = Play \<and> Kill 0 SIGUSR1 \<in> set (counter_round 0 0)"
  using user_counter_branches [of 42 0] by simp

end
