(* ===== verification/Randread.thy ===== *)
theory Randread
  imports Req_Track "HOL-Library.Sublist"
begin

text \<open>
  The load generator \<open>src/scheduler/822_randread.c\<close>, which walks a directory tree and reads files at
  random (\<open>src/lab9/randread.c\<close>, which prints what it does, is in \<open>Randread_Lab9\<close>), and the version with
  sixteen processes, \<open>src/scheduler/bak/822_randread.c\<close>.

  The file system, the random numbers and the \<open>float\<close> operations are parameters. A path is the list
  of its components; a name of a directory entry is a \<open>string\<close>.
\<close>

section \<open>State\<close>

type_synonym fpath = "string list"

datatype fmode = S_DIR | S_REG | S_OTHER

record 'f rr_env =
  f_lstat :: "fpath \<Rightarrow> fmode option"
  f_opendir :: "fpath \<Rightarrow> string list option"     \<comment> \<open>and the names \<open>readdir\<close> gives\<close>
  f_chdir :: "fpath \<Rightarrow> bool"                      \<comment> \<open>whether \<open>chdir\<close> succeeds\<close>
  f_size :: "fpath \<Rightarrow> nat option"                 \<comment> \<open>of a file that can be opened\<close>
  uniform :: "nat \<Rightarrow> 'f"                         \<comment> \<open>\<open>random() / RAND_MAX\<close>\<close>
  fmul :: "'f \<Rightarrow> 'f \<Rightarrow> 'f"
  fdiv :: "'f \<Rightarrow> 'f \<Rightarrow> 'f"
  fle :: "'f \<Rightarrow> 'f \<Rightarrow> bool"
  fileprob :: 'f
  dirfactor :: 'f
  stack_sbuf :: fmode                              \<comment> \<open>what an uninitialised \<open>sbuf\<close> holds\<close>

record 'f rr_state =
  dirprob :: 'f
  cwd :: fpath
  random_calls :: nat
  files_read :: "(fpath \<times> string \<times> nat) list"

text \<open>How a path is written.\<close>

definition path_string :: "fpath \<Rightarrow> string" where
  "path_string p = (if p = [] then ''/'' else concat (map (\<lambda>n. ''/'' @ n) p))"

section \<open>The functions\<close>

definition unival :: "'f rr_env \<Rightarrow> ('f, 'x) rr_state_scheme \<Rightarrow> 'f \<times> ('f, 'x) rr_state_scheme" where
  "unival E s = (uniform E (random_calls s), s\<lparr>random_calls := random_calls s + 1\<rparr>)"

text \<open>The loop of \<open>readfile\<close>: 512 bytes at a time, until nothing is left.\<close>

function read_blocks :: "nat \<Rightarrow> nat \<Rightarrow> nat" where
  "read_blocks left blocks =
     (let amt = min 512 left; blocks = blocks + 1
      in if amt > 0 then read_blocks (left - amt) blocks else blocks)"
  by auto
termination by (relation "measure fst") auto

declare read_blocks.simps [simp del]

definition readfile :: "'f rr_env \<Rightarrow> string \<Rightarrow> 'f rr_state \<Rightarrow> 'f rr_state" where
  "readfile E fname s =
     (case f_size E (cwd s @ [fname]) of
        None \<Rightarrow> s
      | Some n \<Rightarrow> s\<lparr>files_read := files_read s @ [(cwd s, fname, read_blocks n 0)]\<rparr>)"

text \<open>
  \<open>statfile\<close> builds the name in a buffer of 512 bytes; a longer name overruns it (\<open>None\<close>). If
  \<open>lstat\<close> fails, \<open>sbuf\<close> keeps what it had.
\<close>

definition statfile :: "'f rr_env \<Rightarrow> string \<Rightarrow> fmode \<Rightarrow> fpath \<Rightarrow> fmode option" where
  "statfile E fname sbuf cwdbuf =
     (if length (path_string cwdbuf) + 1 + length fname < 512 then
        Some (case f_lstat E (cwdbuf @ [fname]) of None \<Rightarrow> sbuf | Some m \<Rightarrow> m)
      else None)"

text \<open>\<open>procdir\<close> on the names of a directory; \<open>next\<close> is the recursive call of \<open>nextdir\<close>.\<close>

fun procdir ::
  "'f rr_env \<Rightarrow> (string \<Rightarrow> 'f rr_state \<Rightarrow> 'f rr_state option) \<Rightarrow> string list \<Rightarrow> fmode \<Rightarrow> fpath \<Rightarrow>
     'f rr_state \<Rightarrow> 'f rr_state option" where
  "procdir E rec [] sbuf cwdbuf s = Some s"
| "procdir E rec (d_name # names) sbuf cwdbuf s = do {
     sbuf \<leftarrow> statfile E d_name sbuf cwdbuf;
     s \<leftarrow> (if take 1 d_name \<noteq> ''.'' \<and> (sbuf = S_DIR \<or> sbuf = S_REG) then
            if sbuf = S_DIR then do {
              s \<leftarrow> rec d_name s;
              Some (if f_chdir E cwdbuf then s\<lparr>cwd := cwdbuf\<rparr> else s)
            } else
              (let (v, s) = unival E s
               in Some (if fle E v (fileprob E) then readfile E d_name s else s))
          else Some s);
     procdir E rec names sbuf cwdbuf s
   }"

definition resolve :: "fpath \<Rightarrow> string \<Rightarrow> fpath" where
  "resolve c name = (if name = ''/'' then [] else c @ [name])"

text \<open>
  The depth of the recursion is bounded by fuel. \<open>getcwd\<close> fails if the path with its end mark is
  longer than 512 bytes, and what the buffer holds then is undefined.
\<close>

primrec nextdir :: "nat \<Rightarrow> 'f rr_env \<Rightarrow> string \<Rightarrow> 'f rr_state \<Rightarrow> 'f rr_state option" where
  "nextdir 0 E dirname s = None"
| "nextdir (Suc fuel) E dirname s =
     (let (v, s) = unival E s in
      if fle E (dirprob s) v then Some s
      else do {
        let s = s\<lparr>dirprob := fmul E (dirprob s) (dirfactor E)\<rparr>;
        let p = resolve (cwd s) dirname;
        s \<leftarrow> (case f_opendir E p of
               Some names \<Rightarrow> do {
                 let s = (if f_chdir E p then s\<lparr>cwd := p\<rparr> else s);
                 let cwdbuf = cwd s;
                 bug_on (\<not> length (path_string cwdbuf) < 512);
                 if cwdbuf \<noteq> [''proc'']
                 then procdir E (nextdir fuel E) names (stack_sbuf E) cwdbuf s
                 else Some s
               }
             | None \<Rightarrow> Some s);
        Some (s\<lparr>dirprob := fdiv E (dirprob s) (dirfactor E)\<rparr>)
      })"

section \<open>What the walk reads\<close>

text \<open>The regular files below a directory, those in hidden directories and in \<open>/proc\<close> left out.\<close>

primrec rr_files :: "nat \<Rightarrow> 'f rr_env \<Rightarrow> fpath \<Rightarrow> (fpath \<times> string \<times> nat) list" where
  "rr_files 0 E p = []"
| "rr_files (Suc n) E p =
     (if p = [''proc''] then [] else
      case f_opendir E p of
        None \<Rightarrow> []
      | Some names \<Rightarrow> concat (map (\<lambda>x.
          if take 1 x = ''.'' then []
          else case f_lstat E (p @ [x]) of
            Some S_DIR \<Rightarrow> rr_files n E (p @ [x])
          | Some S_REG \<Rightarrow>
              (case f_size E (p @ [x]) of None \<Rightarrow> [] | Some k \<Rightarrow> [(p, x, read_blocks k 0)])
          | _ \<Rightarrow> []) names))"

text \<open>
  What is assumed of the tree below a directory: its depth is at most \<open>n\<close>, every path fits into
  the buffers, no name is that of the root, and its entries can be looked at and directories that
  can be listed can be entered.
\<close>

primrec rr_tree :: "nat \<Rightarrow> 'f rr_env \<Rightarrow> fpath \<Rightarrow> bool" where
  "rr_tree 0 E p = False"
| "rr_tree (Suc n) E p \<longleftrightarrow>
     length (path_string p) < 512 \<and> (f_opendir E p \<noteq> None \<longrightarrow> f_chdir E p) \<and>
     (p \<noteq> [''proc''] \<longrightarrow> (\<forall>x \<in> set (case f_opendir E p of None \<Rightarrow> [] | Some names \<Rightarrow> names).
        x \<noteq> ''/'' \<and> length (path_string p) + 1 + length x < 512 \<and> f_lstat E (p @ [x]) \<noteq> None \<and>
        (take 1 x \<noteq> ''.'' \<longrightarrow> f_lstat E (p @ [x]) = Some S_DIR \<longrightarrow> rr_tree n E (p @ [x]))))"

text \<open>Scaling the probability and scaling it back is the identity, as it is for the factor 1.\<close>

definition rr_float_ok :: "'f rr_env \<Rightarrow> bool" where
  "rr_float_ok E \<longleftrightarrow> (\<forall>x. fdiv E (fmul E x (dirfactor E)) (dirfactor E) = x)"

text \<open>All directories are entered and all files read.\<close>

definition rr_all :: "'f rr_env \<Rightarrow> 'f \<Rightarrow> bool" where
  "rr_all E p \<longleftrightarrow> (\<forall>k. \<not> fle E p (uniform E k) \<and> fle E (uniform E k) (fileprob E)) \<and>
     (\<forall>x. fmul E x (dirfactor E) = x)"

text \<open>What a call adds to the files read, and that it leaves the probability alone.\<close>

definition rr_adds :: "'f rr_env \<Rightarrow> (fpath \<times> string \<times> nat) list \<Rightarrow> 'f rr_state \<Rightarrow> 'f rr_state \<Rightarrow> bool" where
  "rr_adds E fs s t \<longleftrightarrow> dirprob t = dirprob s \<and>
     (\<exists>rs. files_read t = files_read s @ rs \<and> subseq rs fs \<and> (rr_all E (dirprob s) \<longrightarrow> rs = fs))"

lemma rr_adds_refl: "dirprob t = dirprob s \<Longrightarrow> files_read t = files_read s \<Longrightarrow> rr_adds E [] s t"
  by (simp add: rr_adds_def)

lemma rr_adds_trans: "rr_adds E fs s t \<Longrightarrow> rr_adds E gs t u \<Longrightarrow> rr_adds E (fs @ gs) s u"
  by (auto simp: rr_adds_def intro!: list_emb_append_mono)

lemma procdir_adds:
  assumes rec: "\<And>x s. x \<in> set names \<Longrightarrow> take 1 x \<noteq> ''.'' \<Longrightarrow> f_lstat E (p @ [x]) = Some S_DIR \<Longrightarrow>
      cwd s = p \<Longrightarrow> \<exists>t. rec x s = Some t \<and> rr_adds E (fs x) s t"
    and ok: "\<And>x. x \<in> set names \<Longrightarrow> length (path_string p) + 1 + length x < 512 \<and>
      f_lstat E (p @ [x]) \<noteq> None" and ch: "f_chdir E p" and c: "cwd s = p"
  shows "\<exists>t. procdir E rec names sbuf p s = Some t \<and> rr_adds E (concat (map (\<lambda>x.
      if take 1 x = ''.'' then []
      else case f_lstat E (p @ [x]) of
        Some S_DIR \<Rightarrow> fs x
      | Some S_REG \<Rightarrow> (case f_size E (p @ [x]) of None \<Rightarrow> [] | Some k \<Rightarrow> [(p, x, read_blocks k 0)])
      | _ \<Rightarrow> []) names)) s t"
  (is "\<exists>t. _ \<and> rr_adds E (concat (map ?f names)) s t")
  using rec ok c
proof (induction names arbitrary: s sbuf)
  case Nil
  then show ?case by (simp add: rr_adds_refl)
next
  case (Cons x names)
  obtain m where m: "f_lstat E (p @ [x]) = Some m" using Cons.prems(2) [of x] by auto
  have st: "statfile E x sbuf p = Some m" using Cons.prems(2) [of x] m by (simp add: statfile_def)
  have tail: "\<exists>u. procdir E rec names m p t = Some u \<and> rr_adds E (concat (map ?f (x # names))) s u"
    if "cwd t = p" "rr_adds E (?f x) s t" for t
  proof -
    have "\<exists>u. procdir E rec names m p t = Some u \<and> rr_adds E (concat (map ?f names)) t u"
      by (rule Cons.IH) (use Cons.prems that in auto)
    with rr_adds_trans [OF that(2)] show ?thesis by auto
  qed
  consider "take 1 x \<noteq> ''.''" "m = S_DIR" | "take 1 x \<noteq> ''.''" "m = S_REG"
    | "take 1 x = ''.'' \<or> m = S_OTHER" by (cases m) auto
  then show ?case
  proof cases
    case 1
    then obtain t where t: "rec x s = Some t" "rr_adds E (fs x) s t"
      using Cons.prems(1) [of x s] Cons.prems(3) m by auto
    then have "rr_adds E (?f x) s (t\<lparr>cwd := p\<rparr>)" using 1 m by (simp add: rr_adds_def)
    with tail [of "t\<lparr>cwd := p\<rparr>"] show ?thesis using 1 st t(1) ch by simp
  next
    case 2
    obtain v t where v: "unival E s = (v, t)" by (cases "unival E s")
    then have vt: "v = uniform E (random_calls s)" "t = s\<lparr>random_calls := random_calls s + 1\<rparr>"
      by (simp_all add: unival_def)
    let ?t = "if fle E v (fileprob E) then readfile E x t else t"
    have "rr_adds E (?f x) s ?t"
      using 2 m Cons.prems(3) by (auto simp: rr_adds_def readfile_def vt rr_all_def split: option.splits)
    moreover have "cwd ?t = p" using Cons.prems(3) by (simp add: readfile_def vt split: option.splits)
    ultimately show ?thesis using tail [of ?t] 2 st v by simp
  next
    case 3
    with m have "?f x = []" by auto
    with tail [of s] Cons.prems(3) 3 st show ?thesis by (auto simp: rr_adds_refl)
  qed
qed

lemma nextdir_adds:
  assumes tree: "rr_tree n E (resolve (cwd s) name)" and fl: "rr_float_ok E"
  shows "\<exists>t. nextdir n E name s = Some t \<and> rr_adds E (rr_files n E (resolve (cwd s) name)) s t"
  using tree
proof (induction n arbitrary: name s)
  case (Suc n)
  let ?p = "resolve (cwd s) name"
  let ?s = "s\<lparr>random_calls := random_calls s + 1\<rparr>"
  let ?d = "?s\<lparr>dirprob := fmul E (dirprob s) (dirfactor E)\<rparr>"
  have u: "unival E s = (uniform E (random_calls s), ?s)" by (simp add: unival_def)
  have fin: "rr_adds E fs s (t\<lparr>dirprob := fdiv E (dirprob t) (dirfactor E)\<rparr>)"
    if a: "rr_adds E fs ?d t" for fs t
  proof -
    have "rr_all E (dirprob s) \<Longrightarrow> dirprob ?d = dirprob s" by (simp add: rr_all_def)
    with a fl show ?thesis by (auto simp: rr_adds_def rr_float_ok_def)
  qed
  show ?case
  proof (cases "fle E (dirprob s) (uniform E (random_calls s))")
    case True
    then have "rr_adds E (rr_files (Suc n) E ?p) s ?s"
      by (auto simp: rr_adds_def rr_all_def)
    with True show ?thesis by (simp add: u)
  next
    case False
    show ?thesis
    proof (cases "f_opendir E ?p")
      case None
      then have "rr_adds E (rr_files (Suc n) E ?p) ?d ?d" by (simp add: rr_adds_refl)
      from fin [OF this] None False show ?thesis by (simp add: u Let_def del: rr_files.simps)
    next
      case (Some names)
      let ?e = "?d\<lparr>cwd := ?p\<rparr>"
      have ch: "f_chdir E ?p" and len: "length (path_string ?p) < 512"
        using Suc.prems Some by simp_all
      have e: "rr_adds E fs ?d t" if "rr_adds E fs ?e t" for fs t
        using that by (simp add: rr_adds_def)
      have "\<exists>t. (if ?p \<noteq> [''proc''] then procdir E (nextdir n E) names (stack_sbuf E) ?p ?e
          else Some ?e) = Some t \<and> rr_adds E (rr_files (Suc n) E ?p) ?e t"
      proof (cases "?p = [''proc'']")
        case True
        then show ?thesis by (simp add: rr_adds_refl)
      next
        case np: False
        have sub: "\<exists>t. nextdir n E x y = Some t \<and> rr_adds E (rr_files n E (?p @ [x])) y t"
          if "x \<in> set names" "take 1 x \<noteq> ''.''" "f_lstat E (?p @ [x]) = Some S_DIR" "cwd y = ?p" for x y
        proof -
          have "resolve (cwd y) x = ?p @ [x]" "rr_tree n E (?p @ [x])"
            using Suc.prems np Some that by (auto simp: resolve_def [of _ x])
          with Suc.IH [of y x] show ?thesis by simp
        qed
        have "\<exists>t. procdir E (nextdir n E) names (stack_sbuf E) ?p ?e = Some t \<and>
            rr_adds E (concat (map (\<lambda>x. if take 1 x = ''.'' then []
              else case f_lstat E (?p @ [x]) of
                Some S_DIR \<Rightarrow> rr_files n E (?p @ [x])
              | Some S_REG \<Rightarrow>
                  (case f_size E (?p @ [x]) of None \<Rightarrow> [] | Some k \<Rightarrow> [(?p, x, read_blocks k 0)])
              | _ \<Rightarrow> []) names)) ?e t"
          by (rule procdir_adds [OF sub]) (use Suc.prems np Some ch in auto)
        with np Some show ?thesis by simp
      qed
      then obtain t where t: "(if ?p \<noteq> [''proc''] then procdir E (nextdir n E) names (stack_sbuf E) ?p ?e
          else Some ?e) = Some t" "rr_adds E (rr_files (Suc n) E ?p) ?e t" by blast
      from fin [OF e [OF t(2)]] t(1) Some False ch len show ?thesis
        by (auto simp: u Let_def simp del: rr_files.simps split: if_splits)
    qed
  qed
qed simp


section \<open>The program\<close>

text \<open>
  \<open>sscanf\<close> and the generator that \<open>srandom\<close> seeds are parameters. Without a directory on the
  command line the program dereferences \<open>NULL\<close>, unless the first draw ends it.
\<close>

definition rr_main ::
  "nat \<Rightarrow> 'f rr_env \<Rightarrow> 'f \<Rightarrow> (string \<Rightarrow> int option) \<Rightarrow> (string \<Rightarrow> 'f option) \<Rightarrow> (int \<Rightarrow> nat \<Rightarrow> 'f) \<Rightarrow>
     string list \<Rightarrow> fpath \<Rightarrow> 'f rr_state option" where
  "rr_main fuel E one scan_int scan_float seeded argv start =
     (let get = (\<lambda>scan i d. if length argv > i
                   then (case scan (argv ! i) of None \<Rightarrow> d | Some x \<Rightarrow> x) else d);
          rseed = (if length argv > 2
                   then (case scan_int (argv ! 2) of None \<Rightarrow> 1 | Some x \<Rightarrow> x) else 1);
          E = E\<lparr>fileprob := get scan_float 3 one, dirfactor := get scan_float 4 one,
                uniform := seeded rseed\<rparr>;
          s = \<lparr>dirprob = one, cwd = start, random_calls = 0, files_read = []\<rparr>
      in if length argv > 1 then nextdir fuel E (argv ! 1) s
         else if fle E one (uniform E 0) then Some (snd (unival E s)) else None)"

section \<open>Sixteen processes\<close>

text \<open>
  The main loop of \<open>bak/822_randread.c\<close>. What matters of a process is that \<open>fork\<close> made it; \<open>waitpid\<close>
  with \<open>WNOHANG\<close> stores a status only if a child has changed its state, and the variable \<open>status\<close>
  is not set before.
\<close>

datatype wait_res = Wait_nothing | Wait_status u32

record harness =
  forks :: nat
  wait_status :: u32
  started :: bool
  num_reqs :: u64

definition WIFEXITED :: "u32 \<Rightarrow> bool" where
  "WIFEXITED st = (st AND 0x7f = 0)"

definition bak_poll :: "wait_res \<Rightarrow> harness \<Rightarrow> harness" where
  "bak_poll w h =
     (let h = (case w of Wait_nothing \<Rightarrow> h | Wait_status st \<Rightarrow> h\<lparr>wait_status := st\<rparr>)
      in if WIFEXITED (wait_status h) then h\<lparr>forks := forks h + 1\<rparr> else h)"

definition bak_polls :: "(nat \<Rightarrow> wait_res) \<Rightarrow> harness \<Rightarrow> harness" where
  "bak_polls w h = fold (\<lambda>i. bak_poll (w i)) [0..<16] h"

text \<open>The sixteen children that are started before the loop.\<close>

definition bak_start :: "u32 \<Rightarrow> u64 \<Rightarrow> kst \<Rightarrow> harness \<times> kst" where
  "bak_start st reqs s =
     (\<lparr>forks = 16, wait_status = st, started = False, num_reqs = reqs\<rparr>, snd (start_req_track s))"

text \<open>
  One round of the loop, with the system calls of the request tracker: the state after it, and
  whether the loop ends.
\<close>

definition bak_round :: "(nat \<Rightarrow> wait_res) \<Rightarrow> harness \<times> kst \<Rightarrow> bool \<times> harness \<times> kst" where
  "bak_round w = (\<lambda>(h, s).
     (let h = bak_polls w h;
          h = h\<lparr>num_reqs := snd (get_requests_seen False (num_reqs h) s)\<rparr>;
          again = (\<not> started h \<and> sint (num_reqs h) > 500);
          h = (if again then h\<lparr>started := True\<rparr> else h);
          s = (if again then snd (start_req_track s) else s)
      in (started h \<and> sint (num_reqs h) > 19500, h, s)))"

partial_function (option) bak_loop ::
  "(nat \<Rightarrow> nat \<Rightarrow> wait_res) \<Rightarrow> (nat \<Rightarrow> kst \<Rightarrow> kst) \<Rightarrow> nat \<Rightarrow> harness \<Rightarrow> kst \<Rightarrow> (harness \<times> kst) option" where
  "bak_loop w others n h s =
     (case bak_round (w n) (h, s) of
        (stop, h, s) \<Rightarrow> if stop then Some (h, s) else bak_loop w others (n + 1) h (others n s))"

definition bak_main ::
  "(nat \<Rightarrow> nat \<Rightarrow> wait_res) \<Rightarrow> (nat \<Rightarrow> kst \<Rightarrow> kst) \<Rightarrow> u32 \<Rightarrow> u64 \<Rightarrow> kst \<Rightarrow> (harness \<times> kst) option" where
  "bak_main w others st reqs s = do {
     let (h, s) = bak_start st reqs s;
     (h, s) \<leftarrow> bak_loop w others 0 h s;
     let (_, _, s) = end_req_track 19500 (\<lambda>_. stuff_zero) s;
     Some (h, s)
   }"

text \<open>The table of the tracker is never more than full, and neither is the count read from it.\<close>

definition bak_inv :: "harness \<times> kst \<Rightarrow> bool" where
  "bak_inv = (\<lambda>(h, s). unat (requests_seen s) \<le> REQS_RECORDED \<and> drop_bit 32 (num_reqs h) = 0)"

lemma bak_polls_reqs [simp]: "num_reqs (bak_polls w h) = num_reqs h"
proof -
  have "num_reqs (fold (\<lambda>i. bak_poll (w i)) xs h) = num_reqs h" for xs
    by (induction xs arbitrary: h) (simp_all add: bak_poll_def Let_def split: wait_res.splits)
  then show ?thesis by (simp add: bak_polls_def)
qed

lemma seen_cell:
  assumes "drop_bit 32 c = 0"
  shows "snd (get_requests_seen False c s) = ucast (requests_seen s)"
proof -
  have "\<not> bit c k" if "32 \<le> k" for k
    using arg_cong [OF assms, of "\<lambda>w. bit w (k - 32)"] that by (simp add: bit_drop_bit_eq)
  then have "c AND NOT (mask 32) = 0" by (auto simp: bit_simps intro!: bit_word_eqI)
  then show ?thesis by (simp add: get_requests_seen_def)
qed

lemma bak_round_inv:
  assumes inv: "bak_inv (h, s)" and r: "bak_round w (h, s) = (stop, h', s')"
  shows "\<not> stop \<and> bak_inv (h', s')"
proof -
  have seen: "unat (requests_seen s) \<le> 19500" and c: "drop_bit 32 (num_reqs h) = 0"
    using inv by (simp_all add: bak_inv_def REQS_RECORDED_def)
  have reqs: "num_reqs h' = ucast (requests_seen s)"
    using r seen_cell [OF c] by (auto simp: bak_round_def Let_def split: if_splits)
  have "drop_bit 32 (ucast (requests_seen s) :: u64) = 0"
    by (rule bit_word_eqI) (simp add: bit_drop_bit_eq bit_unsigned_iff impossible_bit)
  moreover have "sint (ucast (requests_seen s) :: u64) \<le> 19500"
  proof -
    have "uint (requests_seen s) \<le> 19500" using seen by (simp add: nat_le_iff flip: nat_uint_eq)
    then have "signed_take_bit 63 (uint (requests_seen s)) = uint (requests_seen s)"
      by (intro signed_take_bit_int_eq_self) (auto intro: order.trans [of _ 0])
    with \<open>uint (requests_seen s) \<le> 19500\<close> show ?thesis by (simp add: signed_ucast_eq)
  qed
  moreover have "s' = s \<or> s' = snd (start_req_track s)"
    using r by (auto simp: bak_round_def Let_def split: if_splits)
  ultimately show ?thesis
    using r reqs seen seen_cell [OF c]
    by (auto simp: bak_inv_def bak_round_def Let_def REQS_RECORDED_def start_req_track_def split: if_splits)
qed


text \<open>The rounds of the loop, one after the other.\<close>

fun bak_rounds :: "(nat \<Rightarrow> nat \<Rightarrow> wait_res) \<Rightarrow> nat \<Rightarrow> harness \<Rightarrow> harness" where
  "bak_rounds w 0 h = h"
| "bak_rounds w (Suc n) h = bak_rounds w n (bak_polls (w n) h)"

text \<open>
  Once \<open>status\<close> tells that a child has exited, it goes on telling so, because \<open>waitpid\<close> does not
  set it when there is nothing to report: from then on every poll forks another process, sixteen in
  each round, until a child is killed by a signal.
\<close>

theorem bak_forks_every_poll:
  assumes "WIFEXITED (wait_status h)"
    and "\<And>k i st. w k i = Wait_status st \<Longrightarrow> WIFEXITED st"
  shows "forks (bak_rounds w n h) = forks h + 16 * n"
proof -
  have poll: "WIFEXITED (wait_status (bak_poll (w k i) h)) \<and> forks (bak_poll (w k i) h) = forks h + 1"
    if "WIFEXITED (wait_status h)" for k i h
    using that assms(2) [of k i] by (cases "w k i") (auto simp: bak_poll_def)
  have "WIFEXITED (wait_status h) \<Longrightarrow> WIFEXITED (wait_status (fold (\<lambda>i. bak_poll (w k i)) xs h)) \<and>
      forks (fold (\<lambda>i. bak_poll (w k i)) xs h) = forks h + length xs" for k xs h
    by (induction xs arbitrary: h) (simp_all add: poll)
  then have polls: "WIFEXITED (wait_status h) \<Longrightarrow> WIFEXITED (wait_status (bak_polls (w k) h)) \<and>
      forks (bak_polls (w k) h) = forks h + 16" for k h
    unfolding bak_polls_def by (metis length_upt diff_zero)
  show ?thesis using assms(1) by (induction n arbitrary: h) (simp_all add: polls)
qed

section \<open>Instances\<close>

text \<open>A tree with one file of 600 bytes in a directory \<open>d\<close>; all draws are in favour.\<close>

definition rr_env0 :: "int rr_env" where
  "rr_env0 = \<lparr>f_lstat = (\<lambda>p. if p = [''d''] then Some S_DIR else if p = [''d'', ''f''] then Some S_REG else None),
     f_opendir = (\<lambda>p. if p = [] then Some [''d''] else if p = [''d''] then Some [''f''] else None),
     f_chdir = (\<lambda>p. True), f_size = (\<lambda>p. Some 600), uniform = (\<lambda>_. 0), fmul = (\<lambda>a b. a),
     fdiv = (\<lambda>a b. a), fle = (\<le>), fileprob = 1, dirfactor = 1, stack_sbuf = S_OTHER\<rparr>"

definition rr_state0 :: "int rr_state" where
  "rr_state0 = \<lparr>dirprob = 1, cwd = [], random_calls = 0, files_read = []\<rparr>"



theorem bak_forks_every_poll_witness:
  "forks (bak_rounds (\<lambda>_ _. Wait_nothing) 5 (fst (bak_start 0 0 kst_zero))) = 96"
proof -
  have "WIFEXITED (wait_status (fst (bak_start 0 0 kst_zero)))"
    by (simp add: bak_start_def WIFEXITED_def)
  from bak_forks_every_poll [OF this, of "\<lambda>_ _. Wait_nothing" 5] show ?thesis
    by (simp add: bak_start_def)
qed

end
