(* ===== verification/Randread_Lab9.thy ===== *)
theory Randread_Lab9
  imports Randread
begin

text \<open>
  \<open>src/lab9/randread.c\<close>, the load generator in the version that prints what it does. Its functions
  \<open>unival\<close> and \<open>statfile\<close> and the loop of \<open>readfile\<close> are those of the later version, modelled in
  \<open>Randread\<close>; the others are modelled here with their output, which is kept as a list of lines
  before they are formatted.
\<close>

section \<open>State\<close>

datatype 'f rd_line =
    Processing string               \<comment> \<open>to the standard error output, as the next one\<close>
  | Parameters int 'f 'f
  | Directory string
  | Entry fmode string
  | Blocks string nat
  | Open_failed string
  | From_directory string

record 'f rd_state = "'f rr_state" +
  printed :: "'f rd_line list"

abbreviation rd_print :: "'f rd_line \<Rightarrow> 'f rd_state \<Rightarrow> 'f rd_state" where
  "rd_print l \<equiv> printed_update (\<lambda>ls. ls @ [l])"

section \<open>The functions\<close>

definition rd_readfile :: "'f rr_env \<Rightarrow> string \<Rightarrow> 'f rd_state \<Rightarrow> 'f rd_state" where
  "rd_readfile E fname s =
     (case f_size E (cwd s @ [fname]) of
        None \<Rightarrow> s
      | Some n \<Rightarrow>
          let blocks = read_blocks n 0;
              s = s\<lparr>files_read := files_read s @ [(cwd s, fname, blocks)]\<rparr>
          in rd_print (Blocks fname blocks) s)"

fun rd_procdir ::
  "'f rr_env \<Rightarrow> (string \<Rightarrow> 'f rd_state \<Rightarrow> 'f rd_state option) \<Rightarrow> string list \<Rightarrow> fmode \<Rightarrow> fpath \<Rightarrow>
     'f rd_state \<Rightarrow> 'f rd_state option" where
  "rd_procdir E rec [] sbuf cwdbuf s = Some s"
| "rd_procdir E rec (d_name # names) sbuf cwdbuf s = do {
     sbuf \<leftarrow> statfile E d_name sbuf cwdbuf;
     let s = rd_print (Entry sbuf d_name) s;
     s \<leftarrow> (if take 1 d_name \<noteq> ''.'' \<and> (sbuf = S_DIR \<or> sbuf = S_REG) then
            if sbuf = S_DIR then do {
              s \<leftarrow> rec d_name s;
              Some (if f_chdir E cwdbuf then s\<lparr>cwd := cwdbuf\<rparr> else s)
            } else
              (let (v, s) = unival E s
               in Some (if fle E v (fileprob E) then rd_readfile E d_name s else s))
          else Some s);
     rd_procdir E rec names sbuf cwdbuf s
   }"

text \<open>
  If a directory cannot be opened, the second message prints a buffer that nothing has written to:
  \<open>stack_cwdbuf\<close> is what it holds.
\<close>

primrec rd_nextdir :: "nat \<Rightarrow> 'f rr_env \<Rightarrow> string \<Rightarrow> string \<Rightarrow> 'f rd_state \<Rightarrow> 'f rd_state option" where
  "rd_nextdir 0 E stack_cwdbuf dirname s = None"
| "rd_nextdir (Suc fuel) E stack_cwdbuf dirname s =
     (let (v, s) = unival E s in
      if fle E (dirprob s) v then Some s
      else do {
        let s = s\<lparr>dirprob := fmul E (dirprob s) (dirfactor E)\<rparr>;
        let p = resolve (cwd s) dirname;
        s \<leftarrow> (case f_opendir E p of
               Some names \<Rightarrow> do {
                 let s = (if f_chdir E p then s\<lparr>cwd := p\<rparr> else s);
                 let cwdbuf = cwd s;
                 bug_on (\<not> length (path_string cwdbuf) < 512);
                 let s = rd_print (Directory (path_string cwdbuf)) s;
                 if cwdbuf \<noteq> [''proc'']
                 then rd_procdir E (rd_nextdir fuel E stack_cwdbuf) names (stack_sbuf E) cwdbuf s
                 else Some s
               }
             | None \<Rightarrow> Some (rd_print (From_directory stack_cwdbuf) (rd_print (Open_failed dirname) s)));
        Some (s\<lparr>dirprob := fdiv E (dirprob s) (dirfactor E)\<rparr>)
      })"

text \<open>Without a directory on the command line, the first message dereferences \<open>NULL\<close>.\<close>

definition rd_main ::
  "nat \<Rightarrow> 'f rr_env \<Rightarrow> string \<Rightarrow> 'f \<Rightarrow> (string \<Rightarrow> int option) \<Rightarrow> (string \<Rightarrow> 'f option) \<Rightarrow>
     (int \<Rightarrow> nat \<Rightarrow> 'f) \<Rightarrow> string list \<Rightarrow> fpath \<Rightarrow> 'f rd_state option" where
  "rd_main fuel E stack_cwdbuf one scan_int scan_float seeded argv start =
     (let get = (\<lambda>scan i d. if length argv > i
                   then (case scan (argv ! i) of None \<Rightarrow> d | Some x \<Rightarrow> x) else d);
          rseed = (if length argv > 2
                   then (case scan_int (argv ! 2) of None \<Rightarrow> 1 | Some x \<Rightarrow> x) else 1);
          E = E\<lparr>fileprob := get scan_float 3 one, dirfactor := get scan_float 4 one,
                uniform := seeded rseed\<rparr>;
          s = \<lparr>dirprob = one, cwd = start, random_calls = 0, files_read = [], printed = []\<rparr>
      in if length argv > 1
         then (let s = rd_print (Processing (argv ! 1)) s;
                   s = rd_print (Parameters rseed (fileprob E) (dirfactor E)) s
               in rd_nextdir fuel E stack_cwdbuf (argv ! 1) s)
         else None)"

section \<open>The two versions walk alike\<close>

definition rr_part :: "'f rd_state \<Rightarrow> 'f rr_state" where
  "rr_part s = \<lparr>dirprob = dirprob s, cwd = cwd s, random_calls = random_calls s, files_read = files_read s\<rparr>"

lemma rr_part_simps [simp]:
  "dirprob (rr_part s) = dirprob s" "cwd (rr_part s) = cwd s" "random_calls (rr_part s) = random_calls s"
  "files_read (rr_part s) = files_read s"
  "rr_part (dirprob_update f s) = dirprob_update f (rr_part s)"
  "rr_part (cwd_update g s) = cwd_update g (rr_part s)"
  "rr_part (random_calls_update h s) = random_calls_update h (rr_part s)"
  "rr_part (files_read_update k s) = files_read_update k (rr_part s)"
  "rr_part (printed_update l s) = rr_part s"
  by (simp_all add: rr_part_def)

text \<open>The lines about files, and that these report exactly what was read since.\<close>

definition block_lines :: "'f rd_line list \<Rightarrow> (string \<times> nat) list" where
  "block_lines ls = concat (map (\<lambda>l. case l of Blocks f n \<Rightarrow> [(f, n)] | _ \<Rightarrow> []) ls)"

definition reports :: "'f rd_state \<Rightarrow> 'f rd_state \<Rightarrow> bool" where
  "reports s t \<longleftrightarrow> (\<exists>fs ls. files_read t = files_read s @ fs \<and> printed t = printed s @ ls \<and>
     block_lines ls = map snd fs)"

lemma reports_refl [simp]: "reports s s"
  by (simp add: reports_def block_lines_def)

lemma reports_trans: "reports s t \<Longrightarrow> reports t u \<Longrightarrow> reports s u"
  by (force simp: reports_def block_lines_def)

lemma reports_fields [simp]:
  "reports s (dirprob_update f t) = reports s t" "reports s (cwd_update g t) = reports s t"
  "reports s (random_calls_update h t) = reports s t"
  "reports (dirprob_update f s) t = reports s t" "reports (cwd_update g s) t = reports s t"
  "reports (random_calls_update h s) t = reports s t"
  by (simp_all add: reports_def)

lemma reports_print:
  assumes "\<And>f n. l \<noteq> Blocks f n"
  shows "reports s (rd_print l s)"
  using assms by (cases l) (force simp: reports_def block_lines_def)+

text \<open>A function of this version runs as one of the later version.\<close>

definition runs_as :: "'f rd_state option \<Rightarrow> 'f rr_state option \<Rightarrow> 'f rd_state \<Rightarrow> bool" where
  "runs_as x y s \<longleftrightarrow> map_option rr_part x = y \<and> (\<forall>t. x = Some t \<longrightarrow> reports s t)"

lemma runs_as_Some: "reports s t \<Longrightarrow> runs_as (Some t) (Some (rr_part t)) s"
  by (simp add: runs_as_def)

lemma runs_as_bind:
  assumes "runs_as x y s" and "\<And>t. reports s t \<Longrightarrow> runs_as (f t) (g (rr_part t)) t"
  shows "runs_as (Option.bind x f) (Option.bind y g) s"
  using assms by (cases x) (auto simp: runs_as_def intro: reports_trans)

lemma readfile_as: "rr_part (rd_readfile E x s) = readfile E x (rr_part s) \<and> reports s (rd_readfile E x s)"
  by (simp add: rd_readfile_def readfile_def reports_def block_lines_def Let_def split: option.split)


lemma procdir_as:
  assumes rec: "\<And>x s. runs_as (rec x s) (rec' x (rr_part s)) s"
  shows "runs_as (rd_procdir E rec names sbuf p s) (procdir E rec' names sbuf p (rr_part s)) s"
proof (induction names arbitrary: sbuf s)
  case Nil
  show ?case by (simp add: runs_as_def)
next
  case (Cons x names)
  show ?case
  proof (cases "statfile E x sbuf p")
    case None
    then show ?thesis by (simp add: runs_as_def)
  next
    case (Some m)
    define u where "u = rd_print (Entry m x) s"
    have u: "reports s u" "rr_part u = rr_part s" by (simp_all add: u_def reports_print)
    define f where "f u = (if take 1 x \<noteq> ''.'' \<and> (m = S_DIR \<or> m = S_REG) then
            if m = S_DIR then Option.bind (rec x u) (\<lambda>s. Some (if f_chdir E p then s\<lparr>cwd := p\<rparr> else s))
            else (let (v, s) = unival E u in Some (if fle E v (fileprob E) then rd_readfile E x s else s))
          else Some u)" for u
    define g where "g u = (if take 1 x \<noteq> ''.'' \<and> (m = S_DIR \<or> m = S_REG) then
            if m = S_DIR then Option.bind (rec' x u) (\<lambda>s. Some (if f_chdir E p then s\<lparr>cwd := p\<rparr> else s))
            else (let (v, s) = unival E u in Some (if fle E v (fileprob E) then readfile E x s else s))
          else Some u)" for u
    have "runs_as (f u) (g (rr_part u)) u"
    proof -
      have "runs_as (Option.bind (rec x u) (\<lambda>s. Some (if f_chdir E p then s\<lparr>cwd := p\<rparr> else s)))
          (Option.bind (rec' x (rr_part u)) (\<lambda>s. Some (if f_chdir E p then s\<lparr>cwd := p\<rparr> else s))) u"
        by (rule runs_as_bind [OF rec]) (simp add: runs_as_def)
      then show ?thesis
        using readfile_as [of E x "snd (unival E u)"]
        by (auto simp: f_def g_def runs_as_def unival_def)
    qed
    then have "runs_as (Option.bind (f u) (rd_procdir E rec names m p))
        (Option.bind (g (rr_part u)) (procdir E rec' names m p)) u"
      by (rule runs_as_bind) (rule Cons.IH)
    with u have "runs_as (Option.bind (f u) (rd_procdir E rec names m p))
        (Option.bind (g (rr_part s)) (procdir E rec' names m p)) s"
      by (auto simp: runs_as_def intro: reports_trans)
    moreover have "rd_procdir E rec (x # names) sbuf p s = Option.bind (f u) (rd_procdir E rec names m p)"
      by (simp only: rd_procdir.simps Some f_def u_def Let_def Option.bind_lunit)
    moreover have "procdir E rec' (x # names) sbuf p (rr_part s) =
        Option.bind (g (rr_part s)) (procdir E rec' names m p)"
      by (simp only: procdir.simps Some g_def Let_def Option.bind_lunit)
    ultimately show ?thesis by simp
  qed
qed

lemma nextdir_as: "runs_as (rd_nextdir n E junk name s) (nextdir n E name (rr_part s)) s"
proof (induction n arbitrary: name s)
  case 0
  show ?case by (simp add: runs_as_def)
next
  case (Suc n)
  define v where "v = uniform E (random_calls s)"
  define u where "u = s\<lparr>random_calls := random_calls s + 1\<rparr>"
  define d where "d = u\<lparr>dirprob := fmul E (dirprob u) (dirfactor E)\<rparr>"
  define p where "p = resolve (cwd d) name"
  define e where "e = (if f_chdir E p then d\<lparr>cwd := p\<rparr> else d)"
  have rep: "reports s u" "reports s d" "reports s e" by (simp_all add: u_def d_def e_def)
  define f where "f = (case f_opendir E p of
      Some names \<Rightarrow> Option.bind (bug_on (\<not> length (path_string (cwd e)) < 512)) (\<lambda>_.
        if cwd e \<noteq> [''proc'']
        then rd_procdir E (rd_nextdir n E junk) names (stack_sbuf E) (cwd e)
          (rd_print (Directory (path_string (cwd e))) e)
        else Some (rd_print (Directory (path_string (cwd e))) e))
    | None \<Rightarrow> Some (rd_print (From_directory junk) (rd_print (Open_failed name) d)))"
  define g where "g = (case f_opendir E p of
      Some names \<Rightarrow> Option.bind (bug_on (\<not> length (path_string (cwd e)) < 512)) (\<lambda>_.
        if cwd e \<noteq> [''proc'']
        then procdir E (nextdir n E) names (stack_sbuf E) (cwd e) (rr_part e)
        else Some (rr_part e))
    | None \<Rightarrow> Some (rr_part d))"
  have fg: "runs_as f g s"
  proof (cases "f_opendir E p")
    case None
    have "reports d (rd_print (From_directory junk) (rd_print (Open_failed name) d))"
      by (simp add: reports_def block_lines_def)
    with None rep(2) reports_trans show ?thesis by (force simp: f_def g_def runs_as_def)
  next
    case (Some names)
    let ?e = "rd_print (Directory (path_string (cwd e))) e"
    have e: "reports s ?e" "rr_part ?e = rr_part e"
      using reports_trans [OF rep(3) reports_print] by simp_all
    have "runs_as (rd_procdir E (rd_nextdir n E junk) names (stack_sbuf E) (cwd e) ?e)
        (procdir E (nextdir n E) names (stack_sbuf E) (cwd e) (rr_part ?e)) ?e"
      by (rule procdir_as) (rule Suc.IH)
    with Some e reports_trans [OF e(1)] show ?thesis
      by (auto simp: f_def g_def runs_as_def bug_on_def)
  qed
  have fin: "runs_as (Option.bind f (\<lambda>t. Some (t\<lparr>dirprob := fdiv E (dirprob t) (dirfactor E)\<rparr>)))
      (Option.bind g (\<lambda>t. Some (t\<lparr>dirprob := fdiv E (dirprob t) (dirfactor E)\<rparr>))) s"
    by (rule runs_as_bind [OF fg]) (simp add: runs_as_def)
  have parts: "rr_part u = (rr_part s)\<lparr>random_calls := random_calls s + 1\<rparr>"
    "rr_part d = (rr_part u)\<lparr>dirprob := fmul E (dirprob s) (dirfactor E)\<rparr>"
    "rr_part e = (if f_chdir E p then (rr_part d)\<lparr>cwd := p\<rparr> else rr_part d)"
    "cwd d = cwd s" "dirprob u = dirprob s" "dirprob d = fmul E (dirprob s) (dirfactor E)"
    by (simp_all add: u_def d_def e_def)
  have nd: "nextdir (Suc n) E name (rr_part s) = (if fle E (dirprob s) v then Some (rr_part u)
      else Option.bind g (\<lambda>t. Some (t\<lparr>dirprob := fdiv E (dirprob t) (dirfactor E)\<rparr>)))"
    by (cases "f_chdir E p"; cases "f_opendir E p")
      (auto simp: unival_def v_def Let_def g_def p_def u_def d_def e_def)
  have rd: "rd_nextdir (Suc n) E junk name s = (if fle E (dirprob s) v then Some u
      else Option.bind f (\<lambda>t. Some (t\<lparr>dirprob := fdiv E (dirprob t) (dirfactor E)\<rparr>)))"
    by (cases "f_chdir E p"; cases "f_opendir E p")
      (auto simp: unival_def v_def Let_def f_def p_def u_def d_def e_def)
  show ?case
    using fin runs_as_Some [OF rep(1)] by (cases "fle E (dirprob s) v") (simp_all only: nd rd if_True if_False)
qed


text \<open>
  C26: the version of the load generator that prints what it does walks as the other one does. With a
  directory on the command line it returns exactly if the other returns; it then has read the same
  files, in the same directory and with the same draws, and its lines about files are the names
  and the numbers of blocks of the files that were read, in their order.
\<close>

theorem lab9_equivalent:
  assumes "length argv > 1"
  shows "map_option rr_part (rd_main fuel E junk one scan_int scan_float seeded argv start) =
      rr_main fuel E one scan_int scan_float seeded argv start \<and>
    (\<forall>t. rd_main fuel E junk one scan_int scan_float seeded argv start = Some t \<longrightarrow>
      block_lines (printed t) = map snd (files_read t))"
proof -
  define F where "F = E\<lparr>
    fileprob := (if length argv > 3 then (case scan_float (argv ! 3) of None \<Rightarrow> one | Some x \<Rightarrow> x) else one),
    dirfactor := (if length argv > 4 then (case scan_float (argv ! 4) of None \<Rightarrow> one | Some x \<Rightarrow> x) else one),
    uniform := seeded (if length argv > 2 then (case scan_int (argv ! 2) of None \<Rightarrow> 1 | Some x \<Rightarrow> x) else 1)\<rparr>"
  define l where "l = [Processing (argv ! 1), Parameters
    (if length argv > 2 then (case scan_int (argv ! 2) of None \<Rightarrow> 1 | Some x \<Rightarrow> x) else 1) (fileprob F) (dirfactor F)]"
  define s where "s = \<lparr>dirprob = one, cwd = start, random_calls = 0, files_read = [], printed = l\<rparr>"
  have rd: "rd_main fuel E junk one scan_int scan_float seeded argv start = rd_nextdir fuel F junk (argv ! 1) s"
    using assms by (simp add: rd_main_def Let_def F_def s_def l_def)
  have rr: "rr_main fuel E one scan_int scan_float seeded argv start = nextdir fuel F (argv ! 1) (rr_part s)"
    using assms by (simp add: rr_main_def Let_def F_def s_def rr_part_def)
  have "block_lines l = []" by (simp add: l_def block_lines_def)
  with nextdir_as [of fuel F junk "argv ! 1" s] show ?thesis
    by (auto simp: rd rr runs_as_def reports_def s_def block_lines_def)
qed

text \<open>The walk over a root with one directory, with one file of 600 bytes.\<close>

lemma lab9_equivalent_witness:
  "\<exists>t. rd_main 3 rr_env0 [] 1 (\<lambda>_. None) (\<lambda>_. None) (\<lambda>_ _. 0) [''randread'', ''/''] [] = Some t \<and>
     block_lines (printed t) = [(''f'', 3)]"
proof -
  have tree: "rr_tree 3 rr_env0 (resolve (cwd rr_state0) ''/'')"
    by (simp add: rr_env0_def resolve_def path_string_def eval_nat_numeral)
  have files: "rr_files 3 rr_env0 [] = [([''d''], ''f'', 3)]"
    by (simp add: rr_env0_def numeral_3_eq_3 read_blocks.simps)
  have ok: "rr_float_ok rr_env0" "rr_all rr_env0 (dirprob rr_state0)"
    by (simp_all add: rr_float_ok_def rr_all_def rr_env0_def rr_state0_def)
  have walk: "\<exists>t. nextdir 3 rr_env0 ''/'' rr_state0 = Some t \<and> files_read t = [([''d''], ''f'', 3)]"
    using nextdir_adds [OF tree ok(1)] ok(2) files by (auto simp: rr_adds_def resolve_def rr_state0_def)
  have "rr_env0\<lparr>fileprob := 1, dirfactor := 1, uniform := (\<lambda>_. 0)\<rparr> = rr_env0" by (simp add: rr_env0_def)
  then have "rr_main 3 rr_env0 1 (\<lambda>_. None) (\<lambda>_. None) (\<lambda>_ _. 0) [''randread'', ''/''] [] =
      nextdir 3 rr_env0 ''/'' rr_state0"
    by (simp add: rr_main_def Let_def rr_state0_def)
  with walk lab9_equivalent [of "[''randread'', ''/'']" 3 rr_env0 "[]" 1 "\<lambda>_. None" "\<lambda>_. None" "\<lambda>_ _. 0" "[]"]
  show ?thesis by (auto simp: map_option_eq_Some)
qed

end
